(* ===== verification/Prelude.thy ===== *)
theory Prelude
  imports Main "HOL-Library.Char_ord" "HOL-Library.List_Lexorder" "HOL-Library.Product_Lexorder"
    "HOL-Library.Sublist" "HOL-Library.Signed_Division"
begin

text \<open>
  The vocabulary shared by every component: Go strings as byte strings (\<open>string\<close> is a list of
  \<open>char\<close>, and a \<open>char\<close> is one byte), the operations of the packages \<open>strings\<close> and
  \<open>strconv\<close> that the sources call, Go's 64-bit wrap-around on \<open>int\<close>, positional
  numerals, and the named collections of facts the component proofs add to \<open>simp\<close>.
\<close>

named_theorems go_simps \<open>evaluation rules of the modelled standard library\<close>
named_theorems json_simps \<open>laws of the JSON accessors\<close>
named_theorems ledger_simps \<open>projections of result and state records\<close>

unbundle bit_operations_syntax

section \<open>Bytes and integers\<close>

text \<open>The numeric value of a byte.\<close>

definition byte :: "char \<Rightarrow> nat" where
  "byte c = of_char c"

lemma byte_less [simp]: "byte c < 256"
  by (simp add: byte_def)

lemma byte_inject [simp]: "byte c = byte d \<longleftrightarrow> c = d"
  by (simp add: byte_def)

lemma byte_char_of [simp]: "n < 256 \<Longrightarrow> byte (char_of n) = n"
  by (simp add: byte_def)

lemma char_of_byte [simp]: "char_of (byte c) = c"
  by (simp add: byte_def)

text \<open>Go's \<open>int\<close> and \<open>int64\<close> wrap around at 64 bits (two's complement).\<close>

definition wrap64 :: "int \<Rightarrow> int" where
  "wrap64 z = (z + 2 ^ 63) mod 2 ^ 64 - 2 ^ 63"

definition is_i64 :: "int \<Rightarrow> bool" where
  "is_i64 z \<longleftrightarrow> - (2 ^ 63) \<le> z \<and> z < 2 ^ 63"

lemma wrap64_id [simp]: "is_i64 z \<Longrightarrow> wrap64 z = z"
  by (simp add: wrap64_def is_i64_def)

lemma is_i64_wrap64 [simp]: "is_i64 (wrap64 z)"
proof -
  have "0 \<le> (z + 2 ^ 63) mod (2 ^ 64)" "(z + 2 ^ 63) mod (2 ^ 64) < (2 ^ 64 :: int)"
    by simp_all
  then show ?thesis by (simp add: wrap64_def is_i64_def)
qed

section \<open>Positional numerals\<close>

text \<open>The digits of \<open>n\<close> in base \<open>b\<close>, most significant first (no leading zero but for 0).\<close>

fun to_base :: "nat \<Rightarrow> nat \<Rightarrow> nat list" where
  "to_base b n = (if b < 2 \<or> n < b then [n] else to_base b (n div b) @ [n mod b])"

declare to_base.simps [simp del]

definition of_base :: "nat \<Rightarrow> nat list \<Rightarrow> nat" where
  "of_base b ds = foldl (\<lambda>a d. a * b + d) 0 ds"

lemma of_base_Nil [simp]: "of_base b [] = 0"
  by (simp add: of_base_def)

lemma of_base_snoc [simp]: "of_base b (ds @ [d]) = of_base b ds * b + d"
  by (simp add: of_base_def)

lemma to_base_nonempty [simp]: "to_base b n \<noteq> []"
  by (subst to_base.simps) simp

lemma of_base_to_base [simp]: "2 \<le> b \<Longrightarrow> of_base b (to_base b n) = n"
proof (induction b n rule: to_base.induct)
  case (1 b n)
  show ?case
  proof (cases "n < b")
    case True
    have "of_base b [n] = n" by (simp add: of_base_def)
    with True show ?thesis by (subst to_base.simps) simp
  next
    case False
    with 1 show ?thesis by (subst to_base.simps) simp
  qed
qed

lemma to_base_digits: "2 \<le> b \<Longrightarrow> d \<in> set (to_base b n) \<Longrightarrow> d < b"
proof (induction b n rule: to_base.induct)
  case (1 b n)
  show ?case
  proof (cases "n < b")
    case True
    with 1(3) show ?thesis by (subst (asm) to_base.simps) simp
  next
    case False
    with 1(3) consider "d \<in> set (to_base b (n div b))" | "d = n mod b"
      using 1(2) by (subst (asm) to_base.simps) auto
    then show ?thesis
    proof cases
      case 1
      with \<open>\<not> n < b\<close> \<open>2 \<le> b\<close> show ?thesis using "1.IH" by simp
    next
      case 2
      with \<open>2 \<le> b\<close> show ?thesis by simp
    qed
  qed
qed

lemma to_base_hd: "2 \<le> b \<Longrightarrow> 0 < n \<Longrightarrow> hd (to_base b n) \<noteq> 0"
proof (induction b n rule: to_base.induct)
  case (1 b n)
  show ?case
  proof (cases "n < b")
    case True
    with 1(3) show ?thesis by (subst to_base.simps) simp
  next
    case False
    with 1(2) have "0 < n div b" by (simp add: div_greater_zero_iff)
    with False 1 show ?thesis by (subst to_base.simps) simp
  qed
qed

lemma length_to_base: "2 \<le> b \<Longrightarrow> n < b ^ Suc k \<Longrightarrow> length (to_base b n) \<le> Suc k"
proof (induction k arbitrary: n)
  case 0
  then show ?case by (subst to_base.simps) simp
next
  case (Suc k)
  show ?case
  proof (cases "n < b")
    case True
    then show ?thesis by (subst to_base.simps) simp
  next
    case False
    have "n div b < b ^ Suc k"
      using Suc.prems by (simp add: less_mult_imp_div_less mult.commute)
    then have "length (to_base b (n div b)) \<le> Suc k"
      using Suc.IH Suc.prems(1) by blast
    with False Suc.prems(1) show ?thesis by (subst to_base.simps) simp
  qed
qed

text \<open>The character of a digit (lowercase letters above nine) and its inverse.\<close>

definition digit_char :: "nat \<Rightarrow> char" where
  "digit_char d = char_of (if d < 10 then 48 + d else 87 + d)"

definition digit_val :: "char \<Rightarrow> nat option" where
  "digit_val c =
     (let n = byte c in
      if 48 \<le> n \<and> n \<le> 57 then Some (n - 48)
      else if 97 \<le> n \<and> n \<le> 122 then Some (n - 87)
      else if 65 \<le> n \<and> n \<le> 90 then Some (n - 55)
      else None)"

lemma digit_val_char [simp]: "d < 36 \<Longrightarrow> digit_val (digit_char d) = Some d"
  by (auto simp: digit_val_def digit_char_def Let_def)

lemma byte_digit_char: "d < 36 \<Longrightarrow> byte (digit_char d) = (if d < 10 then 48 + d else 87 + d)"
  by (simp add: digit_char_def)

lemma digit_char_0 [simp]: "digit_char 0 = CHR ''0''"
  by (subst byte_inject [symmetric]) (simp add: byte_digit_char, simp add: byte_def)

text \<open>\<open>strconv.FormatUint (n, 10)\<close>, \<open>strconv.FormatInt (i, 10)\<close>, \<open>strconv.FormatUint (n, 16)\<close>.\<close>

definition nat_str :: "nat \<Rightarrow> string" where
  "nat_str n = map digit_char (to_base 10 n)"

definition int_str :: "int \<Rightarrow> string" where
  "int_str i = (if i < 0 then CHR ''-'' # nat_str (nat (- i)) else nat_str (nat i))"

definition hex_str :: "nat \<Rightarrow> string" where
  "hex_str n = map digit_char (to_base 16 n)"

lemma nat_str_nonempty [simp]: "nat_str n \<noteq> []" "[] \<noteq> nat_str n"
  by (simp_all add: nat_str_def)

lemma int_str_nonempty [simp]: "int_str i \<noteq> []"
  by (simp add: int_str_def)

lemma nat_str_digits: "c \<in> set (nat_str n) \<Longrightarrow> 48 \<le> byte c \<and> byte c \<le> 57"
proof -
  assume "c \<in> set (nat_str n)"
  then obtain d where "d \<in> set (to_base 10 n)" "c = digit_char d"
    by (auto simp: nat_str_def)
  moreover from this(1) have "d < 10" by (rule to_base_digits [rotated]) simp
  ultimately show ?thesis by (simp add: byte_digit_char)
qed

lemma append_mark_eq:
  assumes "x \<notin> set us" "x \<notin> set us'" "us @ x # vs = us' @ x # vs'"
  shows "us = us' \<and> vs = vs'"
proof -
  have "takeWhile (\<lambda>y. y \<noteq> x) (us @ x # vs) = us" "takeWhile (\<lambda>y. y \<noteq> x) (us' @ x # vs') = us'"
    using assms(1,2) by (auto intro!: takeWhile_append2 [of _ "\<lambda>y. y \<noteq> x", THEN trans])
  with assms(3) show ?thesis by auto
qed

section \<open>Go strings\<close>

text \<open>\<open>strings.HasPrefix\<close>.\<close>

definition has_prefix :: "string \<Rightarrow> string \<Rightarrow> bool" where
  "has_prefix s p \<longleftrightarrow> prefix p s"

lemma has_prefix_append [simp]: "has_prefix (p @ s) p"
  by (simp add: has_prefix_def)

lemma has_prefix_iff: "has_prefix s p \<longleftrightarrow> (\<exists>t. s = p @ t)"
  by (auto simp: has_prefix_def prefix_def)

text \<open>\<open>strings.Index\<close>, with \<open>None\<close> for -1.\<close>

fun str_index :: "string \<Rightarrow> string \<Rightarrow> nat option" where
  "str_index [] p = (if p = [] then Some 0 else None)"
| "str_index (c # s) p = (if has_prefix (c # s) p then Some 0 else map_option Suc (str_index s p))"

definition str_contains :: "string \<Rightarrow> string \<Rightarrow> bool" where
  "str_contains s p \<longleftrightarrow> str_index s p \<noteq> None"

lemma str_index_Some: "str_index s p = Some i \<Longrightarrow> \<exists>t. s = take i s @ p @ t \<and> i + length p \<le> length s"
proof (induction s p arbitrary: i rule: str_index.induct)
  case (1 p)
  then show ?case by (simp split: if_splits)
next
  case (2 c s p)
  show ?case
  proof (cases "has_prefix (c # s) p")
    case True
    then have "i = 0" using 2 by simp
    moreover from True obtain t where "c # s = p @ t" by (auto simp: has_prefix_iff)
    moreover from this have "length (c # s) = length p + length t" by (metis length_append)
    ultimately show ?thesis by (intro exI [of _ t]) simp
  next
    case False
    with 2 obtain j where j: "str_index s p = Some j" "i = Suc j" by auto
    with 2(1) [OF False j(1)] show ?thesis by auto
  qed
qed

lemma str_contains_iff: "str_contains s p \<longleftrightarrow> sublist p s"
proof (induction s)
  case Nil
  then show ?case by (simp add: str_contains_def)
next
  case (Cons c s)
  then show ?case
    by (auto simp: str_contains_def has_prefix_def sublist_Cons_right)
qed

text \<open>\<open>strings.TrimLeft (s, cutset)\<close>, \<open>strings.Split (s, "c")\<close> and \<open>strings.Join (xs, "c")\<close>.\<close>

definition trim_left :: "string \<Rightarrow> string \<Rightarrow> string" where
  "trim_left cutset s = dropWhile (\<lambda>c. c \<in> set cutset) s"

fun split_on :: "char \<Rightarrow> string \<Rightarrow> string list" where
  "split_on d [] = [[]]"
| "split_on d (c # s) =
     (if c = d then [] # split_on d s
      else (case split_on d s of [] \<Rightarrow> [[c]] | l # ls \<Rightarrow> (c # l) # ls))"

fun join_with :: "char \<Rightarrow> string list \<Rightarrow> string" where
  "join_with d [] = []"
| "join_with d [l] = l"
| "join_with d (l # ls) = l @ d # join_with d ls"

lemma split_on_nonempty [simp]: "split_on d s \<noteq> []"
  by (induction d s rule: split_on.induct) (auto split: list.splits)

lemma join_split [simp]: "join_with d (split_on d s) = s"
proof (induction d s rule: split_on.induct)
  case (1 d)
  then show ?case by simp
next
  case (2 d c s)
  moreover obtain l ls where "split_on d s = l # ls"
    by (cases "split_on d s") simp_all
  ultimately show ?case by (cases ls) auto
qed

text \<open>ASCII lowering of one byte and of a string (\<open>aLower\<close> and \<open>asciiLower\<close> of \<open>closet.go\<close>).\<close>

definition aLower :: "char \<Rightarrow> char" where
  "aLower c = (if CHR ''A'' \<le> c \<and> c \<le> CHR ''Z'' then char_of (byte c + 32) else c)"

definition asciiLower :: "string \<Rightarrow> string" where
  "asciiLower s = map aLower s"

lemma char_le_byte: "c \<le> d \<longleftrightarrow> byte c \<le> byte d"
  by (simp add: less_eq_char_def byte_def)

lemma char_less_byte: "c < d \<longleftrightarrow> byte c < byte d"
  by (simp add: less_char_def byte_def)

lemma byte_aLower: "byte (aLower c) = (if 65 \<le> byte c \<and> byte c \<le> 90 then byte c + 32 else byte c)"
  by (simp add: aLower_def char_le_byte) (simp add: byte_def)

lemma aLower_idem [simp]: "aLower (aLower c) = aLower c"
  by (subst byte_inject [symmetric]) (simp add: byte_aLower)

lemma asciiLower_idem [simp]: "asciiLower (asciiLower s) = asciiLower s"
  by (simp add: asciiLower_def)

lemma length_asciiLower [simp]: "length (asciiLower s) = length s"
  by (simp add: asciiLower_def)

end
