(* ===== verification/Budget.thy ===== *)
theory Budget
  imports Prelude
begin

text \<open>
  \<open>server-go/modules/economizer/budget.go\<close>: the per-model context-fold budget. Go's \<open>int\<close> is a
  64-bit integer, so the product in \<open>pctOf\<close> is taken with \<open>wrap64\<close> and divided with truncation
  (\<open>sdiv\<close>); every other operation only selects values.
\<close>

definition BudgetDefaultWindow :: int where "BudgetDefaultWindow = 200000"
definition BudgetDefaultRetainedPct :: int where "BudgetDefaultRetainedPct = 25"
definition BudgetDefaultTailCapPct :: int where "BudgetDefaultTailCapPct = 15"
definition BudgetDefaultPressurePct :: int where "BudgetDefaultPressurePct = 85"
definition BudgetDefaultSaturationPct :: int where "BudgetDefaultSaturationPct = 50"
definition BudgetDefaultClosetTokens :: int where "BudgetDefaultClosetTokens = 512"

lemmas budget_defaults =
  BudgetDefaultWindow_def BudgetDefaultRetainedPct_def BudgetDefaultTailCapPct_def
  BudgetDefaultPressurePct_def BudgetDefaultSaturationPct_def BudgetDefaultClosetTokens_def

text \<open>Operator overrides; zero means "use the default".\<close>

record BudgetConfig =
  cfgContextWindowTokens :: int
  cfgRetainedBandPct :: int
  cfgTailCapPct :: int
  cfgPressureCeilingPct :: int
  cfgPrefixSaturationPct :: int
  cfgClosetBudgetTokens :: int

record Budget =
  IsKnown :: bool
  ContextWindowTokens :: int
  RetainedBandTokens :: int
  TailCapTokens :: int
  PressureCeilingTokens :: int
  PrefixSaturationTokens :: int
  ClosetBudgetTokens :: int

definition pctOf :: "int \<Rightarrow> int \<Rightarrow> int" where
  "pctOf window pct =
     (if window \<le> 0 \<or> pct \<le> 0 then 0
      else let v = wrap64 (window * pct) sdiv 100;
               v = (if v > window then window else v)
           in if v < 0 then 0 else v)"

text \<open>An override applies only when a config is given and its field is positive.\<close>

definition pick :: "int \<Rightarrow> BudgetConfig option \<Rightarrow> (BudgetConfig \<Rightarrow> int) \<Rightarrow> int" where
  "pick dflt cfg field =
     (case cfg of None \<Rightarrow> dflt | Some c \<Rightarrow> (if field c > 0 then field c else dflt))"

definition ResolveBudget :: "int \<Rightarrow> BudgetConfig option \<Rightarrow> Budget" where
  "ResolveBudget windowTokens cfg =
     (let known = windowTokens > 0;
          window = (if known then windowTokens
                    else pick BudgetDefaultWindow cfg cfgContextWindowTokens);
          rb = pick BudgetDefaultRetainedPct cfg cfgRetainedBandPct;
          tc = pick BudgetDefaultTailCapPct cfg cfgTailCapPct;
          pc = pick BudgetDefaultPressurePct cfg cfgPressureCeilingPct;
          ps = pick BudgetDefaultSaturationPct cfg cfgPrefixSaturationPct;
          closet = pick BudgetDefaultClosetTokens cfg cfgClosetBudgetTokens
      in \<lparr> IsKnown = known,
           ContextWindowTokens = window,
           RetainedBandTokens = pctOf window rb,
           TailCapTokens = pctOf window tc,
           PressureCeilingTokens = pctOf window pc,
           PrefixSaturationTokens = pctOf window ps,
           ClosetBudgetTokens = (if closet > window then window else closet) \<rparr>)"

section \<open>Lemmas\<close>

lemma pctOf_range: "0 \<le> pctOf window pct \<and> pctOf window pct \<le> max 0 window"
  by (auto simp: pctOf_def Let_def)

lemma sdiv_nonneg: "0 \<le> (a::int) \<Longrightarrow> 0 < b \<Longrightarrow> a sdiv b = a div b"
  by (simp add: signed_divide_int_def sgn_if)

lemma pctOf_exact:
  assumes "0 < window" "0 < pct" "window * pct < 2 ^ 63"
  shows "pctOf window pct = min window (window * pct div 100)"
proof -
  have pos: "0 < window * pct" using assms by simp
  moreover have "is_i64 (window * pct)"
    using assms(3) less_imp_le [OF pos] by (simp add: is_i64_def order_trans [of _ 0])
  ultimately show ?thesis
    using assms by (auto simp: pctOf_def Let_def sdiv_nonneg min_def div_int_pos_iff)
qed

lemma pick_pos: "0 < dflt \<Longrightarrow> 0 < pick dflt cfg field"
  by (simp add: pick_def split: option.splits)

lemma ResolveBudget_window_pos: "0 < ContextWindowTokens (ResolveBudget w cfg)"
  by (auto simp: ResolveBudget_def Let_def budget_defaults intro: pick_pos)

section \<open>Properties\<close>

text \<open>Every resolved budget lies between zero and the context window it was computed for, the
  window is positive, the closet budget is positive and never exceeds the window, and the window is
  flagged as known exactly when the caller supplied a positive one.
\<close>

theorem ResolveBudget_bounds:
  fixes w :: int and cfg :: "BudgetConfig option"
  defines "b \<equiv> ResolveBudget w cfg"
  shows "0 < ContextWindowTokens b
    \<and> RetainedBandTokens b \<in> {0..ContextWindowTokens b}
    \<and> TailCapTokens b \<in> {0..ContextWindowTokens b}
    \<and> PressureCeilingTokens b \<in> {0..ContextWindowTokens b}
    \<and> PrefixSaturationTokens b \<in> {0..ContextWindowTokens b}
    \<and> ClosetBudgetTokens b \<in> {1..ContextWindowTokens b}
    \<and> (IsKnown b \<longleftrightarrow> 0 < w)"
proof -
  let ?c = "ContextWindowTokens b"
  have w: "0 < ?c" by (simp add: b_def ResolveBudget_window_pos)
  have r: "pctOf ?c p \<in> {0..?c}" for p
    using pctOf_range [of ?c p] w by (simp add: max_def)
  have "0 < pick BudgetDefaultClosetTokens cfg cfgClosetBudgetTokens"
    by (rule pick_pos) (simp add: budget_defaults)
  then have "ClosetBudgetTokens b \<in> {1..?c}"
    using w by (auto simp: b_def ResolveBudget_def Let_def)
  with w r show ?thesis
    by (simp add: b_def ResolveBudget_def Let_def)
qed

end
