(* ===== verification/Registers.thy ===== *)
theory Registers
  imports Prelude
begin

text \<open>
  \<open>server-go/modules/economizer/register.go\<close>: the register grammar of an assistant turn. Glyphs are
  their UTF-8 byte sequences. \<open>strings.EqualFold\<close> is only called with a slice as long as the ASCII
  tag; a multi-byte rune in the slice leaves it with fewer runes than the tag, so the comparison is
  the ASCII case-insensitive one.
\<close>

datatype Register = RegInProgress | RegExecuting | RegVerdict | RegHazard | RegBlocked

fun Label :: "Register \<Rightarrow> string" where
  "Label RegExecuting = ''exec''"
| "Label RegVerdict = ''verdict''"
| "Label RegHazard = ''hazard''"
| "Label RegBlocked = ''blocked''"
| "Label RegInProgress = ''wip''"

definition IsSettled :: "Register \<Rightarrow> bool" where
  "IsSettled r \<longleftrightarrow> r = RegVerdict \<or> r = RegHazard"

definition EqualFold :: "string \<Rightarrow> string \<Rightarrow> bool" where
  "EqualFold s t \<longleftrightarrow> asciiLower s = asciiLower t"

definition bracketTag :: "string \<Rightarrow> string \<Rightarrow> bool" where
  "bracketTag s tag \<longleftrightarrow>
     (if length s < length tag + 1 then False
      else if \<not> EqualFold (take (length tag) s) tag then False
      else s ! length tag = CHR '']'')"

definition glyph_flag :: string where
  "glyph_flag = [CHR 0xF0, CHR 0x9F, CHR 0x8F, CHR 0x81]"
definition glyph_magnifier :: string where
  "glyph_magnifier = [CHR 0xF0, CHR 0x9F, CHR 0x94, CHR 0x8D]"
definition glyph_play :: string where
  "glyph_play = [CHR 0xE2, CHR 0x96, CHR 0xB6]"
definition glyph_warning :: string where
  "glyph_warning = [CHR 0xE2, CHR 0x9A, CHR 0xA0]"
definition glyph_question :: string where
  "glyph_question = [CHR 0xE2, CHR 0x9D, CHR 0x93]"

lemmas glyph_defs =
  glyph_flag_def glyph_magnifier_def glyph_play_def glyph_warning_def glyph_question_def

definition register_blanks :: string where
  "register_blanks = [CHR '' '', CHR 0x09, CHR 0x0A, CHR 0x0D]"

definition ParseRegister :: "string \<Rightarrow> Register" where
  "ParseRegister txt =
     (let s = trim_left register_blanks txt in
      if has_prefix s glyph_flag then RegVerdict
      else if has_prefix s glyph_magnifier then RegInProgress
      else if has_prefix s glyph_play then RegExecuting
      else if has_prefix s glyph_warning then RegHazard
      else if has_prefix s glyph_question then RegBlocked
      else if has_prefix s ''['' then
        (let t = drop 1 s in
         if bracketTag t ''verdict'' \<or> bracketTag t ''done'' then RegVerdict
         else if bracketTag t ''hazard'' \<or> bracketTag t ''warning'' then RegHazard
         else if bracketTag t ''executing'' \<or> bracketTag t ''exec'' then RegExecuting
         else if bracketTag t ''blocked'' then RegBlocked
         else if bracketTag t ''in-progress'' \<or> bracketTag t ''wip'' then RegInProgress
         else RegInProgress)
      else RegInProgress)"

section \<open>Lemmas\<close>

lemma bracketTag_iff:
  "bracketTag s tag \<longleftrightarrow>
     (\<exists>u v. s = u @ CHR '']'' # v \<and> length u = length tag \<and> asciiLower u = asciiLower tag)"
proof
  assume b: "bracketTag s tag"
  let ?n = "length tag"
  from b have n: "?n < length s" "s ! ?n = CHR '']''" "asciiLower (take ?n s) = asciiLower tag"
    by (auto simp: bracketTag_def EqualFold_def split: if_splits)
  from n(1) have "s = take ?n s @ s ! ?n # drop (Suc ?n) s"
    by (simp add: id_take_nth_drop)
  with n show "\<exists>u v. s = u @ CHR '']'' # v \<and> length u = ?n \<and> asciiLower u = asciiLower tag"
    by (intro exI [of _ "take ?n s"] exI [of _ "drop (Suc ?n) s"]) simp
next
  assume "\<exists>u v. s = u @ CHR '']'' # v \<and> length u = length tag \<and> asciiLower u = asciiLower tag"
  then obtain u v where "s = u @ CHR '']'' # v" "length u = length tag"
    "asciiLower u = asciiLower tag" by blast
  then show "bracketTag s tag"
    by (simp add: bracketTag_def EqualFold_def nth_append)
qed

lemma aLower_eq_fixed:
  assumes "byte d < 65 \<or> 122 < byte d \<or> (90 < byte d \<and> byte d < 97)"
  shows "aLower c = d \<longleftrightarrow> c = d"
  using assms
  by (subst (1 2) byte_inject [symmetric]) (auto simp: byte_aLower simp del: byte_inject)

lemma aLower_blank: "aLower c \<in> set register_blanks \<longleftrightarrow> c \<in> set register_blanks"
proof -
  have "aLower c = d \<longleftrightarrow> c = d" if "d \<in> set register_blanks" for d
    using that by (intro aLower_eq_fixed) (auto simp: register_blanks_def byte_def)
  then show ?thesis by (auto simp: register_blanks_def)
qed

lemma trim_left_lower: "trim_left register_blanks (asciiLower s) = asciiLower (trim_left register_blanks s)"
  by (simp add: trim_left_def asciiLower_def dropWhile_map comp_def aLower_blank)

lemma has_prefix_lower:
  assumes "\<forall>d \<in> set p. byte d < 65 \<or> 122 < byte d \<or> (90 < byte d \<and> byte d < 97)"
  shows "has_prefix (asciiLower s) p \<longleftrightarrow> has_prefix s p"
  using assms
proof (induction p arbitrary: s)
  case Nil
  then show ?case by (simp add: has_prefix_def)
next
  case (Cons d p)
  show ?case
  proof (cases s)
    case Nil
    then show ?thesis by (simp add: asciiLower_def has_prefix_def)
  next
    case (Cons c s')
    have "aLower c = d \<longleftrightarrow> c = d" using Cons.prems by (intro aLower_eq_fixed) simp
    moreover have "has_prefix (asciiLower s') p \<longleftrightarrow> has_prefix s' p"
      using Cons.IH Cons.prems by simp
    ultimately show ?thesis
      using Cons by (auto simp: asciiLower_def has_prefix_def)
  qed
qed

lemma bracketTag_lower: "bracketTag (asciiLower s) tag \<longleftrightarrow> bracketTag s tag"
proof -
  have "aLower c = CHR '']'' \<longleftrightarrow> c = CHR '']''" for c
    by (rule aLower_eq_fixed) (simp add: byte_def)
  moreover have "asciiLower (take n (asciiLower s)) = asciiLower (take n s)" for n
    by (simp add: asciiLower_def take_map)
  ultimately show ?thesis
    by (auto simp: bracketTag_def EqualFold_def asciiLower_def)
qed

lemma trim_left_append_blank:
  "set ws \<subseteq> set register_blanks \<Longrightarrow> trim_left register_blanks (ws @ s) = trim_left register_blanks s"
  unfolding trim_left_def by (rule dropWhile_append2) auto

lemma asciiLower_no_bracket:
  "CHR '']'' \<in> set (asciiLower s) \<longleftrightarrow> CHR '']'' \<in> set s"
proof -
  have "aLower c = CHR '']'' \<longleftrightarrow> c = CHR '']''" for c
    by (rule aLower_eq_fixed) (simp add: byte_def)
  then show ?thesis by (auto simp: asciiLower_def image_iff eq_commute [of "CHR '']''"])
qed

lemma bracketTag_closed:
  assumes "CHR '']'' \<notin> set tag'" "CHR '']'' \<notin> set tag"
  shows "bracketTag (tag' @ CHR '']'' # rest) tag \<longleftrightarrow> asciiLower tag' = asciiLower tag"
proof
  assume "bracketTag (tag' @ CHR '']'' # rest) tag"
  then obtain u v where uv: "tag' @ CHR '']'' # rest = u @ CHR '']'' # v"
    and lower: "asciiLower u = asciiLower tag"
    by (auto simp: bracketTag_iff)
  from lower assms(2) have "CHR '']'' \<notin> set u"
    by (metis asciiLower_no_bracket)
  with uv assms(1) have "tag' = u" by (blast dest: append_mark_eq)
  with lower show "asciiLower tag' = asciiLower tag" by simp
next
  assume lower: "asciiLower tag' = asciiLower tag"
  then have "length tag' = length tag" by (metis length_asciiLower)
  with lower show "bracketTag (tag' @ CHR '']'' # rest) tag"
    by (auto simp: bracketTag_iff)
qed

section \<open>Properties\<close>

text \<open>The register does not depend on the ASCII case of the text or on leading blanks, and the label
  a folded skeleton line shows for a register, written back as a bracket tag, parses to that register.
\<close>

theorem ParseRegister_stable:
  "ParseRegister (asciiLower txt) = ParseRegister txt
   \<and> ParseRegister (replicate n (CHR '' '') @ txt) = ParseRegister txt
   \<and> ParseRegister (''['' @ Label r @ '']'' @ rest) = r"
proof (intro conjI)
  have drop: "drop 1 (asciiLower s) = asciiLower (drop 1 s)" for s
    by (simp add: asciiLower_def drop_map)
  have pre: "has_prefix (asciiLower s) p \<longleftrightarrow> has_prefix s p"
    if "p \<in> {glyph_flag, glyph_magnifier, glyph_play, glyph_warning, glyph_question, ''[''}" for s p
    using that by (intro has_prefix_lower) (auto simp: glyph_defs byte_def)
  show "ParseRegister (asciiLower txt) = ParseRegister txt"
    unfolding ParseRegister_def trim_left_lower Let_def drop bracketTag_lower
    by (simp only: pre insert_iff simp_thms)
  have "set (replicate n (CHR '' '')) \<subseteq> set register_blanks"
    by (auto simp: register_blanks_def)
  then show "ParseRegister (replicate n (CHR '' '') @ txt) = ParseRegister txt"
    by (simp add: ParseRegister_def trim_left_append_blank)
  have "trim_left register_blanks (''['' @ s) = ''['' @ s" for s
    by (simp add: trim_left_def register_blanks_def)
  then have "ParseRegister (''['' @ Label r @ '']'' @ rest) =
    (let t = Label r @ CHR '']'' # rest in
         if bracketTag t ''verdict'' \<or> bracketTag t ''done'' then RegVerdict
         else if bracketTag t ''hazard'' \<or> bracketTag t ''warning'' then RegHazard
         else if bracketTag t ''executing'' \<or> bracketTag t ''exec'' then RegExecuting
         else if bracketTag t ''blocked'' then RegBlocked
         else RegInProgress)"
    by (simp add: ParseRegister_def has_prefix_def glyph_defs Let_def)
  also have "\<dots> = r"
    by (cases r)
      (simp_all only: Label.simps Let_def, simp_all add: bracketTag_closed
        asciiLower_def aLower_def byte_def del: append_Cons append.simps)
  finally show "ParseRegister (''['' @ Label r @ '']'' @ rest) = r" .
qed

end
