(* ===== verification/Float64.thy ===== *)
theory Float64
  imports Prelude Complex_Main
begin

text \<open>
  Go's \<open>float64\<close> and the parts of \<open>strconv\<close> and \<open>fmt\<close> the sources use on it: correctly
  rounded conversion of a decimal text (\<open>ParseFloat\<close>), the \<open>%.<prec>g\<close> spelling with
  round-half-even digits, truncation to integers and the IEEE operations of the cost guard. A finite
  value is the rational it denotes; only the negative zero needs a constructor of its own.
\<close>

datatype float64 = F64NaN | F64Inf bool | F64NegZero | F64 rat

text \<open>\<open>F64Inf True\<close> is the negative infinity. The value of a finite float:\<close>

fun fval :: "float64 \<Rightarrow> rat" where
  "fval (F64 q) = q"
| "fval _ = 0"

fun is_finite64 :: "float64 \<Rightarrow> bool" where
  "is_finite64 (F64 q) \<longleftrightarrow> True"
| "is_finite64 F64NegZero \<longleftrightarrow> True"
| "is_finite64 _ \<longleftrightarrow> False"

fun is_neg64 :: "float64 \<Rightarrow> bool" where
  "is_neg64 (F64 q) \<longleftrightarrow> q < 0"
| "is_neg64 F64NegZero \<longleftrightarrow> True"
| "is_neg64 (F64Inf s) \<longleftrightarrow> s"
| "is_neg64 F64NaN \<longleftrightarrow> False"

section \<open>Rounding\<close>

text \<open>Integer powers of a base, and the largest \<open>k\<close> with \<open>b^k \<le> q\<close> for a positive \<open>q\<close>.\<close>

definition scale :: "nat \<Rightarrow> int \<Rightarrow> rat" where
  "scale b k = (if 0 \<le> k then of_nat b ^ nat k else 1 / of_nat b ^ nat (- k))"

definition ilog :: "nat \<Rightarrow> rat \<Rightarrow> int" where
  "ilog b q =
     (let (n, d) = quotient_of q;
          k = int (length (to_base b (nat n))) - int (length (to_base b (nat d)))
      in if scale b k \<le> q then k else k - 1)"

definition round_half_even :: "rat \<Rightarrow> int" where
  "round_half_even q =
     (let f = \<lfloor>q\<rfloor>; r = q - of_int f
      in if r < 1 / 2 then f else if 1 / 2 < r then f + 1 else if even f then f else f + 1)"

text \<open>Round to the nearest binary64 value, ties to even, subnormals and overflow included.\<close>

definition round64 :: "rat \<Rightarrow> float64" where
  "round64 q =
     (if q = 0 then F64 0
      else let e = max (ilog 2 \<bar>q\<bar> - 52) (-1074);
               v = of_int (round_half_even (\<bar>q\<bar> / scale 2 e)) * scale 2 e
           in if v \<ge> 2 ^ 1024 then F64Inf (q < 0)
              else if v = 0 then (if q < 0 then F64NegZero else F64 0)
              else F64 (sgn q * v))"

text \<open>Conversion of a Go integer, and truncation of a float to \<open>int64\<close> and \<open>uint64\<close>. The results out
  of range are the ones of the amd64 instructions Go compiles to.\<close>

definition float_of_int :: "int \<Rightarrow> float64" where
  "float_of_int i = round64 (of_int i)"

definition trunc_rat :: "rat \<Rightarrow> int" where
  "trunc_rat q = (if q < 0 then \<lceil>q\<rceil> else \<lfloor>q\<rfloor>)"

definition int_of_float :: "float64 \<Rightarrow> int" where
  "int_of_float f =
     (let t = trunc_rat (fval f)
      in if is_finite64 f \<and> is_i64 t then t else - (2 ^ 63))"

definition uint_of_float :: "float64 \<Rightarrow> int" where
  "uint_of_float f =
     (if is_finite64 f \<and> fval f < 2 ^ 63 then int_of_float f mod 2 ^ 64
      else if is_finite64 f \<and> fval f < 2 ^ 64 then trunc_rat (fval f)
      else (if f = F64Inf True then 2 ^ 63 else if is_finite64 f then 0 else 2 ^ 63))"

section \<open>Arithmetic and comparison\<close>

fun fneg :: "float64 \<Rightarrow> float64" where
  "fneg F64NaN = F64NaN"
| "fneg (F64Inf s) = F64Inf (\<not> s)"
| "fneg F64NegZero = F64 0"
| "fneg (F64 q) = (if q = 0 then F64NegZero else F64 (- q))"

definition fadd :: "float64 \<Rightarrow> float64 \<Rightarrow> float64" where
  "fadd a b =
     (if a = F64NaN \<or> b = F64NaN then F64NaN
      else if \<not> is_finite64 a then (if b = fneg a then F64NaN else a)
      else if \<not> is_finite64 b then b
      else if a = F64NegZero \<and> b = F64NegZero then F64NegZero
      else round64 (fval a + fval b))"

definition fsub :: "float64 \<Rightarrow> float64 \<Rightarrow> float64" where
  "fsub a b = fadd a (fneg b)"

definition fmul :: "float64 \<Rightarrow> float64 \<Rightarrow> float64" where
  "fmul a b =
     (if a = F64NaN \<or> b = F64NaN then F64NaN
      else if \<not> is_finite64 a \<or> \<not> is_finite64 b then
        (if (is_finite64 a \<and> fval a = 0) \<or> (is_finite64 b \<and> fval b = 0) then F64NaN
         else F64Inf (is_neg64 a \<noteq> is_neg64 b))
      else if fval a * fval b = 0 then (if is_neg64 a \<noteq> is_neg64 b then F64NegZero else F64 0)
      else round64 (fval a * fval b))"

fun fle :: "float64 \<Rightarrow> float64 \<Rightarrow> bool" where
  "fle F64NaN b \<longleftrightarrow> False"
| "fle a F64NaN \<longleftrightarrow> False"
| "fle (F64Inf s) b \<longleftrightarrow> s \<or> b = F64Inf False"
| "fle a (F64Inf s) \<longleftrightarrow> \<not> s"
| "fle a b \<longleftrightarrow> fval a \<le> fval b"

definition feq :: "float64 \<Rightarrow> float64 \<Rightarrow> bool" where
  "feq a b \<longleftrightarrow> fle a b \<and> fle b a"

definition fabs :: "float64 \<Rightarrow> float64" where
  "fabs f = (if f \<noteq> F64NaN \<and> is_neg64 f then fneg f else f)"

section \<open>Reading a decimal text\<close>

definition is_digit :: "char \<Rightarrow> bool" where
  "is_digit c \<longleftrightarrow> 48 \<le> byte c \<and> byte c \<le> 57"

definition digits_val :: "string \<Rightarrow> nat" where
  "digits_val ds = of_base 10 (map (\<lambda>c. byte c - 48) ds)"

text \<open>\<open>strconv.ParseFloat (s, 64)\<close> on a decimal text (the only texts the module passes: a JSON number
  or the module's own \<open>%g\<close> output); \<open>None\<close> is a syntax or a range error.\<close>

definition ParseFloat :: "string \<Rightarrow> float64 option" where
  "ParseFloat s =
     (let neg = (s \<noteq> [] \<and> hd s = CHR ''-'');
          s1 = (if s \<noteq> [] \<and> (hd s = CHR ''-'' \<or> hd s = CHR ''+'') then tl s else s);
          ip = takeWhile is_digit s1; s2 = dropWhile is_digit s1;
          dot = (s2 \<noteq> [] \<and> hd s2 = CHR ''.'');
          fp = (if dot then takeWhile is_digit (tl s2) else []);
          s3 = (if dot then dropWhile is_digit (tl s2) else s2);
          ex = (s3 \<noteq> [] \<and> (hd s3 = CHR ''e'' \<or> hd s3 = CHR ''E''));
          s4 = (if ex then tl s3 else s3);
          eneg = (ex \<and> s4 \<noteq> [] \<and> hd s4 = CHR ''-'');
          s5 = (if ex \<and> s4 \<noteq> [] \<and> (hd s4 = CHR ''-'' \<or> hd s4 = CHR ''+'') then tl s4 else s4);
          ed = (if ex then takeWhile is_digit s5 else []);
          s6 = (if ex then dropWhile is_digit s5 else s5)
      in if ip @ fp = [] \<or> s6 \<noteq> [] \<or> (ex \<and> ed = []) then None
         else let e = (if eneg then - int (digits_val ed) else int (digits_val ed)) - int (length fp);
                  q = of_nat (digits_val (ip @ fp)) * scale 10 e
              in if q = 0 then Some (if neg then F64NegZero else F64 0)
                 else let f = round64 (if neg then - q else q)
                      in if is_finite64 f then Some f else None)"

section \<open>The \<open>%.<prec>g\<close> spelling\<close>

text \<open>The significant digits of a positive \<open>a\<close> rounded to \<open>prec\<close> places (trailing zeros trimmed) and
  the position of the decimal point.\<close>

definition trim_zeros :: "string \<Rightarrow> string" where
  "trim_zeros s = rev (dropWhile (\<lambda>c. c = CHR ''0'') (rev s))"

definition sig_digits :: "nat \<Rightarrow> rat \<Rightarrow> string \<times> int" where
  "sig_digits prec a =
     (let k = ilog 10 a;
          m = round_half_even (a / scale 10 (k - int prec + 1));
          (m, k) = (if m = 10 ^ prec then (10 ^ (prec - 1), k + 1) else (m, k))
      in (trim_zeros (nat_str (nat m)), k + 1))"

definition fmt_exponent :: "int \<Rightarrow> string" where
  "fmt_exponent e =
     (let d = nat_str (nat \<bar>e\<bar>)
      in (if e < 0 then CHR ''-'' else CHR ''+'') # (if length d < 2 then CHR ''0'' # d else d))"

definition fmtE :: "string \<Rightarrow> int \<Rightarrow> string" where
  "fmtE ds dp =
     hd ds # (if length ds > 1 then CHR ''.'' # tl ds else []) @ CHR ''e'' # fmt_exponent (dp - 1)"

definition fmtF :: "string \<Rightarrow> int \<Rightarrow> string" where
  "fmtF ds dp =
     (let nd = int (length ds); frac = nat (nd - dp)
      in (if 0 < dp then take (nat dp) ds @ replicate (nat (dp - nd)) (CHR ''0'') else ''0'')
         @ (if frac = 0 then []
            else CHR ''.'' # map (\<lambda>i. let j = dp + int i
                                      in if 0 \<le> j \<and> j < nd then ds ! nat j else CHR ''0'') [0..<frac]))"

definition fmt_g :: "nat \<Rightarrow> float64 \<Rightarrow> string" where
  "fmt_g prec f =
     (case f of
        F64NaN \<Rightarrow> ''NaN''
      | F64Inf s \<Rightarrow> (if s then ''-Inf'' else ''+Inf'')
      | _ \<Rightarrow>
        (let (ds, dp) = (if fval f = 0 then ([], 0) else sig_digits prec \<bar>fval f\<bar>);
             body = (if dp - 1 < -4 \<or> dp - 1 \<ge> int prec then fmtE ds dp else fmtF ds dp)
         in if is_neg64 f then CHR ''-'' # body else body))"

section \<open>Small integers are exact\<close>

lemma round_half_even_int [simp]: "round_half_even (of_int i) = i"
  by (simp add: round_half_even_def)

lemma quotient_of_nat_pos: "quotient_of (of_int i) = (i, 1)"
  by simp

lemma scale_2_pos: "0 < b \<Longrightarrow> 0 < scale b k"
  by (simp add: scale_def)

lemma ilog_int_le:
  assumes "2 \<le> b" "0 < i" "i < int b ^ n" "0 < n"
  shows "ilog b (of_int i) \<le> int n - 1"
proof -
  obtain k where n: "n = Suc k" using assms(4) by (cases n) auto
  have "nat i < b ^ Suc k"
    using assms(2,3) by (simp add: n nat_less_iff)
  then have "length (to_base b (nat i)) \<le> Suc k"
    using assms(1) by (rule length_to_base [rotated])
  moreover have "length (to_base b (nat 1)) = 1"
    using assms(1) by (subst to_base.simps) simp
  ultimately show ?thesis
    by (simp add: ilog_def Let_def n)
qed

lemma scale_nonpos: "e \<le> 0 \<Longrightarrow> scale b e = 1 / of_nat b ^ nat (- e)"
  by (cases "e = 0") (simp_all add: scale_def)

lemma round_at_nonpos_scale:
  assumes "e \<le> 0"
  shows "of_int (round_half_even (of_int i / scale 2 e)) * scale 2 e = of_int i"
proof -
  have "of_int i / scale 2 e = of_int (i * 2 ^ nat (- e))"
    using assms by (simp add: scale_nonpos)
  then show ?thesis using assms by (simp only: round_half_even_int) (simp add: scale_nonpos)
qed

lemma round64_int:
  assumes "\<bar>i\<bar> < 2 ^ 53"
  shows "round64 (of_int i) = F64 (of_int i)"
proof (cases "i = 0")
  case True
  then show ?thesis by (simp add: round64_def)
next
  case False
  have "ilog 2 (of_int \<bar>i\<bar>) \<le> int 53 - 1"
    using False assms by (intro ilog_int_le) auto
  then have "max (ilog 2 \<bar>of_int i\<bar> - 52) (-1074) \<le> 0" by simp
  note v = round_at_nonpos_scale [OF this, of "\<bar>i\<bar>", unfolded of_int_abs]
  have "of_int \<bar>i\<bar> < (of_int (2 ^ 53) :: rat)" using assms by (subst of_int_less_iff)
  also have "\<dots> \<le> 2 ^ 1024" by simp
  finally have lt: "\<bar>of_int i\<bar> < (2 ^ 1024 :: rat)" by simp
  show ?thesis
    unfolding round64_def Let_def v using False lt
    by (auto simp add: sgn_if abs_if not_less)
qed

lemma float_of_int_exact: "\<bar>i\<bar> < 2 ^ 53 \<Longrightarrow> float_of_int i = F64 (of_int i)"
  by (simp add: float_of_int_def round64_int)

lemma trunc_rat_of_int [simp]: "trunc_rat (of_int i) = i"
  by (simp add: trunc_rat_def)

lemma int_of_float_int: "is_i64 i \<Longrightarrow> int_of_float (F64 (of_int i)) = i"
  by (simp add: int_of_float_def)

lemma is_digit_nat_str: "c \<in> set (nat_str n) \<Longrightarrow> is_digit c"
  by (simp add: is_digit_def nat_str_digits)

lemma digits_val_nat_str [simp]: "digits_val (nat_str n) = n"
proof -
  have "map (\<lambda>c. byte c - 48) (nat_str n) = to_base 10 n"
    unfolding nat_str_def map_map comp_def
  proof (rule map_idI)
    fix d assume "d \<in> set (to_base 10 n)"
    then have "d < 10" by (rule to_base_digits [rotated]) simp
    then show "byte (digit_char d) - 48 = d" by (simp add: byte_digit_char)
  qed
  then show ?thesis by (simp add: digits_val_def)
qed

lemma digits_val_Nil [simp]: "digits_val [] = 0"
  by (simp add: digits_val_def)

lemma takeWhile_nat_str [simp]: "takeWhile is_digit (nat_str n) = nat_str n"
  by (simp add: takeWhile_eq_all_conv is_digit_nat_str)

lemma dropWhile_nat_str [simp]: "dropWhile is_digit (nat_str n) = []"
  by (simp add: is_digit_nat_str)

lemma hd_nat_str: "hd (nat_str n) \<noteq> CHR ''-'' \<and> hd (nat_str n) \<noteq> CHR ''+''"
proof -
  have "hd (nat_str n) \<in> set (nat_str n)" by simp
  then have "48 \<le> byte (hd (nat_str n))" by (rule nat_str_digits [THEN conjunct1])
  moreover have "byte (CHR ''-'') < 48" "byte (CHR ''+'') < 48" by (simp_all add: byte_def)
  ultimately show ?thesis by (metis not_le)
qed

lemma ParseFloat_int_str:
  assumes "\<bar>i\<bar> < 2 ^ 53"
  shows "ParseFloat (int_str i) = Some (F64 (of_int i))"
proof -
  have "ParseFloat (nat_str n) = Some (F64 (of_nat n))" if "n < 2 ^ 53" for n
  proof -
    have "round64 (of_nat n) = F64 (of_nat n)"
      using round64_int [of "int n"] that by simp
    then show ?thesis
      using hd_nat_str [of n]
      by (simp add: ParseFloat_def Let_def scale_def)
  qed
  note pos = this
  show ?thesis
  proof (cases "i < 0")
    case False
    then show ?thesis using pos [of "nat i"] assms by (simp add: int_str_def)
  next
    case True
    then have "round64 (- of_nat (nat (- i))) = F64 (of_int i)"
      using round64_int [of i] assms by simp
    with True show ?thesis
      using hd_nat_str [of "nat (- i)"]
      by (simp add: ParseFloat_def Let_def scale_def int_str_def)
  qed
qed

end
