(* ===== verification/JsonLex.thy ===== *)
theory JsonLex
  imports Float64
begin

text \<open>
  The lexical layer shared by the two JSON readers: the byte-level functions of
  \<open>server-go/modules/economizer/json_compact.go\<close> (\<open>jsonWS\<close>, \<open>hexVal\<close>, \<open>hex4\<close>, \<open>utf8Sequence\<close>,
  \<open>parseNumber\<close>, \<open>lit\<close>) and the UTF-8 encoding of the package \<open>utf8\<close>. The parser's cursor
  \<open>(s, p)\<close> is the remaining input \<open>s[p:]\<close>.
\<close>

datatype JSONResult =
    JSONOK | JSONInvalidArgument | JSONTooLarge | JSONTooDeep
  | JSONInvalidUTF8 | JSONInvalidSyntax | JSONDuplicateKey | JSONNotShorter

definition jsonWS :: "char \<Rightarrow> bool" where
  "jsonWS c \<longleftrightarrow> c = CHR '' '' \<or> c = CHR 0x09 \<or> c = CHR 0x0A \<or> c = CHR 0x0D"

definition skipWS :: "string \<Rightarrow> string" where
  "skipWS s = dropWhile jsonWS s"

definition hexVal :: "char \<Rightarrow> nat option" where
  "hexVal c =
     (if CHR ''0'' \<le> c \<and> c \<le> CHR ''9'' then Some (byte c - 48)
      else if CHR ''a'' \<le> c \<and> c \<le> CHR ''f'' then Some (byte c - 97 + 10)
      else if CHR ''A'' \<le> c \<and> c \<le> CHR ''F'' then Some (byte c - 65 + 10)
      else None)"

fun hex_digits :: "nat \<Rightarrow> nat \<Rightarrow> string \<Rightarrow> (nat \<times> string) option" where
  "hex_digits 0 v s = Some (v, s)"
| "hex_digits (Suc n) v [] = None"
| "hex_digits (Suc n) v (c # s) =
     (case hexVal c of None \<Rightarrow> None | Some h \<Rightarrow> hex_digits n (push_bit 4 v OR h) s)"

definition hex4 :: "string \<Rightarrow> (nat \<times> string) option" where
  "hex4 s = (if length s < 4 then None else hex_digits 4 0 s)"

section \<open>UTF-8\<close>

text \<open>Is byte \<open>i\<close> of \<open>s\<close> present and of the form \<open>10xxxxxx\<close>?\<close>

definition cont_byte :: "char \<Rightarrow> bool" where
  "cont_byte c \<longleftrightarrow> byte c AND 0xC0 = 0x80"

definition cont_at :: "string \<Rightarrow> nat \<Rightarrow> bool" where
  "cont_at s i \<longleftrightarrow> length s > i \<and> cont_byte (s ! i)"

definition byte_in :: "string \<Rightarrow> nat \<Rightarrow> nat \<Rightarrow> nat \<Rightarrow> bool" where
  "byte_in s i lo hi \<longleftrightarrow> length s > i \<and> lo \<le> byte (s ! i) \<and> byte (s ! i) \<le> hi"

definition utf8Sequence :: "string \<Rightarrow> nat option" where
  "utf8Sequence s =
     (case s of [] \<Rightarrow> None | c # _ \<Rightarrow>
      let a = byte c in
      if a < 0x80 then Some 1
      else if 0xC2 \<le> a \<and> a \<le> 0xDF \<and> cont_at s 1 then Some 2
      else if a = 0xE0 \<and> byte_in s 1 0xA0 0xBF \<and> cont_at s 2 then Some 3
      else if 0xE1 \<le> a \<and> a \<le> 0xEC \<and> cont_at s 1 \<and> cont_at s 2 then Some 3
      else if a = 0xED \<and> byte_in s 1 0x80 0x9F \<and> cont_at s 2 then Some 3
      else if 0xEE \<le> a \<and> a \<le> 0xEF \<and> cont_at s 1 \<and> cont_at s 2 then Some 3
      else if a = 0xF0 \<and> byte_in s 1 0x90 0xBF \<and> cont_at s 2 \<and> cont_at s 3 then Some 4
      else if 0xF1 \<le> a \<and> a \<le> 0xF3 \<and> cont_at s 1 \<and> cont_at s 2 \<and> cont_at s 3 then Some 4
      else if a = 0xF4 \<and> byte_in s 1 0x80 0x8F \<and> cont_at s 2 \<and> cont_at s 3 then Some 4
      else None)"

text \<open>\<open>utf8.AppendRune\<close>: the encoding of a rune; surrogates and values above U+10FFFF become U+FFFD.\<close>

definition AppendRune :: "nat \<Rightarrow> string" where
  "AppendRune r0 =
     (let r = (if 0x10FFFF < r0 \<or> (0xD800 \<le> r0 \<and> r0 \<le> 0xDFFF) then 0xFFFD else r0) in
      if r \<le> 0x7F then [char_of r]
      else if r \<le> 0x7FF then [char_of (0xC0 + r div 64), char_of (0x80 + r mod 64)]
      else if r \<le> 0xFFFF then
        [char_of (0xE0 + r div 4096), char_of (0x80 + r div 64 mod 64), char_of (0x80 + r mod 64)]
      else [char_of (0xF0 + r div 262144), char_of (0x80 + r div 4096 mod 64),
            char_of (0x80 + r div 64 mod 64), char_of (0x80 + r mod 64)])"

text \<open>\<open>utf16.DecodeRune\<close>; \<open>None\<close> stands for the replacement character of an invalid pair.\<close>

definition DecodeRune16 :: "nat \<Rightarrow> nat \<Rightarrow> nat option" where
  "DecodeRune16 hi lo =
     (if 0xD800 \<le> hi \<and> hi \<le> 0xDBFF \<and> 0xDC00 \<le> lo \<and> lo \<le> 0xDFFF
      then Some ((hi - 0xD800) * 1024 + (lo - 0xDC00) + 0x10000) else None)"

lemma utf8Sequence_bounds: "utf8Sequence s = Some n \<Longrightarrow> 0 < n \<and> n \<le> length s"
  by (cases s) (auto simp: utf8Sequence_def cont_at_def Let_def Suc_le_eq split: if_splits)

lemma cont_at_take: "i < n \<Longrightarrow> n \<le> length s \<Longrightarrow> cont_at (take n s @ t) i = cont_at s i"
  by (simp add: cont_at_def nth_append)

lemma byte_in_take: "i < n \<Longrightarrow> n \<le> length s \<Longrightarrow> byte_in (take n s @ t) i lo hi = byte_in s i lo hi"
  by (simp add: byte_in_def nth_append)

lemma utf8Sequence_prefix:
  assumes "utf8Sequence s = Some n"
  shows "utf8Sequence (take n s @ t) = Some n"
proof (cases s)
  case Nil
  with assms show ?thesis by (simp add: utf8Sequence_def)
next
  case (Cons c s')
  have n: "0 < n" "n \<le> length s" using utf8Sequence_bounds [OF assms] by auto
  then have take: "take n s @ t = c # (take (n - 1) s' @ t)"
    by (cases n) (simp_all add: Cons)
  have c: "i < n \<Longrightarrow> cont_at (c # (take (n - 1) s' @ t)) i = cont_at (c # s') i" for i
    using cont_at_take [of i n s t] n by (simp add: take flip: Cons)
  have b: "i < n \<Longrightarrow> byte_in (c # (take (n - 1) s' @ t)) i lo hi = byte_in (c # s') i lo hi" for i lo hi
    using byte_in_take [of i n s t] n by (simp add: take flip: Cons)
  note eval = utf8Sequence_def Let_def take Cons
  consider "byte c < 0x80" | "0x80 \<le> byte c" "byte c < 0xC2" | "0xC2 \<le> byte c" "byte c \<le> 0xDF"
    | "byte c = 0xE0" | "0xE1 \<le> byte c" "byte c \<le> 0xEC" | "byte c = 0xED"
    | "0xEE \<le> byte c" "byte c \<le> 0xEF" | "byte c = 0xF0" | "0xF1 \<le> byte c" "byte c \<le> 0xF3"
    | "byte c = 0xF4" | "0xF4 < byte c"
    by linarith
  then show ?thesis
    by cases (use assms c b in \<open>auto simp: eval split: if_splits\<close>)
qed

function utf8_valid :: "string \<Rightarrow> bool" where
  "utf8_valid s =
     (s = [] \<or> (case utf8Sequence s of None \<Rightarrow> False | Some n \<Rightarrow> utf8_valid (drop n s)))"
  by pat_completeness auto
termination
  by (relation "measure length") (auto dest: utf8Sequence_bounds)

declare utf8_valid.simps [simp del]

section \<open>Numbers and literals\<close>

definition number_frac :: "string \<Rightarrow> string option" where
  "number_frac s =
     (case s of
        c # r \<Rightarrow>
          if c = CHR ''.'' then
            (if r = [] \<or> \<not> is_digit (hd r) then None else Some (dropWhile is_digit r))
          else Some s
      | [] \<Rightarrow> Some s)"

definition number_exp :: "string \<Rightarrow> string option" where
  "number_exp s =
     (case s of
        c # r \<Rightarrow>
          if c = CHR ''e'' \<or> c = CHR ''E'' then
            (let r = (if r \<noteq> [] \<and> (hd r = CHR ''+'' \<or> hd r = CHR ''-'') then tl r else r)
             in if r = [] \<or> \<not> is_digit (hd r) then None else Some (dropWhile is_digit r))
          else Some s
      | [] \<Rightarrow> Some s)"

definition number_int :: "string \<Rightarrow> string option" where
  "number_int s =
     (case s of
        [] \<Rightarrow> None
      | c # r \<Rightarrow> (if c = CHR ''0'' then Some r
                  else if is_digit c then Some (dropWhile is_digit s)
                  else None))"

definition parseNumber :: "string \<Rightarrow> JSONResult + string" where
  "parseNumber s =
     (let s1 = (if s \<noteq> [] \<and> hd s = CHR ''-'' then tl s else s)
      in case number_int s1 of
           None \<Rightarrow> Inl JSONInvalidSyntax
         | Some s2 \<Rightarrow>
             (case number_frac s2 of
                None \<Rightarrow> Inl JSONInvalidSyntax
              | Some s3 \<Rightarrow>
                  (case number_exp s3 of
                     None \<Rightarrow> Inl JSONInvalidSyntax
                   | Some s4 \<Rightarrow> Inr s4)))"

definition lit :: "string \<Rightarrow> string \<Rightarrow> JSONResult + string" where
  "lit word s = (if has_prefix s word then Inr (drop (length word) s) else Inl JSONInvalidSyntax)"

section \<open>Progress and exactness of the lexers\<close>

lemma length_skipWS: "length (skipWS s) \<le> length s"
  by (simp add: skipWS_def length_dropWhile_le)

lemma skipWS_Cons_not: "\<not> jsonWS c \<Longrightarrow> skipWS (c # s) = c # s"
  by (simp add: skipWS_def)

lemma number_int_length: "number_int s = Some t \<Longrightarrow> length t < length s"
  by (cases s) (auto simp: number_int_def length_dropWhile_le le_imp_less_Suc split: if_splits)

lemma number_frac_length: "number_frac s = Some t \<Longrightarrow> length t \<le> length s"
  by (cases s) (auto simp: number_frac_def length_dropWhile_le le_SucI split: if_splits)

lemma number_exp_length: "number_exp s = Some t \<Longrightarrow> length t \<le> length s"
proof (cases s)
  case (Cons c r)
  assume "number_exp s = Some t"
  then have "t = s \<or> t = dropWhile is_digit r \<or> t = dropWhile is_digit (tl r)"
    using Cons by (auto simp: number_exp_def Let_def split: if_splits)
  moreover have "length (dropWhile is_digit r) \<le> length r" by (rule length_dropWhile_le)
  moreover have "length (dropWhile is_digit (tl r)) \<le> length (tl r)" by (rule length_dropWhile_le)
  ultimately show ?thesis using Cons by (elim disjE) simp_all
qed (simp add: number_exp_def)

lemma parseNumber_length: "parseNumber s = Inr t \<Longrightarrow> length t < length s"
proof -
  assume p: "parseNumber s = Inr t"
  define s1 where "s1 = (if s \<noteq> [] \<and> hd s = CHR ''-'' then tl s else s)"
  from p obtain s2 s3 where "number_int s1 = Some s2" "number_frac s2 = Some s3"
      "number_exp s3 = Some t"
    by (auto simp: parseNumber_def s1_def Let_def split: option.splits)
  then have "length t < length s1"
    by (auto dest!: number_int_length number_frac_length number_exp_length)
  also have "length s1 \<le> length s" by (simp add: s1_def)
  finally show ?thesis .
qed

end
