(* ===== verification/Json.thy ===== *)
theory Json
  imports JsonLex
begin

text \<open>
  \<open>jsonval.go\<close> and the printer of \<open>cjson.go\<close>: the order-preserving JSON value, its accessors and
  the cJSON-compatible printer. A Go \<open>*JSONValue\<close> that may be nil is \<open>json option\<close>; a method
  that updates its receiver returns the updated value. \<open>Keys\<close> and \<open>Vals\<close> are one association
  list, so a document with a repeated name keeps both entries, as the parser does.
\<close>

datatype json =
    JSONNull | JSONFalse | JSONTrue
  | JSONNumber float64
  | JSONString string
  | JSONArray "json list"
  | JSONObject "(string \<times> json) list"

type_synonym jref = "json option"

section \<open>Accessors\<close>

definition NewString :: "string \<Rightarrow> json" where "NewString s = JSONString s"
definition NewNumber :: "float64 \<Rightarrow> json" where "NewNumber n = JSONNumber n"
definition NewObject :: json where "NewObject = JSONObject []"
definition NewArray :: json where "NewArray = JSONArray []"

fun Get :: "jref \<Rightarrow> string \<Rightarrow> jref" where
  "Get (Some (JSONObject kvs)) key = map_of kvs key"
| "Get _ key = None"

definition GetString :: "jref \<Rightarrow> string \<Rightarrow> string" where
  "GetString v key = (case Get v key of Some (JSONString s) \<Rightarrow> s | _ \<Rightarrow> [])"

fun set_key :: "string \<Rightarrow> json \<Rightarrow> (string \<times> json) list \<Rightarrow> (string \<times> json) list" where
  "set_key key val [] = [(key, val)]"
| "set_key key val ((k, v) # kvs) =
     (if k = key then (k, val) # kvs else (k, v) # set_key key val kvs)"

fun Set :: "string \<Rightarrow> json \<Rightarrow> json \<Rightarrow> json" where
  "Set key val (JSONObject kvs) = JSONObject (set_key key val kvs)"
| "Set key val v = v"

fun Append :: "json \<Rightarrow> json \<Rightarrow> json" where
  "Append item (JSONArray xs) = JSONArray (xs @ [item])"
| "Append item v = v"

fun Insert :: "int \<Rightarrow> json \<Rightarrow> json \<Rightarrow> json" where
  "Insert i item (JSONArray xs) =
     (let i = (if i < 0 then 0 else i)
      in if i \<ge> int (length xs) then JSONArray (xs @ [item])
         else JSONArray (take (nat i) xs @ item # drop (nat i) xs))"
| "Insert i item v = v"

fun RemoveAt :: "int \<Rightarrow> json \<Rightarrow> json" where
  "RemoveAt i (JSONArray xs) =
     (if i < 0 \<or> i \<ge> int (length xs) then JSONArray xs
      else JSONArray (take (nat i) xs @ drop (Suc (nat i)) xs))"
| "RemoveAt i v = v"

fun delete_key :: "string \<Rightarrow> (string \<times> json) list \<Rightarrow> (string \<times> json) list" where
  "delete_key key [] = []"
| "delete_key key ((k, v) # kvs) = (if k = key then kvs else (k, v) # delete_key key kvs)"

fun Delete :: "string \<Rightarrow> json \<Rightarrow> json" where
  "Delete key (JSONObject kvs) = JSONObject (delete_key key kvs)"
| "Delete key v = v"

fun Len :: "jref \<Rightarrow> int" where
  "Len (Some (JSONArray xs)) = int (length xs)"
| "Len (Some (JSONObject kvs)) = int (length kvs)"
| "Len _ = 0"

fun At :: "jref \<Rightarrow> int \<Rightarrow> jref" where
  "At (Some (JSONArray xs)) i = (if i < 0 \<or> i \<ge> int (length xs) then None else Some (xs ! nat i))"
| "At _ i = None"

fun IsString :: "jref \<Rightarrow> bool" where
  "IsString (Some (JSONString s)) \<longleftrightarrow> True"
| "IsString _ \<longleftrightarrow> False"

fun IsArray :: "jref \<Rightarrow> bool" where
  "IsArray (Some (JSONArray xs)) \<longleftrightarrow> True"
| "IsArray _ \<longleftrightarrow> False"

fun IsObject :: "jref \<Rightarrow> bool" where
  "IsObject (Some (JSONObject kvs)) \<longleftrightarrow> True"
| "IsObject _ \<longleftrightarrow> False"

text \<open>The field \<open>Items\<close>, nil but for an array.\<close>

fun Items :: "jref \<Rightarrow> json list" where
  "Items (Some (JSONArray xs)) = xs"
| "Items _ = []"

primrec Clone :: "json \<Rightarrow> json" where
  "Clone JSONNull = JSONNull"
| "Clone JSONFalse = JSONFalse"
| "Clone JSONTrue = JSONTrue"
| "Clone (JSONNumber n) = JSONNumber n"
| "Clone (JSONString s) = JSONString s"
| "Clone (JSONArray xs) = JSONArray (map Clone xs)"
| "Clone (JSONObject kvs) = JSONObject (map (map_prod id Clone) kvs)"

section \<open>The cJSON-compatible printer\<close>

definition MaxInt32 :: int where "MaxInt32 = 2147483647"
definition MinInt32 :: int where "MinInt32 = -2147483648"

definition cjsonInt :: "float64 \<Rightarrow> int" where
  "cjsonInt d =
     (if fle (F64 (of_int MaxInt32)) d then MaxInt32
      else if fle d (F64 (of_int MinInt32)) then MinInt32
      else trunc_rat (fval d))"

text \<open>\<open>DBL_EPSILON\<close> is 2^-52, which the decimal constant of the source denotes.\<close>

definition dblEpsilon :: float64 where "dblEpsilon = F64 (1 / 2 ^ 52)"

definition compareDouble :: "float64 \<Rightarrow> float64 \<Rightarrow> bool" where
  "compareDouble a b =
     (let maxVal = fabs a;
          maxVal = (if \<not> fle (fabs b) maxVal \<and> maxVal \<noteq> F64NaN \<and> b \<noteq> F64NaN then fabs b else maxVal)
      in fle (fabs (fsub a b)) (fmul maxVal dblEpsilon))"

definition CJSONNumber :: "float64 \<Rightarrow> string" where
  "CJSONNumber d =
     (if \<not> is_finite64 d then ''null''
      else let vi = cjsonInt d
           in if feq d (F64 (of_int vi)) then int_str vi
              else let s = fmt_g 15 d
                   in (case ParseFloat s of
                         None \<Rightarrow> fmt_g 17 d
                       | Some parsed \<Rightarrow> if \<not> compareDouble parsed d then fmt_g 17 d else s))"

definition hex4_str :: "nat \<Rightarrow> string" where
  "hex4_str n = (let h = hex_str n in replicate (4 - length h) (CHR ''0'') @ h)"

definition cjsonEscapeByte :: "char \<Rightarrow> string" where
  "cjsonEscapeByte c =
     (if c = CHR 0x22 then [CHR 0x5C, CHR 0x22]
      else if c = CHR 0x5C then [CHR 0x5C, CHR 0x5C]
      else if c = CHR 0x08 then [CHR 0x5C, CHR ''b'']
      else if c = CHR 0x0C then [CHR 0x5C, CHR ''f'']
      else if c = CHR 0x0A then [CHR 0x5C, CHR ''n'']
      else if c = CHR 0x0D then [CHR 0x5C, CHR ''r'']
      else if c = CHR 0x09 then [CHR 0x5C, CHR ''t'']
      else if byte c < 32 then [CHR 0x5C, CHR ''u''] @ hex4_str (byte c)
      else [c])"

definition cjsonEscape :: "string \<Rightarrow> string" where
  "cjsonEscape s = CHR 0x22 # concat (map cjsonEscapeByte s) @ [CHR 0x22]"

fun commas :: "string list \<Rightarrow> string" where
  "commas [] = []"
| "commas [x] = x"
| "commas (x # xs) = x @ CHR '','' # commas xs"

definition print_member :: "string \<times> string \<Rightarrow> string" where
  "print_member kv = cjsonEscape (fst kv) @ CHR '':'' # snd kv"

primrec PrintJSONUnformatted :: "json \<Rightarrow> string" where
  "PrintJSONUnformatted JSONNull = ''null''"
| "PrintJSONUnformatted JSONFalse = ''false''"
| "PrintJSONUnformatted JSONTrue = ''true''"
| "PrintJSONUnformatted (JSONNumber n) = CJSONNumber n"
| "PrintJSONUnformatted (JSONString s) = cjsonEscape s"
| "PrintJSONUnformatted (JSONArray xs) = CHR ''['' # commas (map PrintJSONUnformatted xs) @ '']''"
| "PrintJSONUnformatted (JSONObject kvs) =
     CHR ''{'' # commas (map print_member (map (map_prod id PrintJSONUnformatted) kvs)) @ ''}''"

text \<open>\<open>Text\<close>: the contents of a string, the serialized form of anything else; \<open>None\<close> is the
  false second result on a nil receiver.\<close>

definition Text :: "jref \<Rightarrow> string option" where
  "Text v = (case v of None \<Rightarrow> None | Some (JSONString s) \<Rightarrow> Some s
             | Some w \<Rightarrow> Some (PrintJSONUnformatted w))"

section \<open>An object as a keyed store\<close>

text \<open>
  The laws the reducer's clients use of an object: lookup after update and after removal. The field
  list is the provider's; a client states its facts over \<open>get\<close> and \<open>put\<close> only.
\<close>

locale keyed_store =
  fixes get :: "'s \<Rightarrow> 'k \<Rightarrow> 'v option"
    and put :: "'k \<Rightarrow> 'v \<Rightarrow> 's \<Rightarrow> 's"
    and is_store :: "'s \<Rightarrow> bool"
  assumes get_put: "is_store s \<Longrightarrow> get (put k v s) k' = (if k' = k then Some v else get s k')"
    and put_get: "get s k = Some v \<Longrightarrow> put k v s = s"
    and put_put: "put k v (put k w s) = put k v s"
    and is_store_put: "is_store (put k v s) \<longleftrightarrow> is_store s"
begin

lemma restore_field: "get s k = Some v \<Longrightarrow> put k v (put k w s) = s"
  by (simp add: put_put put_get)

lemma get_put_same: "is_store s \<Longrightarrow> get (put k v s) k = Some v"
  by (simp add: get_put)

lemma get_put_other: "is_store s \<Longrightarrow> k' \<noteq> k \<Longrightarrow> get (put k v s) k' = get s k'"
  by (simp add: get_put)

end

lemma map_of_set_key: "map_of (set_key k v kvs) k' = (if k' = k then Some v else map_of kvs k')"
  by (induction k v kvs rule: set_key.induct) auto

lemma set_key_same: "map_of kvs k = Some v \<Longrightarrow> set_key k v kvs = kvs"
  by (induction k v kvs rule: set_key.induct) (auto split: if_splits)

lemma set_key_twice [simp]: "set_key k v (set_key k w kvs) = set_key k v kvs"
  by (induction k w kvs rule: set_key.induct) auto

interpretation obj: keyed_store "\<lambda>v. Get (Some v)" Set "\<lambda>v. IsObject (Some v)"
proof unfold_locales
  fix s k v k'
  assume "IsObject (Some s)"
  then show "Get (Some (Set k v s)) k' = (if k' = k then Some v else Get (Some s) k')"
    by (cases s) (auto simp: map_of_set_key)
next
  fix s k v
  assume "Get (Some s) k = Some v"
  then show "Set k v s = s" by (cases s) (auto simp: set_key_same)
next
  fix k v w s
  show "Set k v (Set k w s) = Set k v s" by (cases s) auto
next
  fix k v s
  show "IsObject (Some (Set k v s)) \<longleftrightarrow> IsObject (Some s)" by (cases s) auto
qed

section \<open>Lemmas\<close>

lemma Clone_id [simp]: "Clone v = v"
proof (induction v)
  case (JSONArray xs)
  then show ?case by (simp add: map_idI)
next
  case (JSONObject kvs)
  have "map (map_prod id Clone) kvs = kvs"
    by (rule map_idI) (use JSONObject in \<open>fastforce simp: snds.simps\<close>)
  then show ?case by simp
qed simp_all

lemma Get_Set [json_simps]:
  "IsObject (Some s) \<Longrightarrow> Get (Some (Set k v s)) k' = (if k' = k then Some v else Get (Some s) k')"
  by (rule obj.get_put)

lemma IsObject_Set [json_simps, simp]: "IsObject (Some (Set k v s)) \<longleftrightarrow> IsObject (Some s)"
  by (rule obj.is_store_put)

lemma IsObject_iff: "IsObject v \<longleftrightarrow> (\<exists>kvs. v = Some (JSONObject kvs))"
  by (cases v rule: IsObject.cases) auto

lemma IsArray_iff: "IsArray v \<longleftrightarrow> (\<exists>xs. v = Some (JSONArray xs))"
  by (cases v rule: IsArray.cases) auto

lemma IsString_iff: "IsString v \<longleftrightarrow> (\<exists>s. v = Some (JSONString s))"
  by (cases v rule: IsString.cases) auto

lemma Get_None [simp]: "Get None k = None"
  by simp

lemma GetString_Some: "Get v k = Some (JSONString s) \<Longrightarrow> GetString v k = s"
  by (simp add: GetString_def)

lemma GetString_None [simp]: "Get v k = None \<Longrightarrow> GetString v k = []"
  by (simp add: GetString_def)

lemma GetString_nonempty: "GetString v k = s \<Longrightarrow> s \<noteq> [] \<Longrightarrow> Get v k = Some (JSONString s)"
  by (auto simp: GetString_def split: option.splits json.splits)

lemma Len_array [json_simps]: "IsArray v \<Longrightarrow> Len v = int (length (Items v))"
  by (auto simp: IsArray_iff)

lemma At_Items: "0 \<le> i \<Longrightarrow> i < int (length (Items v)) \<Longrightarrow> At v i = Some (Items v ! nat i)"
  by (cases "(v, i)" rule: At.cases) auto

lemma set_delete_key: "set (delete_key k kvs) \<subseteq> set kvs"
  by (induction k kvs rule: delete_key.induct) auto

end
