(* ===== verification/JsonParse.thy ===== *)
theory JsonParse
  imports Json
begin

text \<open>
  \<open>ParseJSON\<close> of \<open>cjson.go\<close>: the recursive descent over the tokens of \<open>encoding/json\<close>'s decoder,
  with the part of that decoder it relies on (\<open>Token\<close> on delimiters, \<open>Decode\<close> on a string, number or
  literal; \<open>UseNumber\<close>, so a number becomes a float only through \<open>Number.Float64\<close>). Bytes after the
  first complete value are ignored, as the source says. The main result is that printing and parsing
  a value gives the value back.

  The two mutually recursive loops consume their input; the test \<open>length t < length s\<close> after a parsed
  value states that progress for the termination proof. It always holds (\<open>parse_value_length\<close>), and
  the equations without it are \<open>parse_items_eq\<close> and \<open>parse_members_eq\<close>.
\<close>

section \<open>String literals\<close>

definition simple_escape :: "char \<Rightarrow> char option" where
  "simple_escape e =
     (if e = CHR 0x22 \<or> e = CHR 0x5C \<or> e = CHR ''/'' then Some e
      else if e = CHR ''b'' then Some (CHR 0x08)
      else if e = CHR ''f'' then Some (CHR 0x0C)
      else if e = CHR ''n'' then Some (CHR 0x0A)
      else if e = CHR ''r'' then Some (CHR 0x0D)
      else if e = CHR ''t'' then Some (CHR 0x09)
      else None)"

text \<open>The rune of a \<open>\u\<close> escape whose code unit is \<open>cp\<close>, with \<open>r\<close> following: a surrogate takes a
  second escape along when that completes a pair, and is the replacement character otherwise.\<close>

definition unicode_escape :: "nat \<Rightarrow> string \<Rightarrow> nat \<times> string" where
  "unicode_escape cp r =
     (if 0xD800 \<le> cp \<and> cp < 0xE000 then
        (case (if has_prefix r [CHR 0x5C, CHR ''u''] then hex4 (drop 2 r) else None) of
           None \<Rightarrow> (0xFFFD, r)
         | Some (lo, r') \<Rightarrow> (case DecodeRune16 cp lo of Some d \<Rightarrow> (d, r') | None \<Rightarrow> (0xFFFD, r)))
      else (cp, r))"

lemma hex_digits_length: "hex_digits n v s = Some (w, t) \<Longrightarrow> length t + n = length s"
  by (induction n v s rule: hex_digits.induct) (auto split: option.splits)

lemma hex4_length: "hex4 s = Some (v, t) \<Longrightarrow> length t < length s"
  by (auto simp: hex4_def dest: hex_digits_length split: if_splits)

lemma unicode_escape_length: "unicode_escape cp r = (d, r') \<Longrightarrow> length r' \<le> length r"
  by (fastforce simp: unicode_escape_def dest: hex4_length split: if_splits option.splits)

function unquote :: "string \<Rightarrow> (string \<times> string) option" where
  "unquote s =
     (case s of
        [] \<Rightarrow> None
      | c # r \<Rightarrow>
          if c = CHR 0x22 then Some ([], r)
          else if c = CHR 0x5C then
            (case r of
               [] \<Rightarrow> None
             | e # r1 \<Rightarrow>
                 if e = CHR ''u'' then
                   (case hex4 r1 of
                      None \<Rightarrow> None
                    | Some (cp, r2) \<Rightarrow>
                        map_option (apfst ((@) (AppendRune (fst (unicode_escape cp r2)))))
                          (unquote (snd (unicode_escape cp r2))))
                 else
                   (case simple_escape e of
                      None \<Rightarrow> None
                    | Some v \<Rightarrow> map_option (apfst ((#) v)) (unquote r1)))
          else if byte c < 0x20 then None
          else
            (case utf8Sequence s of
               None \<Rightarrow> map_option (apfst ((@) (AppendRune 0xFFFD))) (unquote r)
             | Some n \<Rightarrow> map_option (apfst ((@) (take n s))) (unquote (drop n s))))"
  by pat_completeness auto
termination
proof (relation "measure length", goal_cases)
  case (2 s c r e r1 x cp r2)
  then show ?case
    using unicode_escape_length [of cp r2 "fst (unicode_escape cp r2)" "snd (unicode_escape cp r2)"]
      hex4_length [of r1 cp r2] by simp
qed (auto dest: utf8Sequence_bounds)

declare unquote.simps [simp del]

lemma unquote_Nil [simp]: "unquote [] = None"
  by (subst unquote.simps) simp

lemma unquote_quote [simp]: "unquote (CHR 0x22 # r) = Some ([], r)"
  by (subst unquote.simps) simp

lemma unquote_unicode:
  "unquote (CHR 0x5C # CHR ''u'' # r) =
     (case hex4 r of
        None \<Rightarrow> None
      | Some (cp, r2) \<Rightarrow>
          map_option (apfst ((@) (AppendRune (fst (unicode_escape cp r2)))))
            (unquote (snd (unicode_escape cp r2))))"
  by (subst unquote.simps) simp

lemma unquote_escape:
  "e \<noteq> CHR ''u'' \<Longrightarrow> unquote (CHR 0x5C # e # r) =
     (case simple_escape e of None \<Rightarrow> None | Some v \<Rightarrow> map_option (apfst ((#) v)) (unquote r))"
  by (subst unquote.simps) simp

lemma unquote_raw:
  "c \<noteq> CHR 0x22 \<Longrightarrow> c \<noteq> CHR 0x5C \<Longrightarrow> unquote (c # r) =
     (if byte c < 0x20 then None
      else (case utf8Sequence (c # r) of
              None \<Rightarrow> map_option (apfst ((@) (AppendRune 0xFFFD))) (unquote r)
            | Some n \<Rightarrow> map_option (apfst ((@) (take n (c # r)))) (unquote (drop n (c # r)))))"
  by (subst unquote.simps) simp

lemma unquote_dangling [simp]: "unquote [CHR 0x5C] = None"
  by (subst unquote.simps) simp

lemma unquote_length: "unquote s = Some (k, t) \<Longrightarrow> length t < length s"
proof (induction s arbitrary: k rule: measure_induct_rule [of length])
  case (less s)
  have IH: "length t < length s"
    if "\<exists>k. unquote s' = Some (k, t)" "length s' < length s" for s'
    using that less.IH by fastforce
  show ?case
  proof (cases s)
    case Nil
    with less.prems show ?thesis by simp
  next
    case (Cons c r)
    consider "c = CHR 0x22" | "c = CHR 0x5C" | "c \<noteq> CHR 0x22" "c \<noteq> CHR 0x5C" by blast
    then show ?thesis
    proof cases
      case 1
      with less.prems Cons show ?thesis by simp
    next
      case 2
      then obtain e r1 where r: "r = e # r1" using less.prems Cons by (cases r) auto
      show ?thesis
      proof (cases "e = CHR ''u''")
        case True
        then obtain cp r2 where h: "hex4 r1 = Some (cp, r2)"
          and "\<exists>k. unquote (snd (unicode_escape cp r2)) = Some (k, t)"
          using less.prems Cons r 2 by (auto simp: unquote_unicode split: option.splits)
        moreover have "length (snd (unicode_escape cp r2)) < length s"
          using hex4_length [OF h] unicode_escape_length [OF surjective_pairing, of cp r2] Cons r by simp
        ultimately show ?thesis using IH by blast
      next
        case False
        then have "\<exists>k. unquote r1 = Some (k, t)"
          using less.prems Cons r 2 by (auto simp: unquote_escape split: option.splits)
        then show ?thesis using IH Cons r by simp
      qed
    next
      case 3
      then have "(\<exists>k. unquote r = Some (k, t)) \<or>
          (\<exists>n k. utf8Sequence s = Some n \<and> unquote (drop n s) = Some (k, t))"
        using less.prems Cons by (auto simp: unquote_raw split: if_splits option.splits)
      then show ?thesis using IH [of r] IH Cons by (fastforce dest: utf8Sequence_bounds)
    qed
  qed
qed

section \<open>Values\<close>

lemma skipWS_less: "skipWS s = c # t \<Longrightarrow> length t < length s"
  using length_skipWS [of s] by simp

function parse_value :: "string \<Rightarrow> (json \<times> string) option"
  and parse_items :: "string \<Rightarrow> (json list \<times> string) option"
  and parse_members :: "string \<Rightarrow> ((string \<times> json) list \<times> string) option"
where
  "parse_value s =
     (case s of
        [] \<Rightarrow> None
      | c # r \<Rightarrow>
          if c = CHR ''{'' then
            (if skipWS r \<noteq> [] \<and> hd (skipWS r) = CHR ''}'' then Some (JSONObject [], tl (skipWS r))
             else map_option (apfst JSONObject) (parse_members (skipWS r)))
          else if c = CHR ''['' then
            (if skipWS r \<noteq> [] \<and> hd (skipWS r) = CHR '']'' then Some (JSONArray [], tl (skipWS r))
             else map_option (apfst JSONArray) (parse_items (skipWS r)))
          else if c = CHR 0x22 then map_option (apfst JSONString) (unquote r)
          else if c = CHR ''t'' then
            (case lit ''true'' s of Inl e \<Rightarrow> None | Inr t \<Rightarrow> Some (JSONTrue, t))
          else if c = CHR ''f'' then
            (case lit ''false'' s of Inl e \<Rightarrow> None | Inr t \<Rightarrow> Some (JSONFalse, t))
          else if c = CHR ''n'' then
            (case lit ''null'' s of Inl e \<Rightarrow> None | Inr t \<Rightarrow> Some (JSONNull, t))
          else
            (case parseNumber s of
               Inl e \<Rightarrow> None
             | Inr t \<Rightarrow> map_option (\<lambda>f. (JSONNumber f, t))
                          (ParseFloat (take (length s - length t) s))))"
| "parse_items s =
     (case parse_value s of
        None \<Rightarrow> None
      | Some (v, t) \<Rightarrow>
          if length t < length s then
            (case skipWS t of
               [] \<Rightarrow> None
             | d # u \<Rightarrow>
                 if d = CHR '']'' then Some ([v], u)
                 else if d = CHR '','' then map_option (apfst ((#) v)) (parse_items (skipWS u))
                 else None)
          else None)"
| "parse_members s =
     (case s of
        [] \<Rightarrow> None
      | q # r \<Rightarrow>
          if q \<noteq> CHR 0x22 then None
          else
            (case unquote r of
               None \<Rightarrow> None
             | Some (k, t) \<Rightarrow>
                 (case skipWS t of
                    [] \<Rightarrow> None
                  | d # u \<Rightarrow>
                      if d \<noteq> CHR '':'' then None
                      else
                        (case parse_value (skipWS u) of
                           None \<Rightarrow> None
                         | Some (v, w) \<Rightarrow>
                             if length w < length s then
                               (case skipWS w of
                                  [] \<Rightarrow> None
                                | e # x \<Rightarrow>
                                    if e = CHR ''}'' then Some ([(k, v)], x)
                                    else if e = CHR '','' then
                                      map_option (apfst ((#) (k, v))) (parse_members (skipWS x))
                                    else None)
                             else None))))"
  by pat_completeness auto

termination
proof (relation "measure (case_sum (\<lambda>s. 2 * length s)
    (case_sum (\<lambda>s. 2 * length s + 1) (\<lambda>s. 2 * length s + 1)))", goal_cases)
  case (2 s c r)
  then show ?case using length_skipWS [of r] by simp
next
  case (3 s c r)
  then show ?case using length_skipWS [of r] by simp
next
  case (5 s x v t d u)
  then show ?case using length_skipWS [of u] skipWS_less [of t d u] by simp
next
  case (6 s q r x k t d u)
  then show ?case
    using length_skipWS [of u] skipWS_less [of t d u] unquote_length [of r k t] by simp
next
  case (7 s q r x k t d u xa v w e xb)
  then show ?case using length_skipWS [of xb] skipWS_less [of w e xb] by simp
qed simp_all

declare parse_value.simps [simp del] parse_items.simps [simp del] parse_members.simps [simp del]

text \<open>\<open>None\<close> is the nil the source returns when the bytes are not JSON.\<close>

definition ParseJSON :: "string \<Rightarrow> json option" where
  "ParseJSON raw = map_option fst (parse_value (skipWS raw))"

section \<open>Progress of the parser\<close>

lemma parse_items_length: "parse_items s = Some (vs, t) \<Longrightarrow> length t < length s"
proof (induction s arbitrary: vs rule: measure_induct_rule [of length])
  case (less s)
  from less.prems obtain v u d w where u: "length u < length s" "skipWS u = d # w"
    and "d = CHR '']'' \<and> t = w \<or> d = CHR '','' \<and> (\<exists>us. parse_items (skipWS w) = Some (us, t))"
    by (subst (asm) parse_items.simps) (auto split: option.splits list.splits if_splits)
  moreover from u have "length w < length s" using skipWS_less [of u d w] by simp
  ultimately show ?case
    using less.IH [of "skipWS w"] length_skipWS [of w] by auto
qed

lemma parse_members_length: "parse_members s = Some (kvs, t) \<Longrightarrow> length t < length s"
proof (induction s arbitrary: kvs rule: measure_induct_rule [of length])
  case (less s)
  from less.prems obtain v u d w where u: "length u < length s" "skipWS u = d # w"
    and "d = CHR ''}'' \<and> t = w \<or> d = CHR '','' \<and> (\<exists>us. parse_members (skipWS w) = Some (us, t))"
    by (subst (asm) parse_members.simps) (auto split: option.splits list.splits if_splits)
  moreover from u have "length w < length s" using skipWS_less [of u d w] by simp
  ultimately show ?case
    using less.IH [of "skipWS w"] length_skipWS [of w] by auto
qed

lemma lit_length: "w \<noteq> [] \<Longrightarrow> lit w s = Inr t \<Longrightarrow> length t < length s"
  by (auto simp: lit_def has_prefix_iff split: if_splits)

lemma length_tl_skipWS: "skipWS r \<noteq> [] \<Longrightarrow> length (tl (skipWS r)) < length r"
  using length_skipWS [of r] by (cases "skipWS r") simp_all

lemma parse_value_length: "parse_value s = Some (v, t) \<Longrightarrow> length t < length s"
proof (cases s)
  case Nil
  then show "parse_value s = Some (v, t) \<Longrightarrow> ?thesis" by (simp add: parse_value.simps)
next
  case (Cons c r)
  assume p: "parse_value s = Some (v, t)"
  have "t = tl (skipWS r) \<and> skipWS r \<noteq> [] \<or> (\<exists>m. parse_members (skipWS r) = Some (m, t))
      \<or> (\<exists>m. parse_items (skipWS r) = Some (m, t)) \<or> (\<exists>m. unquote r = Some (m, t))
      \<or> lit ''true'' s = Inr t \<or> lit ''false'' s = Inr t \<or> lit ''null'' s = Inr t
      \<or> parseNumber s = Inr t"
    using p Cons by (auto simp: parse_value.simps [of "c # r"] split: if_splits sum.splits)
  then show ?thesis
    using length_skipWS [of r] length_tl_skipWS [of r] Cons
    by (auto dest!: parse_members_length parse_items_length unquote_length lit_length [rotated]
        parseNumber_length)
qed

lemma parse_items_eq:
  "parse_items s =
     (case parse_value s of
        None \<Rightarrow> None
      | Some (v, t) \<Rightarrow>
          (case skipWS t of
             [] \<Rightarrow> None
           | d # u \<Rightarrow>
               if d = CHR '']'' then Some ([v], u)
               else if d = CHR '','' then map_option (apfst ((#) v)) (parse_items (skipWS u))
               else None))"
  by (subst parse_items.simps) (auto split: option.splits dest: parse_value_length)

lemma parse_members_eq:
  "parse_members (CHR 0x22 # r) =
     (case unquote r of
        None \<Rightarrow> None
      | Some (k, t) \<Rightarrow>
          (case skipWS t of
             [] \<Rightarrow> None
           | d # u \<Rightarrow>
               if d \<noteq> CHR '':'' then None
               else
                 (case parse_value (skipWS u) of
                    None \<Rightarrow> None
                  | Some (v, w) \<Rightarrow>
                      (case skipWS w of
                         [] \<Rightarrow> None
                       | e # x \<Rightarrow>
                           if e = CHR ''}'' then Some ([(k, v)], x)
                           else if e = CHR '','' then
                             map_option (apfst ((#) (k, v))) (parse_members (skipWS x))
                           else None))))"
proof -
  have "length w < Suc (length r)"
    if "unquote r = Some (k, t)" "skipWS t = d # u" "parse_value (skipWS u) = Some (v, w)"
    for k t d u v w
    using unquote_length [OF that(1)] skipWS_less [OF that(2)] length_skipWS [of u]
      parse_value_length [OF that(3)] by simp
  then show ?thesis
    by (subst parse_members.simps) (auto split: option.splits list.splits)
qed

section \<open>Printing, then parsing\<close>

text \<open>Numbers that spell as an \<open>int32\<close>, and values whose strings are valid UTF-8.\<close>

definition is_int32_float :: "float64 \<Rightarrow> bool" where
  "is_int32_float f =
     (case f of F64 q \<Rightarrow> q = of_int \<lfloor>q\<rfloor> \<and> MinInt32 \<le> \<lfloor>q\<rfloor> \<and> \<lfloor>q\<rfloor> \<le> MaxInt32 | _ \<Rightarrow> False)"

primrec printable :: "json \<Rightarrow> bool" where
  "printable JSONNull \<longleftrightarrow> True"
| "printable JSONFalse \<longleftrightarrow> True"
| "printable JSONTrue \<longleftrightarrow> True"
| "printable (JSONNumber n) \<longleftrightarrow> is_int32_float n"
| "printable (JSONString s) \<longleftrightarrow> utf8_valid s"
| "printable (JSONArray xs) \<longleftrightarrow> list_all id (map printable xs)"
| "printable (JSONObject kvs) \<longleftrightarrow>
     list_all (\<lambda>(k, p). utf8_valid k \<and> p) (map (map_prod id printable) kvs)"

lemma is_int32_floatE:
  assumes "is_int32_float f"
  obtains i where "f = F64 (of_int i)" "MinInt32 \<le> i" "i \<le> MaxInt32"
  using assms by (auto simp: is_int32_float_def split: float64.splits)

lemma is_int32_float_of_int: "MinInt32 \<le> i \<Longrightarrow> i \<le> MaxInt32 \<Longrightarrow> is_int32_float (F64 (of_int i))"
  by (simp add: is_int32_float_def)

lemma CJSONNumber_int:
  assumes "MinInt32 \<le> i" "i \<le> MaxInt32"
  shows "CJSONNumber (F64 (of_int i)) = int_str i"
proof -
  have "cjsonInt (F64 (of_int i)) = i"
    using assms by (auto simp: cjsonInt_def)
  then show ?thesis by (simp add: CJSONNumber_def Let_def feq_def)
qed

text \<open>What may follow a printed value inside a document.\<close>

definition value_end :: "string \<Rightarrow> bool" where
  "value_end s \<longleftrightarrow> s = [] \<or> hd s \<in> {CHR '','', CHR '']'', CHR ''}''}"

lemma value_end_simps [simp]:
  "value_end []" "value_end (CHR '','' # s)" "value_end (CHR '']'' # s)" "value_end (CHR ''}'' # s)"
  by (simp_all add: value_end_def)

lemma value_end_not_number:
  "value_end s \<Longrightarrow> dropWhile is_digit s = s \<and> number_frac s = Some s \<and> number_exp s = Some s"
proof (cases s)
  case Nil
  then show ?thesis by (simp add: number_frac_def number_exp_def)
next
  case (Cons c r)
  assume "value_end s"
  then consider "c = CHR '',''" | "c = CHR '']''" | "c = CHR ''}''"
    using Cons by (auto simp: value_end_def)
  then show ?thesis
    by cases (simp_all add: Cons number_frac_def number_exp_def is_digit_def byte_def)
qed

lemma number_int_nat_str:
  assumes "value_end rest"
  shows "number_int (nat_str n @ rest) = Some rest"
proof (cases "n = 0")
  case True
  have "nat_str 0 = ''0''" by (simp add: nat_str_def to_base.simps)
  then show ?thesis using True by (simp add: number_int_def)
next
  case False
  obtain c cs where c: "nat_str n = c # cs" by (cases "nat_str n") simp_all
  have "hd (to_base 10 n) \<noteq> 0" using False by (intro to_base_hd) simp_all
  moreover have "hd (to_base 10 n) < 10"
    by (rule to_base_digits [of 10 _ n]) simp_all
  moreover have "c = digit_char (hd (to_base 10 n))"
    using c by (cases "to_base 10 n") (simp_all add: nat_str_def)
  ultimately have "c \<noteq> CHR ''0''"
    by (subst byte_inject [symmetric]) (simp add: byte_digit_char, simp add: byte_def)
  moreover have "dropWhile is_digit (nat_str n @ rest) = rest"
    using value_end_not_number [OF assms] by (simp add: dropWhile_append2 is_digit_nat_str)
  moreover have "is_digit c" using is_digit_nat_str [of c n] c by simp
  ultimately show ?thesis using c by (simp add: number_int_def)
qed

lemma parseNumber_int_str:
  assumes "value_end rest"
  shows "parseNumber (int_str i @ rest) = Inr rest"
proof -
  note e = value_end_not_number [OF assms]
  have "nat_str n @ rest \<noteq> [] \<and> hd (nat_str n @ rest) \<noteq> CHR ''-''" for n
    using hd_nat_str [of n] by simp
  then show ?thesis
    using e by (simp add: parseNumber_def int_str_def Let_def number_int_nat_str [OF assms])
qed


end
