(* ===== verification/JsonRoundTrip.thy ===== *)
theory JsonRoundTrip
  imports JsonParse
begin

text \<open>
  The parser reads back what the printer of \<open>jsonval.go\<close> and \<open>cjson.go\<close> writes: first for the
  escapes of one byte, then for strings, numbers, comma-separated lists and whole documents.
\<close>

section \<open>Escapes\<close>

lemma append_op_Cons [simp]: "(@) (x # xs) = (\<lambda>ys. x # xs @ ys)"
  by (rule ext) simp

lemma cont_byte_high: "cont_byte c \<Longrightarrow> 0x80 \<le> byte c"
proof (rule ccontr)
  assume "cont_byte c" "\<not> 0x80 \<le> byte c"
  then have "byte c < 2 ^ 7" by simp
  then have "take_bit 7 (byte c) = byte c" by (simp add: take_bit_nat_eq_self)
  then have "\<not> bit (byte c) 7" by (metis bit_take_bit_iff order_less_irrefl)
  moreover have "bit (byte c AND 0xC0) 7"
    using \<open>cont_byte c\<close> by (simp add: cont_byte_def bit_iff_odd)
  ultimately show False by (simp add: bit_and_iff)
qed

lemma hexVal_digit_char: "d < 16 \<Longrightarrow> hexVal (digit_char d) = Some d"
  by (simp add: hexVal_def char_le_byte byte_digit_char) (simp add: byte_def)

lemma to_base_16_small: "b < 16 \<Longrightarrow> to_base 16 b = [b]"
  by (subst to_base.simps) simp

lemma to_base_16_two: "16 \<le> b \<Longrightarrow> b < 256 \<Longrightarrow> to_base 16 b = [b div 16, b mod 16]"
  by (subst to_base.simps) (simp add: to_base_16_small less_mult_imp_div_less)

lemma hex4_hex4_str: 
  assumes "b < 256"
  shows "hex4 (hex4_str b @ r) = Some (b, r)"
proof -
  have rep: "replicate 3 x = [x, x, x]" "replicate 2 x = [x, x]" for x :: char
    by (simp_all add: numeral_3_eq_3 numeral_2_eq_2)
  have h: "hex4_str b = [CHR ''0'', CHR ''0'', digit_char (b div 16), digit_char (b mod 16)]"
    using assms
    by (cases "b < 16")
      (simp_all add: hex4_str_def hex_str_def to_base_16_small to_base_16_two Let_def rep)
  have d: "b div 16 < 16" "b mod 16 < 16" using assms by (auto simp: less_mult_imp_div_less)
  have "push_bit 4 (b div 16) OR b mod 16 = b"
  proof -
    have "push_bit 4 (drop_bit 4 b) OR take_bit 4 b = b" by (rule bit_eqI) (auto simp: bit_simps)
    then show ?thesis by (simp add: drop_bit_eq_div take_bit_eq_mod)
  qed
  moreover have "hexVal (CHR ''0'') = Some 0" by (simp add: hexVal_def byte_def)
  moreover have "hex_digits 4 v s = hex_digits (Suc (Suc (Suc (Suc 0)))) v s" for v s
    by (simp add: eval_nat_numeral)
  ultimately show ?thesis using d
    by (simp add: hex4_def h hexVal_digit_char)
qed

lemma AppendRune_ascii: "r < 0x80 \<Longrightarrow> AppendRune r = [char_of r]"
  by (simp add: AppendRune_def Let_def)

lemma unquote_escape_byte:
  assumes "byte c < 0x80"
  shows "unquote (cjsonEscapeByte c @ s) = map_option (apfst ((#) c)) (unquote s)"
proof -
  let ?S = "set [CHR 0x22, CHR 0x5C, CHR 0x08, CHR 0x0C, CHR 0x0A, CHR 0x0D, CHR 0x09]"
  consider "c \<in> ?S" | "c \<notin> ?S" "byte c < 32" | "c \<notin> ?S" "32 \<le> byte c"
    by fastforce
  then show ?thesis
  proof cases
    case 1
    then show ?thesis
      by (auto simp: cjsonEscapeByte_def unquote_escape simple_escape_def)
  next
    case 2
    then show ?thesis
      by (simp add: cjsonEscapeByte_def unquote_unicode hex4_hex4_str unicode_escape_def
          AppendRune_ascii)
  next
    case 3
    then have "cjsonEscapeByte c = [c]" by (simp add: cjsonEscapeByte_def)
    with 3 show ?thesis using assms
      by (simp add: unquote_raw utf8Sequence_def Let_def)
  qed
qed

lemma utf8Sequence_high:
  assumes "utf8Sequence s = Some n" "n \<noteq> 1" "i < n"
  shows "0x80 \<le> byte (s ! i)"
proof (cases s)
  case Nil
  with assms show ?thesis by (simp add: utf8Sequence_def)
next
  case (Cons c r)
  have n: "n \<le> 4" "0x80 \<le> byte c" 
    using assms(1,2) unfolding Cons by (auto simp: utf8Sequence_def Let_def split: if_splits)
  have mid: "cont_at s j \<or> byte_in s j 0x80 0xBF" if j: "0 < j" "j < n" for j
  proof -
    consider "j = 1" | "j = 2" | "j = 3" using j n by linarith
    then show ?thesis
      using assms(1,2) j unfolding Cons
      by cases (auto simp: utf8Sequence_def byte_in_def Let_def split: if_splits)
  qed
  show ?thesis
  proof (cases i)
    case 0
    then show ?thesis using n Cons by simp
  next
    case (Suc j)
    then show ?thesis
      using mid [of i] assms(3) cont_byte_high by (auto simp: cont_at_def byte_in_def)
  qed
qed

lemma cjsonEscapeByte_high: "0x80 \<le> byte c \<Longrightarrow> cjsonEscapeByte c = [c]"
proof -
  assume h: "0x80 \<le> byte c"
  have "byte d < 0x80"
    if "d \<in> set [CHR 0x22, CHR 0x5C, CHR 0x08, CHR 0x0C, CHR 0x0A, CHR 0x0D, CHR 0x09]" for d
    using that by (auto simp: byte_def)
  with h have "c \<notin> set [CHR 0x22, CHR 0x5C, CHR 0x08, CHR 0x0C, CHR 0x0A, CHR 0x0D, CHR 0x09]"
    by (metis not_less)
  with h show ?thesis by (simp add: cjsonEscapeByte_def)
qed

lemma concat_singletons: "(\<And>x. x \<in> set xs \<Longrightarrow> f x = [x]) \<Longrightarrow> concat (map f xs) = xs"
  by (induction xs) auto

lemma unquote_escape_string:
  "utf8_valid s \<Longrightarrow> unquote (concat (map cjsonEscapeByte s) @ CHR 0x22 # rest) = Some (s, rest)"
proof (induction s rule: utf8_valid.induct)
  case (1 s)
  let ?esc = "\<lambda>s. concat (map cjsonEscapeByte s)"
  show ?case
  proof (cases s)
    case Nil
    then show ?thesis by simp
  next
    case (Cons c r)
    with "1.prems" obtain n where n: "utf8Sequence s = Some n" "utf8_valid (drop n s)"
      by (subst (asm) utf8_valid.simps) (auto split: option.splits)
    with "1.IH" Cons have IH: "unquote (?esc (drop n s) @ CHR 0x22 # rest) = Some (drop n s, rest)"
      by simp
    note b = utf8Sequence_bounds [OF n(1)]
    show ?thesis
    proof (cases "n = 1")
      case True
      then have "byte c < 0x80"
        using n(1) unfolding Cons by (auto simp: utf8Sequence_def Let_def split: if_splits)
      then show ?thesis using IH True Cons by (simp add: unquote_escape_byte)
    next
      case False
      have high: "0x80 \<le> byte d" if "d \<in> set (take n s)" for d
        using that utf8Sequence_high [OF n(1) False] b by (auto simp: in_set_conv_nth)
      have "?esc (take n s) = take n s"
        by (rule concat_singletons) (simp add: high cjsonEscapeByte_high)
      then have split: "?esc s = take n s @ ?esc (drop n s)"
        by (metis append_take_drop_id concat_append map_append)
      have c: "take n s = c # take (n - 1) r" using b Cons by (cases n) simp_all
      have "0x80 \<le> byte c" using high c by simp
      then have ne: "c \<noteq> CHR 0x22" "c \<noteq> CHR 0x5C" "\<not> byte c < 0x20"
        using cjsonEscapeByte_high [of c] by (auto simp: cjsonEscapeByte_def)
      let ?t = "?esc (drop n s) @ CHR 0x22 # rest"
      have "utf8Sequence (take n s @ ?t) = Some n" by (rule utf8Sequence_prefix [OF n(1)])
      moreover have "take n (take n s @ ?t) = take n s" "drop n (take n s @ ?t) = ?t" using b by simp_all
      ultimately have "unquote (take n s @ ?t) = map_option (apfst ((@) (take n s))) (unquote ?t)"
        using ne unfolding c append_Cons by (subst unquote_raw) simp_all
      then show ?thesis by (simp add: split IH)
    qed
  qed
qed


lemma unquote_cjsonEscape:
  "utf8_valid s \<Longrightarrow> unquote (tl (cjsonEscape s) @ rest) = Some (s, rest)"
  by (simp add: cjsonEscape_def unquote_escape_string)

lemma cjsonEscape_Cons: "cjsonEscape s = CHR 0x22 # tl (cjsonEscape s)"
  by (simp add: cjsonEscape_def)

text \<open>The first byte of a printed value: not a blank and not a closing bracket.\<close>

definition value_start :: "char \<Rightarrow> bool" where
  "value_start c \<longleftrightarrow> \<not> jsonWS c \<and> c \<noteq> CHR '']'' \<and> c \<noteq> CHR ''}''"

lemma number_start:
  obtains c r where "int_str i = c # r" "c = CHR ''-'' \<or> is_digit c"
proof (cases "i < 0")
  case True
  then show ?thesis using that by (simp add: int_str_def)
next
  case False
  obtain c r where "nat_str (nat i) = c # r" by (cases "nat_str (nat i)") simp_all
  moreover from this have "is_digit c" using is_digit_nat_str [of c "nat i"] by simp
  ultimately show ?thesis using that False by (simp add: int_str_def)
qed

lemma digit_value_start:
  assumes "c = CHR ''-'' \<or> is_digit c"
  shows "value_start c \<and> c \<noteq> CHR ''{'' \<and> c \<noteq> CHR ''['' \<and> c \<noteq> CHR 0x22
    \<and> c \<noteq> CHR ''t'' \<and> c \<noteq> CHR ''f'' \<and> c \<noteq> CHR ''n''"
proof -
  have "\<not> is_digit d \<and> d \<noteq> CHR ''-''"
    if "d \<in> set [CHR '' '', CHR 0x09, CHR 0x0A, CHR 0x0D, CHR '']'', CHR ''}'', CHR ''{'', CHR ''['',
      CHR 0x22, CHR ''t'', CHR ''f'', CHR ''n'']" for d
    using that by (auto simp: is_digit_def byte_def)
  with assms have "c \<notin> set [CHR '' '', CHR 0x09, CHR 0x0A, CHR 0x0D, CHR '']'', CHR ''}'', CHR ''{'',
      CHR ''['', CHR 0x22, CHR ''t'', CHR ''f'', CHR ''n'']"
    by blast
  then show ?thesis by (simp add: value_start_def jsonWS_def)
qed

lemma print_start:
  assumes "printable v"
  obtains c r where "PrintJSONUnformatted v = c # r" "value_start c"
proof (cases v)
  case (JSONNumber f)
  with assms obtain i where "f = F64 (of_int i)" "MinInt32 \<le> i" "i \<le> MaxInt32"
    by (auto elim: is_int32_floatE)
  moreover obtain c r where "int_str i = c # r" "c = CHR ''-'' \<or> is_digit c"
    by (rule number_start)
  ultimately show ?thesis
    using that digit_value_start [of c] by (simp add: JSONNumber CJSONNumber_int)
qed (use that in \<open>simp_all add: value_start_def jsonWS_def cjsonEscape_def\<close>)

lemma parse_print_number:
  assumes "is_int32_float f" "value_end rest"
  shows "parse_value (CJSONNumber f @ rest) = Some (JSONNumber f, rest)"
proof -
  obtain i where f: "f = F64 (of_int i)" "MinInt32 \<le> i" "i \<le> MaxInt32"
    using assms(1) by (rule is_int32_floatE)
  obtain c r where c: "int_str i = c # r" "c = CHR ''-'' \<or> is_digit c"
    by (rule number_start)
  have "\<bar>i\<bar> < 2 ^ 53" using f by (simp add: MinInt32_def MaxInt32_def)
  then have "ParseFloat (int_str i) = Some f"
    using ParseFloat_int_str f(1) by simp
  moreover have "parseNumber (c # r @ rest) = Inr rest"
    using parseNumber_int_str [OF assms(2), of i] c(1) by simp
  ultimately show ?thesis
    using digit_value_start [OF c(2)] c(1)
    by (simp add: f(1) CJSONNumber_int [OF f(2,3)] parse_value.simps [of "c # r @ rest"])
qed

lemma parse_print_string:
  "utf8_valid s \<Longrightarrow> parse_value (cjsonEscape s @ rest) = Some (JSONString s, rest)"
  by (subst cjsonEscape_Cons) (simp add: parse_value.simps unquote_cjsonEscape)

lemma skipWS_start: "value_start c \<Longrightarrow> skipWS (c # r) = c # r"
  by (simp add: value_start_def skipWS_Cons_not)

lemma skipWS_sep [simp]:
  "skipWS (CHR '','' # s) = CHR '','' # s" "skipWS (CHR '']'' # s) = CHR '']'' # s"
  "skipWS (CHR ''}'' # s) = CHR ''}'' # s" "skipWS (CHR '':'' # s) = CHR '':'' # s"
  "skipWS (CHR 0x22 # s) = CHR 0x22 # s" "skipWS [] = []"
  by (simp_all add: skipWS_def jsonWS_def)

lemma parse_items_commas:
  assumes "\<And>x rest. x \<in> set xs \<Longrightarrow> value_end rest \<Longrightarrow>
      parse_value (PrintJSONUnformatted x @ rest) = Some (x, rest)"
    and "\<And>x. x \<in> set xs \<Longrightarrow> printable x" and "xs \<noteq> []"
  shows "parse_items (commas (map PrintJSONUnformatted xs) @ CHR '']'' # rest) = Some (xs, rest)"
  using assms
proof (induction xs)
  case Nil
  then show ?case by simp
next
  case (Cons x xs)
  show ?case
  proof (cases xs)
    case Nil
    then show ?thesis using Cons.prems by (subst parse_items_eq) simp
  next
    case (Cons y ys)
    have IH: "parse_items (commas (map PrintJSONUnformatted xs) @ CHR '']'' # rest) = Some (xs, rest)"
      using Cons.IH Cons.prems Cons by simp
    have "printable y" using Cons.prems(2) [of y] Cons by simp
    then obtain c r where "PrintJSONUnformatted y = c # r" "value_start c"
      by (rule print_start)
    then have "skipWS (commas (map PrintJSONUnformatted xs) @ t)
        = commas (map PrintJSONUnformatted xs) @ t" for t
      using Cons by (cases ys) (simp_all add: skipWS_start)
    then show ?thesis
      using Cons.prems(1) [of x] IH Cons by (subst parse_items_eq) simp
  qed
qed

lemma parse_members_commas:
  assumes "\<And>k x rest. (k, x) \<in> set kvs \<Longrightarrow> value_end rest \<Longrightarrow>
      parse_value (PrintJSONUnformatted x @ rest) = Some (x, rest)"
    and "\<And>k x. (k, x) \<in> set kvs \<Longrightarrow> utf8_valid k \<and> printable x" and "kvs \<noteq> []"
  shows "parse_members (commas (map print_member (map (map_prod id PrintJSONUnformatted) kvs))
      @ CHR ''}'' # rest) = Some (kvs, rest)"
  using assms
proof (induction kvs)
  case Nil
  then show ?case by simp
next
  case (Cons kx kvs)
  obtain k x where kx: "kx = (k, x)" by fastforce
  let ?C = "\<lambda>kvs. commas (map print_member (map (map_prod id PrintJSONUnformatted) kvs))"
  have "printable x" using Cons.prems(2) [of k x] kx by simp
  then obtain c r where c: "PrintJSONUnformatted x = c # r" "value_start c"
    by (rule print_start)
  have ws: "skipWS (PrintJSONUnformatted x @ t) = PrintJSONUnformatted x @ t" for t
    using c by (simp add: skipWS_start)
  have k: "unquote (tl (cjsonEscape k) @ t) = Some (k, t)" for t
    using Cons.prems(2) [of k x] kx by (simp add: unquote_cjsonEscape)
  have val: "parse_value (PrintJSONUnformatted x @ t) = Some (x, t)" if "value_end t" for t
    using Cons.prems(1) [of k x t] that kx by simp
  note start = cjsonEscape_Cons [of k]
  show ?case
  proof (cases kvs)
    case Nil
    show ?thesis
      unfolding Nil kx by (simp add: print_member_def) (subst start, simp add: parse_members_eq k ws val)
  next
    case (Cons p ps)
    have IH: "parse_members (?C kvs @ CHR ''}'' # rest) = Some (kvs, rest)"
      using Cons by (intro Cons.IH Cons.prems) auto
    obtain m where m: "?C kvs = CHR 0x22 # m"
      using Cons by (cases ps) (auto simp: print_member_def cjsonEscape_def)
    have "?C (kx # kvs) = cjsonEscape k @ CHR '':'' # PrintJSONUnformatted x @ CHR '','' # ?C kvs"
      using Cons by (simp add: kx print_member_def)
    then have "?C (kx # kvs) @ CHR ''}'' # rest
        = cjsonEscape k @ CHR '':'' # PrintJSONUnformatted x @ CHR '','' # ?C kvs @ CHR ''}'' # rest"
      by (simp only: append_assoc append_Cons)
    moreover have "parse_members (cjsonEscape k @ CHR '':'' # PrintJSONUnformatted x @ CHR '','' # ?C kvs @ CHR ''}'' # rest)
        = Some (kx # kvs, rest)"
      using IH unfolding m by (subst start) (simp add: parse_members_eq k ws val kx)
    ultimately show ?thesis by (simp only:)
  qed
qed

lemma parse_print:
  "printable v \<Longrightarrow> value_end rest \<Longrightarrow> parse_value (PrintJSONUnformatted v @ rest) = Some (v, rest)"
proof (induction v arbitrary: rest)
  case JSONNull
  then show ?case by (simp add: parse_value.simps lit_def has_prefix_def)
next
  case JSONFalse
  then show ?case by (simp add: parse_value.simps lit_def has_prefix_def)
next
  case JSONTrue
  then show ?case by (simp add: parse_value.simps lit_def has_prefix_def)
next
  case (JSONNumber f)
  then show ?case by (simp add: parse_print_number)
next
  case (JSONString s)
  then show ?case by (simp add: parse_print_string)
next
  case (JSONArray xs)
  show ?case
  proof (cases "xs = []")
    case True
    then show ?thesis by (simp add: parse_value.simps)
  next
    case False
    have p: "\<And>x. x \<in> set xs \<Longrightarrow> printable x" using JSONArray.prems by (simp add: list_all_iff)
    then have "parse_items (commas (map PrintJSONUnformatted xs) @ CHR '']'' # rest) = Some (xs, rest)"
      using False JSONArray.IH by (intro parse_items_commas) auto
    moreover have "printable (hd xs)" using False by (intro p) simp
    then obtain c r where "PrintJSONUnformatted (hd xs) = c # r" "value_start c"
      by (rule print_start)
    then have "skipWS (commas (map PrintJSONUnformatted xs) @ t)
          = commas (map PrintJSONUnformatted xs) @ t
        \<and> hd (commas (map PrintJSONUnformatted xs) @ t) \<noteq> CHR '']''" for t
      using False by (cases xs; cases "tl xs") (auto simp: skipWS_start value_start_def)
    ultimately show ?thesis by (simp add: parse_value.simps)
  qed
next
  case (JSONObject kvs)
  show ?case
  proof (cases "kvs = []")
    case True
    then show ?thesis by (simp add: parse_value.simps)
  next
    case False
    let ?C = "commas (map print_member (map (map_prod id PrintJSONUnformatted) kvs))"
    have "parse_members (?C @ CHR ''}'' # rest) = Some (kvs, rest)"
    proof (rule parse_members_commas)
      fix k x rest assume kx: "(k, x) \<in> set kvs" "value_end rest"
      then have "printable x" using JSONObject.prems by (auto simp: list_all_iff)
      then show "parse_value (PrintJSONUnformatted x @ rest) = Some (x, rest)"
        using JSONObject.IH [of "(k, x)" x rest] kx by (simp add: snds.simps)
    qed (use JSONObject.prems False in \<open>auto simp: list_all_iff\<close>)
    moreover obtain m where "?C = CHR 0x22 # m"
      using False by (cases kvs; cases "tl kvs") (auto simp: print_member_def cjsonEscape_def)
    ultimately show ?thesis by (simp add: parse_value.simps)
  qed
qed
lemma parse_printed: "printable v \<Longrightarrow> ParseJSON (PrintJSONUnformatted v) = Some v"
proof -
  assume v: "printable v"
  then obtain c r where "PrintJSONUnformatted v = c # r" "value_start c" by (rule print_start)
  then have "skipWS (PrintJSONUnformatted v) = PrintJSONUnformatted v"
    by (simp add: skipWS_start)
  then show ?thesis using parse_print [OF v, of "[]"] by (simp add: ParseJSON_def)
qed

section \<open>Properties\<close>

text \<open>C28: a document whose strings are valid UTF-8 and whose numbers are 32-bit integers survives
  printing and parsing: the parser accepts the printed text and returns the same value, member order
  and repeated member names included.\<close>

theorem ParseJSON_PrintJSON: "printable v \<Longrightarrow> ParseJSON (PrintJSONUnformatted v) = Some v"
  by (rule parse_printed)

theorem ParseJSON_PrintJSON_witness:
  "ParseJSON (PrintJSONUnformatted (JSONObject
      [(''a'', JSONArray [JSONNumber (F64 (- 7)), JSONString [CHR 0x0A, CHR 0x22, CHR 0xC3, CHR 0xA9]]),
       (''a'', JSONNull)]))
    = Some (JSONObject
      [(''a'', JSONArray [JSONNumber (F64 (- 7)), JSONString [CHR 0x0A, CHR 0x22, CHR 0xC3, CHR 0xA9]]),
       (''a'', JSONNull)])"
  by (rule ParseJSON_PrintJSON) code_simp

end
