(* ===== verification/JsonCompact.thy ===== *)
theory JsonCompact
  imports JsonRoundTrip
begin

text \<open>
  \<open>json_compact.go\<close>: the strict validator (\<open>parseString\<close>, \<open>parseArray\<close>, \<open>parseObject\<close>, \<open>parseValue\<close>,
  \<open>keysUnique\<close>) and the byte-copy pass of \<open>JSONCompact\<close>. The cursor \<open>(s, p)\<close> of \<open>jsonParser\<close> is the
  remaining input. The lemmas show that the copy pass keeps a valid document valid: the validator run
  on the compacted text takes the same path, so compaction is idempotent.
\<close>

definition JSONMaxInput :: nat where "JSONMaxInput = 16 * 1024 * 1024"
definition JSONMaxDepth :: nat where "JSONMaxDepth = 64"
definition JSONMaxObjectMembers :: nat where "JSONMaxObjectMembers = 65536"

text \<open>\<open>econ_json_result_str\<close>.\<close>

fun JSONResult_String :: "JSONResult \<Rightarrow> string" where
  "JSONResult_String JSONOK = ''ok''"
| "JSONResult_String JSONInvalidArgument = ''invalid_argument''"
| "JSONResult_String JSONTooLarge = ''too_large''"
| "JSONResult_String JSONTooDeep = ''too_deep''"
| "JSONResult_String JSONInvalidUTF8 = ''invalid_utf8''"
| "JSONResult_String JSONInvalidSyntax = ''invalid_syntax''"
| "JSONResult_String JSONDuplicateKey = ''duplicate_key''"
| "JSONResult_String JSONNotShorter = ''not_shorter''"

section \<open>Strings\<close>

text \<open>The \<open>\u\<close> escape after its code unit has been read: the code point and the input after it.\<close>

definition strict_escape :: "nat \<Rightarrow> string \<Rightarrow> JSONResult + nat \<times> string" where
  "strict_escape cp r =
     (if 0xD800 \<le> cp \<and> cp \<le> 0xDBFF then
        (if length r < 6 \<or> r ! 0 \<noteq> CHR 0x5C \<or> r ! 1 \<noteq> CHR ''u'' then Inl JSONInvalidSyntax
         else (case hex4 (drop 2 r) of
                 None \<Rightarrow> Inl JSONInvalidSyntax
               | Some (low, r') \<Rightarrow>
                   (if low < 0xDC00 \<or> 0xDFFF < low then Inl JSONInvalidSyntax
                    else Inr (case DecodeRune16 cp low of Some d \<Rightarrow> d | None \<Rightarrow> 0xFFFD, r'))))
      else if 0xDC00 \<le> cp \<and> cp \<le> 0xDFFF then Inl JSONInvalidSyntax
      else Inr (cp, r))"

lemma strict_escape_length: "strict_escape cp r = Inr (d, r') \<Longrightarrow> length r' \<le> length r"
  by (fastforce simp: strict_escape_def dest: hex4_length split: if_splits option.splits)

text \<open>The loop of \<open>parseString\<close>, after the opening quote; \<open>out\<close> accumulates the decoded bytes.\<close>

function parseString_loop :: "bool \<Rightarrow> string \<Rightarrow> string \<Rightarrow> JSONResult + string \<times> string" where
  "parseString_loop decode out s =
     (case s of
        [] \<Rightarrow> Inl JSONInvalidSyntax
      | c # r \<Rightarrow>
          if c = CHR 0x22 then Inr (out, r)
          else if byte c < 0x20 then Inl JSONInvalidSyntax
          else if c = CHR 0x5C then
            (case r of
               [] \<Rightarrow> Inl JSONInvalidSyntax
             | e # r1 \<Rightarrow>
                 if e = CHR ''u'' then
                   (case hex4 r1 of
                      None \<Rightarrow> Inl JSONInvalidSyntax
                    | Some (cp, r2) \<Rightarrow>
                        (case strict_escape cp r2 of
                           Inl err \<Rightarrow> Inl err
                         | Inr (d, r3) \<Rightarrow>
                             parseString_loop decode (if decode then out @ AppendRune d else out) r3))
                 else
                   (case simple_escape e of
                      None \<Rightarrow> Inl JSONInvalidSyntax
                    | Some v \<Rightarrow> parseString_loop decode (if decode then out @ [v] else out) r1))
          else
            (case utf8Sequence s of
               None \<Rightarrow> Inl JSONInvalidUTF8
             | Some sz \<Rightarrow>
                 parseString_loop decode (if decode then out @ take sz s else out) (drop sz s)))"
  by pat_completeness auto
termination
  by (relation "measure (length o snd o snd)")
    (auto dest: hex4_length strict_escape_length utf8Sequence_bounds,
     use hex4_length strict_escape_length in fastforce)

declare parseString_loop.simps [simp del]

definition parseString :: "bool \<Rightarrow> string \<Rightarrow> JSONResult + string \<times> string" where
  "parseString decode s =
     (case s of
        [] \<Rightarrow> Inl JSONInvalidSyntax
      | c # r \<Rightarrow> if c \<noteq> CHR 0x22 then Inl JSONInvalidSyntax else parseString_loop decode [] r)"

text \<open>\<open>keysUnique\<close>: sort, then compare neighbours. Equal byte strings are interchangeable, so the
  order \<open>sort.Slice\<close> leaves them in does not show.\<close>

definition keysUnique :: "string list \<Rightarrow> bool" where
  "keysUnique keys =
     (if length keys < 2 then True
      else let sorted_keys = sort keys
           in list_all (\<lambda>i. sorted_keys ! i \<noteq> sorted_keys ! (i - 1)) [1..<length sorted_keys])"

section \<open>Values\<close>

text \<open>
  \<open>parseArray\<close> and \<open>parseObject\<close> are given the input after their bracket and the whitespace behind
  it; \<open>array_loop\<close> and \<open>object_loop\<close> are their \<open>for\<close> loops. As in the other reader the tests
  \<open>length t < length s\<close> state the progress of the loop and always hold.
\<close>

function parseValue :: "nat \<Rightarrow> string \<Rightarrow> JSONResult + string"
  and array_loop :: "nat \<Rightarrow> string \<Rightarrow> JSONResult + string"
  and object_loop :: "nat \<Rightarrow> string list \<Rightarrow> string \<Rightarrow> JSONResult + string"
where
  "parseValue depth s0 =
     (if JSONMaxDepth \<le> depth then Inl JSONTooDeep
      else (case skipWS s0 of
        [] \<Rightarrow> Inl JSONInvalidSyntax
      | c # r \<Rightarrow>
          if c = CHR ''{'' then
            (if skipWS r \<noteq> [] \<and> hd (skipWS r) = CHR ''}'' then Inr (tl (skipWS r))
             else object_loop depth [] (skipWS r))
          else if c = CHR ''['' then
            (if skipWS r \<noteq> [] \<and> hd (skipWS r) = CHR '']'' then Inr (tl (skipWS r))
             else array_loop depth (skipWS r))
          else if c = CHR 0x22 then
            (case parseString False (c # r) of Inl err \<Rightarrow> Inl err | Inr (k, t) \<Rightarrow> Inr t)
          else if c = CHR ''t'' then lit ''true'' (c # r)
          else if c = CHR ''f'' then lit ''false'' (c # r)
          else if c = CHR ''n'' then lit ''null'' (c # r)
          else parseNumber (c # r)))"
| "array_loop depth s =
     (case parseValue (depth + 1) s of
        Inl err \<Rightarrow> Inl err
      | Inr t \<Rightarrow>
          if length t < length s then
            (case skipWS t of
               [] \<Rightarrow> Inl JSONInvalidSyntax
             | d # u \<Rightarrow>
                 if d = CHR '','' then array_loop depth (skipWS u)
                 else if d = CHR '']'' then Inr u
                 else Inl JSONInvalidSyntax)
          else Inl JSONInvalidSyntax)"
| "object_loop depth keys s =
     (case parseString True (skipWS s) of
        Inl err \<Rightarrow> Inl err
      | Inr (key, t) \<Rightarrow>
          if JSONMaxObjectMembers \<le> length keys then Inl JSONTooDeep
          else if length t < length s then
            (case skipWS t of
               [] \<Rightarrow> Inl JSONInvalidSyntax
             | d # u \<Rightarrow>
                 if d \<noteq> CHR '':'' then Inl JSONInvalidSyntax
                 else
                   (case parseValue (depth + 1) (skipWS u) of
                      Inl err \<Rightarrow> Inl err
                    | Inr w \<Rightarrow>
                        if length w < length s then
                          (case skipWS w of
                             [] \<Rightarrow> Inl JSONInvalidSyntax
                           | e # x \<Rightarrow>
                               if e = CHR '','' then object_loop depth (keys @ [key]) x
                               else if e = CHR ''}'' then
                                 (if \<not> keysUnique (keys @ [key]) then Inl JSONDuplicateKey
                                  else Inr x)
                               else Inl JSONInvalidSyntax)
                        else Inl JSONInvalidSyntax))
          else Inl JSONInvalidSyntax)"
  by pat_completeness auto

termination
proof (relation "measure (case_sum (\<lambda>(d, s). 2 * length s)
    (case_sum (\<lambda>(d, s). 2 * length s + 1) (\<lambda>(d, k, s). 2 * length s + 1)))", goal_cases)
  case (2 depth s0 c r)
  then show ?case using length_skipWS [of r] skipWS_less [of s0 c r] by simp
next
  case (3 depth s0 c r)
  then show ?case using length_skipWS [of r] skipWS_less [of s0 c r] by simp
next
  case (5 depth s t d u)
  then show ?case using length_skipWS [of u] skipWS_less [of t d u] by simp
next
  case (6 depth keys s kt key t d u)
  then show ?case using length_skipWS [of u] skipWS_less [of t d u] by simp
next
  case (7 depth keys s kt key t d u w e x)
  then show ?case using skipWS_less [of w e x] by simp
qed simp_all

declare parseValue.simps [simp del] array_loop.simps [simp del] object_loop.simps [simp del]

section \<open>Compaction\<close>

text \<open>The copy pass: \<open>inString\<close> and \<open>escaped\<close> are the loop's flags.\<close>

fun copy_pass :: "bool \<Rightarrow> bool \<Rightarrow> string \<Rightarrow> string" where
  "copy_pass inString escaped [] = []"
| "copy_pass inString escaped (c # s) =
     (if \<not> inString \<and> jsonWS c then copy_pass inString escaped s
      else if inString then
        (if escaped then c # copy_pass inString False s
         else if c = CHR 0x5C then c # copy_pass inString True s
         else if c = CHR 0x22 then c # copy_pass False escaped s
         else c # copy_pass inString escaped s)
      else if c = CHR 0x22 then c # copy_pass True escaped s
      else c # copy_pass inString escaped s)"

definition JSONCompact :: "string \<Rightarrow> JSONResult + string" where
  "JSONCompact input =
     (if input = [] then Inl JSONInvalidSyntax
      else if JSONMaxInput < length input then Inl JSONTooLarge
      else (case parseValue 0 input of
              Inl r \<Rightarrow> Inl r
            | Inr t \<Rightarrow>
                if skipWS t \<noteq> [] then Inl JSONInvalidSyntax
                else let out = copy_pass False False input
                     in if length input \<le> length out then Inl JSONNotShorter else Inr out))"

section \<open>Compaction keeps a document valid\<close>

abbreviation strip :: "string \<Rightarrow> string" where "strip \<equiv> copy_pass False False"
abbreviation strip_in :: "string \<Rightarrow> string" where "strip_in \<equiv> copy_pass True False"

lemma strip_skipWS [simp]: "strip (skipWS s) = strip s"
  by (induction s) (simp_all add: skipWS_def)

lemma skipWS_strip [simp]: "skipWS (strip s) = strip s"
  by (induction s) (auto simp: skipWS_def jsonWS_def)

lemma strip_Cons: "\<not> jsonWS c \<Longrightarrow> c \<noteq> CHR 0x22 \<Longrightarrow> strip (c # s) = c # strip s"
  by simp

lemma strip_quote: "strip (CHR 0x22 # s) = CHR 0x22 # strip_in s"
  by (simp add: jsonWS_def)

lemma copy_pass_idem [simp]: "copy_pass i e (copy_pass i e s) = copy_pass i e s"
  by (induction i e s rule: copy_pass.induct) (auto simp: jsonWS_def)

lemma length_copy_pass: "length (copy_pass i e s) \<le> length s"
  by (induction i e s rule: copy_pass.induct) auto

lemma filter_copy_pass: "filter (\<lambda>c. \<not> jsonWS c) (copy_pass i e s) = filter (\<lambda>c. \<not> jsonWS c) s"
  by (induction i e s rule: copy_pass.induct) auto

lemma strip_in_append:
  "(\<And>c. c \<in> set u \<Longrightarrow> c \<noteq> CHR 0x22 \<and> c \<noteq> CHR 0x5C) \<Longrightarrow> strip_in (u @ x) = u @ strip_in x"
  by (induction u) auto

lemma strip_append:
  "(\<And>c. c \<in> set u \<Longrightarrow> c \<noteq> CHR 0x22 \<and> \<not> jsonWS c) \<Longrightarrow> strip (u @ x) = u @ strip x"
  by (induction u) auto

lemma skipWS_eq_Cons_strip:
  "skipWS s = c # r \<Longrightarrow> c \<noteq> CHR 0x22 \<Longrightarrow> strip s = c # strip r"
  using strip_skipWS [of s] hd_dropWhile [of jsonWS s] by (auto simp: skipWS_def simp del: strip_skipWS)

lemma skipWS_eq_quote_strip:
  "skipWS s = CHR 0x22 # r \<Longrightarrow> strip s = CHR 0x22 # strip_in r"
  by (metis strip_quote strip_skipWS)

lemma skipWS_eq_Nil_strip: "skipWS s = [] \<Longrightarrow> strip s = []"
  using strip_skipWS [of s] by (auto simp del: strip_skipWS)

subsection \<open>Tokens\<close>

lemma hexVal_plain: "hexVal c = Some h \<Longrightarrow> c \<noteq> CHR 0x22 \<and> c \<noteq> CHR 0x5C"
  by (auto simp: hexVal_def char_le_byte byte_def)

lemma hex_digits_prefix:
  "hex_digits n v s = Some (w, t) \<Longrightarrow>
     \<exists>h. s = h @ t \<and> length h = n \<and> (\<forall>c \<in> set h. c \<noteq> CHR 0x22 \<and> c \<noteq> CHR 0x5C)
       \<and> (\<forall>x. hex_digits n v (h @ x) = Some (w, x))"
proof (induction n v s rule: hex_digits.induct)
  case (3 n v c s)
  then obtain d where d: "hexVal c = Some d" "hex_digits n (push_bit 4 v OR d) s = Some (w, t)"
    by (auto split: option.splits)
  from 3(1) [OF this] obtain h where
    "s = h @ t" "length h = n" "\<forall>c \<in> set h. c \<noteq> CHR 0x22 \<and> c \<noteq> CHR 0x5C"
    "\<forall>x. hex_digits n (push_bit 4 v OR d) (h @ x) = Some (w, x)" by blast
  then show ?case using d(1) hexVal_plain by (intro exI [of _ "c # h"]) auto
qed simp_all

lemma hex4_prefix:
  assumes "hex4 s = Some (w, t)"
  obtains h where "s = h @ t" "length h = 4" "\<And>x. strip_in (h @ x) = h @ strip_in x"
    "\<And>x. hex4 (h @ x) = Some (w, x)"
proof -
  from assms have "hex_digits 4 0 s = Some (w, t)" by (simp add: hex4_def split: if_splits)
  from hex_digits_prefix [OF this] obtain h where h: "s = h @ t" "length h = 4"
    "\<forall>c \<in> set h. c \<noteq> CHR 0x22 \<and> c \<noteq> CHR 0x5C"
    "\<forall>x. hex_digits 4 0 (h @ x) = Some (w, x)" by blast
  show thesis
  proof (rule that [OF h(1,2)])
    show "strip_in (h @ x) = h @ strip_in x" for x using h(3) by (intro strip_in_append) blast
    show "hex4 (h @ x) = Some (w, x)" for x using h(2,4) by (simp add: hex4_def)
  qed
qed

lemma strict_escape_strip:
  assumes "strict_escape cp r = Inr (d, r')"
  shows "strict_escape cp (strip_in r) = Inr (d, strip_in r')"
proof (cases "0xD800 \<le> cp \<and> cp \<le> 0xDBFF")
  case True
  then have len: "\<not> length r < 6" and r: "r ! 0 = CHR 0x5C" "r ! 1 = CHR ''u''"
    using assms by (auto simp: strict_escape_def split: if_splits)
  obtain low where h: "hex4 (drop 2 r) = Some (low, r')"
    and low: "\<not> (low < 0xDC00 \<or> 0xDFFF < low)"
    and d: "d = (case DecodeRune16 cp low of Some d \<Rightarrow> d | None \<Rightarrow> 0xFFFD)"
    using assms True by (auto simp: strict_escape_def split: if_splits option.splits)
  obtain r2 where r2: "r = CHR 0x5C # CHR ''u'' # r2"
    using len r by (cases r; cases "tl r") auto
  with h obtain x where x: "r2 = x @ r'" "length x = 4" "\<And>y. strip_in (x @ y) = x @ strip_in y"
    "\<And>y. hex4 (x @ y) = Some (low, y)" by (auto elim: hex4_prefix)
  then have "strip_in r = CHR 0x5C # CHR ''u'' # x @ strip_in r'" by (simp add: r2)
  then show ?thesis using True x(2,4) low d by (simp add: strict_escape_def)
next
  case False
  then show ?thesis using assms by (auto simp: strict_escape_def split: if_splits)
qed

lemma utf8_take_plain:
  assumes "utf8Sequence s = Some n" "x \<in> set (take n s)"
  shows "x = hd s \<or> x \<noteq> CHR 0x22 \<and> x \<noteq> CHR 0x5C"
proof (cases "n = 1")
  case True
  then show ?thesis using assms by (cases s) auto
next
  case False
  obtain i where "i < n" "x = s ! i" using assms(2) by (auto simp: in_set_conv_nth)
  then have "0x80 \<le> byte x" using utf8Sequence_high [OF assms(1) False] by simp
  then show ?thesis by (auto simp: byte_def)
qed

lemma simple_escape_not_u: "simple_escape e = Some v \<Longrightarrow> e \<noteq> CHR ''u''"
  by (auto simp: simple_escape_def)

lemma parseString_loop_strip:
  "parseString_loop decode out s = Inr (k, t) \<Longrightarrow>
     parseString_loop decode out (strip_in s) = Inr (k, strip t)"
proof (induction decode out s rule: parseString_loop.induct)
  case (1 decode out s)
  note prem = 1(4) [unfolded parseString_loop.simps [of decode out s]]
  show ?case
  proof (cases s)
    case Nil
    then show ?thesis using prem by simp
  next
    case (Cons c r)
    consider "c = CHR 0x22" | "c = CHR 0x5C" | "c \<noteq> CHR 0x22" "c \<noteq> CHR 0x5C" by blast
    then show ?thesis
    proof cases
      case 1
      then show ?thesis using prem Cons by (subst parseString_loop.simps) simp
    next
      case 2
      then obtain e r1 where r: "r = e # r1" using prem Cons by (cases r) (auto simp: byte_def)
      have c: "\<not> byte c < 0x20" using 2 by (simp add: byte_def)
      show ?thesis
      proof (cases "e = CHR ''u''")
        case True
        obtain cp r2 d r3 where h: "hex4 r1 = Some (cp, r2)" and e: "strict_escape cp r2 = Inr (d, r3)"
          and l: "parseString_loop decode (if decode then out @ AppendRune d else out) r3 = Inr (k, t)"
          using prem Cons 2 r True c by (auto split: option.splits sum.splits)
        from h obtain x where x: "r1 = x @ r2" "\<And>y. strip_in (x @ y) = x @ strip_in y"
          "\<And>y. hex4 (x @ y) = Some (cp, y)" by (auto elim: hex4_prefix)
        have IH: "parseString_loop decode (if decode then out @ AppendRune d else out) (strip_in r3)
            = Inr (k, strip t)"
          using "1.IH"(1) [OF Cons _ c 2 r True h refl e refl l] 2 by simp
        show ?thesis
          using x IH strict_escape_strip [OF e] c
          by (subst parseString_loop.simps) (simp add: Cons 2 r True)
      next
        case False
        then obtain v where v: "simple_escape e = Some v"
          and l: "parseString_loop decode (if decode then out @ [v] else out) r1 = Inr (k, t)"
          using prem Cons 2 r c by (auto split: option.splits)
        have "parseString_loop decode (if decode then out @ [v] else out) (strip_in r1) = Inr (k, strip t)"
          using "1.IH"(2) [OF Cons _ c 2 r False v l] 2 by simp
        then show ?thesis
          using v c False by (subst parseString_loop.simps) (simp add: Cons 2 r)
      qed
    next
      case 3
      then obtain n where n: "utf8Sequence s = Some n" and c: "\<not> byte c < 0x20"
        and l: "parseString_loop decode (if decode then out @ take n s else out) (drop n s) = Inr (k, t)"
        using prem Cons by (auto split: option.splits if_splits)
      have IH: "parseString_loop decode (if decode then out @ take n s else out) (strip_in (drop n s))
          = Inr (k, strip t)"
        using "1.IH"(3) [OF Cons _ c _ n l] 3 by simp
      have "x \<noteq> CHR 0x22 \<and> x \<noteq> CHR 0x5C" if "x \<in> set (take n s)" for x
        using utf8_take_plain [OF n that] 3 Cons by auto
      then have "strip_in (take n s @ drop n s) = take n s @ strip_in (drop n s)"
        by (rule strip_in_append)
      then have s: "strip_in s = take n s @ strip_in (drop n s)" by simp
      have n': "utf8Sequence (strip_in s) = Some n"
        unfolding s by (rule utf8Sequence_prefix [OF n])
      have len: "0 < n" "n \<le> length s" using utf8Sequence_bounds [OF n] by auto
      have hd: "strip_in s = c # strip_in r" using 3 Cons by simp
      have "take n (strip_in s) = take n s" "drop n (strip_in s) = strip_in (drop n s)"
        unfolding s using len by simp_all
      then show ?thesis
        using IH n' c 3 by (subst parseString_loop.simps) (cases decode; simp add: hd)
    qed
  qed
qed

subsection \<open>Numbers\<close>

definition digit_free :: "string \<Rightarrow> bool" where
  "digit_free y \<longleftrightarrow> y = [] \<or> \<not> is_digit (hd y)"

definition number_chars :: "string \<Rightarrow> bool" where
  "number_chars n \<longleftrightarrow> (\<forall>c \<in> set n. is_digit c \<or> c \<in> {CHR ''-'', CHR ''+'', CHR ''.'', CHR ''e'', CHR ''E''})"

lemma digit_free_dropWhile: "digit_free y \<Longrightarrow> (\<forall>c \<in> set d. is_digit c) \<Longrightarrow> dropWhile is_digit (d @ y) = y"
  by (cases y) (auto simp: digit_free_def dropWhile_append2)

lemma digit_free_drop: "digit_free y \<Longrightarrow> dropWhile is_digit y = y"
  by (cases y) (auto simp: digit_free_def)

lemma digits_split:
  assumes "s \<noteq> []" "is_digit (hd s)" "t = dropWhile is_digit s"
  obtains d where "s = d @ t" "\<forall>c \<in> set d. is_digit c" "d \<noteq> []"
proof
  show "s = takeWhile is_digit s @ t" by (simp add: assms)
  show "\<forall>c \<in> set (takeWhile is_digit s). is_digit c" by (auto dest: set_takeWhileD)
  show "takeWhile is_digit s \<noteq> []" using assms by (cases s) simp_all
qed

lemma number_int_prefix:
  assumes "number_int s = Some t"
  obtains n where "s = n @ t" "number_chars n" "n \<noteq> []" "hd n \<noteq> CHR ''-''"
    "\<And>y. digit_free y \<Longrightarrow> number_int (n @ y) = Some y"
proof (cases s)
  case Nil
  then show thesis using assms by (simp add: number_int_def)
next
  case (Cons c r)
  show thesis
  proof (cases "c = CHR ''0''")
    case True
    then show thesis using assms Cons
      by (intro that [of "[c]"]) (auto simp: number_int_def number_chars_def is_digit_def byte_def)
  next
    case False
    then have c: "is_digit c" and t: "t = dropWhile is_digit s"
      using assms Cons by (auto simp: number_int_def split: if_splits)
    obtain d where d: "s = d @ t" "\<forall>c \<in> set d. is_digit c" "d \<noteq> []"
      by (rule digits_split [OF _ _ t]) (use c Cons in auto)
    then obtain d' where d': "d = c # d'" using Cons by (cases d) auto
    then show thesis using d False c
      by (intro that [of d])
        (auto simp: number_int_def number_chars_def digit_free_dropWhile [of _ "c # d'", simplified]
          is_digit_def byte_def)
  qed
qed

lemma number_frac_prefix:
  assumes "number_frac s = Some t"
  obtains n where "s = n @ t" "number_chars n" "n = [] \<or> hd n = CHR ''.''"
    "\<And>y. digit_free y \<Longrightarrow> (n = [] \<Longrightarrow> y = [] \<or> hd y \<noteq> CHR ''.'') \<Longrightarrow> number_frac (n @ y) = Some y"
proof (cases "s \<noteq> [] \<and> hd s = CHR ''.''")
  case True
  then obtain r where s: "s = CHR ''.'' # r" by (cases s) auto
  with assms have r: "r \<noteq> []" "is_digit (hd r)" and t: "t = dropWhile is_digit r"
    by (auto simp: number_frac_def split: if_splits)
  obtain d where d: "r = d @ t" "\<forall>c \<in> set d. is_digit c" "d \<noteq> []" by (rule digits_split [OF r t])
  then show thesis using s d r
    by (intro that [of "CHR ''.'' # d"])
      (auto simp: number_frac_def number_chars_def digit_free_dropWhile digit_free_drop)
next
  case False
  then have "t = s" using assms by (cases s) (auto simp: number_frac_def split: if_splits)
  show thesis
  proof (rule that [of "[]"])
    show "number_frac ([] @ y) = Some y" if "[] = [] \<Longrightarrow> y = [] \<or> hd y \<noteq> CHR ''.''" for y
      using that by (cases y) (simp_all add: number_frac_def)
  qed (simp_all add: \<open>t = s\<close> number_chars_def)
qed

lemma number_exp_prefix:
  assumes "number_exp s = Some t"
  obtains n where "s = n @ t" "number_chars n" "n = [] \<or> hd n = CHR ''e'' \<or> hd n = CHR ''E''"
    "\<And>y. value_end y \<Longrightarrow> number_exp (n @ y) = Some y"
proof (cases "s \<noteq> [] \<and> (hd s = CHR ''e'' \<or> hd s = CHR ''E'')")
  case True
  then obtain c r where s: "s = c # r" and c: "c = CHR ''e'' \<or> c = CHR ''E''" by (cases s) auto
  define r' where "r' = (if r \<noteq> [] \<and> (hd r = CHR ''+'' \<or> hd r = CHR ''-'') then tl r else r)"
  from assms have r': "r' \<noteq> []" "is_digit (hd r')" and t: "t = dropWhile is_digit r'"
    using c by (auto simp: number_exp_def s r'_def [symmetric] Let_def split: if_splits)
  obtain d where d: "r' = d @ t" "\<forall>c \<in> set d. is_digit c" and dn: "d \<noteq> []"
    by (rule digits_split [OF r' t])
  have dd: "is_digit (hd d)" "hd d \<noteq> CHR ''+''" "hd d \<noteq> CHR ''-''"
    using d dn by (cases d; auto simp: is_digit_def byte_def)+
  define g where "g = (if r \<noteq> [] \<and> (hd r = CHR ''+'' \<or> hd r = CHR ''-'') then [hd r] else [])"
  have g: "r = g @ r'" "g = [] \<or> g = ''+'' \<or> g = ''-''"
    unfolding r'_def g_def by (cases r; auto)+
  have drop: "dropWhile is_digit (d @ y) = y" if "value_end y" for y
    using d(2) value_end_not_number [OF that] by (simp add: dropWhile_append2)
  have "number_exp ((c # g @ d) @ y) = Some y" if "value_end y" for y
    using g(2) c dn dd drop [OF that] by (auto simp: number_exp_def Let_def)
  moreover have "number_chars (c # g @ d)" using g c d by (auto simp: number_chars_def)
  ultimately show thesis using s g d c by (intro that [of "c # g @ d"]) auto
next
  case False
  then have "t = s" using assms by (cases s) (auto simp: number_exp_def split: if_splits)
  show thesis
    by (rule that [of "[]"]) (simp_all add: \<open>t = s\<close> number_chars_def value_end_not_number)
qed

lemma value_end_digit_free: "value_end y \<Longrightarrow> digit_free y"
  by (auto simp: value_end_def digit_free_def is_digit_def byte_def)

lemma parseNumber_prefix:
  assumes "parseNumber s = Inr t"
  obtains n where "s = n @ t" "number_chars n" "n \<noteq> []"
    "\<And>y. value_end y \<Longrightarrow> parseNumber (n @ y) = Inr y"
proof -
  define g where "g = (if s \<noteq> [] \<and> hd s = CHR ''-'' then ''-'' else [])"
  define s1 where "s1 = (if s \<noteq> [] \<and> hd s = CHR ''-'' then tl s else s)"
  have s: "s = g @ s1" by (cases s) (auto simp: g_def s1_def)
  from assms obtain s2 s3 where i: "number_int s1 = Some s2" and f: "number_frac s2 = Some s3"
    and e: "number_exp s3 = Some t"
    by (auto simp: parseNumber_def s1_def [symmetric] Let_def split: option.splits)
  obtain n1 where n1: "s1 = n1 @ s2" "number_chars n1" "n1 \<noteq> []" "hd n1 \<noteq> CHR ''-''"
    "\<And>y. digit_free y \<Longrightarrow> number_int (n1 @ y) = Some y" using number_int_prefix [OF i] by blast
  obtain n2 where n2: "s2 = n2 @ s3" "number_chars n2" "n2 = [] \<or> hd n2 = CHR ''.''"
    "\<And>y. digit_free y \<Longrightarrow> (n2 = [] \<Longrightarrow> y = [] \<or> hd y \<noteq> CHR ''.'') \<Longrightarrow> number_frac (n2 @ y) = Some y"
    using number_frac_prefix [OF f] by blast
  obtain n3 where n3: "s3 = n3 @ t" "number_chars n3" "n3 = [] \<or> hd n3 = CHR ''e'' \<or> hd n3 = CHR ''E''"
    "\<And>y. value_end y \<Longrightarrow> number_exp (n3 @ y) = Some y" using number_exp_prefix [OF e] by blast
  show thesis
  proof (rule that [of "g @ n1 @ n2 @ n3"])
    show "s = (g @ n1 @ n2 @ n3) @ t" using s n1 n2 n3 by simp
    show "number_chars (g @ n1 @ n2 @ n3)" using n1 n2 n3 by (auto simp: number_chars_def g_def)
    show "g @ n1 @ n2 @ n3 \<noteq> []" using n1 by simp
    fix y assume y: "value_end y"
    have 3: "digit_free (n3 @ y)" "n3 @ y = [] \<or> hd (n3 @ y) \<noteq> CHR ''.''"
      using n3(3) y by (cases n3; auto simp: digit_free_def value_end_def is_digit_def byte_def)+
    have 2: "digit_free (n2 @ n3 @ y)"
      using n2(3) 3 by (cases n2) (auto simp: digit_free_def is_digit_def byte_def)
    have strip_sign: "(if g @ n1 @ z \<noteq> [] \<and> hd (g @ n1 @ z) = CHR ''-'' then tl (g @ n1 @ z) else g @ n1 @ z)
        = n1 @ z" for z
      using n1(3,4) by (simp add: g_def)
    show "parseNumber ((g @ n1 @ n2 @ n3) @ y) = Inr y"
      using n1(5) [OF 2] n2(4) [OF 3] n3(4) [OF y] strip_sign [of "n2 @ n3 @ y"]
      by (simp only: parseNumber_def Let_def append_assoc option.case)
  qed
qed

lemma parseNumber_strip:
  assumes "parseNumber s = Inr t" "value_end (skipWS t)"
  shows "parseNumber (strip s) = Inr (strip t)" "length s - length t = length (strip s) - length (strip t)"
    "take (length s - length t) s = take (length s - length t) (strip s)"
proof -
  obtain n where n: "s = n @ t" "number_chars n" "\<And>y. value_end y \<Longrightarrow> parseNumber (n @ y) = Inr y"
    using parseNumber_prefix [OF assms(1)] by blast
  have v: "value_end (strip t)"
    using assms(2) skipWS_eq_Cons_strip [of t] skipWS_eq_Nil_strip [of t]
    by (cases "skipWS t") (auto simp: value_end_def)
  have "strip s = n @ strip t"
    unfolding n(1) using n(2)
    by (intro strip_append) (auto simp: number_chars_def is_digit_def byte_def jsonWS_def)
  then show "parseNumber (strip s) = Inr (strip t)" "length s - length t = length (strip s) - length (strip t)"
    "take (length s - length t) s = take (length s - length t) (strip s)"
    using n(3) [OF v] n(1) by simp_all
qed

subsection \<open>Values\<close>

lemma parseString_loop_length: "parseString_loop decode out s = Inr (k, t) \<Longrightarrow> length t < length s"
proof (induction s arbitrary: out rule: measure_induct_rule [of length])
  case (less s)
  show ?case
  proof (cases s)
    case Nil
    then show ?thesis using less.prems by (simp add: parseString_loop.simps)
  next
    case (Cons c r)
    from less.prems have "t = r \<or> (\<exists>out s'. length s' < length s \<and> parseString_loop decode out s' = Inr (k, t))"
      unfolding Cons
      by (subst (asm) parseString_loop.simps)
        (auto split: if_splits list.splits option.splits sum.splits;
          fastforce dest: hex4_length strict_escape_length utf8Sequence_bounds)
    then show ?thesis using less.IH Cons by fastforce
  qed
qed

lemma parseString_length: "parseString decode s = Inr (k, t) \<Longrightarrow> length t < length s"
  by (auto simp: parseString_def dest: parseString_loop_length split: list.splits if_splits)

lemma array_loop_length: "array_loop depth s = Inr t \<Longrightarrow> length t < length s"
proof (induction s rule: measure_induct_rule [of length])
  case (less s)
  from less.prems obtain u d w where u: "length u < length s" "skipWS u = d # w"
    and "d = CHR '']'' \<and> t = w \<or> d = CHR '','' \<and> array_loop depth (skipWS w) = Inr t"
    by (subst (asm) array_loop.simps) (auto split: sum.splits list.splits if_splits)
  moreover from u have "length w < length s" using skipWS_less [of u d w] by simp
  ultimately show ?case
    using less.IH [of "skipWS w"] length_skipWS [of w] by auto
qed

lemma object_loop_length: "object_loop depth keys s = Inr t \<Longrightarrow> length t < length s"
proof (induction s arbitrary: keys rule: measure_induct_rule [of length])
  case (less s)
  from less.prems obtain u d w keys' where u: "length u < length s" "skipWS u = d # w"
    and "d = CHR ''}'' \<and> t = w \<or> d = CHR '','' \<and> object_loop depth keys' w = Inr t"
    by (subst (asm) object_loop.simps) (auto split: sum.splits list.splits if_splits)
  moreover from u have "length w < length s" using skipWS_less [of u d w] by simp
  ultimately show ?case
    using less.IH [of w keys'] by auto
qed

lemma parseValue_length: "parseValue depth s = Inr t \<Longrightarrow> length t < length s"
proof (cases "skipWS s")
  case Nil
  then show "parseValue depth s = Inr t \<Longrightarrow> ?thesis"
    by (subst (asm) parseValue.simps) (simp split: if_splits)
next
  case (Cons c r)
  assume p: "parseValue depth s = Inr t"
  have "t = tl (skipWS r) \<and> skipWS r \<noteq> [] \<or> object_loop depth [] (skipWS r) = Inr t
      \<or> array_loop depth (skipWS r) = Inr t \<or> (\<exists>k. parseString False (c # r) = Inr (k, t))
      \<or> lit ''true'' (c # r) = Inr t \<or> lit ''false'' (c # r) = Inr t \<or> lit ''null'' (c # r) = Inr t
      \<or> parseNumber (c # r) = Inr t"
    using p Cons by (auto simp: parseValue.simps [of depth s] split: if_splits sum.splits)
  then show ?thesis
    using length_skipWS [of r] length_tl_skipWS [of r] skipWS_less [OF Cons]
    by (auto dest!: object_loop_length array_loop_length parseString_length lit_length [rotated]
        parseNumber_length)
qed

lemma array_loop_eq:
  "array_loop depth s =
     (case parseValue (depth + 1) s of
        Inl err \<Rightarrow> Inl err
      | Inr t \<Rightarrow>
          (case skipWS t of
             [] \<Rightarrow> Inl JSONInvalidSyntax
           | d # u \<Rightarrow>
               if d = CHR '','' then array_loop depth (skipWS u)
               else if d = CHR '']'' then Inr u
               else Inl JSONInvalidSyntax))"
  by (subst array_loop.simps) (auto split: sum.splits dest: parseValue_length)

lemma object_loop_eq:
  "object_loop depth keys s =
     (case parseString True (skipWS s) of
        Inl err \<Rightarrow> Inl err
      | Inr (key, t) \<Rightarrow>
          if JSONMaxObjectMembers \<le> length keys then Inl JSONTooDeep
          else
            (case skipWS t of
               [] \<Rightarrow> Inl JSONInvalidSyntax
             | d # u \<Rightarrow>
                 if d \<noteq> CHR '':'' then Inl JSONInvalidSyntax
                 else
                   (case parseValue (depth + 1) (skipWS u) of
                      Inl err \<Rightarrow> Inl err
                    | Inr w \<Rightarrow>
                        (case skipWS w of
                           [] \<Rightarrow> Inl JSONInvalidSyntax
                         | e # x \<Rightarrow>
                             if e = CHR '','' then object_loop depth (keys @ [key]) x
                             else if e = CHR ''}'' then
                               (if \<not> keysUnique (keys @ [key]) then Inl JSONDuplicateKey
                                else Inr x)
                             else Inl JSONInvalidSyntax))))"
proof -
  have "length t < length s" if "parseString True (skipWS s) = Inr (key, t)" for key t
    using parseString_length [OF that] length_skipWS [of s] by simp
  moreover have "length w < length s"
    if "parseString True (skipWS s) = Inr (key, t)" "skipWS t = d # u"
      "parseValue (depth + 1) (skipWS u) = Inr w" for key t d u w
    using parseString_length [OF that(1)] length_skipWS [of s] skipWS_less [OF that(2)]
      length_skipWS [of u] parseValue_length [OF that(3)] by simp
  ultimately show ?thesis
    by (subst object_loop.simps) (auto split: sum.splits list.splits)
qed

lemma lit_strip: "lit w s = Inr t \<Longrightarrow> (\<And>c. c \<in> set w \<Longrightarrow> c \<noteq> CHR 0x22 \<and> \<not> jsonWS c) \<Longrightarrow>
    lit w (strip s) = Inr (strip t)"
  by (auto simp: lit_def has_prefix_iff strip_append split: if_splits)

lemma parseString_strip:
  "parseString decode (skipWS s) = Inr (k, t) \<Longrightarrow> parseString decode (strip s) = Inr (k, strip t)"
  by (auto simp: parseString_def skipWS_eq_quote_strip parseString_loop_strip
      split: list.splits if_splits)

lemma skipWS_hd_not_ws: "skipWS s = c # r \<Longrightarrow> \<not> jsonWS c"
  using hd_dropWhile [of jsonWS s] by (simp add: skipWS_def)

lemma strip_empty_brackets:
  assumes "c \<noteq> CHR 0x22" "\<not> jsonWS c"
  shows "strip r \<noteq> [] \<and> hd (strip r) = c \<longleftrightarrow> skipWS r \<noteq> [] \<and> hd (skipWS r) = c"
proof (cases "skipWS r")
  case (Cons d q)
  show ?thesis
  proof (cases "d = CHR 0x22")
    case True
    then show ?thesis using Cons skipWS_eq_quote_strip [of r q] assms by simp
  next
    case False
    then show ?thesis using skipWS_eq_Cons_strip [OF Cons] Cons by simp
  qed
qed (simp add: skipWS_eq_Nil_strip)

lemma parseValue_strip_step:
  assumes array: "\<And>s' t. length s' < length s \<Longrightarrow> array_loop depth s' = Inr t \<Longrightarrow>
      array_loop depth (strip s') = Inr (strip t)"
    and object: "\<And>s' t. length s' < length s \<Longrightarrow> object_loop depth [] s' = Inr t \<Longrightarrow>
      object_loop depth [] (strip s') = Inr (strip t)"
    and p: "parseValue depth s = Inr t" and v: "value_end (skipWS t)"
  shows "parseValue depth (strip s) = Inr (strip t)"
proof -
  note prem = p [unfolded parseValue.simps [of depth s]]
  have depth: "\<not> JSONMaxDepth \<le> depth" using prem by (auto split: if_splits)
  obtain c r where c: "skipWS s = c # r" using prem depth by (cases "skipWS s") auto
  have short: "length (skipWS r) < length s"
    using skipWS_less [OF c] length_skipWS [of r] by simp
  have cs: "strip s = c # strip r" if "c \<noteq> CHR 0x22"
    using c that by (rule skipWS_eq_Cons_strip)
  note eval = parseValue.simps
  consider "c = CHR ''{''" | "c = CHR ''[''" | "c = CHR 0x22" | "c = CHR ''t''" | "c = CHR ''f''"
    | "c = CHR ''n''" | "c \<notin> {CHR ''{'', CHR ''['', CHR 0x22, CHR ''t'', CHR ''f'', CHR ''n''}"
    by blast
  then show ?thesis
  proof cases
    case 1
    show ?thesis
    proof (cases "skipWS r \<noteq> [] \<and> hd (skipWS r) = CHR ''}''")
      case True
      then obtain q where q: "skipWS r = CHR ''}'' # q" by (cases "skipWS r") auto
      then show ?thesis
        using 1 prem depth c cs skipWS_eq_Cons_strip [OF q] by (simp add: eval skipWS_Cons_not jsonWS_def)
    next
      case False
      then have o: "object_loop depth [] (skipWS r) = Inr t" using 1 prem depth c by (simp split: if_splits)
      show ?thesis
        using object [OF short o] depth 1 cs False strip_empty_brackets [of "CHR ''}''" r]
        by (auto simp: eval skipWS_Cons_not jsonWS_def)
    qed
  next
    case 2
    show ?thesis
    proof (cases "skipWS r \<noteq> [] \<and> hd (skipWS r) = CHR '']''")
      case True
      then obtain q where q: "skipWS r = CHR '']'' # q" by (cases "skipWS r") auto
      then show ?thesis
        using 2 prem depth c cs skipWS_eq_Cons_strip [OF q] by (simp add: eval skipWS_Cons_not jsonWS_def)
    next
      case False
      then have o: "array_loop depth (skipWS r) = Inr t" using 2 prem depth c by (simp split: if_splits)
      show ?thesis
        using array [OF short o] depth 2 cs False strip_empty_brackets [of "CHR '']''" r]
        by (auto simp: eval skipWS_Cons_not jsonWS_def)
    qed
  next
    case 3
    then obtain k where "parseString False (skipWS s) = Inr (k, t)"
      using prem depth c by (auto split: sum.splits)
    then have "parseString False (strip s) = Inr (k, strip t)" by (rule parseString_strip)
    moreover have "strip s = CHR 0x22 # strip_in r" using c 3 skipWS_eq_quote_strip by simp
    ultimately show ?thesis using depth by (simp add: eval skipWS_Cons_not jsonWS_def)
  next
    case 4
    then have "lit ''true'' (skipWS s) = Inr t" using prem depth c by simp
    then have "lit ''true'' (strip (skipWS s)) = Inr (strip t)"
      by (rule lit_strip) (auto simp: jsonWS_def)
    then show ?thesis using depth 4 cs by (simp add: eval skipWS_Cons_not jsonWS_def)
  next
    case 5
    then have "lit ''false'' (skipWS s) = Inr t" using prem depth c by simp
    then have "lit ''false'' (strip (skipWS s)) = Inr (strip t)"
      by (rule lit_strip) (auto simp: jsonWS_def)
    then show ?thesis using depth 5 cs by (simp add: eval skipWS_Cons_not jsonWS_def)
  next
    case 6
    then have "lit ''null'' (skipWS s) = Inr t" using prem depth c by simp
    then have "lit ''null'' (strip (skipWS s)) = Inr (strip t)"
      by (rule lit_strip) (auto simp: jsonWS_def)
    then show ?thesis using depth 6 cs by (simp add: eval skipWS_Cons_not jsonWS_def)
  next
    case 7
    then have "parseNumber (skipWS s) = Inr t" using prem depth c by simp
    then have "parseNumber (strip (skipWS s)) = Inr (strip t)" using v by (rule parseNumber_strip)
    then show ?thesis
      using depth 7 cs skipWS_hd_not_ws [OF c] by (simp add: eval skipWS_Cons_not)
  qed
qed

lemma array_object_strip:
  shows "array_loop depth s = Inr t \<Longrightarrow> array_loop depth (strip s) = Inr (strip t)"
    and "object_loop depth keys s = Inr t \<Longrightarrow> object_loop depth keys (strip s) = Inr (strip t)"
proof (induction s arbitrary: depth t keys rule: measure_induct_rule [of length])
  case (less s)
  have val: "parseValue d (strip s') = Inr (strip u)"
    if "parseValue d s' = Inr u" "value_end (skipWS u)" "length s' \<le> length s" for d s' u
    using that less.IH by (intro parseValue_strip_step) (simp_all add: order_less_le_trans)
  {
    case 1
    then obtain u where u: "parseValue (depth + 1) s = Inr u"
      by (auto simp: array_loop_eq [of depth s] split: sum.splits)
    then obtain d w where d: "skipWS u = d # w" "d = CHR '','' \<or> d = CHR '']''"
      using 1 by (auto simp: array_loop_eq [of depth s] split: list.splits if_splits)
    have "length w < length s"
      using parseValue_length [OF u] skipWS_less [OF d(1)] by simp
    then have short: "length (skipWS w) < length s" using length_skipWS [of w] by simp
    have "parseValue (depth + 1) (strip s) = Inr (strip u)"
      using u d by (intro val) (auto simp: value_end_def)
    moreover have "skipWS (strip u) = d # strip w" using d skipWS_eq_Cons_strip by auto
    moreover have "d = CHR '','' \<and> array_loop depth (skipWS w) = Inr t \<or> d \<noteq> CHR '','' \<and> w = t"
      using 1 u d by (auto simp: array_loop_eq [of depth s])
    ultimately show ?case
      using d(2) less.IH(1) [OF short, of depth t]
      by (auto simp: array_loop_eq [of depth "strip s"])
  next
    case 2
    then obtain k u where k: "parseString True (skipWS s) = Inr (k, u)"
      and max: "\<not> JSONMaxObjectMembers \<le> length keys"
      by (auto simp: object_loop_eq [of depth keys s] split: sum.splits if_splits)
    then obtain d w where d: "skipWS u = CHR '':'' # w"
      using 2 by (auto simp: object_loop_eq [of depth keys s] split: list.splits if_splits)
    obtain y where y: "parseValue (depth + 1) (skipWS w) = Inr y"
      using 2 k max d by (auto simp: object_loop_eq [of depth keys s] split: sum.splits)
    obtain e x where e: "skipWS y = e # x" "e = CHR '','' \<or> e = CHR ''}''"
      using 2 k max d y by (auto simp: object_loop_eq [of depth keys s] split: list.splits if_splits)
    have "length (skipWS w) < length s"
      using parseString_length [OF k] length_skipWS [of s] skipWS_less [OF d] length_skipWS [of w] by simp
    moreover from this have short: "length x < length s"
      using parseValue_length [OF y] skipWS_less [OF e(1)] by simp
    ultimately have "parseValue (depth + 1) (strip (skipWS w)) = Inr (strip y)"
      using y e by (intro val) (auto simp: value_end_def)
    moreover have "skipWS (strip u) = CHR '':'' # strip w" "skipWS (strip y) = e # strip x"
      using d e skipWS_eq_Cons_strip by auto
    moreover have "e = CHR '','' \<and> object_loop depth (keys @ [k]) x = Inr t
        \<or> e \<noteq> CHR '','' \<and> x = t \<and> keysUnique (keys @ [k])"
      using 2 k max d y e by (auto simp: object_loop_eq [of depth keys s] split: if_splits)
    ultimately show ?case
      using max e(2) less.IH(2) [OF short, of depth "keys @ [k]" t] parseString_strip [OF k]
      by (auto simp: object_loop_eq [of depth keys "strip s"])
  }
qed

lemma parseValue_strip:
  "parseValue depth s = Inr t \<Longrightarrow> value_end (skipWS t) \<Longrightarrow> parseValue depth (strip s) = Inr (strip t)"
  by (rule parseValue_strip_step) (auto intro: array_object_strip)

lemma parseValue_Nil: "parseValue 0 [] \<noteq> Inr t"
  by (simp add: parseValue.simps skipWS_def JSONMaxDepth_def)

lemma JSONCompact_Inr:
  assumes "JSONCompact input = Inr out"
  obtains t where "parseValue 0 input = Inr t" "skipWS t = []" "out = strip input"
    "length out < length input" "length input \<le> JSONMaxInput"
  using assms by (auto simp: JSONCompact_def Let_def split: if_splits sum.splits)

text \<open>Compaction shortens the document, drops nothing but whitespace (the other bytes stay, in
  order) and is stable: the output is itself a document the strict validator accepts, with nothing
  left to remove.\<close>

theorem JSONCompact_sound:
  assumes "JSONCompact input = Inr out"
  shows "length out < length input \<and> filter (\<lambda>c. \<not> jsonWS c) out = filter (\<lambda>c. \<not> jsonWS c) input
    \<and> JSONCompact out = Inl JSONNotShorter"
proof -
  obtain t where t: "parseValue 0 input = Inr t" "skipWS t = []" "out = strip input"
    "length out < length input" "length input \<le> JSONMaxInput"
    using assms by (rule JSONCompact_Inr)
  have "parseValue 0 out = Inr (strip t)" "strip t = []"
    using parseValue_strip [OF t(1)] t(2,3) skipWS_eq_Nil_strip by simp_all
  then show ?thesis
    using t(3-5) parseValue_Nil by (auto simp: JSONCompact_def filter_copy_pass skipWS_def)
qed

theorem JSONCompact_sound_witness:
  "JSONCompact ''{ }'' = Inr ''{}'' \<and> length ''{}'' < length ''{ }''
    \<and> JSONCompact ''{}'' = Inl JSONNotShorter"
proof -
  have "JSONCompact ''{ }'' = Inr ''{}''"
    by (simp add: JSONCompact_def JSONMaxInput_def parseValue.simps skipWS_def jsonWS_def JSONMaxDepth_def)
  then show ?thesis using JSONCompact_sound [of "''{ }''" "''{}''"] by simp
qed

text \<open>The duplicate-name test, which sorts the decoded names and compares neighbours, accepts
  exactly the lists without a repeated name.\<close>

theorem keysUnique_distinct: "keysUnique keys \<longleftrightarrow> distinct keys"
proof -
  define ks where "ks = sort keys"
  have "list_all (\<lambda>i. ks ! i \<noteq> ks ! (i - 1)) [1..<length ks]
      \<longleftrightarrow> (\<forall>i. Suc i < length ks \<longrightarrow> ks ! i \<noteq> ks ! Suc i)" (is "?l \<longleftrightarrow> ?r")
  proof
    assume ?l
    then have "ks ! Suc i \<noteq> ks ! i" if "Suc i < length ks" for i
      using that by (auto simp: list_all_iff dest: bspec [of _ _ "Suc i"])
    then show ?r by metis
  next
    assume r: ?r
    have "ks ! i \<noteq> ks ! (i - 1)" if "1 \<le> i" "i < length ks" for i
      using r [rule_format, of "i - 1"] that by auto
    then show ?l by (auto simp: list_all_iff)
  qed
  also have "\<dots> \<longleftrightarrow> sorted_wrt (<) ks"
  proof -
    have s: "sorted ks" by (simp add: ks_def)
    have "ks ! i < ks ! Suc i \<longleftrightarrow> ks ! i \<noteq> ks ! Suc i" if "Suc i < length ks" for i
      using sorted_nth_mono [OF s, of i "Suc i"] that by auto
    then show ?thesis by (simp add: sorted_wrt_iff_nth_Suc_transp)
  qed
  also have "\<dots> \<longleftrightarrow> distinct keys" by (simp add: strict_sorted_iff ks_def)
  finally have "list_all (\<lambda>i. ks ! i \<noteq> ks ! (i - 1)) [1..<length ks] \<longleftrightarrow> distinct keys" .
  moreover have "length keys < 2 \<Longrightarrow> distinct keys" by (cases keys) auto
  ultimately show ?thesis by (auto simp: keysUnique_def ks_def Let_def)
qed

end
