(* ===== verification/JsonCompactMeaning.thy ===== *)
theory JsonCompactMeaning
  imports JsonCompact
begin

text \<open>
  The two JSON readers compared: on a document the strict validator of \<open>json_compact.go\<close> accepts, the
  reader of \<open>cjson.go\<close> consumes the same bytes, before and after compaction, and returns the same
  value.
\<close>

section \<open>Compaction keeps the meaning of a document\<close>

lemma skipWS_idem [simp]: "skipWS (skipWS s) = skipWS s"
  using skipWS_hd_not_ws [of s] by (cases "skipWS s") (simp_all add: skipWS_def)

lemma parseString_loop_decode:
  "parseString_loop decode out s = Inr (k, t) \<Longrightarrow> \<exists>k'. parseString_loop True out' s = Inr (k', t)"
proof (induction s arbitrary: out out' rule: measure_induct_rule [of length])
  case (less s)
  note prem = less.prems [unfolded parseString_loop.simps [of decode out s]]
  show ?case
  proof (cases s)
    case Nil
    then show ?thesis using prem by simp
  next
    case (Cons c r)
    consider "c = CHR 0x22" | "c = CHR 0x5C" | "c \<noteq> CHR 0x22" "c \<noteq> CHR 0x5C" by blast
    then show ?thesis
    proof cases
      case 1
      then show ?thesis using prem Cons by (subst parseString_loop.simps) simp
    next
      case 2
      then obtain e r1 where r: "r = e # r1" using prem Cons by (cases r) (auto simp: byte_def)
      have c: "\<not> byte c < 0x20" using 2 by (simp add: byte_def)
      show ?thesis
      proof (cases "e = CHR ''u''")
        case True
        obtain cp r2 d r3 where h: "hex4 r1 = Some (cp, r2)" and e: "strict_escape cp r2 = Inr (d, r3)"
          and l: "parseString_loop decode (if decode then out @ AppendRune d else out) r3 = Inr (k, t)"
          using prem Cons 2 r True c by (auto split: option.splits sum.splits)
        have "length r3 < length s" using hex4_length [OF h] strict_escape_length [OF e] Cons r by simp
        from less.IH [OF this l, of "out' @ AppendRune d"] show ?thesis
          using h e c by (subst parseString_loop.simps) (simp add: Cons 2 r True)
      next
        case False
        then obtain v where v: "simple_escape e = Some v"
          and l: "parseString_loop decode (if decode then out @ [v] else out) r1 = Inr (k, t)"
          using prem Cons 2 r c by (auto split: option.splits)
        have "length r1 < length s" using Cons r by simp
        from less.IH [OF this l, of "out' @ [v]"] show ?thesis
          using v c False by (subst parseString_loop.simps) (simp add: Cons 2 r)
      qed
    next
      case 3
      then obtain n where n: "utf8Sequence s = Some n" and c: "\<not> byte c < 0x20"
        and l: "parseString_loop decode (if decode then out @ take n s else out) (drop n s) = Inr (k, t)"
        using prem Cons by (auto split: option.splits if_splits)
      have "length (drop n s) < length s" using utf8Sequence_bounds [OF n] by auto
      from less.IH [OF this l, of "out' @ take n s"] show ?thesis
        using n c 3 Cons by (subst parseString_loop.simps) simp
    qed
  qed
qed

lemma unicode_escape_strict: "strict_escape cp r = Inr (d, r') \<Longrightarrow> unicode_escape cp r = (d, r')"
proof (cases "0xD800 \<le> cp \<and> cp \<le> 0xDBFF")
  case True
  assume a: "strict_escape cp r = Inr (d, r')"
  with True have "\<not> length r < 6" "r ! 0 = CHR 0x5C" "r ! 1 = CHR ''u''"
    by (auto simp: strict_escape_def split: if_splits)
  then have "has_prefix r [CHR 0x5C, CHR ''u'']"
    by (cases r; cases "tl r") (auto simp: has_prefix_def)
  then show ?thesis using a True
    by (auto simp: strict_escape_def unicode_escape_def DecodeRune16_def split: if_splits option.splits)
qed (auto simp: strict_escape_def unicode_escape_def split: if_splits)

lemma unquote_parseString:
  "parseString_loop True out s = Inr (k, t) \<Longrightarrow> \<exists>k'. k = out @ k' \<and> unquote s = Some (k', t)"
proof (induction s arbitrary: out rule: measure_induct_rule [of length])
  case (less s)
  note prem = less.prems [unfolded parseString_loop.simps [of True out s]]
  show ?case
  proof (cases s)
    case Nil
    then show ?thesis using prem by simp
  next
    case (Cons c r)
    consider "c = CHR 0x22" | "c = CHR 0x5C" | "c \<noteq> CHR 0x22" "c \<noteq> CHR 0x5C" by blast
    then show ?thesis
    proof cases
      case 1
      then show ?thesis using prem Cons by simp
    next
      case 2
      then obtain e r1 where r: "r = e # r1" using prem Cons by (cases r) (auto simp: byte_def)
      have c: "\<not> byte c < 0x20" using 2 by (simp add: byte_def)
      show ?thesis
      proof (cases "e = CHR ''u''")
        case True
        obtain cp r2 d r3 where h: "hex4 r1 = Some (cp, r2)" and e: "strict_escape cp r2 = Inr (d, r3)"
          and l: "parseString_loop True (out @ AppendRune d) r3 = Inr (k, t)"
          using prem Cons 2 r True c by (auto split: option.splits sum.splits)
        have "length r3 < length s" using hex4_length [OF h] strict_escape_length [OF e] Cons r by simp
        from less.IH [OF this l] show ?thesis
          using h unicode_escape_strict [OF e] by (auto simp: Cons 2 r True unquote_unicode)
      next
        case False
        then obtain v where v: "simple_escape e = Some v"
          and l: "parseString_loop True (out @ [v]) r1 = Inr (k, t)"
          using prem Cons 2 r c by (auto split: option.splits)
        have "length r1 < length s" using Cons r by simp
        from less.IH [OF this l] show ?thesis using v False by (auto simp: Cons 2 r unquote_escape)
      qed
    next
      case 3
      then obtain n where n: "utf8Sequence s = Some n" and c: "\<not> byte c < 0x20"
        and l: "parseString_loop True (out @ take n s) (drop n s) = Inr (k, t)"
        using prem Cons by (auto split: option.splits if_splits)
      have "length (drop n s) < length s" using utf8Sequence_bounds [OF n] by auto
      from less.IH [OF this l] show ?thesis
        using n c 3 unfolding Cons by (auto simp: unquote_raw)
    qed
  qed
qed

definition agrees :: "('a \<times> string) option \<Rightarrow> ('a \<times> string) option \<Rightarrow> string \<Rightarrow> bool" where
  "agrees p q t \<longleftrightarrow> (\<exists>ov. p = map_option (\<lambda>v. (v, t)) ov \<and> q = map_option (\<lambda>v. (v, strip t)) ov)"

lemma agreesI: "p = map_option (\<lambda>v. (v, t)) ov \<Longrightarrow> q = map_option (\<lambda>v. (v, strip t)) ov \<Longrightarrow> agrees p q t"
  by (auto simp: agrees_def)

lemma agrees_simps [simp]: "agrees (Some (v, t)) (Some (v, strip t)) t" "agrees None None t"
  by (rule agreesI [of _ _ "Some v"], simp_all) (rule agreesI [of _ _ None], simp_all)

lemma agreesE:
  assumes "agrees p q t"
  obtains "p = None" "q = None" | v where "p = Some (v, t)" "q = Some (v, strip t)"
proof -
  from assms obtain ov where "p = map_option (\<lambda>v. (v, t)) ov" "q = map_option (\<lambda>v. (v, strip t)) ov"
    by (auto simp: agrees_def)
  then show thesis using that by (cases ov) simp_all
qed

lemma agrees_map: "agrees p q t \<Longrightarrow> agrees (map_option (apfst f) p) (map_option (apfst f) q) t"
proof -
  assume "agrees p q t"
  then obtain ov where "p = map_option (\<lambda>v. (v, t)) ov" "q = map_option (\<lambda>v. (v, strip t)) ov"
    by (auto simp: agrees_def)
  then show ?thesis by (intro agreesI [of _ _ "map_option f ov"]) (simp_all add: option.map_comp comp_def)
qed

lemma unquote_strip:
  assumes "parseString_loop decode out s = Inr (k, t)"
  obtains k' where "unquote s = Some (k', t)" "unquote (strip_in s) = Some (k', strip t)"
    "decode \<Longrightarrow> k = out @ k'"
proof -
  obtain k1 where k1: "parseString_loop True out s = Inr (k1, t)" "decode \<Longrightarrow> k1 = k"
    using parseString_loop_decode [OF assms, of out] assms by (cases decode) auto
  from unquote_parseString [OF k1(1)] unquote_parseString [OF parseString_loop_strip [OF k1(1)]]
  show thesis using that k1(2) by auto
qed

lemma parse_value_strip_step:
  assumes array: "\<And>s' t. length s' < length s \<Longrightarrow> array_loop depth s' = Inr t \<Longrightarrow>
      agrees (parse_items (skipWS s')) (parse_items (strip s')) t"
    and object: "\<And>s' t. length s' < length s \<Longrightarrow> object_loop depth [] s' = Inr t \<Longrightarrow>
      agrees (parse_members (skipWS s')) (parse_members (strip s')) t"
    and p: "parseValue depth s = Inr t" and v: "value_end (skipWS t)"
  shows "agrees (parse_value (skipWS s)) (parse_value (strip s)) t"
proof -
  note prem = p [unfolded parseValue.simps [of depth s]]
  have depth: "\<not> JSONMaxDepth \<le> depth" using prem by (auto split: if_splits)
  obtain c r where c: "skipWS s = c # r" using prem depth by (cases "skipWS s") auto
  have short: "length (skipWS r) < length s"
    using skipWS_less [OF c] length_skipWS [of r] by simp
  have cs: "strip s = c # strip r" if "c \<noteq> CHR 0x22"
    using c that by (rule skipWS_eq_Cons_strip)
  have ws: "skipWS (skipWS r) = skipWS r"
    by (rule skipWS_idem)
  note eval = parse_value.simps
  consider "c = CHR ''{''" | "c = CHR ''[''" | "c = CHR 0x22" | "c = CHR ''t''" | "c = CHR ''f''"
    | "c = CHR ''n''" | "c \<notin> {CHR ''{'', CHR ''['', CHR 0x22, CHR ''t'', CHR ''f'', CHR ''n''}"
    by blast
  then show ?thesis
  proof cases
    case 1
    show ?thesis
    proof (cases "skipWS r \<noteq> [] \<and> hd (skipWS r) = CHR ''}''")
      case True
      then obtain q where q: "skipWS r = CHR ''}'' # q" by (cases "skipWS r") auto
      then show ?thesis
        using 1 prem depth c cs skipWS_eq_Cons_strip [OF q]
        by (intro agreesI [of _ _ "Some (JSONObject [])"]) (simp_all add: eval skipWS_Cons_not jsonWS_def)
    next
      case False
      then have o: "object_loop depth [] (skipWS r) = Inr t" using 1 prem depth c by (simp split: if_splits)
      show ?thesis
        using agrees_map [OF object [OF short o], of JSONObject] 1 c cs False ws
          strip_empty_brackets [of "CHR ''}''" r]
        by (auto simp: eval jsonWS_def)
    qed
  next
    case 2
    show ?thesis
    proof (cases "skipWS r \<noteq> [] \<and> hd (skipWS r) = CHR '']''")
      case True
      then obtain q where q: "skipWS r = CHR '']'' # q" by (cases "skipWS r") auto
      then show ?thesis
        using 2 prem depth c cs skipWS_eq_Cons_strip [OF q]
        by (intro agreesI [of _ _ "Some (JSONArray [])"]) (simp_all add: eval skipWS_Cons_not jsonWS_def)
    next
      case False
      then have o: "array_loop depth (skipWS r) = Inr t" using 2 prem depth c by (simp split: if_splits)
      show ?thesis
        using agrees_map [OF array [OF short o], of JSONArray] 2 c cs False ws
          strip_empty_brackets [of "CHR '']''" r]
        by (auto simp: eval jsonWS_def)
    qed
  next
    case 3
    then obtain k where "parseString_loop False [] r = Inr (k, t)"
      using prem depth c by (auto simp: parseString_def split: sum.splits)
    then obtain k' where "unquote r = Some (k', t)" "unquote (strip_in r) = Some (k', strip t)"
      by (rule unquote_strip)
    moreover have "strip s = CHR 0x22 # strip_in r" using c 3 skipWS_eq_quote_strip by simp
    ultimately show ?thesis using c 3
      by (intro agreesI [of _ _ "Some (JSONString k')"]) (simp_all add: eval)
  next
    case 4
    then have l: "lit ''true'' (skipWS s) = Inr t" using prem depth c by simp
    have "lit ''true'' (strip (skipWS s)) = Inr (strip t)"
      using l by (rule lit_strip) (auto simp: jsonWS_def)
    then have "lit ''true'' (strip s) = Inr (strip t)" by (simp only: strip_skipWS)
    then show ?thesis using l 4 c cs by (intro agreesI [of _ _ "Some JSONTrue"]) (simp_all add: eval)
  next
    case 5
    then have l: "lit ''false'' (skipWS s) = Inr t" using prem depth c by simp
    have "lit ''false'' (strip (skipWS s)) = Inr (strip t)"
      using l by (rule lit_strip) (auto simp: jsonWS_def)
    then have "lit ''false'' (strip s) = Inr (strip t)" by (simp only: strip_skipWS)
    then show ?thesis using l 5 c cs by (intro agreesI [of _ _ "Some JSONFalse"]) (simp_all add: eval)
  next
    case 6
    then have l: "lit ''null'' (skipWS s) = Inr t" using prem depth c by simp
    have "lit ''null'' (strip (skipWS s)) = Inr (strip t)"
      using l by (rule lit_strip) (auto simp: jsonWS_def)
    then have "lit ''null'' (strip s) = Inr (strip t)" by (simp only: strip_skipWS)
    then show ?thesis using l 6 c cs by (intro agreesI [of _ _ "Some JSONNull"]) (simp_all add: eval)
  next
    case 7
    then have n: "parseNumber (skipWS s) = Inr t" using prem depth c by simp
    let ?f = "ParseFloat (take (length (skipWS s) - length t) (skipWS s))"
    have "parse_value (skipWS s) = map_option (\<lambda>f. (JSONNumber f, t)) ?f"
      using n 7 c by (simp add: eval)
    moreover have "parse_value (strip s) = map_option (\<lambda>f. (JSONNumber f, strip t)) ?f"
      using parseNumber_strip [OF n v, unfolded strip_skipWS] 7 c cs by (simp add: eval)
    ultimately show ?thesis
      by (intro agreesI [of _ _ "map_option JSONNumber ?f"]) (simp_all add: option.map_comp comp_def)
  qed
qed

lemma array_object_agree:
  shows "array_loop depth s = Inr t \<Longrightarrow> agrees (parse_items (skipWS s)) (parse_items (strip s)) t"
    and "object_loop depth keys s = Inr t \<Longrightarrow> agrees (parse_members (skipWS s)) (parse_members (strip s)) t"
proof (induction s arbitrary: depth t keys rule: measure_induct_rule [of length])
  case (less s)
  have val: "agrees (parse_value (skipWS s')) (parse_value (strip s')) u"
    if "parseValue d s' = Inr u" "value_end (skipWS u)" "length s' \<le> length s" for d s' u
    using that less.IH by (intro parse_value_strip_step) (simp_all add: order_less_le_trans)
  {
    case 1
    then obtain u where u: "parseValue (depth + 1) s = Inr u"
      by (auto simp: array_loop_eq [of depth s] split: sum.splits)
    then obtain d w where d: "skipWS u = d # w" "d = CHR '','' \<or> d = CHR '']''"
      using 1 by (auto simp: array_loop_eq [of depth s] split: list.splits if_splits)
    have "length w < length s"
      using parseValue_length [OF u] skipWS_less [OF d(1)] by simp
    then have short: "length (skipWS w) < length s" using length_skipWS [of w] by simp
    have "agrees (parse_value (skipWS s)) (parse_value (strip s)) u"
      using u d by (intro val) (auto simp: value_end_def)
    moreover have st: "skipWS (strip u) = d # strip w" using d skipWS_eq_Cons_strip by auto
    moreover have "d = CHR '','' \<and> array_loop depth (skipWS w) = Inr t \<or> d = CHR '']'' \<and> w = t"
      using 1 u d by (auto simp: array_loop_eq [of depth s])
    moreover have "agrees (map_option (apfst ((#) v)) (parse_items (skipWS w)))
        (map_option (apfst ((#) v)) (parse_items (strip w))) t"
      if "array_loop depth (skipWS w) = Inr t" for v
      using less.IH(1) [OF short that] by (intro agrees_map) simp
    ultimately show ?case
      using d by (auto elim!: agreesE simp: parse_items_eq [of "skipWS s"] parse_items_eq [of "strip s"])
  next
    case 2
    then obtain k u where k: "parseString True (skipWS s) = Inr (k, u)"
      and max: "\<not> JSONMaxObjectMembers \<le> length keys"
      by (auto simp: object_loop_eq [of depth keys s] split: sum.splits if_splits)
    then obtain d w where d: "skipWS u = CHR '':'' # w"
      using 2 by (auto simp: object_loop_eq [of depth keys s] split: list.splits if_splits)
    obtain y where y: "parseValue (depth + 1) (skipWS w) = Inr y"
      using 2 k max d by (auto simp: object_loop_eq [of depth keys s] split: sum.splits)
    obtain e x where e: "skipWS y = e # x" "e = CHR '','' \<or> e = CHR ''}''"
      using 2 k max d y by (auto simp: object_loop_eq [of depth keys s] split: list.splits if_splits)
    obtain r where r: "skipWS s = CHR 0x22 # r" and l: "parseString_loop True [] r = Inr (k, u)"
      using k by (auto simp: parseString_def split: list.splits if_splits)
    obtain k' where k': "unquote r = Some (k', u)" "unquote (strip_in r) = Some (k', strip u)"
      using l by (rule unquote_strip)
    have st: "strip s = CHR 0x22 # strip_in r" using r by (rule skipWS_eq_quote_strip)
    have "length (skipWS w) < length s"
      using parseString_length [OF k] length_skipWS [of s] skipWS_less [OF d] length_skipWS [of w] by simp
    moreover from this have short: "length x < length s"
      using parseValue_length [OF y] skipWS_less [OF e(1)] by simp
    ultimately have "agrees (parse_value (skipWS w)) (parse_value (strip w)) y"
      using val [of "depth + 1" "skipWS w" y] y e by (auto simp: value_end_def)
    moreover have "skipWS (strip u) = CHR '':'' # strip w" "skipWS (strip y) = e # strip x"
      using d e skipWS_eq_Cons_strip by auto
    moreover have "e = CHR '','' \<and> object_loop depth (keys @ [k]) x = Inr t \<or> e = CHR ''}'' \<and> x = t"
      using 2 k max d y e by (auto simp: object_loop_eq [of depth keys s] split: if_splits)
    moreover have "agrees (map_option (apfst ((#) v)) (parse_members (skipWS x)))
        (map_option (apfst ((#) v)) (parse_members (strip x))) t"
      if "object_loop depth (keys @ [k]) x = Inr t" for v
      using less.IH(2) [OF short that] by (intro agrees_map) simp
    ultimately show ?case
      using k' d e(1) unfolding r st by (auto elim!: agreesE simp: parse_members_eq)
  }
qed

lemma parse_value_strip:
  "parseValue depth s = Inr t \<Longrightarrow> value_end (skipWS t) \<Longrightarrow>
     agrees (parse_value (skipWS s)) (parse_value (strip s)) t"
  by (rule parse_value_strip_step) (auto intro: array_object_agree)

text \<open>C27: compaction does not change what a document means: the reader of \<open>cjson.go\<close> returns the same
  value for the compacted text as for the original.\<close>

theorem JSONCompact_meaning: "JSONCompact input = Inr out \<Longrightarrow> ParseJSON out = ParseJSON input"
  by (elim JSONCompact_Inr, drule parse_value_strip)
    (auto simp: ParseJSON_def elim: agreesE)

theorem JSONCompact_meaning_witness:
  "JSONCompact (''[ '' @ [CHR 0x22] @ ''a '' @ [CHR 0x22] @ '' , 1 ]'')
      = Inr (''['' @ [CHR 0x22] @ ''a '' @ [CHR 0x22] @ '',1]'')
    \<and> ParseJSON (''['' @ [CHR 0x22] @ ''a '' @ [CHR 0x22] @ '',1]'')
      = ParseJSON (''[ '' @ [CHR 0x22] @ ''a '' @ [CHR 0x22] @ '' , 1 ]'')"
proof -
  have "JSONCompact (''[ '' @ [CHR 0x22] @ ''a '' @ [CHR 0x22] @ '' , 1 ]'')
      = Inr (''['' @ [CHR 0x22] @ ''a '' @ [CHR 0x22] @ '',1]'')"
    by (simp add: JSONCompact_def JSONMaxInput_def parseValue.simps array_loop_eq parseString_def
        parseString_loop.simps skipWS_def jsonWS_def JSONMaxDepth_def utf8Sequence_def parseNumber_def
        number_int_def number_frac_def number_exp_def byte_def is_digit_def Let_def)
  then show ?thesis using JSONCompact_meaning by blast
qed

end
