(* ===== verification/Interfaces.thy ===== *)
theory Interfaces
  imports Prelude
begin

text \<open>
  Interfaces that several components share. A \<open>dedup_store\<close> collects items in arrival order and keeps
  the first item of every key: the coordinate set of the closet, the recall index, the id set of the
  repair pass and the file list of an episode are its providers.
\<close>

section \<open>Stores that keep the first item of a key\<close>

locale dedup_store =
  fixes items :: "'s \<Rightarrow> 'a list"
    and has_key :: "'s \<Rightarrow> 'k \<Rightarrow> bool"
    and put :: "'a \<Rightarrow> 's \<Rightarrow> 's"
    and key :: "'a \<Rightarrow> 'k"
    and admissible :: "'a \<Rightarrow> bool"
    and valid :: "'s \<Rightarrow> bool"
  assumes has_key_iff: "valid s \<Longrightarrow> has_key s k \<longleftrightarrow> k \<in> key ` set (items s)"
    and items_put: "valid s \<Longrightarrow> items (put a s) =
      (if admissible a \<and> \<not> has_key s (key a) then items s @ [a] else items s)"
    and valid_put: "valid s \<Longrightarrow> valid (put a s)"
begin

lemma valid_fold: "valid s \<Longrightarrow> valid (fold put as s)"
  by (induction as arbitrary: s) (simp_all add: valid_put)

lemma distinct_put: "valid s \<Longrightarrow> distinct (map key (items s)) \<Longrightarrow> distinct (map key (items (put a s)))"
  by (auto simp: items_put has_key_iff)

lemma distinct_fold:
  "valid s \<Longrightarrow> distinct (map key (items s)) \<Longrightarrow> distinct (map key (items (fold put as s)))"
  by (induction as arbitrary: s) (simp_all add: valid_put distinct_put)

lemma prefix_put: "valid s \<Longrightarrow> prefix (items s) (items (put a s))"
  by (simp add: items_put)

lemma prefix_fold: "valid s \<Longrightarrow> prefix (items s) (items (fold put as s))"
proof (induction as arbitrary: s)
  case (Cons a as)
  then have "prefix (items (put a s)) (items (fold put as (put a s)))" by (simp add: valid_put)
  with prefix_put [OF Cons.prems, of a] show ?case by (auto intro: prefix_order.trans)
qed simp

lemma new_fold:
  "valid s \<Longrightarrow> \<exists>new. items (fold put as s) = items s @ new \<and> set new \<subseteq> set (filter admissible as)"
proof (induction as arbitrary: s)
  case (Cons a as)
  then obtain new where "items (fold put as (put a s)) = items (put a s) @ new"
    "set new \<subseteq> set (filter admissible as)" using valid_put by blast
  then show ?case
    using Cons.prems by (cases "admissible a \<and> \<not> has_key s (key a)") (auto simp: items_put)
qed simp

lemma set_put_subset: "valid s \<Longrightarrow> set (items (put a s)) \<subseteq> insert a (set (items s))"
  by (auto simp: items_put)

lemma keys_put:
  "valid s \<Longrightarrow> admissible a \<Longrightarrow> key ` set (items (put a s)) = insert (key a) (key ` set (items s))"
  by (auto simp: items_put has_key_iff)

lemma keys_fold:
  "valid s \<Longrightarrow> key ` set (items (fold put as s)) = key ` set (items s) \<union> key ` set (filter admissible as)"
proof (induction as arbitrary: s)
  case (Cons a as)
  show ?case
  proof (cases "admissible a")
    case True
    then show ?thesis using Cons by (simp add: valid_put keys_put)
  next
    case False
    then show ?thesis using Cons by (simp add: valid_put items_put)
  qed
qed simp

end

section \<open>State that survives a process\<close>

text \<open>
  A component that saves its state to a text and loads it back. \<open>norm\<close> is what a state becomes by one
  trip (a field that is deliberately not carried over, an order that is not kept); loading never
  yields more than that, and a second trip changes nothing. The task rail, the sealed episode and
  the reducer state are its providers.
\<close>

locale persisted =
  fixes save :: "'s \<Rightarrow> string option"
    and load :: "string \<Rightarrow> 's option"
    and good :: "'s \<Rightarrow> bool"
    and norm :: "'s \<Rightarrow> 's"
  assumes load_save: "good s \<Longrightarrow> save s = Some b \<Longrightarrow> load b = Some (norm s)"
    and good_norm: "good s \<Longrightarrow> good (norm s)"
    and norm_norm: "good s \<Longrightarrow> norm (norm s) = norm s"
begin

text \<open>\<open>n\<close> further restarts.\<close>

definition restart :: "'s option \<Rightarrow> 's option" where
  "restart so = Option.bind (Option.bind so save) load"

lemma restart_Some: "good s \<Longrightarrow> save s = Some b \<Longrightarrow> restart (Some s) = Some (norm s)"
  by (simp add: restart_def load_save)

lemma restarts_stable:
  assumes "good s" "save s \<noteq> None" "save (norm s) \<noteq> None"
  shows "(restart ^^ Suc n) (Some s) = Some (norm s)"
proof (induction n)
  case 0
  then show ?case using assms by (auto simp: restart_Some)
next
  case (Suc n)
  then show ?case using assms good_norm norm_norm by (auto simp: restart_Some)
qed

end

end
