(* ===== verification/Closet.thy ===== *)
theory Closet
  imports Interfaces Float64
begin

text \<open>
  \<open>closet.go\<close>: the coordinate closet. A single scan of the folded text nominates identifiers with a
  fixed matcher priority; the set keeps the first of each (lane, value); rendering sorts by a total
  order, fits entries under a byte cap and announces what it leaves out. The scan position \<open>i\<close> is kept
  as in the code; a matcher is given the rest of the text and returns the matched length, 0 for none.
\<close>

section \<open>Data\<close>

datatype Lane = LaneAgent | LaneUser

datatype CoordKind =
    CoordKindUUID | CoordKindSHA | CoordKindPath | CoordKindKV | CoordKindRef | CoordKindHandle

definition lane_int :: "Lane \<Rightarrow> nat" where
  "lane_int l = (case l of LaneAgent \<Rightarrow> 0 | LaneUser \<Rightarrow> 1)"

lemma lane_int_inject [simp]: "lane_int l = lane_int l' \<longleftrightarrow> l = l'"
  by (cases l; cases l') (simp_all add: lane_int_def)

instantiation Lane :: linorder
begin

definition less_eq_Lane :: "Lane \<Rightarrow> Lane \<Rightarrow> bool" where
  "less_eq_Lane l l' \<longleftrightarrow> lane_int l \<le> lane_int l'"

definition less_Lane :: "Lane \<Rightarrow> Lane \<Rightarrow> bool" where
  "less_Lane l l' \<longleftrightarrow> lane_int l < lane_int l'"

instance
  by standard (auto simp: less_eq_Lane_def less_Lane_def)

end

record Provenance =
  Lane :: Lane
  TurnID :: int
  ToolCallID :: int
  ResultIndex :: int

definition DefaultProvenance :: Provenance where
  "DefaultProvenance = \<lparr> Lane = LaneAgent, TurnID = -1, ToolCallID = -1, ResultIndex = -1 \<rparr>"

record CoordEntry =
  Value :: string
  CoordLabel :: string
  Kind :: CoordKind
  Prov :: Provenance
  FirstOffset :: int

record ClosetConfig =
  Enabled :: bool
  BudgetBytes :: int
  MaxRatioPct :: int
  Denylist :: string

definition ClosetDefaultBudgetBytes :: int where "ClosetDefaultBudgetBytes = 2048"
definition ClosetDefaultMaxRatioPct :: int where "ClosetDefaultMaxRatioPct = 100"

datatype EvictResult = EvictNone | EvictFail

section \<open>ASCII classes\<close>

definition aAlpha :: "char \<Rightarrow> bool" where
  "aAlpha c \<longleftrightarrow> (c \<ge> CHR ''a'' \<and> c \<le> CHR ''z'') \<or> (c \<ge> CHR ''A'' \<and> c \<le> CHR ''Z'')"

definition aDigit :: "char \<Rightarrow> bool" where
  "aDigit c \<longleftrightarrow> CHR ''0'' \<le> c \<and> c \<le> CHR ''9''"

definition aAlnum :: "char \<Rightarrow> bool" where
  "aAlnum c \<longleftrightarrow> aAlpha c \<or> aDigit c"

definition isHex :: "char \<Rightarrow> bool" where
  "isHex c \<longleftrightarrow> aDigit c \<or> CHR ''a'' \<le> c \<and> c \<le> CHR ''f'' \<or> CHR ''A'' \<le> c \<and> c \<le> CHR ''F''"

definition ciContains :: "string \<Rightarrow> string \<Rightarrow> bool" where
  "ciContains hay needle =
     (if hay = [] \<or> needle = [] then False
      else str_contains (asciiLower hay) (asciiLower needle))"

definition isIdentBoundary :: "char \<Rightarrow> bool" where
  "isIdentBoundary c \<longleftrightarrow>
     \<not> (aAlnum c \<or> c = CHR ''_'' \<or> c = CHR ''-'' \<or> c = CHR ''.'' \<or> c = CHR ''/'' \<or> c = CHR '':'')"

definition tokenContinues :: "char \<Rightarrow> bool" where
  "tokenContinues c \<longleftrightarrow> aAlnum c \<or> c = CHR ''_'' \<or> c = CHR ''-''"

section \<open>Matchers\<close>

text \<open>\<open>n\<close> hex digits at the front of \<open>s\<close>; then the groups of a UUID, separated by hyphens.\<close>

fun hex_run :: "nat \<Rightarrow> string \<Rightarrow> string option" where
  "hex_run 0 s = Some s"
| "hex_run (Suc n) [] = None"
| "hex_run (Suc n) (c # s) = (if isHex c then hex_run n s else None)"

fun uuid_groups :: "nat list \<Rightarrow> string \<Rightarrow> string option" where
  "uuid_groups [] s = Some s"
| "uuid_groups [n] s = hex_run n s"
| "uuid_groups (n # ns) s =
     (case hex_run n s of
        Some (c # r) \<Rightarrow> if c = CHR ''-'' then uuid_groups ns r else None
      | _ \<Rightarrow> None)"

definition matchUUID :: "string \<Rightarrow> nat" where
  "matchUUID s =
     (case uuid_groups [8, 4, 4, 4, 12] s of
        None \<Rightarrow> 0
      | Some r \<Rightarrow> if r \<noteq> [] \<and> tokenContinues (hd r) then 0 else length s - length r)"

definition handle_with :: "string \<Rightarrow> string \<Rightarrow> nat option" where
  "handle_with prefx s =
     (if \<not> has_prefix s prefx then None
      else let off = length prefx +
             length (takeWhile (\<lambda>c. aAlnum c \<or> c = CHR ''_'' \<or> c = CHR ''-'') (drop (length prefx) s))
           in if off > length prefx then Some off else None)"

definition matchHandle :: "string \<Rightarrow> nat \<times> string" where
  "matchHandle s =
     (case handle_with ''handle:'' s of
        Some off \<Rightarrow> (off, ''handle'')
      | None \<Rightarrow> (case handle_with ''memory:'' s of
                   Some off \<Rightarrow> (off, ''memory'')
                 | None \<Rightarrow> (0, [])))"

text \<open>The matched length, the label and the span of the value.\<close>

definition kv_value_char :: "char \<Rightarrow> bool" where
  "kv_value_char c \<longleftrightarrow> aAlnum c \<or> c = CHR ''.'' \<or> c = CHR ''-'' \<or> c = CHR '':'' \<or> c = CHR ''_''"

fun drop_dots :: "string \<Rightarrow> nat \<Rightarrow> nat \<Rightarrow> nat" where
  "drop_dots s low 0 = 0"
| "drop_dots s low (Suc n) = (if Suc n > low \<and> s ! n = CHR ''.'' then drop_dots s low n else Suc n)"

definition matchKV :: "string \<Rightarrow> nat \<times> string \<times> nat \<times> nat" where
  "matchKV s =
     (if s = [] \<or> \<not> (aAlpha (hd s) \<or> hd s = CHR ''_'') then (0, [], 0, 0)
      else let kend = length (takeWhile (\<lambda>c. aAlnum c \<or> c = CHR ''_'') s)
           in if length s \<le> kend \<or> s ! kend \<noteq> CHR ''='' then (0, [], 0, 0)
              else let vs = kend + 1;
                       v = takeWhile kv_value_char (drop vs s);
                       off = vs + length v
                   in if off = vs \<or> \<not> list_ex aDigit v then (0, [], 0, 0)
                      else (off, asciiLower (take kend s), vs, drop_dots s vs off))"

definition path_char :: "char \<Rightarrow> bool" where
  "path_char c \<longleftrightarrow> aAlnum c \<or> c = CHR ''/'' \<or> c = CHR ''.'' \<or> c = CHR ''_'' \<or> c = CHR ''-''"

definition path_anchored :: "string \<Rightarrow> bool" where
  "path_anchored s \<longleftrightarrow> has_prefix s ''/'' \<or> has_prefix s ''./'' \<or> has_prefix s ''../''"

fun last_slash :: "string \<Rightarrow> nat \<Rightarrow> nat" where
  "last_slash s 0 = 0"
| "last_slash s (Suc n) = (if s ! n = CHR ''/'' then n else last_slash s n)"

definition matchPath :: "string \<Rightarrow> nat" where
  "matchPath s =
     (if s = [] then 0
      else let tok = takeWhile path_char s;
               slashes = length (filter (\<lambda>c. c = CHR ''/'') tok);
               letters = length (filter aAlpha tok);
               lastSlash = last_slash tok (length tok)
           in if slashes < 1 \<or> length tok < 3 then 0
              else let off = drop_dots tok 0 (length tok);
                       dotInFinal = list_ex (\<lambda>i. tok ! i = CHR ''.'') [lastSlash + 1 ..< off]
                   in if \<not> path_anchored s \<and> (letters = 0 \<or> \<not> dotInFinal \<and> slashes < 2) then 0
                      else off)"

definition matchSHA :: "string \<Rightarrow> nat" where
  "matchSHA s =
     (let run = takeWhile isHex (take 65 s);
          off = length run;
          alpha = list_ex (\<lambda>c. \<not> aDigit c) run
      in if off < 7 \<or> off > 64 \<or> \<not> alpha then 0
         else if off < length s \<and> tokenContinues (s ! off) then 0
         else off)"

definition matchRef :: "string \<Rightarrow> nat" where
  "matchRef s =
     (if length s < 2 \<or> s ! 0 \<noteq> CHR ''#'' \<or> \<not> aDigit (s ! 1) then 0
      else 1 + length (takeWhile aDigit (drop 1 s)))"

section \<open>The set of coordinates\<close>

text \<open>\<open>seen\<close> holds the formatted keys \<open>"%d\x00%s"\<close> of (lane, value).\<close>

record CoordSet =
  CoordItems :: "CoordEntry list"
  seen :: "string set"

definition coord_key :: "string \<Rightarrow> Lane \<Rightarrow> string" where
  "coord_key val lane = nat_str (lane_int lane) @ CHR 0x00 # val"

definition empty_CoordSet :: CoordSet where
  "empty_CoordSet = \<lparr> CoordItems = [], seen = {} \<rparr>"

definition coord_has :: "CoordSet \<Rightarrow> string \<Rightarrow> Lane \<Rightarrow> bool" where
  "coord_has cs val lane \<longleftrightarrow> coord_key val lane \<in> seen cs"

definition coord_add ::
  "string \<Rightarrow> string \<Rightarrow> CoordKind \<Rightarrow> Provenance \<Rightarrow> int \<Rightarrow> CoordSet \<Rightarrow> CoordSet" where
  "coord_add val label kind prov offset cs =
     (if val = [] \<or> coord_has cs val (Lane prov) then cs
      else cs \<lparr> CoordItems := CoordItems cs @
                 [\<lparr> Value = val, CoordLabel = label, Kind = kind, Prov = prov, FirstOffset = offset \<rparr>],
               seen := insert (coord_key val (Lane prov)) (seen cs) \<rparr>)"

text \<open>The first matcher that applies at \<open>p\<close>: the matched length, the value, its label and kind.\<close>

definition match_at :: "string \<Rightarrow> (nat \<times> string \<times> string \<times> CoordKind) option" where
  "match_at p =
     (let m = matchUUID p in
      if m > 0 then Some (m, take m p, ''uuid'', CoordKindUUID)
      else let (m, lbl) = matchHandle p in
      if m > 0 then Some (m, take m p, lbl, CoordKindHandle)
      else let (m, lbl, vs, ve) = matchKV p in
      if m > 0 then Some (m, take (ve - vs) (drop vs p), lbl, CoordKindKV)
      else let m = matchPath p in
      if m > 0 then Some (m, take m p, ''path'', CoordKindPath)
      else let m = matchSHA p in
      if m > 0 then Some (m, take m p, ''sha'', CoordKindSHA)
      else let m = matchRef p in
      if m > 0 then Some (m, take m p, ''ref'', CoordKindRef)
      else None)"

lemma match_at_pos: "match_at p = Some (m, r) \<Longrightarrow> 0 < m"
  by (auto simp: match_at_def Let_def split: if_splits prod.splits)

function nominate_loop :: "string \<Rightarrow> Provenance \<Rightarrow> nat \<Rightarrow> CoordSet \<Rightarrow> CoordSet" where
  "nominate_loop raw pv i cs =
     (if length raw \<le> i then cs
      else if \<not> (i = 0 \<or> isIdentBoundary (raw ! (i - 1))) then nominate_loop raw pv (i + 1) cs
      else (case match_at (drop i raw) of
              Some (m, val, label, kind) \<Rightarrow>
                nominate_loop raw pv (i + m) (coord_add val label kind pv (int i) cs)
            | None \<Rightarrow> nominate_loop raw pv (i + 1) cs))"
  by pat_completeness auto
termination
  by (relation "measure (\<lambda>(raw, pv, i, cs). length raw - i)")
    (auto dest!: match_at_pos intro: diff_less diff_less_mono2)

declare nominate_loop.simps [simp del]

text \<open>The updated set and the number of coordinates added; a nil set is \<open>None\<close>, a nil provenance the
  default.\<close>

definition NominateInto ::
  "string \<Rightarrow> Provenance option \<Rightarrow> CoordSet option \<Rightarrow> CoordSet option \<times> int" where
  "NominateInto raw prov cs =
     (case cs of
        None \<Rightarrow> (None, 0)
      | Some c \<Rightarrow>
          if raw = [] then (Some c, 0)
          else let pv = (case prov of None \<Rightarrow> DefaultProvenance | Some q \<Rightarrow> q);
                   c' = nominate_loop raw pv 0 c
               in (Some c', int (length (CoordItems c')) - int (length (CoordItems c))))"

definition Nominate :: "string \<Rightarrow> Provenance option \<Rightarrow> CoordEntry list" where
  "Nominate raw prov =
     (case fst (NominateInto raw prov (Some empty_CoordSet)) of None \<Rightarrow> [] | Some c \<Rightarrow> CoordItems c)"

section \<open>The set keeps the first coordinate of each (lane, value)\<close>

lemma lane_digit: "nat_str (lane_int l) = [digit_char (lane_int l)]"
  by (cases l) (simp_all add: lane_int_def nat_str_def to_base.simps)

lemma coord_key_inject [simp]: "coord_key v l = coord_key v' l' \<longleftrightarrow> v = v' \<and> l = l'"
proof -
  have "digit_char (lane_int l) = digit_char (lane_int l') \<longleftrightarrow> l = l'"
    by (cases l; cases l') (simp_all add: lane_int_def digit_char_def byte_def)
  then show ?thesis by (auto simp: coord_key_def lane_digit)
qed

definition entry_key :: "CoordEntry \<Rightarrow> string" where
  "entry_key e = coord_key (Value e) (Lane (Prov e))"

definition put_entry :: "CoordEntry \<Rightarrow> CoordSet \<Rightarrow> CoordSet" where
  "put_entry e = coord_add (Value e) (CoordLabel e) (Kind e) (Prov e) (FirstOffset e)"

definition coord_valid :: "CoordSet \<Rightarrow> bool" where
  "coord_valid cs \<longleftrightarrow> seen cs = entry_key ` set (CoordItems cs)"

lemma entry_eta:
  "\<lparr> Value = Value e, CoordLabel = CoordLabel e, Kind = Kind e, Prov = Prov e,
     FirstOffset = FirstOffset e \<rparr> = e" for e :: CoordEntry
  by simp

interpretation coords: dedup_store CoordItems "\<lambda>cs k. k \<in> seen cs" put_entry entry_key
    "\<lambda>e. Value e \<noteq> []" coord_valid
  by unfold_locales
    (auto simp: coord_valid_def put_entry_def coord_add_def coord_has_def entry_key_def)

text \<open>The coordinates the scan reports, in order; the scan folds them into the set.\<close>

function scan_entries :: "string \<Rightarrow> Provenance \<Rightarrow> nat \<Rightarrow> CoordEntry list" where
  "scan_entries raw pv i =
     (if length raw \<le> i then []
      else if \<not> (i = 0 \<or> isIdentBoundary (raw ! (i - 1))) then scan_entries raw pv (i + 1)
      else (case match_at (drop i raw) of
              Some (m, val, label, kind) \<Rightarrow>
                \<lparr> Value = val, CoordLabel = label, Kind = kind, Prov = pv, FirstOffset = int i \<rparr>
                  # scan_entries raw pv (i + m)
            | None \<Rightarrow> scan_entries raw pv (i + 1)))"
  by pat_completeness auto
termination
  by (relation "measure (\<lambda>(raw, pv, i). length raw - i)")
    (auto dest!: match_at_pos intro: diff_less diff_less_mono2)

declare scan_entries.simps [simp del]

lemma put_entry_rec:
  "put_entry \<lparr> Value = v, CoordLabel = l, Kind = k, Prov = pv, FirstOffset = i \<rparr> = coord_add v l k pv i"
  by (simp add: put_entry_def)

lemma nominate_loop_fold: "nominate_loop raw pv i cs = fold put_entry (scan_entries raw pv i) cs"
proof (induction raw pv i cs rule: nominate_loop.induct)
  case (1 raw pv i cs)
  then show ?case
    by (subst nominate_loop.simps, subst scan_entries.simps)
      (auto simp: put_entry_rec split: option.split)
qed

lemma match_at_sublist: "match_at p = Some (m, val, label, kind) \<Longrightarrow> sublist val p"
  by (auto simp: match_at_def Let_def split: if_splits prod.splits
      intro: sublist_order.order.trans [OF sublist_take sublist_drop])

lemma scan_entries_sound:
  "e \<in> set (scan_entries raw pv i) \<Longrightarrow>
     sublist (Value e) raw \<and> Prov e = pv \<and> FirstOffset e < int (length raw)"
proof (induction raw pv i rule: scan_entries.induct)
  case (1 raw pv i)
  have "sublist val raw" if "match_at (drop i raw) = Some (m, val, label, kind)" for m val label kind
    using match_at_sublist [OF that] sublist_drop sublist_order.order.trans by blast
  then show ?case
    using 1 by (subst (asm) (2) scan_entries.simps) (auto split: if_splits option.splits)
qed

text \<open>Nomination is verbatim and lossless. Into a set built by the same operations it only
  appends; every coordinate it appends is a contiguous part of the scanned text with the caller's
  provenance and an offset inside the text; no (lane, value) pair occurs twice; and every pair the
  scan meets is in the set afterwards.\<close>

theorem NominateInto_verbatim:
  assumes "coord_valid cs" "distinct (map entry_key (CoordItems cs))"
    and "NominateInto raw (Some pv) (Some cs) = (Some cs', n)"
  shows "\<exists>new. CoordItems cs' = CoordItems cs @ new \<and> n = int (length new)
    \<and> (\<forall>e \<in> set new. sublist (Value e) raw \<and> Value e \<noteq> [] \<and> Prov e = pv \<and> FirstOffset e < int (length raw))
    \<and> distinct (map (\<lambda>e. (Lane (Prov e), Value e)) (CoordItems cs'))
    \<and> (\<forall>e \<in> set (scan_entries raw pv 0). Value e \<noteq> [] \<longrightarrow>
        (\<exists>e' \<in> set (CoordItems cs'). Value e' = Value e \<and> Lane (Prov e') = Lane (Prov e)))"
proof -
  have cs': "cs' = fold put_entry (scan_entries raw pv 0) cs"
    and n: "n = int (length (CoordItems cs')) - int (length (CoordItems cs))"
    using assms(3) by (auto simp: NominateInto_def Let_def nominate_loop_fold scan_entries.simps split: if_splits)
  obtain new where new: "CoordItems cs' = CoordItems cs @ new"
    "set new \<subseteq> set (filter (\<lambda>e. Value e \<noteq> []) (scan_entries raw pv 0))"
    using coords.new_fold [OF assms(1)] unfolding cs' by blast
  moreover have "distinct (map (\<lambda>e. (Lane (Prov e), Value e)) (CoordItems cs'))"
  proof -
    have "distinct (map entry_key (CoordItems cs'))"
      unfolding cs' by (rule coords.distinct_fold [OF assms(1,2)])
    then show ?thesis by (auto simp: distinct_map inj_on_def entry_key_def)
  qed
  moreover have "\<exists>e' \<in> set (CoordItems cs'). Value e' = Value e \<and> Lane (Prov e') = Lane (Prov e)"
    if "e \<in> set (scan_entries raw pv 0)" "Value e \<noteq> []" for e
  proof -
    have "entry_key e \<in> entry_key ` set (CoordItems cs')"
      using that unfolding cs' coords.keys_fold [OF assms(1)] by auto
    then show ?thesis by (auto simp: entry_key_def)
  qed
  moreover have "sublist (Value e) raw \<and> Value e \<noteq> [] \<and> Prov e = pv \<and> FirstOffset e < int (length raw)"
    if "e \<in> set new" for e
    using subsetD [OF new(2) that] scan_entries_sound [of e raw pv 0] by simp
  moreover have "n = int (length new)" using n new(1) by simp
  ultimately show ?thesis by blast
qed

theorem NominateInto_verbatim_witness:
  "\<exists>cs'. NominateInto ''#1 /a.b'' (Some DefaultProvenance) (Some empty_CoordSet) = (Some cs', 2)
     \<and> map Value (CoordItems cs') = [''#1'', ''/a.b'']
     \<and> (\<forall>e \<in> set (CoordItems cs'). sublist (Value e) ''#1 /a.b'')"
proof -
  define cs' where "cs' = nominate_loop ''#1 /a.b'' DefaultProvenance 0 empty_CoordSet"
  have items: "map Value (CoordItems cs') = [''#1'', ''/a.b'']" unfolding cs'_def by code_simp
  then have "length (CoordItems cs') = 2" by (metis length_map length_Cons list.size(3) Suc_1 One_nat_def)
  then have r: "NominateInto ''#1 /a.b'' (Some DefaultProvenance) (Some empty_CoordSet) = (Some cs', 2)"
    by (simp add: NominateInto_def cs'_def [symmetric]) (simp add: empty_CoordSet_def)
  have "coord_valid empty_CoordSet" "distinct (map entry_key (CoordItems empty_CoordSet))"
    and e: "CoordItems empty_CoordSet = []"
    by (simp_all add: coord_valid_def empty_CoordSet_def)
  from NominateInto_verbatim [OF this(1,2) r] have "\<forall>e \<in> set (CoordItems cs'). sublist (Value e) ''#1 /a.b''"
    unfolding e by auto
  then show ?thesis by (intro exI [of _ cs'] conjI r items)
qed

end
