(* ===== verification/ClosetRender.thy ===== *)
theory ClosetRender
  imports Closet "HOL-Library.Multiset"
begin

text \<open>
  Rendering of the closet (\<open>closet.go\<close>): secret detection, one line per coordinate, the total order,
  the byte cap and the announcement of what is left out. The lemmas show that the text depends on the
  set of coordinates only (not on the order they were nominated in) and stays under the cap.
\<close>

section \<open>Secrets\<close>

definition labelIsSensitive :: "string \<Rightarrow> bool" where
  "labelIsSensitive label =
     (if label = [] then False
      else list_ex (ciContains label)
        [''secret'', ''password'', ''passwd'', ''token'',
         ''apikey'', ''api_key'', ''api-key'', ''authorization'',
         ''credential'', ''private_key'', ''session_token''])"

text \<open>\<open>strings.FieldsFunc\<close> for an ASCII separator set.\<close>

fun fields_func :: "(char \<Rightarrow> bool) \<Rightarrow> string \<Rightarrow> string \<Rightarrow> string list" where
  "fields_func sep acc [] = (if acc = [] then [] else [acc])"
| "fields_func sep acc (c # s) =
     (if sep c then (if acc = [] then fields_func sep [] s else acc # fields_func sep [] s)
      else fields_func sep (acc @ [c]) s)"

definition IsSecret :: "string \<Rightarrow> string \<Rightarrow> bool" where
  "IsSecret val extraDenylist =
     (if val = [] then False
      else if list_ex (has_prefix val)
        [''ghp_'', ''gho_'', ''ghs_'', ''ghu_'', ''github_pat_'', ''sk-'', ''xoxb-'', ''xoxp-'', ''xoxa-'',
         ''xapp-'', ''AKIA'', ''ASIA'', ''AIza'', ''ya29.'', ''npm_'', ''glpat-'', ''eyJ'', ''-----BEGIN'']
      then True
      else if list_ex (ciContains val)
        [''id_rsa'', ''id_ed25519'', ''id_ecdsa'', ''.pem'', ''/.ssh/'', ''.env'', ''credentials'']
      then True
      else list_ex (ciContains val)
        (fields_func (\<lambda>r. r = CHR '','' \<or> r = CHR '' '' \<or> r = CHR 0x09) [] extraDenylist))"

section \<open>Lines and order\<close>

text \<open>The brackets U+27E6 and U+27E7 and the dash U+2014, as UTF-8.\<close>

definition bracket_open :: string where "bracket_open = [CHR 0xE2, CHR 0x9F, CHR 0xA6]"
definition bracket_close :: string where "bracket_close = [CHR 0xE2, CHR 0x9F, CHR 0xA7]"
definition em_dash :: string where "em_dash = [CHR 0xE2, CHR 0x80, CHR 0x94]"

definition closetLine :: "CoordEntry \<Rightarrow> string \<Rightarrow> string" where
  "closetLine e denylist =
     (let suffx = (if Lane (Prov e) = LaneUser then '' (untrusted)'' else [])
      in if IsSecret (Value e) denylist \<or> labelIsSensitive (CoordLabel e) then
           ''  [redacted:'' @ CoordLabel e @ ''] '' @ bracket_open @ CoordLabel e @ bracket_close
             @ suffx @ [CHR 0x0A]
         else ''  '' @ Value e @ '' '' @ bracket_open @ CoordLabel e @ bracket_close
             @ suffx @ [CHR 0x0A])"

definition closetHeader :: string where
  "closetHeader = ''Coordinate Closet (conserved from folded turns):'' @ [CHR 0x0A]"
definition closetHeaderPartial :: string where
  "closetHeaderPartial =
     ''Coordinate Closet (partial '' @ em_dash @ '' some identifiers omitted, raise budget):'' @ [CHR 0x0A]"
definition closetDivider :: string where
  "closetDivider = ''  -- user-supplied (untrusted) --'' @ [CHR 0x0A]"
definition closetTruncNote :: string where
  "closetTruncNote = ''  [...additional identifiers omitted...]'' @ [CHR 0x0A]"

definition entryLess :: "CoordEntry \<Rightarrow> CoordEntry \<Rightarrow> bool" where
  "entryLess x y =
     (if Lane (Prov x) \<noteq> Lane (Prov y) then Lane (Prov x) < Lane (Prov y)
      else if CoordLabel x \<noteq> CoordLabel y then CoordLabel x < CoordLabel y
      else if FirstOffset x \<noteq> FirstOffset y then FirstOffset x < FirstOffset y
      else if TurnID (Prov x) \<noteq> TurnID (Prov y) then TurnID (Prov x) < TurnID (Prov y)
      else if ToolCallID (Prov x) \<noteq> ToolCallID (Prov y) then ToolCallID (Prov x) < ToolCallID (Prov y)
      else if ResultIndex (Prov x) \<noteq> ResultIndex (Prov y) then ResultIndex (Prov x) < ResultIndex (Prov y)
      else Value x < Value y)"

text \<open>\<open>sort.SliceStable\<close> with the comparison \<open>lt\<close>: insertion after every element that is not greater.\<close>

fun insert_stable :: "('a \<Rightarrow> 'a \<Rightarrow> bool) \<Rightarrow> 'a \<Rightarrow> 'a list \<Rightarrow> 'a list" where
  "insert_stable lt x [] = [x]"
| "insert_stable lt x (y # ys) = (if lt y x then y # insert_stable lt x ys else x # y # ys)"

definition SliceStable :: "('a \<Rightarrow> 'a \<Rightarrow> bool) \<Rightarrow> 'a list \<Rightarrow> 'a list" where
  "SliceStable lt xs = foldr (insert_stable lt) xs []"

section \<open>Rendering\<close>

text \<open>Pass 1: how many entries fit, and whether one did not.\<close>

fun fit_pass :: "string \<Rightarrow> int \<Rightarrow> int \<Rightarrow> bool \<Rightarrow> CoordEntry list \<Rightarrow> nat \<times> bool" where
  "fit_pass denylist cap tot userDiv [] = (0, False)"
| "fit_pass denylist cap tot userDiv (e # es) =
     (let add = (if Lane (Prov e) = LaneUser \<and> \<not> userDiv then int (length closetDivider) else 0)
              + int (length (closetLine e denylist))
      in if tot + add + int (length closetTruncNote) + 1 > cap then (0, True)
         else let (fit, failed) =
                fit_pass denylist cap (tot + add) (userDiv \<or> Lane (Prov e) = LaneUser) es
              in (Suc fit, failed))"

text \<open>Pass 2: the lines, with the divider before the first user-supplied one.\<close>

fun write_pass :: "string \<Rightarrow> bool \<Rightarrow> CoordEntry list \<Rightarrow> string" where
  "write_pass denylist userDiv [] = []"
| "write_pass denylist userDiv (e # es) =
     (if Lane (Prov e) = LaneUser \<and> \<not> userDiv then closetDivider else [])
     @ closetLine e denylist @ write_pass denylist (userDiv \<or> Lane (Prov e) = LaneUser) es"

definition closet_cap :: "ClosetConfig \<Rightarrow> int \<Rightarrow> int" where
  "closet_cap cfg rawLen =
     (let budget = (if BudgetBytes cfg \<le> 0 then ClosetDefaultBudgetBytes else BudgetBytes cfg);
          ratio = (if MaxRatioPct cfg \<le> 0 then ClosetDefaultMaxRatioPct else MaxRatioPct cfg);
          ratioCap = (if ratio < 100 then wrap64 (rawLen * ratio) sdiv 100 else rawLen)
      in if ratioCap < budget then ratioCap else budget)"

definition RenderCloset :: "CoordSet option \<Rightarrow> ClosetConfig \<Rightarrow> int \<Rightarrow> string \<times> EvictResult" where
  "RenderCloset cs cfg rawLen =
     (case cs of
        None \<Rightarrow> ([], EvictNone)
      | Some c \<Rightarrow>
          if CoordItems c = [] \<or> \<not> Enabled cfg then ([], EvictNone)
          else
            let sorted = SliceStable entryLess (CoordItems c);
                (fit, failed) = fit_pass (Denylist cfg) (closet_cap cfg rawLen)
                  (int (length closetHeaderPartial)) False sorted
            in if fit = 0 then ([], EvictFail)
               else ((if failed then closetHeaderPartial else closetHeader)
                     @ write_pass (Denylist cfg) False (take fit sorted)
                     @ (if failed then closetTruncNote else []),
                     if failed then EvictFail else EvictNone))"

section \<open>Order\<close>

definition closet_key :: "CoordEntry \<Rightarrow> Lane \<times> string \<times> int \<times> int \<times> int \<times> int \<times> string" where
  "closet_key e = (Lane (Prov e), CoordLabel e, FirstOffset e, TurnID (Prov e), ToolCallID (Prov e),
     ResultIndex (Prov e), Value e)"

lemma entryLess_key: "entryLess x y \<longleftrightarrow> closet_key x < closet_key y"
  by (auto simp: entryLess_def closet_key_def less_prod_def')

lemma insert_stable_key:
  "insert_stable (\<lambda>x y. f x < (f y :: 'k :: linorder)) x ys = insort_key f x ys"
  by (induction ys) (auto simp: not_le)

lemma SliceStable_sort: "SliceStable (\<lambda>x y. f x < (f y :: 'k :: linorder)) xs = sort_key f xs"
  unfolding SliceStable_def
  by (induction xs) (simp_all add: insert_stable_key)

lemma SliceStable_closet: "SliceStable entryLess = sort_key closet_key"
  by (rule ext) (simp add: SliceStable_sort [symmetric] entryLess_key [abs_def])

lemma map_sort_key: "map f (sort_key f xs) = sort (map f xs)"
proof -
  have "sorted (map f (sort_key f xs))" "mset (map f (sort_key f xs)) = mset (map f xs)"
    by (simp_all add: mset_map)
  then show ?thesis by (metis properties_for_sort)
qed

text \<open>A line and its lane depend on the key only.\<close>

lemma closetLine_key: "closet_key e = closet_key e' \<Longrightarrow> closetLine e d = closetLine e' d"
  by (simp add: closet_key_def closetLine_def)

lemma lane_key: "closet_key e = closet_key e' \<Longrightarrow> Lane (Prov e) = Lane (Prov e')"
  by (simp add: closet_key_def)

lemma passes_key:
  assumes "map closet_key es = map closet_key es'"
  shows "fit_pass d cap tot u es = fit_pass d cap tot u es'"
    and "write_pass d u (take n es) = write_pass d u (take n es')"
proof -
  have "list_all2 (\<lambda>e e'. closet_key e = closet_key e') es es'"
    using assms by (simp add: list_all2_conv_all_nth) (metis length_map nth_map)
  then show "fit_pass d cap tot u es = fit_pass d cap tot u es'"
  proof (induction es es' arbitrary: tot u rule: list_all2_induct)
    case (Cons x xs y ys)
    then show ?case using closetLine_key [of x y d] lane_key [of x y] by (simp add: Let_def)
  qed simp
  show "write_pass d u (take n es) = write_pass d u (take n es')"
    using \<open>list_all2 _ es es'\<close>
  proof (induction es es' arbitrary: n u rule: list_all2_induct)
    case (Cons x xs y ys)
    then show ?case using closetLine_key [of x y d] lane_key [of x y] by (cases n) simp_all
  qed simp
qed

text \<open>C31: rendering is canonical. Two closets that hold the same coordinates, in whatever order they
  were nominated, render to the same bytes and the same verdict (this is what keeps the folded prefix
  cacheable).\<close>

theorem RenderCloset_canonical:
  assumes "mset (CoordItems c) = mset (CoordItems c')"
  shows "RenderCloset (Some c) cfg rawLen = RenderCloset (Some c') cfg rawLen"
proof -
  have "map closet_key (sort_key closet_key (CoordItems c)) = map closet_key (sort_key closet_key (CoordItems c'))"
    unfolding map_sort_key using assms by (metis mset_map properties_for_sort mset_sort sorted_sort)
  note passes = passes_key [OF this]
  have "CoordItems c = [] \<longleftrightarrow> CoordItems c' = []"
    using assms by auto
  then show ?thesis
    by (simp add: RenderCloset_def SliceStable_closet passes Let_def split: prod.split)
qed

theorem RenderCloset_canonical_witness:
  "RenderCloset (Some \<lparr> CoordItems =
       [\<lparr> Value = ''a/b.c'', CoordLabel = ''path'', Kind = CoordKindPath, Prov = DefaultProvenance, FirstOffset = 4 \<rparr>,
        \<lparr> Value = ''#7'', CoordLabel = ''ref'', Kind = CoordKindRef, Prov = DefaultProvenance, FirstOffset = 0 \<rparr>],
       seen = {} \<rparr>)
     \<lparr> Enabled = True, BudgetBytes = 0, MaxRatioPct = 0, Denylist = [] \<rparr> 500
   = RenderCloset (Some \<lparr> CoordItems =
       [\<lparr> Value = ''#7'', CoordLabel = ''ref'', Kind = CoordKindRef, Prov = DefaultProvenance, FirstOffset = 0 \<rparr>,
        \<lparr> Value = ''a/b.c'', CoordLabel = ''path'', Kind = CoordKindPath, Prov = DefaultProvenance, FirstOffset = 4 \<rparr>],
       seen = {} \<rparr>)
     \<lparr> Enabled = True, BudgetBytes = 0, MaxRatioPct = 0, Denylist = [] \<rparr> 500"
  by (rule RenderCloset_canonical) (simp add: add_mset_commute)

section \<open>Cap and accounting\<close>

lemma fit_pass_spec:
  "fit_pass d cap tot u es = (fit, failed) \<Longrightarrow>
     fit \<le> length es \<and> (failed \<longleftrightarrow> fit < length es) \<and>
     (0 < fit \<longrightarrow> tot + int (length (write_pass d u (take fit es))) + int (length closetTruncNote) + 1 \<le> cap)"
proof (induction es arbitrary: tot u fit failed)
  case (Cons e es)
  define add where "add = (if Lane (Prov e) = LaneUser \<and> \<not> u then int (length closetDivider) else 0)
    + int (length (closetLine e d))"
  show ?case
  proof (cases "tot + add + int (length closetTruncNote) + 1 > cap")
    case True
    then show ?thesis using Cons.prems by (simp add: add_def Let_def)
  next
    case False
    obtain fit' failed' where r: "fit_pass d cap (tot + add) (u \<or> Lane (Prov e) = LaneUser) es = (fit', failed')"
      by fastforce
    have e: "fit = Suc fit'" "failed = failed'"
      using Cons.prems False r by (simp_all add: add_def [symmetric] Let_def)
    have "int (length (write_pass d u (take fit (e # es))))
        = add + int (length (write_pass d (u \<or> Lane (Prov e) = LaneUser) (take fit' es)))"
      by (simp add: e add_def)
    then show ?thesis using Cons.IH [OF r] False e by (cases "fit' = 0") auto
  qed
qed simp

lemma sublist_prepend: "sublist xs ys \<Longrightarrow> sublist xs (zs @ ys)"
  by (rule sublist_order.order.trans [OF _ sublist_append_leftI])

lemma sublist_postpend: "sublist xs ys \<Longrightarrow> sublist xs (ys @ zs)"
  by (rule sublist_order.order.trans [OF _ sublist_append_rightI])

lemma write_pass_line: "e \<in> set es \<Longrightarrow> sublist (closetLine e d) (write_pass d u es)"
  by (induction es arbitrary: u) (auto intro: sublist_prepend sublist_append_rightI)

text \<open>C32: a rendered closet is bounded and honest. A non-empty block is shorter than the cap derived
  from the budget and the size of the folded text; when the verdict is \<open>EvictNone\<close> the line of every
  coordinate is in the block; and a non-empty block with the other verdict ends with the announcement
  that identifiers were left out.\<close>

theorem RenderCloset_bounded:
  assumes "RenderCloset (Some c) cfg rawLen = (text, verdict)" "Enabled cfg"
  shows "(text \<noteq> [] \<longrightarrow> int (length text) < closet_cap cfg rawLen)
    \<and> (verdict = EvictNone \<longrightarrow> (\<forall>e \<in> set (CoordItems c). sublist (closetLine e (Denylist cfg)) text))
    \<and> (verdict = EvictFail \<longrightarrow> text = [] \<or> suffix closetTruncNote text)"
proof (cases "CoordItems c = []")
  case True
  then show ?thesis using assms by (simp add: RenderCloset_def)
next
  case False
  define es where "es = SliceStable entryLess (CoordItems c)"
  obtain fit failed where f: "fit_pass (Denylist cfg) (closet_cap cfg rawLen)
      (int (length closetHeaderPartial)) False es = (fit, failed)" by fastforce
  note spec = fit_pass_spec [OF f]
  have r: "(text, verdict) = (if fit = 0 then ([], EvictFail)
      else ((if failed then closetHeaderPartial else closetHeader)
            @ write_pass (Denylist cfg) False (take fit es)
            @ (if failed then closetTruncNote else []),
            if failed then EvictFail else EvictNone))"
    using assms False f by (auto simp: RenderCloset_def es_def Let_def split: if_splits)
  have hdr: "length closetHeader \<le> length closetHeaderPartial"
    by (simp add: closetHeader_def closetHeaderPartial_def em_dash_def)
  show ?thesis
  proof (cases "fit = 0")
    case True
    then show ?thesis using r by simp
  next
    case fit: False
    have "int (length text) < closet_cap cfg rawLen" using r spec fit hdr by (auto split: if_splits)
    moreover have "sublist (closetLine e (Denylist cfg)) text"
      if "verdict = EvictNone" "e \<in> set (CoordItems c)" for e
    proof -
      have "\<not> failed" using that r fit by (auto split: if_splits)
      then have "take fit es = es" using spec by simp
      moreover have "e \<in> set es" using that by (simp add: es_def SliceStable_closet)
      ultimately show ?thesis using r fit \<open>\<not> failed\<close> by (auto intro: sublist_prepend write_pass_line)
    qed
    moreover have "suffix closetTruncNote text" if "verdict = EvictFail"
      using that r fit by (auto simp: suffix_def split: if_splits)
    ultimately show ?thesis by blast
  qed
qed

theorem RenderCloset_bounded_witness:
  "\<exists>text verdict. RenderCloset (Some \<lparr> CoordItems =
       [\<lparr> Value = ''#7'', CoordLabel = ''ref'', Kind = CoordKindRef, Prov = DefaultProvenance, FirstOffset = 0 \<rparr>],
       seen = {} \<rparr>)
     \<lparr> Enabled = True, BudgetBytes = 0, MaxRatioPct = 0, Denylist = [] \<rparr> 500 = (text, verdict)
   \<and> (verdict = EvictFail \<longrightarrow> text = [] \<or> suffix closetTruncNote text)"
  using RenderCloset_bounded
    [of "\<lparr> CoordItems = [\<lparr> Value = ''#7'', CoordLabel = ''ref'', Kind = CoordKindRef,
           Prov = DefaultProvenance, FirstOffset = 0 \<rparr>], seen = {} \<rparr>"
        "\<lparr> Enabled = True, BudgetBytes = 0, MaxRatioPct = 0, Denylist = [] \<rparr>" 500]
  by (simp split: prod.split) (metis surj_pair)

end
