(* ===== verification/Compact.thy ===== *)
theory Compact
  imports JsonParse
begin

text \<open>
  \<open>compact.go\<close>: the shrink of one tool-result body: pass-through, a structural summary of a JSON body
  written into a bounded buffer with \<open>snprintf\<close>'s would-be lengths, or head and tail with a notice.
  Slicing out of range panics in Go: \<open>compactPlaintext\<close> and its callers return \<open>None\<close> then. The
  lemmas show when that cannot happen, and bound every output.
\<close>

definition CompactDefaultThreshold :: int where "CompactDefaultThreshold = 4096"
definition CompactDefaultHeadBytes :: int where "CompactDefaultHeadBytes = 512"
definition CompactDefaultTailBytes :: int where "CompactDefaultTailBytes = 1024"

lemmas compact_defaults =
  CompactDefaultThreshold_def CompactDefaultHeadBytes_def CompactDefaultTailBytes_def

record PerToolCompact =
  Tool :: string
  ToolThreshold :: int

record CompactConfig =
  CompactEnabled :: bool
  Threshold :: int
  HeadBytes :: int
  TailBytes :: int
  PerTool :: "PerToolCompact list"

section \<open>Numbers in C's spelling\<close>

text \<open>\<open>strings.Cut (s, "e")\<close>, \<open>TrimRight (mant, "0")\<close> and \<open>TrimSuffix (mant, ".")\<close>.\<close>

definition cut_exponent :: "string \<Rightarrow> string \<times> string option" where
  "cut_exponent s =
     (let m = takeWhile (\<lambda>c. c \<noteq> CHR ''e'') s; r = dropWhile (\<lambda>c. c \<noteq> CHR ''e'') s
      in (m, if r = [] then None else Some (tl r)))"

definition trim_suffix_dot :: "string \<Rightarrow> string" where
  "trim_suffix_dot s = (if s \<noteq> [] \<and> last s = CHR ''.'' then butlast s else s)"

definition cFormatG :: "float64 \<Rightarrow> string" where
  "cFormatG v =
     (let s = fmt_g 6 v
      in if \<not> list_ex (\<lambda>c. c = CHR ''.'') s then s
         else let (mant, ex) = cut_exponent s;
                  mant = (if list_ex (\<lambda>c. c = CHR ''.'') mant then trim_suffix_dot (trim_zeros mant) else mant)
              in (case ex of Some e \<Rightarrow> mant @ ''e'' @ e | None \<Rightarrow> mant))"

section \<open>The bounded buffer\<close>

record boundBuf =
  buf :: string
  bpos :: nat
  bcap :: nat

definition appendf :: "boundBuf \<Rightarrow> string \<Rightarrow> boundBuf" where
  "appendf b s =
     (let b' = (if bpos b < bcap b then
                  let room = bcap b - bpos b;
                      w = (if length s > room - 1 then take (room - 1) s else s)
                  in b \<lparr> buf := take (min (bpos b) (length (buf b))) (buf b) @ w \<rparr>
                else b)
      in b' \<lparr> bpos := bpos b + length s \<rparr>)"

definition startsWithJSON :: "string \<Rightarrow> bool" where
  "startsWithJSON s =
     (case dropWhile (\<lambda>c. c \<in> {CHR '' '', CHR 0x09, CHR 0x0A, CHR 0x0B, CHR 0x0C, CHR 0x0D}) s of
        [] \<Rightarrow> False | c # _ \<Rightarrow> c = CHR ''{'' \<or> c = CHR ''['')"

fun typeGlyph :: "json \<Rightarrow> string" where
  "typeGlyph (JSONString s) = ''<string>''"
| "typeGlyph (JSONNumber n) = ''<number>''"
| "typeGlyph (JSONObject kvs) = ''{...}''"
| "typeGlyph (JSONArray xs) = ''[...]''"
| "typeGlyph JSONTrue = ''<bool>''"
| "typeGlyph JSONFalse = ''<bool>''"
| "typeGlyph JSONNull = ''null''"

text \<open>\<open>describe_members\<close> is the loop over the members of an object.\<close>

function describeJSON :: "json \<Rightarrow> boundBuf \<Rightarrow> nat \<Rightarrow> boundBuf"
  and describe_members :: "(string \<times> json) list \<Rightarrow> bool \<Rightarrow> boundBuf \<Rightarrow> nat \<Rightarrow> boundBuf"
where
  "describeJSON node b depth =
     (if bpos b \<ge> bcap b then b
      else (case node of
        JSONObject kvs \<Rightarrow>
          (let b = appendf b ''{'';
               b = describe_members kvs True b depth;
               b = appendf b ''}''
           in if length kvs > 5 then appendf b ('' /* '' @ nat_str (length kvs) @ '' keys */'') else b)
      | JSONArray xs \<Rightarrow>
          (if xs = [] then appendf b ''[]''
           else let b = appendf b (''[/* '' @ nat_str (length xs) @ '' items */'');
                    b = (if depth < 2 then
                           let b = appendf b '' '';
                               b = describeJSON (hd xs) b (depth + 1)
                           in if length xs > 1 then appendf b '', ...'' else b
                         else b)
                in appendf b '']'')
      | JSONString s \<Rightarrow>
          (if length s \<le> 64 then appendf b (CHR 0x22 # s @ [CHR 0x22])
           else appendf b (CHR 0x22 # take 60 s @ ''...'' @ [CHR 0x22]))
      | JSONNumber n \<Rightarrow> appendf b (cFormatG n)
      | JSONTrue \<Rightarrow> appendf b ''true''
      | JSONFalse \<Rightarrow> appendf b ''false''
      | JSONNull \<Rightarrow> appendf b ''null''))"
| "describe_members kvs first b depth =
     (case kvs of
        [] \<Rightarrow> b
      | (key, val) # kvs' \<Rightarrow>
          if bpos b \<ge> bcap b then b
          else let b = (if \<not> first then appendf b '', '' else b);
                   b = appendf b (CHR 0x22 # key @ [CHR 0x22] @ '': '');
                   b = (if depth < 2 then describeJSON val b (depth + 1)
                        else appendf b (typeGlyph val))
               in describe_members kvs' False b depth)"
  by pat_completeness auto
termination
  by (relation "measures [case_sum (\<lambda>(n, b, d). 3 - d) (\<lambda>(kvs, f, b, d). 3 - d),
      case_sum (\<lambda>_. 1) (\<lambda>_. 0), case_sum (\<lambda>_. 0) (\<lambda>(kvs, f, b, d). length kvs)]") auto

declare describeJSON.simps [simp del] describe_members.simps [simp del]

definition summaryCap :: nat where "summaryCap = 2048"

definition compactJSONSummary :: "string \<Rightarrow> string option" where
  "compactJSONSummary raw =
     (case ParseJSON raw of
        None \<Rightarrow> None
      | Some node \<Rightarrow>
          let b = \<lparr> buf = [], bpos = 0, bcap = summaryCap - 64 \<rparr>;
              b = appendf b (''[compacted JSON summary]'' @ [CHR 0x0A]);
              b = describeJSON node b 0;
              out = buf b @ CHR 0x0A # ''[original: '' @ nat_str (length raw) @ '' bytes]''
          in Some (if length out > summaryCap - 1 then take (summaryCap - 1) out else out))"

section \<open>Head and tail\<close>

text \<open>The Go slices \<open>raw[:i]\<close> and \<open>raw[i:]\<close>.\<close>

definition slice_to :: "string \<Rightarrow> int \<Rightarrow> string option" where
  "slice_to raw i = (if 0 \<le> i \<and> i \<le> int (length raw) then Some (take (nat i) raw) else None)"

definition slice_from :: "string \<Rightarrow> int \<Rightarrow> string option" where
  "slice_from raw i = (if 0 \<le> i \<and> i \<le> int (length raw) then Some (drop (nat i) raw) else None)"

definition omitted_notice :: "int \<Rightarrow> string" where
  "omitted_notice n = CHR 0x0A # ''[... '' @ int_str n @ '' bytes omitted ...]'' @ [CHR 0x0A]"

definition compactPlaintext :: "string \<Rightarrow> int \<Rightarrow> int \<Rightarrow> string option" where
  "compactPlaintext raw headBytes tailBytes =
     (let len = int (length raw)
      in if wrap64 (headBytes + tailBytes) \<ge> len then Some raw
         else let notice = omitted_notice (wrap64 (wrap64 (len - headBytes) - tailBytes))
              in (case (slice_to raw headBytes, slice_from raw (wrap64 (len - tailBytes))) of
                    (Some h, Some t) \<Rightarrow> Some (h @ notice @ t)
                  | _ \<Rightarrow> None))"

text \<open>The threshold in force, or \<open>None\<close> when a per-tool override disables compaction.\<close>

definition tool_threshold :: "string \<Rightarrow> PerToolCompact list \<Rightarrow> int \<Rightarrow> int option" where
  "tool_threshold toolName pts threshold =
     (if toolName = [] then Some threshold
      else (case find (\<lambda>pt. Tool pt = toolName) pts of
              None \<Rightarrow> Some threshold
            | Some pt \<Rightarrow> if ToolThreshold pt = -1 then None else Some (ToolThreshold pt)))"

definition CompactBody :: "string \<Rightarrow> string \<Rightarrow> CompactConfig option \<Rightarrow> string option" where
  "CompactBody raw toolName cfg =
     (if raw = [] then Some []
      else
        let enabled = (case cfg of None \<Rightarrow> True | Some c \<Rightarrow> CompactEnabled c);
            headBytes = (case cfg of None \<Rightarrow> CompactDefaultHeadBytes
              | Some c \<Rightarrow> if HeadBytes c > 0 then HeadBytes c else CompactDefaultHeadBytes);
            tailBytes = (case cfg of None \<Rightarrow> CompactDefaultTailBytes
              | Some c \<Rightarrow> if TailBytes c > 0 then TailBytes c else CompactDefaultTailBytes);
            threshold = (case cfg of None \<Rightarrow> Some CompactDefaultThreshold
              | Some c \<Rightarrow> tool_threshold toolName (PerTool c)
                  (if Threshold c > 0 then Threshold c else CompactDefaultThreshold))
        in (case threshold of
              None \<Rightarrow> Some raw
            | Some t \<Rightarrow>
                let t = (if t < 64 then 64 else t)
                in if \<not> enabled \<or> int (length raw) \<le> t then Some raw
                   else (case (if startsWithJSON raw then compactJSONSummary raw else None) of
                           Some summary \<Rightarrow> Some summary
                         | None \<Rightarrow> compactPlaintext raw headBytes tailBytes)))"

section \<open>The buffer never overflows\<close>

definition buf_ok :: "nat \<Rightarrow> boundBuf \<Rightarrow> bool" where
  "buf_ok n b \<longleftrightarrow> bcap b = n \<and> length (buf b) < n"

lemma buf_ok_appendf [simp]: "buf_ok n b \<Longrightarrow> buf_ok n (appendf b s)"
  by (auto simp: buf_ok_def appendf_def Let_def min_def)

lemma buf_ok_describe:
  shows "buf_ok n b \<Longrightarrow> buf_ok n (describeJSON node b depth)"
    and "buf_ok n b \<Longrightarrow> buf_ok n (describe_members kvs first b depth)"
proof (induction node b depth and kvs first b depth rule: describeJSON_describe_members.induct)
  case (1 node b depth)
  then show ?case by (subst describeJSON.simps) (auto simp: Let_def split: json.split)
next
  case (2 kvs first b depth)
  show ?case
  proof (cases "kvs = [] \<or> bpos b \<ge> bcap b")
    case True
    then show ?thesis using 2(3) by (subst describe_members.simps) (auto split: list.split)
  next
    case False
    then obtain key val kvs' where kvs: "kvs = (key, val) # kvs'" by (cases kvs) auto
    define b1 where "b1 = appendf (if \<not> first then appendf b '', '' else b) (CHR 0x22 # key @ [CHR 0x22] @ '': '')"
    define b2 where "b2 = (if depth < 2 then describeJSON val b1 (depth + 1) else appendf b1 (typeGlyph val))"
    have "buf_ok n b1" using 2(3) by (simp add: b1_def)
    then have "buf_ok n b2" using 2(1) [OF kvs] False by (simp add: b1_def b2_def)
    then have "buf_ok n (describe_members kvs' False b2 depth)"
      using 2(2) [OF kvs] False by (simp add: b1_def b2_def)
    moreover have "describe_members kvs first b depth = describe_members kvs' False b2 depth"
      using False unfolding b1_def b2_def
      by (subst describe_members.simps) (cases "depth < 2"; simp add: kvs Let_def split del: if_split)
    ultimately show ?thesis by simp
  qed
qed

lemma length_nat_str: "0 < k \<Longrightarrow> n < 10 ^ k \<Longrightarrow> length (nat_str n) \<le> k"
  using length_to_base [of 10 n "k - 1"] by (simp add: nat_str_def)

text \<open>The summary keeps its closing size hint whole: the describe limit leaves room for it.\<close>

definition size_hint :: "string \<Rightarrow> string" where
  "size_hint raw = CHR 0x0A # ''[original: '' @ nat_str (length raw) @ '' bytes]''"

lemma compactJSONSummary_hint:
  assumes "compactJSONSummary raw = Some out" "length raw < 2 ^ 63"
  shows "\<exists>d. out = d @ size_hint raw \<and> length d < 1984"
proof -
  obtain node where node: "ParseJSON raw = Some node"
    using assms(1) by (auto simp: compactJSONSummary_def split: option.splits)
  define b where "b = describeJSON node (appendf \<lparr> buf = [], bpos = 0, bcap = summaryCap - 64 \<rparr>
    (''[compacted JSON summary]'' @ [CHR 0x0A])) 0"
  have "buf_ok 1984 b"
    unfolding b_def by (intro buf_ok_describe buf_ok_appendf) (simp add: buf_ok_def summaryCap_def)
  then have len: "length (buf b) < 1984" by (simp add: buf_ok_def)
  have "length (nat_str (length raw)) \<le> 20"
    using assms(2) by (intro length_nat_str) simp_all
  then have "length (buf b @ size_hint raw) \<le> summaryCap - 1"
    using len by (simp add: size_hint_def summaryCap_def)
  moreover have "compactJSONSummary raw = Some (if length (buf b @ size_hint raw) > summaryCap - 1
      then take (summaryCap - 1) (buf b @ size_hint raw) else buf b @ size_hint raw)"
    unfolding compactJSONSummary_def b_def size_hint_def Let_def node option.case by (rule refl)
  ultimately have "out = buf b @ size_hint raw"
    using assms(1) by (metis linorder_not_less option.inject)
  with len show ?thesis by blast
qed

section \<open>What a shrunk body is\<close>

lemma compactPlaintext_ok:
  assumes "0 \<le> h" "0 \<le> t" "h + t < 2 ^ 63" "int (length raw) < 2 ^ 63"
  shows "compactPlaintext raw h t =
    Some (if int (length raw) \<le> h + t then raw
          else take (nat h) raw @ omitted_notice (int (length raw) - h - t)
               @ drop (length raw - nat t) raw)"
proof (cases "int (length raw) \<le> h + t")
  case True
  then show ?thesis using assms by (simp add: compactPlaintext_def Let_def is_i64_def)
next
  case False
  have "is_i64 (h + t)" "is_i64 (int (length raw) - h)" "is_i64 (int (length raw) - h - t)"
    "is_i64 (int (length raw) - t)"
    using assms False by (simp_all add: is_i64_def)
  moreover have "nat (int (length raw) - t) = length raw - nat t" using assms False by linarith
  ultimately show ?thesis
    using assms False by (simp add: compactPlaintext_def Let_def slice_to_def slice_from_def)
qed

definition eff :: "int \<Rightarrow> int \<Rightarrow> int" where "eff v dflt = (if v > 0 then v else dflt)"

text \<open>C30: shrinking a body never panics as long as the head and tail sizes do not overflow together,
  and gives one of three things: the body itself (always when it is not longer than the threshold), a
  summary of fewer than 2048 bytes that ends with the whole size hint, or the first and the last
  bytes verbatim with a notice that counts exactly the bytes left out.\<close>

theorem CompactBody_total:
  assumes "eff (HeadBytes c) CompactDefaultHeadBytes + eff (TailBytes c) CompactDefaultTailBytes < 2 ^ 63"
    and "int (length raw) < 2 ^ 63"
  shows "\<exists>out. CompactBody raw toolName (Some c) = Some out
    \<and> (length raw \<le> 64 \<longrightarrow> out = raw)
    \<and> (out = raw
       \<or> (\<exists>d. out = d @ size_hint raw \<and> length out < 2048)
       \<or> (\<exists>h t n. out = take h raw @ omitted_notice (int n) @ drop (length raw - t) raw
            \<and> h + n + t = length raw \<and> 0 < n))"
proof -
  let ?h = "eff (HeadBytes c) CompactDefaultHeadBytes"
  let ?t = "eff (TailBytes c) CompactDefaultTailBytes"
  have pos: "0 < ?h" "0 < ?t" by (simp_all add: eff_def compact_defaults)
  let ?j = "if startsWithJSON raw then compactJSONSummary raw else None"
  define T where "T = tool_threshold toolName (PerTool c) (eff (Threshold c) CompactDefaultThreshold)"
  have body: "CompactBody raw toolName (Some c) =
      (if raw = [] then Some []
       else case T of None \<Rightarrow> Some raw
         | Some t \<Rightarrow> if \<not> CompactEnabled c \<or> int (length raw) \<le> max 64 t then Some raw
             else (case ?j of Some s \<Rightarrow> Some s | None \<Rightarrow> compactPlaintext raw ?h ?t))"
    by (auto simp: CompactBody_def T_def eff_def Let_def max_def split: option.split)
  have "length raw < 2 ^ 63" using assms(2) by simp
  note hint = compactJSONSummary_hint [OF _ this]
  consider "CompactBody raw toolName (Some c) = Some raw"
    | s where "?j = Some s" "CompactBody raw toolName (Some c) = Some s" "64 < length raw"
    | "CompactBody raw toolName (Some c) = compactPlaintext raw ?h ?t" "64 < length raw"
  proof (cases "raw = [] \<or> T = None \<or> \<not> CompactEnabled c \<or> int (length raw) \<le> max 64 (the T)")
    case True
    then have "CompactBody raw toolName (Some c) = Some raw" unfolding body by (cases T) auto
    then show ?thesis using that(1) by blast
  next
    case False
    then obtain t where t: "T = Some t" "\<not> int (length raw) \<le> max 64 t" by (cases T) auto
    then have "CompactBody raw toolName (Some c)
        = (case ?j of Some s \<Rightarrow> Some s | None \<Rightarrow> compactPlaintext raw ?h ?t)" "64 < length raw"
      using False unfolding body by auto
    then show ?thesis using that(2,3) by (cases ?j) (simp_all split del: if_split)
  qed
  then show ?thesis
  proof cases
    case 1
    then show ?thesis by simp
  next
    case 2
    then obtain d where d: "s = d @ size_hint raw" "length d < 1984"
      using hint [of s] by (auto split: if_splits)
    have "length (nat_str (length raw)) \<le> 20"
      using assms(2) by (intro length_nat_str) simp_all
    then have "length s < 2048" using d by (simp add: size_hint_def)
    then show ?thesis using 2 d by auto
  next
    case 3
    show ?thesis
    proof (cases "int (length raw) \<le> ?h + ?t")
      case True
      then show ?thesis using 3 compactPlaintext_ok [of ?h ?t raw] pos assms by simp
    next
      case False
      define n where "n = length raw - nat ?h - nat ?t"
      have "int (length raw) - ?h - ?t = int n" "nat ?h + n + nat ?t = length raw" "0 < n"
        using False pos by (auto simp: n_def)
      then show ?thesis
        using 3 False compactPlaintext_ok [of ?h ?t raw] pos assms by fastforce
    qed
  qed
qed

theorem CompactBody_total_witness:
  "\<exists>out. CompactBody (replicate 100 (CHR ''x'')) []
     (Some \<lparr> CompactEnabled = True, Threshold = 64, HeadBytes = 8, TailBytes = 8, PerTool = [] \<rparr>) = Some out"
  using CompactBody_total [of "\<lparr> CompactEnabled = True, Threshold = 64, HeadBytes = 8, TailBytes = 8, PerTool = [] \<rparr>"
      "replicate 100 (CHR ''x'')" "[]"]
  by (auto simp: eff_def)

text \<open>The addition in the guard of the head-and-tail shrink is not checked: with the largest
  \<open>int\<close> configured as the head size the sum wraps to a negative number, the guard passes and the slice
  panics, for every plain body above the threshold.\<close>

theorem CompactBody_overflow_panics:
  assumes "\<not> startsWithJSON raw" "64 < length raw" "int (length raw) < 2 ^ 63 - 1"
  shows "CompactBody raw [] (Some \<lparr> CompactEnabled = True, Threshold = 64, HeadBytes = 2 ^ 63 - 1,
      TailBytes = 1024, PerTool = [] \<rparr>) = None"
  using assms by (auto simp: CompactBody_def tool_threshold_def compactPlaintext_def wrap64_def slice_to_def Let_def)

theorem CompactBody_overflow_panics_witness:
  "CompactBody (CHR ''x'' # replicate 64 (CHR ''x'')) [] (Some \<lparr> CompactEnabled = True, Threshold = 64,
      HeadBytes = 2 ^ 63 - 1, TailBytes = 1024, PerTool = [] \<rparr>) = None"
  by (rule CompactBody_overflow_panics) (simp_all add: startsWithJSON_def)

end
