(* ===== verification/Fold.thy ===== *)
theory Fold
  imports ClosetRender Compact Registers "HOL-Library.Word"
begin

text \<open>
  \<open>fold.go\<close>: the rolling history fold with its freeze boundary, and the boundary-free compression of
  tool-result bodies. A document passed by pointer is \<open>jref\<close>; \<open>CompressView\<close> shrinks bodies in its own
  deep copy, so here every step returns the updated message and the copy is the value itself. A result
  of \<open>None\<close> in the compression functions is the panic of \<open>compactPlaintext\<close>.
\<close>

definition FoldDefaultRetainedMsgs :: int where "FoldDefaultRetainedMsgs = 8"
definition FoldDefaultMinFoldMsgs :: int where "FoldDefaultMinFoldMsgs = 4"
definition FoldDefaultExcerptBytes :: int where "FoldDefaultExcerptBytes = 160"
definition FoldDefaultTailCapMsgs :: int where "FoldDefaultTailCapMsgs = 24"

lemmas fold_defaults =
  FoldDefaultRetainedMsgs_def FoldDefaultMinFoldMsgs_def FoldDefaultExcerptBytes_def
  FoldDefaultTailCapMsgs_def

record FoldConfig =
  FoldEnabled :: bool
  cfgRetainedMsgs :: int
  cfgMinFoldMsgs :: int
  cfgReasoningExcerptBytes :: int
  cfgRegisterEnabled :: bool
  cfgCloset :: ClosetConfig
  cfgCompactHeadBytes :: int
  cfgCompactTailBytes :: int

record FoldFreeze =
  Active :: bool
  FrozenSplit :: int
  TailCapMsgs :: int
  Epochs :: int
  PrefixDigest :: "64 word"

record FoldResult =
  Messages :: jref
  Folded :: bool
  FoldedMsgs :: int
  RetainedMsgs :: int
  ReusedBoundary :: bool
  ClosetEvict :: EvictResult

definition no_fold :: FoldResult where
  "no_fold = \<lparr> Messages = None, Folded = False, FoldedMsgs = 0, RetainedMsgs = 0,
     ReusedBoundary = False, ClosetEvict = EvictNone \<rparr>"

text \<open>The override when it is positive, the default otherwise.\<close>

definition or_default :: "int \<Rightarrow> int \<Rightarrow> int" where
  "or_default v dflt = (if v \<le> 0 then dflt else v)"

definition isCleanUserTurn :: "jref \<Rightarrow> bool" where
  "isCleanUserTurn m =
     (if m = None \<or> GetString m ''role'' \<noteq> ''user'' then False
      else let content = Get m ''content''
           in if IsString content then True
              else if IsArray content then
                list_all (\<lambda>b. GetString (Some b) ''type'' \<noteq> ''tool_result'') (Items content)
              else False)"

section \<open>The skeleton\<close>

definition ellipsis_utf8 :: string where "ellipsis_utf8 = [CHR 0xE2, CHR 0x80, CHR 0xA6]"
definition arrow_utf8 :: string where "arrow_utf8 = [CHR 0xE2, CHR 0x86, CHR 0x92]"

text \<open>The cut of an excerpt: \<open>n\<close> backs off over continuation bytes.\<close>

fun back_off :: "string \<Rightarrow> nat \<Rightarrow> nat" where
  "back_off s 0 = 0"
| "back_off s (Suc n) = (if cont_byte (s ! Suc n) then back_off s n else Suc n)"

definition excerpt_len :: "string \<Rightarrow> int \<Rightarrow> nat" where
  "excerpt_len s mx = (if int (length s) > mx then back_off s (nat mx) else length s)"

definition excerpt_char :: "char \<Rightarrow> char" where
  "excerpt_char c = (if c = CHR 0x0A \<or> c = CHR 0x0D \<or> c = CHR 0x09 then CHR '' '' else c)"

definition appendExcerpt :: "string \<Rightarrow> int \<Rightarrow> string" where
  "appendExcerpt s mx =
     (let n = excerpt_len s mx
      in map excerpt_char (take n s) @ (if n < length s then ellipsis_utf8 else []))"

definition skeletonPrefix :: "string \<Rightarrow> string \<Rightarrow> bool \<Rightarrow> string" where
  "skeletonPrefix role txt registerOn =
     (if registerOn \<and> role = ''assistant'' then role @ ''/'' @ Label (ParseRegister txt) @ '': ''
      else (if role = [] then ''?'' else role) @ '': '')"

text \<open>Every part of a message yields the lines it writes and the texts it nominates, in order.\<close>

definition nominate :: "string \<Rightarrow> Provenance \<Rightarrow> CoordSet \<Rightarrow> CoordSet" where
  "nominate txt prov cs = the (fst (NominateInto txt (Some prov) (Some cs)))"

definition call_line :: "string \<Rightarrow> string \<Rightarrow> int \<Rightarrow> string" where
  "call_line name args excerpt =
     ''  $ '' @ (if name = [] then ''tool'' else name) @ '' '' @ appendExcerpt args excerpt @ [CHR 0x0A]"

definition result_line :: "string \<Rightarrow> int \<Rightarrow> string" where
  "result_line body excerpt =
     ''    '' @ arrow_utf8 @ '' '' @ appendExcerpt body excerpt @ '' ('' @ nat_str (length body)
       @ '' bytes)'' @ [CHR 0x0A]"

definition text_line :: "string \<Rightarrow> string \<Rightarrow> int \<Rightarrow> bool \<Rightarrow> string" where
  "text_line role txt excerpt registerOn =
     skeletonPrefix role txt registerOn @ appendExcerpt txt excerpt @ [CHR 0x0A]"

text \<open>(2) One Anthropic content block.\<close>

definition skeleton_block ::
  "string \<Rightarrow> int \<Rightarrow> bool \<Rightarrow> Provenance \<Rightarrow> json \<Rightarrow> string \<times> CoordSet \<Rightarrow> string \<times> CoordSet" where
  "skeleton_block role excerpt registerOn prov blk st =
     (let (out, cs) = st; blk = Some blk; t = GetString blk ''type''
      in if t = ''text'' then
           (let txt = GetString blk ''text''
            in if txt = [] \<and> Get blk ''text'' = None then (out, cs)
               else (out @ text_line role txt excerpt registerOn, nominate txt prov cs))
         else if t = ''tool_use'' then
           (case Get blk ''input'' of
              Some input \<Rightarrow>
                let inp = PrintJSONUnformatted input
                in (out @ call_line (GetString blk ''name'') inp excerpt, nominate inp prov cs)
            | None \<Rightarrow> (out @ call_line (GetString blk ''name'') [] excerpt, cs))
         else if t = ''tool_result'' then
           (case Text (Get blk ''content'') of
              Some cv \<Rightarrow> (out @ result_line cv excerpt, nominate cv prov cs)
            | None \<Rightarrow> (out, cs))
         else (out, cs))"

text \<open>(3) One entry of a top-level \<open>tool_calls\<close>.\<close>

definition skeleton_call ::
  "int \<Rightarrow> Provenance \<Rightarrow> json \<Rightarrow> string \<times> CoordSet \<Rightarrow> string \<times> CoordSet" where
  "skeleton_call excerpt prov tc st =
     (let (out, cs) = st; fn = Get (Some tc) ''function'';
          name = GetString fn ''name''; args = GetString fn ''arguments''
      in (out @ call_line name args excerpt, if args \<noteq> [] then nominate args prov cs else cs))"

definition turn_provenance :: "int \<Rightarrow> Provenance" where
  "turn_provenance turn = \<lparr> Lane = LaneAgent, TurnID = turn, ToolCallID = -1, ResultIndex = -1 \<rparr>"

definition skeletonMessage ::
  "jref \<Rightarrow> int \<Rightarrow> int \<Rightarrow> bool \<Rightarrow> string \<times> CoordSet \<Rightarrow> string \<times> CoordSet" where
  "skeletonMessage m turn excerpt registerOn st0 =
     (let role = GetString m ''role''; content = Get m ''content''; prov = turn_provenance turn;
          st1 = (case content of
            Some (JSONString txt) \<Rightarrow>
              (fst st0 @ text_line role txt excerpt registerOn, nominate txt prov (snd st0))
          | Some (JSONArray blks) \<Rightarrow> fold (skeleton_block role excerpt registerOn prov) blks st0
          | _ \<Rightarrow> st0);
          st2 = fold (skeleton_call excerpt prov) (Items (Get m ''tool_calls'')) st1;
          t = GetString m ''type''
      in if t = ''function_call'' then
           (let name = GetString m ''name''; args = GetString m ''arguments''
            in (fst st2 @ call_line name args excerpt,
                if args \<noteq> [] then nominate args prov (snd st2) else snd st2))
         else if t = ''function_call_output'' then
           (case Text (Get m ''output'') of
              Some ov \<Rightarrow> (fst st2 @ result_line ov excerpt, nominate ov prov (snd st2))
            | None \<Rightarrow> st2)
         else st2)"

text \<open>FNV-1a over the serialized messages \<open>0..n-1\<close>, and their total size.\<close>

definition fnv_byte :: "64 word \<Rightarrow> char \<Rightarrow> 64 word" where
  "fnv_byte h c = (h XOR word_of_nat (byte c)) * 1099511628211"

definition digest_step :: "jref \<Rightarrow> 64 word \<times> int \<Rightarrow> 64 word \<times> int" where
  "digest_step item st =
     (case item of
        None \<Rightarrow> st
      | Some v \<Rightarrow> let s = PrintJSONUnformatted v
                  in (foldl fnv_byte (fst st) s, snd st + int (length s)))"

definition prefixDigest :: "jref \<Rightarrow> int \<Rightarrow> 64 word \<times> int" where
  "prefixDigest messages n =
     fold (\<lambda>i. digest_step (At messages i)) [0..n - 1] (14695981039346656037, 0)"

section \<open>Body compression\<close>

text \<open>The updated parent, whether the body was replaced, its raw size and the set.\<close>

definition compressBodyField ::
  "json \<Rightarrow> string \<Rightarrow> CompactConfig \<Rightarrow> int \<Rightarrow> CoordSet \<Rightarrow> (json \<times> bool \<times> int \<times> CoordSet) option" where
  "compressBodyField parent key cc turn cs =
     (case Text (Get (Some parent) key) of
        None \<Rightarrow> Some (parent, False, 0, cs)
      | Some body \<Rightarrow>
          if Threshold cc > 0 \<and> int (length body) \<le> Threshold cc then Some (parent, False, 0, cs)
          else (case CompactBody body [] (Some cc) of
                  None \<Rightarrow> None
                | Some out \<Rightarrow>
                    if length out = 0 \<or> length out \<ge> length body then Some (parent, False, 0, cs)
                    else Some (Set key (NewString out) parent, True, int (length body),
                               nominate body (turn_provenance turn) cs)))"

text \<open>The blocks of (B), left to right, with the counters of \<open>compressMessageBodies\<close>.\<close>

fun compress_blocks ::
  "CompactConfig \<Rightarrow> int \<Rightarrow> json list \<Rightarrow> int \<Rightarrow> int \<Rightarrow> CoordSet
    \<Rightarrow> (json list \<times> int \<times> int \<times> CoordSet) option" where
  "compress_blocks cc turn [] n raw cs = Some ([], n, raw, cs)"
| "compress_blocks cc turn (blk # blks) n raw cs =
     (case (if GetString (Some blk) ''type'' = ''tool_result''
            then compressBodyField blk ''content'' cc turn cs else Some (blk, False, 0, cs)) of
        None \<Rightarrow> None
      | Some (blk', ok, b, cs') \<Rightarrow>
          map_option (apfst ((#) blk'))
            (compress_blocks cc turn blks (if ok then n + 1 else n) (if ok then raw + b else raw) cs'))"

definition compressMessageBodies ::
  "json \<Rightarrow> CompactConfig \<Rightarrow> int \<Rightarrow> CoordSet \<Rightarrow> (json \<times> int \<times> int \<times> CoordSet) option" where
  "compressMessageBodies m cc turn cs =
     (let role = GetString (Some m) ''role''; itype = GetString (Some m) ''type''
      in case (if role = ''tool'' then compressBodyField m ''content'' cc turn cs
               else Some (m, False, 0, cs)) of
           None \<Rightarrow> None
         | Some (m1, okA, bA, cs1) \<Rightarrow>
             (let n1 = (if okA then 1 else 0); raw1 = (if okA then bA else 0)
              in case (case Get (Some m1) ''content'' of
                         Some (JSONArray blks) \<Rightarrow>
                           map_option (\<lambda>(blks', r). (Set ''content'' (JSONArray blks') m1, r))
                             (compress_blocks cc turn blks n1 raw1 cs1)
                       | _ \<Rightarrow> Some (m1, n1, raw1, cs1)) of
                   None \<Rightarrow> None
                 | Some (m2, n2, raw2, cs2) \<Rightarrow>
                     if itype = ''function_call_output'' then
                       (case compressBodyField m2 ''output'' cc turn cs2 of
                          None \<Rightarrow> None
                        | Some (m3, okC, bC, cs3) \<Rightarrow>
                            Some (m3, if okC then n2 + 1 else n2, if okC then raw2 + bC else raw2, cs3))
                     else Some (m2, n2, raw2, cs2)))"

text \<open>The loop over the messages \<open>[i, i + length ms)\<close>.\<close>

fun compress_messages ::
  "CompactConfig \<Rightarrow> int \<Rightarrow> json list \<Rightarrow> int \<Rightarrow> int \<Rightarrow> CoordSet
    \<Rightarrow> (json list \<times> int \<times> int \<times> CoordSet) option" where
  "compress_messages cc i [] n raw cs = Some ([], n, raw, cs)"
| "compress_messages cc i (m # ms) n raw cs =
     (case compressMessageBodies m cc i cs of
        None \<Rightarrow> None
      | Some (m', dn, draw, cs') \<Rightarrow>
          map_option (apfst ((#) m')) (compress_messages cc (i + 1) ms (n + dn) (raw + draw) cs'))"

definition compress_note :: "int \<Rightarrow> string \<Rightarrow> string" where
  "compress_note compressed closet =
     ''[compressed '' @ int_str compressed
     @ '' oversized tool-result body(ies) above; full bodies remain in history '' @ em_dash
     @ '' exact identifiers are conserved in the Coordinate Closet]'' @ [CHR 0x0A, CHR 0x0A] @ closet"

definition role_message :: "string \<Rightarrow> string \<Rightarrow> json" where
  "role_message role content =
     Set ''content'' (NewString content) (Set ''role'' (NewString role) NewObject)"

definition compress_ack :: json where
  "compress_ack = role_message ''assistant''
     (''Understood '' @ em_dash @ '' identifiers from the compressed tool results are conserved below.'')"

definition compress_config :: "FoldConfig \<Rightarrow> CompactConfig" where
  "compress_config cfg =
     (let keep = or_default (cfgReasoningExcerptBytes cfg) FoldDefaultExcerptBytes;
          tailDefault = or_default (cfgCompactTailBytes cfg) CompactDefaultTailBytes;
          tailCap = keep sdiv 2
      in \<lparr> CompactEnabled = True, Threshold = keep, HeadBytes = cfgCompactHeadBytes cfg,
           TailBytes = (if tailCap > 0 \<and> tailCap < tailDefault then tailCap else tailDefault),
           PerTool = [] \<rparr>)"

definition CompressView :: "jref \<Rightarrow> FoldConfig option \<Rightarrow> FoldResult option" where
  "CompressView messages cfg =
     (case cfg of
        None \<Rightarrow> Some no_fold
      | Some cfg \<Rightarrow>
          if \<not> IsArray messages \<or> \<not> FoldEnabled cfg then Some no_fold
          else
            let count = Len messages;
                retained = or_default (cfgRetainedMsgs cfg) FoldDefaultRetainedMsgs
            in if count \<le> 0 \<or> retained \<ge> count then Some no_fold
               else
                 let limit = nat (count - retained); ms = Items messages
                 in (case compress_messages (compress_config cfg) 0 (take limit ms) 0 0 empty_CoordSet of
                       None \<Rightarrow> None
                     | Some (ms', compressed, compressedRaw, cs) \<Rightarrow>
                         if compressed = 0 then Some no_fold
                         else
                           let arr = ms' @ drop limit ms;
                               (closet, evict) = RenderCloset (Some cs) (cfgCloset cfg) compressedRaw;
                               arr = (if closet = [] then arr
                                      else (if GetString (At (Some (JSONArray arr)) (int (length arr) - 1)) ''role''
                                              = ''user'' then arr @ [compress_ack] else arr)
                                           @ [role_message ''user'' (compress_note compressed closet)])
                           in Some \<lparr> Messages = Some (JSONArray arr), Folded = True,
                                     FoldedMsgs = compressed, RetainedMsgs = retained,
                                     ReusedBoundary = False, ClosetEvict = evict \<rparr>))"

section \<open>The fold\<close>

definition fold_intro :: "int \<Rightarrow> string" where
  "fold_intro split =
     ''[folded '' @ int_str split @ '' earlier message(s); skeleton below '' @ em_dash
     @ '' exact identifiers are conserved in the Coordinate Closet, full bodies remain in history]''
     @ [CHR 0x0A, CHR 0x0A]"

definition fold_ack :: json where
  "fold_ack = role_message ''assistant''
     (''Understood '' @ em_dash @ '' continuing from the folded summary above.'')"

text \<open>The search for a boundary: from \<open>desired\<close> down to \<open>minFold\<close>.\<close>

definition find_split :: "jref \<Rightarrow> int \<Rightarrow> int \<Rightarrow> int option" where
  "find_split messages minFold desired =
     find (\<lambda>s. isCleanUserTurn (At messages s)) (rev [minFold..desired])"

text \<open>The folded text of \<open>messages[0..split)\<close> and the closet verdict.\<close>

definition fold_body :: "jref \<Rightarrow> FoldConfig \<Rightarrow> int \<Rightarrow> int \<Rightarrow> string \<times> EvictResult" where
  "fold_body messages cfg split foldedBytes =
     (let excerpt = or_default (cfgReasoningExcerptBytes cfg) FoldDefaultExcerptBytes;
          (body, cs) = fold (\<lambda>i. skeletonMessage (At messages i) i excerpt (cfgRegisterEnabled cfg))
                         [0..split - 1] (fold_intro split, empty_CoordSet);
          (closet, evict) = RenderCloset (Some cs) (cfgCloset cfg) foldedBytes
      in (if closet \<noteq> [] then body @ CHR 0x0A # closet else body, evict))"

text \<open>The boundary to use: the split, its digest and size, and whether it is the frozen one.\<close>

definition fold_boundary ::
  "jref \<Rightarrow> FoldConfig \<Rightarrow> FoldFreeze option \<Rightarrow> (int \<times> 64 word \<times> int \<times> bool) option" where
  "fold_boundary messages cfg freeze =
     (let count = Len messages;
          retained = or_default (cfgRetainedMsgs cfg) FoldDefaultRetainedMsgs;
          minFold = or_default (cfgMinFoldMsgs cfg) FoldDefaultMinFoldMsgs;
          tailCap = (case freeze of
              Some fz \<Rightarrow> if TailCapMsgs fz > 0 then TailCapMsgs fz else FoldDefaultTailCapMsgs
            | None \<Rightarrow> FoldDefaultTailCapMsgs);
          tailCap = (if tailCap < retained then retained else tailCap);
          reuse = (case freeze of
              Some fz \<Rightarrow>
                (let fs = FrozenSplit fz
                 in if Active fz \<and> fs \<ge> minFold \<and> fs < count \<and> count - fs \<le> tailCap
                       \<and> isCleanUserTurn (At messages fs)
                    then let (dig, bytes) = prefixDigest messages fs
                         in if dig = PrefixDigest fz then Some (fs, dig, bytes, True) else None
                    else None)
            | None \<Rightarrow> None)
      in case reuse of
           Some r \<Rightarrow> Some r
         | None \<Rightarrow>
             (case find_split messages minFold (count - retained) of
                None \<Rightarrow> None
              | Some split \<Rightarrow>
                  let (dig, bytes) = prefixDigest messages split
                  in Some (split, dig, bytes, False)))"

definition FoldView ::
  "jref \<Rightarrow> FoldConfig option \<Rightarrow> FoldFreeze option \<Rightarrow> FoldResult \<times> FoldFreeze option" where
  "FoldView messages cfg freeze =
     (case cfg of
        None \<Rightarrow> (no_fold, freeze)
      | Some cfg \<Rightarrow>
          if \<not> IsArray messages \<or> \<not> FoldEnabled cfg then (no_fold, freeze)
          else
            let count = Len messages;
                retained = or_default (cfgRetainedMsgs cfg) FoldDefaultRetainedMsgs;
                minFold = or_default (cfgMinFoldMsgs cfg) FoldDefaultMinFoldMsgs
            in if count \<le> 0 \<or> retained \<ge> count \<or> count - retained < minFold then (no_fold, freeze)
               else
                 (case fold_boundary messages cfg freeze of
                    None \<Rightarrow> (no_fold, freeze)
                  | Some (split, dig, foldedBytes, reused) \<Rightarrow>
                      let (body, evict) = fold_body messages cfg split foldedBytes;
                          arr = role_message ''user'' body # fold_ack # map Clone (drop (nat split) (Items messages));
                          freeze' = map_option (\<lambda>fz.
                            fz \<lparr> Active := True, FrozenSplit := split, PrefixDigest := dig,
                                 Epochs := (if \<not> reused \<and> (\<not> Active fz \<or> FrozenSplit fz \<noteq> split
                                              \<or> PrefixDigest fz \<noteq> dig)
                                            then Epochs fz + 1 else Epochs fz) \<rparr>) freeze
                      in (\<lparr> Messages = Some (JSONArray arr), Folded = True, FoldedMsgs = split,
                            RetainedMsgs = count - split, ReusedBoundary = reused, ClosetEvict = evict \<rparr>,
                          freeze')))"

end
