(* ===== verification/FoldText.thy ===== *)
theory FoldText
  imports Fold
begin

text \<open>
  The excerpts of the fold's skeleton (\<open>appendExcerpt\<close> of \<open>fold.go\<close>): cutting at a byte limit and
  flattening line breaks keep valid UTF-8 valid.
\<close>

section \<open>Excerpts end on a character\<close>

lemma utf8_valid_Nil [simp]: "utf8_valid []"
  by (simp add: utf8_valid.simps)

lemma utf8_valid_step: "utf8Sequence s = Some k \<Longrightarrow> utf8_valid s \<longleftrightarrow> utf8_valid (drop k s)"
  by (subst utf8_valid.simps) (auto simp: utf8Sequence_def)

lemma utf8_valid_append_seq:
  assumes "utf8Sequence u = Some (length u)" "utf8_valid v"
  shows "utf8_valid (u @ v)"
proof -
  have "utf8Sequence (u @ v) = Some (length u)"
    using utf8Sequence_prefix [OF assms(1), of v] by simp
  from utf8_valid_step [OF this] show ?thesis using assms(2) by simp
qed

lemma utf8_valid_append:
  "utf8_valid u \<Longrightarrow> utf8_valid v \<Longrightarrow> utf8_valid (u @ v)"
proof (induction u rule: utf8_valid.induct)
  case (1 u)
  show ?case
  proof (cases "u = []")
    case False
    then obtain k where k: "utf8Sequence u = Some k" "utf8_valid (drop k u)"
      using "1.prems"(1) by (subst (asm) utf8_valid.simps) (auto split: option.splits)
    have b: "0 < k" "k \<le> length u" using utf8Sequence_bounds [OF k(1)] by auto
    have "utf8Sequence (u @ v) = Some k"
      using utf8Sequence_prefix [OF k(1), of "drop k u @ v"] by (simp flip: append_assoc)
    moreover have "utf8_valid (drop k u @ v)" using "1.IH" False k "1.prems" by blast
    ultimately show ?thesis using b by (simp add: utf8_valid_step)
  qed (simp add: "1.prems")
qed

lemma cont_byte_iff: "cont_byte c \<longleftrightarrow> 0x80 \<le> byte c \<and> byte c \<le> 0xBF"
proof -
  let ?b = "byte c"
  have "?b AND 0xC0 = push_bit 6 (drop_bit 6 ?b)"
  proof (rule bit_eqI)
    fix i
    have C0: "(0xC0 :: nat) = push_bit 6 (mask 2)" by (simp add: mask_eq_exp_minus_1 push_bit_eq_mult)
    have "\<not> bit ?b i" if "8 \<le> i"
    proof -
      have "take_bit 8 ?b = ?b" by (rule take_bit_nat_eq_self) simp
      then show ?thesis using that by (metis bit_take_bit_iff not_le)
    qed
    then show "bit (?b AND 0xC0) i \<longleftrightarrow> bit (push_bit 6 (drop_bit 6 ?b)) i"
      unfolding C0 by (cases "8 \<le> i") (auto simp: bit_simps)
  qed
  also have "\<dots> = 64 * (?b div 64)" by (simp add: push_bit_eq_mult drop_bit_eq_div)
  finally show ?thesis by (auto simp: cont_byte_def)
qed

lemma cont_at_cont: "cont_at s i \<Longrightarrow> cont_byte (s ! i)"
  by (simp add: cont_at_def)

lemma byte_in_cont: "byte_in s i lo hi \<Longrightarrow> 0x80 \<le> lo \<Longrightarrow> hi \<le> 0xBF \<Longrightarrow> cont_byte (s ! i)"
  by (auto simp: byte_in_def cont_byte_iff)

lemma utf8Sequence_cont:
  assumes "utf8Sequence s = Some k" "0 < i" "i < k"
  shows "cont_byte (s ! i)"
proof -
  have "k \<le> 4" using assms(1) by (auto simp: utf8Sequence_def Let_def split: list.splits if_splits)
  then consider "i = 1" | "i = 2" | "i = 3" using assms(2,3) by linarith
  then show ?thesis
    using assms(1,3)
    by cases (auto simp: utf8Sequence_def Let_def split: list.splits if_splits
        dest!: cont_at_cont byte_in_cont)
qed

lemma utf8_valid_take:
  "utf8_valid s \<Longrightarrow> n < length s \<Longrightarrow> n = 0 \<or> \<not> cont_byte (s ! n) \<Longrightarrow> utf8_valid (take n s)"
proof (induction s arbitrary: n rule: utf8_valid.induct)
  case (1 s)
  then obtain k where k: "utf8Sequence s = Some k" "utf8_valid (drop k s)"
    by (subst (asm) (2) utf8_valid.simps) (auto split: option.splits)
  have b: "0 < k" "k \<le> length s" using utf8Sequence_bounds [OF k(1)] by auto
  show ?case
  proof (cases "n < k")
    case True
    then have "n = 0" using 1(4) utf8Sequence_cont [OF k(1)] by blast
    then show ?thesis by simp
  next
    case False
    have "utf8_valid (take (n - k) (drop k s))"
      using "1.prems" False k by (intro "1.IH") (auto simp: utf8_valid.simps [of s])
    moreover have "utf8Sequence (take k s) = Some (length (take k s))"
      using utf8Sequence_prefix [OF k(1), of "[]"] b by simp
    ultimately have "utf8_valid (take k s @ take (n - k) (drop k s))"
      by (intro utf8_valid_append_seq)
    then show ?thesis using False by (simp add: take_add [symmetric])
  qed
qed

lemma excerpt_char_cases: "excerpt_char c = c \<or> byte c < 0x80 \<and> excerpt_char c = CHR '' ''"
  by (auto simp: excerpt_char_def byte_def)

lemma excerpt_char_byte: "0x80 \<le> byte c \<Longrightarrow> excerpt_char c = c" "byte (excerpt_char c) < 0x80 \<longleftrightarrow> byte c < 0x80"
  using excerpt_char_cases [of c] by (auto simp: byte_def)

lemma excerpt_high: "0x80 \<le> lo \<Longrightarrow> lo \<le> byte (excerpt_char c) \<and> byte (excerpt_char c) \<le> hi \<longleftrightarrow> lo \<le> byte c \<and> byte c \<le> hi"
  using excerpt_char_cases [of c] by (auto simp: byte_def)

lemma cont_at_map: "cont_at (map excerpt_char s) i = cont_at s i"
  using excerpt_high [where lo = 128 and hi = 191 and c = "s ! i"] by (simp add: cont_at_def cont_byte_iff cong: conj_cong)

lemma byte_in_map: "0x80 \<le> lo \<Longrightarrow> byte_in (map excerpt_char s) i lo hi = byte_in s i lo hi"
  using excerpt_high [where lo = lo and hi = hi and c = "s ! i"] by (simp add: byte_in_def cong: conj_cong)

lemma utf8Sequence_map: "utf8Sequence s = Some k \<Longrightarrow> utf8Sequence (map excerpt_char s) = Some k"
proof (cases s)
  case (Cons c r)
  assume a: "utf8Sequence s = Some k"
  show ?thesis
  proof (cases "byte c < 0x80")
    case True
    then show ?thesis using a Cons excerpt_char_byte(2) [of c]
      by (simp add: utf8Sequence_def)
  next
    case False
    then have "excerpt_char c = c" using excerpt_char_byte(1) by simp
    then show ?thesis
      using a cont_at_map [of s] byte_in_map [of _ s] unfolding Cons
      by (simp add: utf8Sequence_def Let_def split: if_splits)
  qed
qed (simp add: utf8Sequence_def)

lemma utf8_valid_map: "utf8_valid s \<Longrightarrow> utf8_valid (map excerpt_char s)"
proof (induction s rule: utf8_valid.induct)
  case (1 s)
  show ?case
  proof (cases "s = []")
    case False
    then obtain k where k: "utf8Sequence s = Some k" "utf8_valid (drop k s)"
      using "1.prems" by (subst (asm) utf8_valid.simps) (auto split: option.splits)
    then show ?thesis
      using "1.IH" False utf8_valid_step [OF utf8Sequence_map [OF k(1)]] by (simp add: drop_map)
  qed simp
qed

lemma back_off_spec: "back_off s n \<le> n \<and> (back_off s n = 0 \<or> \<not> cont_byte (s ! back_off s n))"
  by (induction s n rule: back_off.induct) auto

text \<open>An excerpt never exceeds its byte limit (the ellipsis apart), is a single line, and never
  splits a multibyte character: the excerpt of a valid UTF-8 text is valid UTF-8.\<close>

theorem appendExcerpt_safe:
  "utf8_valid s \<Longrightarrow> utf8_valid (appendExcerpt s mx)
     \<and> CHR 0x0A \<notin> set (appendExcerpt s mx)
     \<and> (int (length s) \<le> mx \<longrightarrow> length (appendExcerpt s mx) = length s)
     \<and> length (appendExcerpt s mx) \<le> nat mx + 3"
proof (intro conjI impI)
  assume s: "utf8_valid s"
  let ?n = "excerpt_len s mx"
  have n: "?n \<le> nat mx" "?n \<le> length s" "?n < length s \<Longrightarrow> ?n = 0 \<or> \<not> cont_byte (s ! ?n)"
    using back_off_spec [of s "nat mx"] by (auto simp: excerpt_len_def)
  have "utf8_valid (take ?n s)" using s n by (cases "?n < length s") (auto intro: utf8_valid_take)
  moreover have "utf8_valid ellipsis_utf8"
    by (simp add: ellipsis_utf8_def utf8_valid.simps utf8Sequence_def cont_at_def cont_byte_iff byte_def)
  ultimately show "utf8_valid (appendExcerpt s mx)"
    by (auto simp: appendExcerpt_def Let_def intro!: utf8_valid_append utf8_valid_map)
  show "CHR 0x0A \<notin> set (appendExcerpt s mx)"
    by (auto simp: appendExcerpt_def Let_def ellipsis_utf8_def excerpt_char_def split: if_splits)
  show "length (appendExcerpt s mx) = length s" if "int (length s) \<le> mx"
    using that by (simp add: appendExcerpt_def excerpt_len_def)
  show "length (appendExcerpt s mx) \<le> nat mx + 3"
    using n by (auto simp: appendExcerpt_def Let_def ellipsis_utf8_def)
qed

theorem appendExcerpt_safe_witness:
  "utf8_valid (appendExcerpt [CHR ''a'', CHR 0xC3, CHR 0xA9, CHR ''b''] 2)
   \<and> appendExcerpt [CHR ''a'', CHR 0xC3, CHR 0xA9, CHR ''b''] 2 = ''a'' @ ellipsis_utf8"
proof -
  have "utf8_valid [CHR ''a'', CHR 0xC3, CHR 0xA9, CHR ''b'']"
    by (simp add: utf8_valid.simps utf8Sequence_def cont_at_def cont_byte_iff byte_def)
  moreover have "appendExcerpt [CHR ''a'', CHR 0xC3, CHR 0xA9, CHR ''b''] 2 = ''a'' @ ellipsis_utf8"
    by (simp add: appendExcerpt_def excerpt_len_def eval_nat_numeral cont_byte_iff byte_def excerpt_char_def)
  ultimately show ?thesis using appendExcerpt_safe by blast
qed
end
