(* ===== verification/FoldFreeze.thy ===== *)
theory FoldFreeze
  imports Fold
begin

text \<open>
  What \<open>FoldView\<close> of \<open>fold.go\<close> guarantees: the shape of a folded view, the reuse of the frozen
  boundary, and a step relation for the turns of a conversation, rewrites by the client included, with
  the invariant that ties the frozen state to the history last folded. \<open>sample_config\<close> and \<open>fresh_freeze\<close>
  are the inputs of the witnesses.
\<close>

section \<open>Shape of a fold\<close>

abbreviation min_fold :: "FoldConfig \<Rightarrow> int" where
  "min_fold cfg \<equiv> or_default (cfgMinFoldMsgs cfg) FoldDefaultMinFoldMsgs"

abbreviation retained_band :: "FoldConfig \<Rightarrow> int" where
  "retained_band cfg \<equiv> or_default (cfgRetainedMsgs cfg) FoldDefaultRetainedMsgs"

text \<open>The tail a frozen boundary tolerates before the next epoch.\<close>

definition tail_cap :: "FoldConfig \<Rightarrow> FoldFreeze \<Rightarrow> int" where
  "tail_cap cfg fz = max (retained_band cfg)
     (if TailCapMsgs fz > 0 then TailCapMsgs fz else FoldDefaultTailCapMsgs)"

definition frozen_ok :: "jref \<Rightarrow> FoldConfig \<Rightarrow> FoldFreeze \<Rightarrow> bool" where
  "frozen_ok messages cfg fz \<longleftrightarrow>
     Active fz \<and> min_fold cfg \<le> FrozenSplit fz \<and> FrozenSplit fz < Len messages
     \<and> Len messages - FrozenSplit fz \<le> tail_cap cfg fz \<and> isCleanUserTurn (At messages (FrozenSplit fz))
     \<and> fst (prefixDigest messages (FrozenSplit fz)) = PrefixDigest fz"

lemma or_default_pos: "0 < d \<Longrightarrow> 0 < or_default v d"
  by (simp add: or_default_def)

lemma min_fold_pos: "0 < min_fold cfg"
  by (rule or_default_pos) (simp add: fold_defaults)

lemma find_SomeD: "find P xs = Some x \<Longrightarrow> P x \<and> x \<in> set xs"
  by (induction xs) (auto split: if_splits)

lemma find_split_Some:
  "find_split messages lo hi = Some s \<Longrightarrow> lo \<le> s \<and> s \<le> hi \<and> isCleanUserTurn (At messages s)"
  unfolding find_split_def by (drule find_SomeD) simp

lemma fold_boundary_reuse:
  "frozen_ok messages cfg fz \<Longrightarrow> fold_boundary messages cfg (Some fz) =
     Some (FrozenSplit fz, PrefixDigest fz, snd (prefixDigest messages (FrozenSplit fz)), True)"
  by (auto simp: frozen_ok_def fold_boundary_def tail_cap_def max_def Let_def split: prod.split if_splits)

lemma fold_boundary_cases:
  assumes "fold_boundary messages cfg freeze = Some (split, dig, bytes, reused)"
  shows "(dig, bytes) = prefixDigest messages split \<and> min_fold cfg \<le> split
    \<and> isCleanUserTurn (At messages split)
    \<and> (if reused then \<exists>fz. freeze = Some fz \<and> frozen_ok messages cfg fz \<and> split = FrozenSplit fz
       else split \<le> Len messages - retained_band cfg)"
proof (cases "\<exists>fz. freeze = Some fz \<and> frozen_ok messages cfg fz")
  case True
  then obtain fz where fz: "freeze = Some fz" "frozen_ok messages cfg fz" by blast
  have "prefixDigest messages (FrozenSplit fz)
      = (PrefixDigest fz, snd (prefixDigest messages (FrozenSplit fz)))"
    using fz(2) by (simp add: frozen_ok_def prod_eq_iff)
  moreover have "split = FrozenSplit fz" "dig = PrefixDigest fz"
    "bytes = snd (prefixDigest messages (FrozenSplit fz))" reused
    using assms unfolding fz(1) fold_boundary_reuse [OF fz(2)] by auto
  ultimately show ?thesis using fz by (simp add: frozen_ok_def)
next
  case False
  have "fold_boundary messages cfg freeze =
      (case find_split messages (min_fold cfg) (Len messages - retained_band cfg) of
         None \<Rightarrow> None
       | Some split \<Rightarrow> let (dig, bytes) = prefixDigest messages split in Some (split, dig, bytes, False))"
    using False
    by (auto simp: fold_boundary_def frozen_ok_def tail_cap_def max_def Let_def
        split: option.splits prod.split if_splits)
  with assms have "find_split messages (min_fold cfg) (Len messages - retained_band cfg) = Some split"
    "prefixDigest messages split = (dig, bytes)" "\<not> reused"
    by (auto split: option.splits prod.splits)
  then show ?thesis by (auto dest: find_split_Some)
qed

lemma FoldView_Folded:
  assumes "FoldView messages cfg0 freeze = (r, freeze')" "Folded r"
  obtains cfg split dig bytes reused where "cfg0 = Some cfg" "IsArray messages" "FoldEnabled cfg"
    "retained_band cfg < Len messages" "min_fold cfg \<le> Len messages - retained_band cfg"
    "fold_boundary messages cfg freeze = Some (split, dig, bytes, reused)"
    "r = \<lparr> Messages = Some (JSONArray (role_message ''user'' (fst (fold_body messages cfg split bytes))
             # fold_ack # drop (nat split) (Items messages))),
           Folded = True, FoldedMsgs = split, RetainedMsgs = Len messages - split,
           ReusedBoundary = reused, ClosetEvict = snd (fold_body messages cfg split bytes) \<rparr>"
    "freeze' = map_option (\<lambda>fz. fz \<lparr> Active := True, FrozenSplit := split, PrefixDigest := dig,
        Epochs := (if \<not> reused \<and> (\<not> Active fz \<or> FrozenSplit fz \<noteq> split \<or> PrefixDigest fz \<noteq> dig)
                   then Epochs fz + 1 else Epochs fz) \<rparr>) freeze"
proof -
  obtain cfg where cfg: "cfg0 = Some cfg" using assms by (auto simp: FoldView_def no_fold_def split: option.splits)
  have "Clone = (\<lambda>v. v)" by (rule ext) simp
  note assms' = assms(1) [unfolded FoldView_def cfg option.case Let_def this list.map_id0]
  then have pre: "IsArray messages" "FoldEnabled cfg" "retained_band cfg < Len messages"
    "min_fold cfg \<le> Len messages - retained_band cfg"
    using assms(2) by (auto simp: no_fold_def split: if_splits)
  have elig: "\<not> (\<not> IsArray messages \<or> \<not> FoldEnabled cfg)"
    "\<not> (Len messages \<le> 0 \<or> retained_band cfg \<ge> Len messages \<or> Len messages - retained_band cfg < min_fold cfg)"
    using assms' assms(2) by (auto simp: no_fold_def split: if_splits)
  note res = assms' [unfolded if_not_P [OF elig(1)] if_not_P [OF elig(2)]]
  obtain split dig bytes reused where b: "fold_boundary messages cfg freeze = Some (split, dig, bytes, reused)"
    using res assms(2) by (auto simp: no_fold_def split: option.splits)
  show thesis
    using res unfolding b option.case prod.case
    by (intro that [OF cfg pre b]) (auto split: prod.splits)
qed

lemma FoldView_intro:
  assumes "IsArray messages" "FoldEnabled cfg" "retained_band cfg < Len messages"
    "min_fold cfg \<le> Len messages - retained_band cfg"
    "fold_boundary messages cfg freeze \<noteq> None"
  shows "\<exists>r freeze'. FoldView messages (Some cfg) freeze = (r, freeze') \<and> Folded r
    \<and> freeze' \<noteq> None = (freeze \<noteq> None)"
proof -
  have "0 < retained_band cfg" by (rule or_default_pos) (simp add: fold_defaults)
  then have "\<not> (\<not> IsArray messages \<or> \<not> FoldEnabled cfg)"
    "\<not> (Len messages \<le> 0 \<or> retained_band cfg \<ge> Len messages \<or> Len messages - retained_band cfg < min_fold cfg)"
    using assms by auto
  then show ?thesis
    using assms(5) unfolding FoldView_def option.case Let_def
    by (simp only: if_False) (auto split: prod.split)
qed

section \<open>The frozen prefix\<close>

abbreviation arr :: "json list \<Rightarrow> jref" where "arr ms \<equiv> Some (JSONArray ms)"

lemma At_arr: "At (arr ms) i = (if i < 0 \<or> i \<ge> int (length ms) then None else Some (ms ! nat i))"
  by simp

lemma At_arr_append: "i < int (length ms) \<Longrightarrow> At (arr (ms @ ext)) i = At (arr ms) i"
  by (simp add: nth_append nat_less_iff)

lemma prefixDigest_append:
  "n \<le> int (length ms) \<Longrightarrow> prefixDigest (arr (ms @ ext)) n = prefixDigest (arr ms) n"
  unfolding prefixDigest_def by (rule fold_cong) (auto simp: At_arr_append simp del: At.simps)

lemma fold_body_append:
  assumes "n \<le> int (length ms)"
  shows "fold_body (arr (ms @ ext)) cfg n bytes = fold_body (arr ms) cfg n bytes"
proof -
  have "fold (\<lambda>i. skeletonMessage (At (arr (ms @ ext)) i) i e reg) [0..n - 1] st
      = fold (\<lambda>i. skeletonMessage (At (arr ms) i) i e reg) [0..n - 1] st" for e reg st
    using assms by (intro fold_cong) (auto simp: At_arr_append simp del: At.simps)
  then show ?thesis by (simp only: fold_body_def)
qed

text \<open>The view of a fold at \<open>split\<close>.\<close>

definition view_at :: "FoldConfig \<Rightarrow> json list \<Rightarrow> int \<Rightarrow> json list" where
  "view_at cfg ms split =
     role_message ''user'' (fst (fold_body (arr ms) cfg split (snd (prefixDigest (arr ms) split))))
     # fold_ack # drop (nat split) ms"

lemma view_at_append:
  "0 \<le> split \<Longrightarrow> split \<le> int (length ms) \<Longrightarrow> view_at cfg (ms @ ext) split = view_at cfg ms split @ ext"
  by (simp add: view_at_def prefixDigest_append fold_body_append nat_le_iff)

lemma FoldView_view:
  assumes "FoldView (arr ms) (Some cfg) freeze = (r, freeze')" "Folded r"
  obtains dig reused where "FoldEnabled cfg" "retained_band cfg < int (length ms)"
    "min_fold cfg \<le> int (length ms) - retained_band cfg"
    "fold_boundary (arr ms) cfg freeze = Some (FoldedMsgs r, dig, snd (prefixDigest (arr ms) (FoldedMsgs r)), reused)"
    "dig = fst (prefixDigest (arr ms) (FoldedMsgs r))"
    "Messages r = arr (view_at cfg ms (FoldedMsgs r))"
    "min_fold cfg \<le> FoldedMsgs r" "FoldedMsgs r < int (length ms)"
    "isCleanUserTurn (At (arr ms) (FoldedMsgs r))"
    "RetainedMsgs r = int (length ms) - FoldedMsgs r" "ReusedBoundary r = reused"
    "reused \<Longrightarrow> \<exists>fz. freeze = Some fz \<and> frozen_ok (arr ms) cfg fz \<and> FoldedMsgs r = FrozenSplit fz"
    "\<not> reused \<Longrightarrow> FoldedMsgs r \<le> int (length ms) - retained_band cfg"
    "freeze' = map_option (\<lambda>fz. fz \<lparr> Active := True, FrozenSplit := FoldedMsgs r, PrefixDigest := dig,
        Epochs := (if \<not> reused \<and> (\<not> Active fz \<or> FrozenSplit fz \<noteq> FoldedMsgs r \<or> PrefixDigest fz \<noteq> dig)
                   then Epochs fz + 1 else Epochs fz) \<rparr>) freeze"
proof -
  from assms obtain split dig bytes reused where *: "retained_band cfg < Len (arr ms)" "FoldEnabled cfg"
    "min_fold cfg \<le> Len (arr ms) - retained_band cfg"
    "fold_boundary (arr ms) cfg freeze = Some (split, dig, bytes, reused)"
    and r: "r = \<lparr> Messages = Some (JSONArray (role_message ''user'' (fst (fold_body (arr ms) cfg split bytes))
             # fold_ack # drop (nat split) (Items (arr ms)))),
           Folded = True, FoldedMsgs = split, RetainedMsgs = Len (arr ms) - split,
           ReusedBoundary = reused, ClosetEvict = snd (fold_body (arr ms) cfg split bytes) \<rparr>"
    and fz: "freeze' = map_option (\<lambda>fz. fz \<lparr> Active := True, FrozenSplit := split, PrefixDigest := dig,
        Epochs := (if \<not> reused \<and> (\<not> Active fz \<or> FrozenSplit fz \<noteq> split \<or> PrefixDigest fz \<noteq> dig)
                   then Epochs fz + 1 else Epochs fz) \<rparr>) freeze"
    by (auto elim!: FoldView_Folded)
  note b = fold_boundary_cases [OF *(4)]
  have "dig = fst (prefixDigest (arr ms) split)" "bytes = snd (prefixDigest (arr ms) split)"
    using b by (simp_all add: prod_eq_iff)
  moreover have "split < int (length ms)"
    using b *(1) or_default_pos [of FoldDefaultRetainedMsgs "cfgRetainedMsgs cfg"]
    by (auto simp: frozen_ok_def fold_defaults split: if_splits)
  ultimately show thesis
    by (intro that [of dig reused]) (use * b fz in \<open>simp_all add: view_at_def r split del: if_split\<close>)
qed

lemma commas_append:
  "xs \<noteq> [] \<Longrightarrow> commas (xs @ ys) = commas xs @ (if ys = [] then [] else CHR '','' # commas ys)"
proof (induction xs rule: commas.induct)
  case (2 x)
  then show ?case by (cases ys) simp_all
qed simp_all

lemma printed_prefix:
  "xs \<noteq> [] \<Longrightarrow> prefix (butlast (PrintJSONUnformatted (JSONArray xs))) (PrintJSONUnformatted (JSONArray (xs @ ys)))"
  by (simp add: commas_append butlast_append)

text \<open>C1: the cache-warm property of the freeze. When a conversation that has been folded only grows,
  and the tail stays within its cap, the next fold reuses the boundary: the epoch does not advance, and
  the new view is the old view with the new messages appended, so that the serialized old view (less
  its closing bracket) is byte for byte a prefix of the serialized new one.\<close>

theorem FoldView_cache_warm:
  assumes "FoldView (arr ms) (Some cfg) (Some fz) = (r1, Some fz1)" "Folded r1"
    and "int (length (ms @ ext)) - FoldedMsgs r1 \<le> tail_cap cfg fz"
  shows "\<exists>r2 fz2 xs. FoldView (arr (ms @ ext)) (Some cfg) (Some fz1) = (r2, Some fz2)
    \<and> Folded r2 \<and> ReusedBoundary r2 \<and> Epochs fz2 = Epochs fz1
    \<and> Messages r1 = arr xs \<and> Messages r2 = arr (xs @ ext)
    \<and> prefix (butlast (PrintJSONUnformatted (JSONArray xs))) (PrintJSONUnformatted (JSONArray (xs @ ext)))"
proof -
  from assms(1,2) obtain dig reused where v:
    "fold_boundary (arr ms) cfg (Some fz) = Some (FoldedMsgs r1, dig, snd (prefixDigest (arr ms) (FoldedMsgs r1)), reused)"
    "dig = fst (prefixDigest (arr ms) (FoldedMsgs r1))"
    "Messages r1 = arr (view_at cfg ms (FoldedMsgs r1))"
    "min_fold cfg \<le> FoldedMsgs r1" "FoldedMsgs r1 < int (length ms)"
    "isCleanUserTurn (At (arr ms) (FoldedMsgs r1))"
    and e: "FoldEnabled cfg" "retained_band cfg < int (length ms)"
      "min_fold cfg \<le> int (length ms) - retained_band cfg"
    and fz1: "Active fz1" "FrozenSplit fz1 = FoldedMsgs r1" "PrefixDigest fz1 = dig" "TailCapMsgs fz1 = TailCapMsgs fz"
    by (rule FoldView_view) simp
  have pos: "0 < FoldedMsgs r1" using v(4) min_fold_pos [of cfg] by simp
  have "tail_cap cfg fz1 = tail_cap cfg fz" using fz1 by (simp add: tail_cap_def)
  then have ok: "frozen_ok (arr (ms @ ext)) cfg fz1"
    using v fz1 assms(3) by (simp add: frozen_ok_def prefixDigest_append At_arr_append del: At.simps)
  obtain r2 f2 where r2: "FoldView (arr (ms @ ext)) (Some cfg) (Some fz1) = (r2, f2)" "Folded r2" "f2 \<noteq> None"
    using FoldView_intro [of "arr (ms @ ext)" cfg "Some fz1"] e fold_boundary_reuse [OF ok] by auto
  then obtain fz2 where fz2: "f2 = Some fz2" by blast
  from r2(1) r2(2) show ?thesis
  proof (rule FoldView_view)
    fix dig' reused'
    assume b: "fold_boundary (arr (ms @ ext)) cfg (Some fz1) = Some (FoldedMsgs r2, dig',
        snd (prefixDigest (arr (ms @ ext)) (FoldedMsgs r2)), reused')"
      and m: "Messages r2 = arr (view_at cfg (ms @ ext) (FoldedMsgs r2))"
      and reused: "ReusedBoundary r2 = reused'"
      and f: "f2 = map_option (\<lambda>fz. fz \<lparr> Active := True, FrozenSplit := FoldedMsgs r2, PrefixDigest := dig',
        Epochs := (if \<not> reused' \<and> (\<not> Active fz \<or> FrozenSplit fz \<noteq> FoldedMsgs r2 \<or> PrefixDigest fz \<noteq> dig')
                   then Epochs fz + 1 else Epochs fz) \<rparr>) (Some fz1)"
    have same: "FoldedMsgs r2 = FoldedMsgs r1" "reused'"
      using b fold_boundary_reuse [OF ok] fz1 by simp_all
    then have "Messages r2 = arr (view_at cfg ms (FoldedMsgs r1) @ ext)"
      using m v(5) pos by (simp add: view_at_append)
    moreover have "view_at cfg ms (FoldedMsgs r1) \<noteq> []" by (simp add: view_at_def)
    ultimately show ?thesis
      using r2(1,2) fz2 same reused f v(3) printed_prefix by auto
  qed
qed

abbreviation sample_turn :: "string \<Rightarrow> json" where
  "sample_turn txt \<equiv> role_message ''user'' txt"

definition sample_config :: FoldConfig where
  "sample_config = \<lparr> FoldEnabled = True, cfgRetainedMsgs = 1, cfgMinFoldMsgs = 1, cfgReasoningExcerptBytes = 0,
     cfgRegisterEnabled = False,
     cfgCloset = \<lparr> Enabled = True, BudgetBytes = 0, MaxRatioPct = 0, Denylist = [] \<rparr>,
     cfgCompactHeadBytes = 0, cfgCompactTailBytes = 0 \<rparr>"

definition fresh_freeze :: FoldFreeze where
  "fresh_freeze = \<lparr> Active = False, FrozenSplit = 0, TailCapMsgs = 0, Epochs = 0, PrefixDigest = 0 \<rparr>"

lemma sample_clean: "isCleanUserTurn (Some (role_message ''user'' txt))"
  by (simp add: isCleanUserTurn_def role_message_def NewString_def NewObject_def GetString_def)

lemma sample_folds:
  "\<exists>r fz. FoldView (arr [sample_turn a, sample_turn b]) (Some sample_config) (Some fresh_freeze) = (r, Some fz)
     \<and> Folded r"
proof -
  have "find_split (arr [sample_turn a, sample_turn b]) 1 1 \<noteq> None"
    using sample_clean by (simp add: find_split_def)
  then have "fold_boundary (arr [sample_turn a, sample_turn b]) sample_config (Some fresh_freeze) \<noteq> None"
    by (auto simp: fold_boundary_def fresh_freeze_def sample_config_def or_default_def Let_def
        split: option.split prod.split)
  then show ?thesis
    using FoldView_intro [of "arr [sample_turn a, sample_turn b]" sample_config "Some fresh_freeze"]
    by (auto simp: sample_config_def or_default_def)
qed

theorem FoldView_cache_warm_witness:
  "\<exists>r1 fz1 r2 fz2 xs.
     FoldView (arr [sample_turn ''a'', sample_turn ''b'']) (Some sample_config) (Some fresh_freeze) = (r1, Some fz1)
   \<and> FoldView (arr ([sample_turn ''a'', sample_turn ''b''] @ [sample_turn ''c''])) (Some sample_config) (Some fz1)
       = (r2, Some fz2)
   \<and> ReusedBoundary r2 \<and> Messages r1 = arr xs \<and> Messages r2 = arr (xs @ [sample_turn ''c''])"
proof -
  obtain r1 fz1 where r1: "FoldView (arr [sample_turn ''a'', sample_turn ''b'']) (Some sample_config)
      (Some fresh_freeze) = (r1, Some fz1)" "Folded r1" using sample_folds by blast
  have "0 < FoldedMsgs r1"
    using r1 min_fold_pos [of sample_config] by (auto elim!: FoldView_view)
  then have "int (length ([sample_turn ''a'', sample_turn ''b''] @ [sample_turn ''c''])) - FoldedMsgs r1
      \<le> tail_cap sample_config fresh_freeze"
    by (simp add: tail_cap_def fresh_freeze_def fold_defaults)
  from FoldView_cache_warm [OF r1 this] r1(1) show ?thesis by blast
qed

text \<open>C36: what a fold is made of. A folded view is the synthetic user turn with the skeleton, the
  synthetic acknowledgement, and the messages from the split on, unchanged and in order; the split is a
  clean user turn, so no tool result of the retained tail has lost its call to the fold at the seam; at
  least the minimum number of messages is folded, and a fresh boundary keeps the retained band.\<close>

theorem FoldView_shape:
  assumes "FoldView (arr ms) (Some cfg) freeze = (r, freeze')" "Folded r"
  shows "\<exists>body. Messages r = arr (role_message ''user'' body # fold_ack # drop (nat (FoldedMsgs r)) ms)
    \<and> min_fold cfg \<le> FoldedMsgs r \<and> FoldedMsgs r < int (length ms)
    \<and> FoldedMsgs r + RetainedMsgs r = int (length ms)
    \<and> isCleanUserTurn (Some (ms ! nat (FoldedMsgs r)))
    \<and> (\<not> ReusedBoundary r \<longrightarrow> retained_band cfg \<le> RetainedMsgs r)"
  using assms
proof (rule FoldView_view)
  fix dig reused
  assume *: "Messages r = arr (view_at cfg ms (FoldedMsgs r))" "min_fold cfg \<le> FoldedMsgs r"
    "FoldedMsgs r < int (length ms)" "isCleanUserTurn (At (arr ms) (FoldedMsgs r))"
    "RetainedMsgs r = int (length ms) - FoldedMsgs r"
    and fresh: "\<not> reused \<Longrightarrow> FoldedMsgs r \<le> int (length ms) - retained_band cfg" "ReusedBoundary r = reused"
  have "\<not> FoldedMsgs r < 0" using *(2) min_fold_pos [of cfg] by simp
  then show ?thesis using * fresh by (auto simp: view_at_def)
qed

theorem FoldView_shape_witness:
  "\<exists>r fz. FoldView (arr [sample_turn ''a'', sample_turn ''b'']) (Some sample_config) (Some fresh_freeze) = (r, Some fz)
     \<and> FoldedMsgs r + RetainedMsgs r = 2"
proof -
  obtain r fz where r: "FoldView (arr [sample_turn ''a'', sample_turn ''b'']) (Some sample_config)
      (Some fresh_freeze) = (r, Some fz)" "Folded r" using sample_folds by blast
  from FoldView_shape [OF r] r(1) show ?thesis by auto
qed

section \<open>A conversation\<close>

text \<open>
  The turns of one conversation: the history grows, the client rewrites it (only when \<open>edits\<close> is set:
  a compaction, an edited message), or the gateway folds it with the frozen state the conversation
  carries. Beside the history and the frozen state stand the history that was last folded and the view
  that fold produced. (\<open>Epochs\<close> is taken as unbounded: it counts boundary advances, one per turn at
  most.)
\<close>

type_synonym conv = "json list \<times> FoldFreeze \<times> json list \<times> json list"

inductive turn :: "FoldConfig \<Rightarrow> bool \<Rightarrow> conv \<Rightarrow> conv \<Rightarrow> bool" for cfg edits where
  grow: "turn cfg edits (ms, fz, h, view) (ms @ ext, fz, h, view)"
| rewrite: "edits \<Longrightarrow> turn cfg edits (ms, fz, h, view) (ms', fz, h, view)"
| folds: "FoldView (arr ms) (Some cfg) (Some fz) = (r, Some fz') \<Longrightarrow> Folded r \<Longrightarrow> Messages r = arr view' \<Longrightarrow>
    turn cfg edits (ms, fz, h, view) (ms, fz', ms, view')"
| keeps: "FoldView (arr ms) (Some cfg) (Some fz) = (r, Some fz') \<Longrightarrow> \<not> Folded r \<Longrightarrow>
    turn cfg edits (ms, fz, h, view) (ms, fz', h, view)"

inductive_cases turnE: "turn cfg edits (ms, fz, h, view) (ms', fz', h', view')"

text \<open>Once folded, the state remembers a boundary of the history last folded, the digest of the
  messages before it and a view built on both; a history that only grows still has all of them.\<close>

definition bound_to :: "FoldConfig \<Rightarrow> FoldFreeze \<Rightarrow> json list \<Rightarrow> json list \<Rightarrow> bool" where
  "bound_to cfg fz h view \<longleftrightarrow>
     min_fold cfg \<le> FrozenSplit fz \<and> FrozenSplit fz < int (length h)
     \<and> isCleanUserTurn (At (arr h) (FrozenSplit fz))
     \<and> PrefixDigest fz = fst (prefixDigest (arr h) (FrozenSplit fz))
     \<and> view = view_at cfg h (FrozenSplit fz)"

fun conv_inv :: "FoldConfig \<Rightarrow> bool \<Rightarrow> conv \<Rightarrow> bool" where
  "conv_inv cfg edits (ms, fz, h, view) \<longleftrightarrow>
     (Active fz \<longrightarrow> bound_to cfg fz h view
        \<and> (\<not> edits \<longrightarrow> prefix h ms \<and> FoldEnabled cfg
             \<and> FrozenSplit fz \<le> int (length ms) - retained_band cfg))"

lemma bound_to_grown:
  assumes "bound_to cfg fz h view" "prefix h ms"
  shows "bound_to cfg fz ms (view_at cfg ms (FrozenSplit fz))"
    "\<exists>ext. view_at cfg ms (FrozenSplit fz) = view @ ext"
proof -
  obtain ext where ms: "ms = h @ ext" using assms(2) by (rule prefixE)
  have f: "FrozenSplit fz < int (length h)" "0 \<le> FrozenSplit fz"
    using assms(1) min_fold_pos [of cfg] by (auto simp: bound_to_def)
  show "bound_to cfg fz ms (view_at cfg ms (FrozenSplit fz))"
    using assms(1) f unfolding ms by (simp add: bound_to_def prefixDigest_append At_arr_append del: At.simps)
  show "\<exists>ext. view_at cfg ms (FrozenSplit fz) = view @ ext"
    using assms(1) f unfolding ms by (auto simp: bound_to_def view_at_append)
qed

lemma conv_folds:
  assumes inv: "conv_inv cfg False (ms, fz, h, view)" and "Active fz"
  shows "\<exists>r fz'. FoldView (arr ms) (Some cfg) (Some fz) = (r, Some fz') \<and> Folded r"
proof -
  have b: "bound_to cfg fz ms (view_at cfg ms (FrozenSplit fz))"
    using assms bound_to_grown(1) [of cfg fz h view ms] by simp
  have a: "FoldEnabled cfg" "FrozenSplit fz \<le> int (length ms) - retained_band cfg"
    "min_fold cfg \<le> FrozenSplit fz" "isCleanUserTurn (At (arr ms) (FrozenSplit fz))"
    using assms b by (auto simp: bound_to_def simp del: At.simps)
  have "find P xs \<noteq> None" if "x \<in> set xs" "P x" for P and xs :: "int list" and x
    using that by (auto simp: find_None_iff)
  from this [of "FrozenSplit fz"] have "find_split (arr ms) (min_fold cfg) (Len (arr ms) - retained_band cfg) \<noteq> None"
    using a by (simp add: find_split_def del: At.simps)
  then have "fold_boundary (arr ms) cfg (Some fz) \<noteq> None"
    unfolding fold_boundary_def Let_def by (auto split: option.split prod.split)
  then show ?thesis
    using FoldView_intro [of "arr ms" cfg "Some fz"] a min_fold_pos [of cfg] by auto
qed

lemma tail_cap_state:
  "FoldView (arr ms) (Some cfg) (Some fz) = (r, Some fz') \<Longrightarrow> \<not> Folded r \<Longrightarrow> fz' = fz"
  by (auto simp: FoldView_def Let_def split: if_splits option.splits prod.splits)

text \<open>One fold: what it leaves is bound to the history it read, and it keeps the boundary and the digest
  unless it counts an epoch.\<close>

lemma fold_step:
  assumes fv: "FoldView (arr ms) (Some cfg) (Some fz) = (r, Some fz')" "Folded r" "Messages r = arr view'"
  shows "bound_to cfg fz' ms view' \<and> FoldEnabled cfg \<and> Active fz' \<and> Epochs fz \<le> Epochs fz'
    \<and> (Active fz \<and> Epochs fz' = Epochs fz \<longrightarrow>
         FrozenSplit fz' = FrozenSplit fz \<and> PrefixDigest fz' = PrefixDigest fz)
    \<and> (Active fz \<and> FrozenSplit fz' = FrozenSplit fz \<or> FrozenSplit fz' \<le> int (length ms) - retained_band cfg)"
  using fv(1,2)
proof (rule FoldView_view)
  fix dig reused
  assume a: "FoldEnabled cfg" "dig = fst (prefixDigest (arr ms) (FoldedMsgs r))"
    "Messages r = arr (view_at cfg ms (FoldedMsgs r))" "min_fold cfg \<le> FoldedMsgs r"
    "FoldedMsgs r < int (length ms)" "isCleanUserTurn (At (arr ms) (FoldedMsgs r))"
    and reused: "reused \<Longrightarrow> \<exists>fz'. Some fz = Some fz' \<and> frozen_ok (arr ms) cfg fz' \<and> FoldedMsgs r = FrozenSplit fz'"
    and fresh: "\<not> reused \<Longrightarrow> FoldedMsgs r \<le> int (length ms) - retained_band cfg"
    and f: "Some fz' = map_option (\<lambda>fz. fz \<lparr> Active := True, FrozenSplit := FoldedMsgs r, PrefixDigest := dig,
        Epochs := (if \<not> reused \<and> (\<not> Active fz \<or> FrozenSplit fz \<noteq> FoldedMsgs r \<or> PrefixDigest fz \<noteq> dig)
                   then Epochs fz + 1 else Epochs fz) \<rparr>) (Some fz)"
  have f': "Active fz'" "FrozenSplit fz' = FoldedMsgs r" "PrefixDigest fz' = dig" "Epochs fz \<le> Epochs fz'"
    using f by simp_all
  have "bound_to cfg fz' ms view'" using a f' fv(3) by (simp add: bound_to_def del: At.simps)
  moreover have "FoldedMsgs r = FrozenSplit fz \<and> dig = PrefixDigest fz"
    if "Active fz" "Epochs fz' = Epochs fz"
    using that f a(2) reused by (cases reused) (auto simp: frozen_ok_def split: if_splits)
  moreover have "Active fz \<and> FoldedMsgs r = FrozenSplit fz \<or> FoldedMsgs r \<le> int (length ms) - retained_band cfg"
    using reused fresh by (cases reused) (auto simp: frozen_ok_def)
  ultimately show ?thesis using a(1) f' by simp
qed

fun same_boundary :: "conv \<Rightarrow> conv \<Rightarrow> bool" where
  "same_boundary (ms, fz, h, view) (ms', fz', h', view') \<longleftrightarrow>
     FrozenSplit fz' = FrozenSplit fz \<and> PrefixDigest fz' = PrefixDigest fz"

abbreviation conv_freeze :: "conv \<Rightarrow> FoldFreeze" where "conv_freeze s \<equiv> fst (snd s)"
abbreviation conv_view :: "conv \<Rightarrow> json list" where "conv_view s \<equiv> snd (snd (snd s))"

lemma turn_inv:
  assumes "turn cfg edits s s'" "conv_inv cfg edits s"
  shows "conv_inv cfg edits s' \<and> Epochs (conv_freeze s) \<le> Epochs (conv_freeze s')
    \<and> (Active (conv_freeze s) \<longrightarrow> Active (conv_freeze s')
        \<and> (Epochs (conv_freeze s') = Epochs (conv_freeze s) \<longrightarrow> same_boundary s s'
            \<and> (\<not> edits \<longrightarrow> prefix (conv_view s) (conv_view s'))))"
  using assms
proof (induction rule: turn.induct)
  case (folds ms fz r fz' view' h view)
  note step = fold_step [OF folds(1-3)]
  have top: "FrozenSplit fz' \<le> int (length ms) - retained_band cfg" if "\<not> edits"
    using step folds(4) that by auto
  have "prefix view view'" if "\<not> edits" "Active fz" "Epochs fz' = Epochs fz"
    using step folds(4) that bound_to_grown(2) [of cfg fz h view ms] by (auto simp: bound_to_def)
  then show ?case using step top by auto
next
  case (keeps ms fz r fz' h view)
  have "fz' = fz" using keeps(1,2) by (rule tail_cap_state)
  then show ?case using keeps(3) by simp
qed (auto simp: prefix_def)

lemma turns_inv:
  assumes "(turn cfg edits)\<^sup>*\<^sup>* s s'" "conv_inv cfg edits s"
  shows "conv_inv cfg edits s' \<and> Epochs (conv_freeze s) \<le> Epochs (conv_freeze s')
    \<and> (Active (conv_freeze s) \<longrightarrow> Active (conv_freeze s')
        \<and> (Epochs (conv_freeze s') = Epochs (conv_freeze s) \<longrightarrow> same_boundary s s'
            \<and> (\<not> edits \<longrightarrow> prefix (conv_view s) (conv_view s'))))"
  using assms
proof (induction rule: rtranclp_induct)
  case base
  then show ?case by (cases s) simp
next
  case (step y z)
  have tr: "same_boundary s y \<Longrightarrow> same_boundary y z \<Longrightarrow> same_boundary s z"
    by (cases s; cases y; cases z) simp
  note y = step.IH [OF step.prems] and z = turn_inv [OF step.hyps(2)]
  show ?case
    using y z tr by (auto intro: prefix_order.trans)
qed

text \<open>C2: the frozen boundary over a whole conversation. From a fresh state, whatever the turns (growth,
  folds and, when \<open>edits\<close> is set, arbitrary rewrites of the history by the client, in any order), the
  boundary and the digest of the frozen state stay what they were for as long as no epoch is counted; they
  are a clean user turn of the history last folded and the digest of exactly the messages that history has
  before it, and the view last produced is the skeleton of those messages followed by the rest. So a
  rewrite below the boundary that is folded within the epoch left the digest of the prefix unchanged.
  When the history only grows, the conversation also folds again on every later turn, and within an
  epoch the view sent to the provider only grows at its end.\<close>

theorem conversation_prefix_stable:
  assumes "(turn cfg edits)\<^sup>*\<^sup>* (ms0, fz0, h0, view0) (ms, fz, h, view)" "\<not> Active fz0"
    and "(turn cfg edits)\<^sup>*\<^sup>* (ms, fz, h, view) (ms', fz', h', view')" "Active fz" "Epochs fz' = Epochs fz"
  shows "FrozenSplit fz' = FrozenSplit fz \<and> PrefixDigest fz' = PrefixDigest fz
    \<and> 0 < FrozenSplit fz' \<and> FrozenSplit fz' < int (length h')
    \<and> isCleanUserTurn (Some (h' ! nat (FrozenSplit fz')))
    \<and> fst (prefixDigest (arr h') (FrozenSplit fz')) = PrefixDigest fz'
    \<and> fst (prefixDigest (arr h) (FrozenSplit fz')) = PrefixDigest fz'
    \<and> view' = view_at cfg h' (FrozenSplit fz')
    \<and> (\<not> edits \<longrightarrow> prefix h' ms' \<and> prefix view view'
        \<and> (\<exists>r fz''. FoldView (arr ms') (Some cfg) (Some fz') = (r, Some fz'') \<and> Folded r))"
proof -
  have inv: "conv_inv cfg edits (ms, fz, h, view)" using turns_inv [OF assms(1)] assms(2) by simp
  note t = turns_inv [OF assms(3) inv]
  have same: "FrozenSplit fz' = FrozenSplit fz" "PrefixDigest fz' = PrefixDigest fz"
    and act: "Active fz'" and pre: "\<not> edits \<Longrightarrow> prefix view view'"
    using t assms(4,5) by simp_all
  have b: "bound_to cfg fz h view" "bound_to cfg fz' h' view'"
    and g: "\<not> edits \<Longrightarrow> prefix h' ms'" using inv t assms(4) act by simp_all
  have "conv_inv cfg False (ms', fz', h', view')" if "\<not> edits" using t that by simp
  from conv_folds [OF this act]
  have "\<not> edits \<Longrightarrow> \<exists>r fz''. FoldView (arr ms') (Some cfg) (Some fz') = (r, Some fz'') \<and> Folded r" .
  moreover have "isCleanUserTurn (Some (h' ! nat (FrozenSplit fz')))" "0 < FrozenSplit fz'"
    using b(2) min_fold_pos [of cfg] by (simp_all add: bound_to_def split: if_splits)
  ultimately show ?thesis using same pre b g by (simp add: bound_to_def)
qed

theorem conversation_prefix_stable_witness:
  "\<exists>fz1 view r fz2.
     (turn sample_config False)\<^sup>*\<^sup>* ([], fresh_freeze, [], [])
       ([sample_turn ''a'', sample_turn ''b''], fz1, [sample_turn ''a'', sample_turn ''b''], view)
   \<and> Active fz1 \<and> 0 < FrozenSplit fz1 \<and> view = view_at sample_config [sample_turn ''a'', sample_turn ''b''] (FrozenSplit fz1)
   \<and> FoldView (arr ([sample_turn ''a'', sample_turn ''b''] @ [sample_turn ''c''])) (Some sample_config) (Some fz1)
       = (r, Some fz2) \<and> Folded r"
proof -
  let ?ms = "[sample_turn ''a'', sample_turn ''b'']"
  obtain r1 fz1 where r1: "FoldView (arr ?ms) (Some sample_config) (Some fresh_freeze) = (r1, Some fz1)" "Folded r1"
    using sample_folds by blast
  then obtain view where view: "Messages r1 = arr view" "Active fz1"
    by (auto elim!: FoldView_view)
  have "turn sample_config False ([], fresh_freeze, [], []) (?ms, fresh_freeze, [], [])"
    using turn.grow [of sample_config False "[]" fresh_freeze "[]" "[]" ?ms] by (simp only: append_Nil)
  moreover have "turn sample_config False (?ms, fresh_freeze, [], []) (?ms, fz1, ?ms, view)"
    by (rule turn.folds [OF r1 view(1)])
  ultimately have reach: "(turn sample_config False)\<^sup>*\<^sup>* ([], fresh_freeze, [], []) (?ms, fz1, ?ms, view)"
    by (rule converse_rtranclp_into_rtranclp [OF _ r_into_rtranclp])
  have grown: "(turn sample_config False)\<^sup>*\<^sup>* (?ms, fz1, ?ms, view) (?ms @ [sample_turn ''c''], fz1, ?ms, view)"
    by (rule r_into_rtranclp, rule turn.grow)
  have "\<not> Active fresh_freeze" by (simp add: fresh_freeze_def)
  note c = conversation_prefix_stable [OF reach this grown view(2) refl]
  then have "\<exists>r fz''. FoldView (arr (?ms @ [sample_turn ''c''])) (Some sample_config) (Some fz1) = (r, Some fz'') \<and> Folded r"
    by blast
  with reach view(2) c show ?thesis by blast
qed
end
