(* ===== verification/CompressLaws.thy ===== *)
theory CompressLaws
  imports Fold
begin

text \<open>
  What \<open>CompressView\<close> of \<open>fold.go\<close> leaves alone: message order, every field that holds no body, the
  retained band. \<open>sample_tool_config\<close> and \<open>sample_body\<close> are the input of the witness.
\<close>

section \<open>Compression keeps the shell of every message\<close>

text \<open>A field that may have been shrunk: it is as it was, or its text (the string, or the printed value when it
  is none) has become a shorter string.\<close>

definition shrunk :: "jref \<Rightarrow> jref \<Rightarrow> bool" where
  "shrunk old new \<longleftrightarrow> new = old \<or>
     (\<exists>body out. Text old = Some body \<and> new = Some (JSONString out) \<and> out \<noteq> [] \<and> length out < length body)"

text \<open>Two content blocks: they are the same, but for the body of a tool result.\<close>

definition same_block :: "json \<Rightarrow> json \<Rightarrow> bool" where
  "same_block b b' \<longleftrightarrow>
     (if GetString (Some b) ''type'' = ''tool_result''
      then shrunk (Get (Some b) ''content'') (Get (Some b') ''content'')
        \<and> (\<forall>k. k \<noteq> ''content'' \<longrightarrow> Get (Some b') k = Get (Some b) k)
      else b' = b)"

text \<open>Two messages agree but for the three places a tool result lives in: the content of a message of the
  role \<open>tool\<close>, the bodies of the tool results among its content blocks, and the output of an item of the type
  \<open>function_call_output\<close>. A message without any of them is the same.\<close>

definition same_shell :: "json \<Rightarrow> json \<Rightarrow> bool" where
  "same_shell m m' \<longleftrightarrow>
     (\<forall>k. k \<noteq> ''content'' \<and> k \<noteq> ''output'' \<longrightarrow> Get (Some m') k = Get (Some m) k)
     \<and> (if GetString (Some m) ''type'' = ''function_call_output''
        then shrunk (Get (Some m) ''output'') (Get (Some m') ''output'')
        else Get (Some m') ''output'' = Get (Some m) ''output'')
     \<and> (GetString (Some m) ''role'' = ''tool'' \<and> shrunk (Get (Some m) ''content'') (Get (Some m') ''content'')
        \<or> (case Get (Some m) ''content'' of
             Some (JSONArray blks) \<Rightarrow>
               \<exists>blks'. Get (Some m') ''content'' = Some (JSONArray blks') \<and> list_all2 same_block blks blks'
           | old \<Rightarrow> Get (Some m') ''content'' = old
                   \<and> (GetString (Some m) ''type'' \<noteq> ''function_call_output'' \<longrightarrow> m' = m)))"

lemma shrunk_refl [simp]: "shrunk v v"
  by (simp add: shrunk_def)

lemma same_block_refl [simp]: "same_block b b"
  by (simp add: same_block_def)

lemma same_shell_refl [simp]: "same_shell m m"
  by (auto simp: same_shell_def intro!: list_all2_refl split: option.split json.split)

lemma Get_Set_other: "k' \<noteq> k \<Longrightarrow> Get (Some (Set k v s)) k' = Get (Some s) k'"
  by (cases s) (auto simp: map_of_set_key)

lemma Get_Set_present: "Get (Some s) k = Some w \<Longrightarrow> Get (Some (Set k v s)) k = Some v"
  by (cases s) (auto simp: map_of_set_key)

lemma GetString_cong: "Get v k = Get w k \<Longrightarrow> GetString v k = GetString w k"
  by (simp add: GetString_def)

lemma compressBodyField_spec:
  assumes "compressBodyField p key cc turn cs = Some (p', ok, b, cs')"
  shows "(\<forall>k. k \<noteq> key \<longrightarrow> Get (Some p') k = Get (Some p) k)
    \<and> (p' = p \<or> (\<exists>out. Get (Some p') key = Some (JSONString out))) \<and> shrunk (Get (Some p) key) (Get (Some p') key)"
proof -
  have "p' = p \<or> (\<exists>body out. Text (Get (Some p) key) = Some body \<and> out \<noteq> [] \<and> length out < length body
      \<and> p' = Set key (NewString out) p)"
    using assms by (auto simp: compressBodyField_def split: option.splits if_splits)
  then show ?thesis
  proof (elim disjE exE conjE)
    fix body out
    assume *: "Text (Get (Some p) key) = Some body" "out \<noteq> []" "length out < length body" "p' = Set key (NewString out) p"
    obtain w where "Get (Some p) key = Some w" using *(1) by (auto simp: Text_def split: option.splits)
    then have "Get (Some p') key = Some (JSONString out)" using *(4) Get_Set_present by (simp add: NewString_def)
    then show ?thesis using * by (auto simp: Get_Set_other shrunk_def)
  qed simp
qed

lemma compress_blocks_spec:
  "compress_blocks cc turn blks n raw cs = Some (blks', r) \<Longrightarrow> list_all2 same_block blks blks'"
proof (induction cc turn blks n raw cs arbitrary: blks' rule: compress_blocks.induct)
  case (2 cc turn blk blks n raw cs)
  then obtain b' ok b cs' where
    b: "(if GetString (Some blk) ''type'' = ''tool_result''
         then compressBodyField blk ''content'' cc turn cs else Some (blk, False, 0, cs)) = Some (b', ok, b, cs')"
    by (auto split: option.splits)
  then have "same_block blk b'"
    using compressBodyField_spec [of blk "''content''" cc turn cs b' ok b cs'] by (auto simp: same_block_def split: if_splits)
  moreover obtain bs' where "blks' = b' # bs'"
    "compress_blocks cc turn blks (if ok then n + 1 else n) (if ok then raw + b else raw) cs' = Some (bs', r)"
    using 2(2) b by auto
  ultimately show ?case using 2(1) [OF b refl refl refl] by simp
qed simp

lemma compressMessageBodies_shell:
  assumes "compressMessageBodies m cc turn cs = Some (m', n, raw, cs')"
  shows "same_shell m m'"
proof -
  obtain m1 okA bA cs1 where A: "(if GetString (Some m) ''role'' = ''tool''
      then compressBodyField m ''content'' cc turn cs else Some (m, False, 0, cs)) = Some (m1, okA, bA, cs1)"
    using assms by (auto simp: compressMessageBodies_def Let_def split: option.splits)
  obtain m2 n2 raw2 cs2 where B: "(case Get (Some m1) ''content'' of
        Some (JSONArray blks) \<Rightarrow>
          map_option (\<lambda>(blks', r). (Set ''content'' (JSONArray blks') m1, r))
            (compress_blocks cc turn blks (if okA then 1 else 0) (if okA then bA else 0) cs1)
      | _ \<Rightarrow> Some (m1, if okA then 1 else 0, if okA then bA else 0, cs1)) = Some (m2, n2, raw2, cs2)"
    using assms A by (auto simp: compressMessageBodies_def Let_def split: option.splits)
  have C: "m' = m2 \<or> GetString (Some m) ''type'' = ''function_call_output'' \<and> (\<exists>okC bC cs3. compressBodyField m2 ''output'' cc turn cs2 = Some (m', okC, bC, cs3))"
    using assms A B by (auto simp: compressMessageBodies_def Let_def split: option.splits if_splits)
  let ?role = "GetString (Some m) ''role''" and ?type = "GetString (Some m) ''type''"
  have m1: "\<forall>k. k \<noteq> ''content'' \<longrightarrow> Get (Some m1) k = Get (Some m) k"
    "m1 = m \<or> ?role = ''tool'' \<and> (\<exists>out. Get (Some m1) ''content'' = Some (JSONString out))"
    "shrunk (Get (Some m) ''content'') (Get (Some m1) ''content'')"
    using A compressBodyField_spec [of m "''content''" cc turn cs m1 okA bA cs1] by (auto split: if_splits)
  have m2: "\<forall>k. k \<noteq> ''content'' \<longrightarrow> Get (Some m2) k = Get (Some m1) k"
    using B by (auto simp: Get_Set_other split: option.splits json.splits)
  have m2c: "\<exists>blks'. Get (Some m2) ''content'' = Some (JSONArray blks') \<and> list_all2 same_block blks blks'"
    if "Get (Some m1) ''content'' = Some (JSONArray blks)" for blks
    using B that by (auto dest: compress_blocks_spec Get_Set_present)
  have m2s: "m2 = m1" if "\<nexists>blks. Get (Some m1) ''content'' = Some (JSONArray blks)"
    using B that by (auto split: option.splits json.splits)
  have m': "\<forall>k. k \<noteq> ''output'' \<longrightarrow> Get (Some m') k = Get (Some m2) k"
    "shrunk (Get (Some m2) ''output'') (Get (Some m') ''output'')" "m' = m2 \<or> ?type = ''function_call_output''"
    using C compressBodyField_spec [of m2 "''output''" cc turn cs2 m'] by auto
  have content: "Get (Some m') ''content'' = Get (Some m2) ''content''" using m'(1) by simp
  have out: "Get (Some m2) ''output'' = Get (Some m) ''output''" using m1(1) m2 by simp
  have "?role = ''tool'' \<and> shrunk (Get (Some m) ''content'') (Get (Some m') ''content'')
      \<or> (case Get (Some m) ''content'' of
          Some (JSONArray blks) \<Rightarrow>
            \<exists>blks'. Get (Some m') ''content'' = Some (JSONArray blks') \<and> list_all2 same_block blks blks'
        | old \<Rightarrow> Get (Some m') ''content'' = old \<and> (?type \<noteq> ''function_call_output'' \<longrightarrow> m' = m))"
  proof (cases "m1 = m")
    case False
    then have "?role = ''tool''" "m2 = m1" using m1(2) m2s by auto
    then show ?thesis using m1(3) content by simp
  next
    case True
    show ?thesis
    proof (cases "\<exists>blks. Get (Some m) ''content'' = Some (JSONArray blks)")
      case False
      then have "m2 = m" using m2s True by simp
      then have "Get (Some m') ''content'' = Get (Some m) ''content'' \<and> (?type \<noteq> ''function_call_output'' \<longrightarrow> m' = m)"
        using content m'(3) by auto
      then show ?thesis using False by (auto split: option.split json.split)
    qed (use True m2c content in auto)
  qed
  moreover have "if ?type = ''function_call_output'' then shrunk (Get (Some m) ''output'') (Get (Some m') ''output'')
      else Get (Some m') ''output'' = Get (Some m) ''output''"
    using m'(2,3) out by auto
  moreover have "\<forall>k. k \<noteq> ''content'' \<and> k \<noteq> ''output'' \<longrightarrow> Get (Some m') k = Get (Some m) k"
    using m1(1) m2 m'(1) by simp
  ultimately show ?thesis unfolding same_shell_def by blast
qed

lemma compress_messages_shell:
  "compress_messages cc i ms n raw cs = Some (ms', r) \<Longrightarrow> list_all2 same_shell ms ms'"
proof (induction cc i ms n raw cs arbitrary: ms' rule: compress_messages.induct)
  case (2 cc i m ms n raw cs)
  then show ?case
    by (auto dest: compressMessageBodies_shell split: option.splits)
qed simp

text \<open>C34: compression in place. A compressed transcript has the same messages in the same order, and only
  tool results have become shorter: the content of a message of the role \<open>tool\<close>, the body of a content
  block of the type \<open>tool_result\<close>, the output of an item of the type \<open>function_call_output\<close>, each now a
  non-empty string shorter than its text was. Every other field (role, type, call ids, tool calls),
  every other content block and the content of every other message are unchanged, and a message whose
  content is no list of blocks and that is neither a tool message nor such an item is the same
  message; the retained band is untouched, and at most the
  conserved-identifier note follows at the end, bridged by an acknowledgement exactly when the
  transcript ended on a user turn.\<close>

theorem CompressView_shell:
  assumes "CompressView (Some (JSONArray ms)) (Some cfg) = Some r" "Folded r"
  shows "\<exists>ms' note. Messages r = Some (JSONArray (ms' @ note)) \<and> list_all2 same_shell ms ms'
    \<and> drop (length ms - nat (RetainedMsgs r)) ms' = drop (length ms - nat (RetainedMsgs r)) ms
    \<and> RetainedMsgs r < int (length ms)
    \<and> (note = [] \<or> (\<exists>txt. note = (if GetString (Some (last ms')) ''role'' = ''user'' then [compress_ack] else [])
                             @ [role_message ''user'' txt]))"
proof -
  let ?ret = "or_default (cfgRetainedMsgs cfg) FoldDefaultRetainedMsgs"
  define limit where "limit = nat (int (length ms) - ?ret)"
  have pos: "0 < ?ret" by (simp add: or_default_def fold_defaults)
  have lt: "?ret < int (length ms)"
    using assms by (auto simp: CompressView_def no_fold_def Let_def split: if_splits)
  obtain ms1 n raw cs where c: "compress_messages (compress_config cfg) 0 (take limit ms) 0 0 empty_CoordSet
      = Some (ms1, n, raw, cs)"
    using assms by (auto simp: CompressView_def no_fold_def limit_def Let_def split: if_splits option.splits)
  obtain closet evict where rc: "RenderCloset (Some cs) (cfgCloset cfg) raw = (closet, evict)" by fastforce
  have r: "Messages r = Some (JSONArray (if closet = [] then ms1 @ drop limit ms
      else (if GetString (At (Some (JSONArray (ms1 @ drop limit ms))) (int (length (ms1 @ drop limit ms)) - 1)) ''role'' = ''user''
            then (ms1 @ drop limit ms) @ [compress_ack] else ms1 @ drop limit ms)
           @ [role_message ''user'' (compress_note n closet)]))"
    "RetainedMsgs r = ?ret"
    using assms c rc lt
    by (auto simp: CompressView_def no_fold_def limit_def [symmetric] Let_def simp del: At.simps
        split: if_splits)
  have l: "length ms1 = limit" "limit \<le> length ms"
    using list_all2_lengthD [OF compress_messages_shell [OF c]] pos by (auto simp: limit_def)
  define ms' where "ms' = ms1 @ drop limit ms"
  have "list_all2 same_shell (take limit ms @ drop limit ms) ms'"
    unfolding ms'_def by (intro list_all2_appendI compress_messages_shell [OF c] list_all2_refl) simp
  then have shell: "list_all2 same_shell ms ms'" by simp
  have "ms \<noteq> []" using lt pos by auto
  then have ne: "ms' \<noteq> []" using list_all2_lengthD [OF shell] by auto
  have "At (Some (JSONArray ms')) (int (length ms') - 1) = Some (last ms')"
  proof -
    have "nat (int (length ms') - 1) = length ms' - 1" by linarith
    then show ?thesis using ne by (simp add: last_conv_nth)
  qed
  then have "\<exists>note. Messages r = Some (JSONArray (ms' @ note)) \<and> (note = [] \<or>
      (\<exists>txt. note = (if GetString (Some (last ms')) ''role'' = ''user'' then [compress_ack] else [])
                             @ [role_message ''user'' txt]))"
    using r(1) unfolding ms'_def [symmetric] by (auto simp del: At.simps split: if_splits)
  moreover have "length ms - nat (RetainedMsgs r) = limit" using lt pos by (simp add: r limit_def)
  moreover have "drop limit ms' = drop limit ms" using l by (simp add: ms'_def)
  moreover have "RetainedMsgs r < int (length ms)" using lt r(2) by simp
  ultimately show ?thesis using shell by metis
qed

definition sample_tool_config :: FoldConfig where
  "sample_tool_config = \<lparr> FoldEnabled = True, cfgRetainedMsgs = 1, cfgMinFoldMsgs = 0, cfgReasoningExcerptBytes = 64,
     cfgRegisterEnabled = False,
     cfgCloset = \<lparr> Enabled = False, BudgetBytes = 0, MaxRatioPct = 0, Denylist = [] \<rparr>,
     cfgCompactHeadBytes = 4, cfgCompactTailBytes = 4 \<rparr>"

definition sample_body :: string where
  "sample_body = CHR ''x'' # replicate 99 (CHR ''x'')"

lemma sample_body_shrinks:
  "\<exists>out. CompactBody sample_body [] (Some (compress_config sample_tool_config)) = Some out
     \<and> 0 < length out \<and> length out < length sample_body"
proof -
  have c: "compress_config sample_tool_config
      = \<lparr> CompactEnabled = True, Threshold = 64, HeadBytes = 4, TailBytes = 4, PerTool = [] \<rparr>"
    by (simp add: compress_config_def sample_tool_config_def or_default_def signed_divide_int_def sgn_if)
  have l: "length (omitted_notice 92) = 28" by code_simp
  show ?thesis
    using compactPlaintext_ok [of 4 4 sample_body] l
    by (simp add: c CompactBody_def tool_threshold_def startsWithJSON_def sample_body_def)
qed

lemma sample_compresses:
  "\<exists>r. CompressView (Some (JSONArray [role_message ''tool'' sample_body, role_message ''assistant'' ''done'']))
     (Some sample_tool_config) = Some r \<and> Folded r \<and> FoldedMsgs r = 1"
proof -
  let ?cc = "compress_config sample_tool_config"
  obtain out where out: "CompactBody sample_body [] (Some ?cc) = Some out" "out \<noteq> []"
    "length out < length sample_body" using sample_body_shrinks by auto
  let ?m = "role_message ''tool'' sample_body"
  have get: "Get (Some ?m) ''content'' = Some (JSONString sample_body)" "GetString (Some ?m) ''role'' = ''tool''"
    "GetString (Some ?m) ''type'' = []"
    by (simp_all add: role_message_def NewString_def NewObject_def GetString_def)
  have th: "Threshold ?cc = 64"
    by (simp add: compress_config_def sample_tool_config_def or_default_def Let_def)
  have len: "\<not> int (length sample_body) \<le> 64" "length sample_body = 100" by (simp_all add: sample_body_def)
  define m' where "m' = Set ''content'' (NewString out) ?m"
  have f: "compressBodyField ?m ''content'' ?cc 0 empty_CoordSet
      = Some (m', True, 100, nominate sample_body (turn_provenance 0) empty_CoordSet)"
    using out len th by (simp add: compressBodyField_def get Text_def m'_def)
  have "Get (Some m') ''content'' = Some (JSONString out)"
    using Get_Set_present [OF get(1)] by (simp add: m'_def NewString_def)
  then have "compressMessageBodies ?m ?cc 0 empty_CoordSet
      = Some (m', 1, 100, nominate sample_body (turn_provenance 0) empty_CoordSet)"
    using f by (simp add: compressMessageBodies_def get)
  then show ?thesis
    by (simp add: CompressView_def sample_tool_config_def [THEN arg_cong [where f = FoldEnabled]]
        sample_tool_config_def [THEN arg_cong [where f = cfgRetainedMsgs]] or_default_def Let_def
        split: prod.split del: At.simps)
qed

theorem CompressView_shell_witness:
  "\<exists>r ms' note. CompressView (Some (JSONArray [role_message ''tool'' sample_body, role_message ''assistant'' ''done'']))
       (Some sample_tool_config) = Some r
     \<and> FoldedMsgs r = 1 \<and> Messages r = Some (JSONArray (ms' @ note))
     \<and> list_all2 same_shell [role_message ''tool'' sample_body, role_message ''assistant'' ''done''] ms'"
proof -
  obtain r where r: "CompressView (Some (JSONArray [role_message ''tool'' sample_body,
      role_message ''assistant'' ''done''])) (Some sample_tool_config) = Some r" "Folded r" "FoldedMsgs r = 1"
    using sample_compresses by blast
  from CompressView_shell [OF r(1,2)] r(1,3) show ?thesis by blast
qed

end
