(* ===== verification/Recall.thy ===== *)
theory Recall
  imports Closet
begin

text \<open>
  \<open>recall.go\<close>: the page table of evicted coordinates. Keys are kept in insertion order with the turn
  each was last surfaced on; \<open>Detect\<close> hints at the keys a turn mentions as whole tokens, at most once
  per residency window. A nil index is \<open>None\<close>; a nil \<open>lastTurn\<close> is the empty map.
\<close>

definition DefaultRecallTTLTurns :: int where "DefaultRecallTTLTurns = 6"

record RecallIndex =
  recall_keys :: "string list"
  lastTurn :: "string \<rightharpoonup> int"

definition NewRecallIndex :: RecallIndex where
  "NewRecallIndex = \<lparr> recall_keys = [], lastTurn = Map.empty \<rparr>"

definition Recall_Len :: "RecallIndex option \<Rightarrow> int" where
  "Recall_Len ix = (case ix of None \<Rightarrow> 0 | Some i \<Rightarrow> int (length (recall_keys i)))"

definition Recall_Keys :: "RecallIndex option \<Rightarrow> string list" where
  "Recall_Keys ix = (case ix of None \<Rightarrow> [] | Some i \<Rightarrow> recall_keys i)"

definition Recall_Add :: "string \<Rightarrow> RecallIndex \<Rightarrow> RecallIndex" where
  "Recall_Add key ix =
     (if key = [] then ix
      else if lastTurn ix key \<noteq> None then ix
      else ix \<lparr> recall_keys := recall_keys ix @ [key], lastTurn := (lastTurn ix)(key \<mapsto> -1) \<rparr>)"

definition LastTurn :: "RecallIndex option \<Rightarrow> string \<Rightarrow> int" where
  "LastTurn ix key = (case ix of None \<Rightarrow> -1 | Some i \<Rightarrow> (case lastTurn i key of Some t \<Rightarrow> t | None \<Rightarrow> -1))"

definition SetLastTurn :: "string \<Rightarrow> int \<Rightarrow> RecallIndex \<Rightarrow> RecallIndex" where
  "SetLastTurn key trn ix =
     (if lastTurn ix key \<noteq> None then ix \<lparr> lastTurn := (lastTurn ix)(key \<mapsto> trn) \<rparr> else ix)"

section \<open>Whole-token containment\<close>

definition isCoordChar :: "char \<Rightarrow> bool" where
  "isCoordChar c \<longleftrightarrow>
     CHR ''A'' \<le> c \<and> c \<le> CHR ''Z'' \<or> c \<ge> CHR ''a'' \<and> c \<le> CHR ''z'' \<or> CHR ''0'' \<le> c \<and> c \<le> CHR ''9''
     \<or> c = CHR ''/'' \<or> c = CHR ''.'' \<or> c = CHR ''_'' \<or> c = CHR ''-'' \<or> c = CHR '':''"

text \<open>The loop from offset \<open>off\<close>. It is entered with a non-empty key only; the test on the length
  states that, for termination.\<close>

function contains_from :: "string \<Rightarrow> string \<Rightarrow> nat \<Rightarrow> bool" where
  "contains_from hay key off =
     (case str_index (drop off hay) key of
        None \<Rightarrow> False
      | Some j \<Rightarrow>
          let i = j + off; beforeOK = (i = 0 \<or> \<not> isCoordChar (hay ! (i - 1)));
              e = i + length key; afterOK = (e \<ge> length hay \<or> \<not> isCoordChar (hay ! e))
          in if beforeOK \<and> afterOK then True
             else if length key = 0 then False else contains_from hay key (i + 1))"
  by pat_completeness auto
termination
proof (relation "measure (\<lambda>(hay, key, off). length hay - off)", goal_cases)
  case (2 hay key off j i b e a)
  then have "j + length key \<le> length hay - off" "0 < length key"
    using str_index_Some [of "drop off hay" key j] by auto
  then have "j < length hay - off" by linarith
  then show ?case using 2 by simp
qed simp

declare contains_from.simps [simp del]

definition containsToken :: "string \<Rightarrow> string \<Rightarrow> bool" where
  "containsToken hay key = (if key = [] then False else contains_from hay key 0)"

section \<open>Harvesting and surfacing\<close>

definition AddFromText :: "string \<Rightarrow> RecallIndex \<Rightarrow> RecallIndex \<times> int" where
  "AddFromText txt ix =
     (if txt = [] then (ix, 0)
      else let ix' = fold (\<lambda>item. if Kind item \<noteq> CoordKindPath \<and> Kind item \<noteq> CoordKindHandle then id
                                 else Recall_Add (Value item)) (Nominate txt None) ix
           in (ix', int (length (recall_keys ix')) - int (length (recall_keys ix))))"

definition recall_line :: "string \<Rightarrow> string" where
  "recall_line key = ''  recall: '' @ key @ '' was folded '' @ [CHR 0xE2, CHR 0x80, CHR 0x94]
     @ '' page it back in via code_span_get/memory_get'' @ [CHR 0x0A]"

text \<open>One key of the loop of \<open>Detect\<close>: the index, the text written so far and the count.\<close>

definition detect_key ::
  "string \<Rightarrow> int \<Rightarrow> int \<Rightarrow> string \<Rightarrow> RecallIndex \<times> string \<times> int \<Rightarrow> RecallIndex \<times> string \<times> int" where
  "detect_key turnText trn ttl key st =
     (let (ix, out, surfaced) = st; prev = (case lastTurn ix key of Some t \<Rightarrow> t | None \<Rightarrow> 0)
      in if \<not> containsToken turnText key then st
         else if prev \<ge> 0 \<and> wrap64 (trn - prev) < ttl then st
         else (ix \<lparr> lastTurn := (lastTurn ix)(key \<mapsto> trn) \<rparr>, out @ recall_line key, surfaced + 1))"

definition Detect :: "string \<Rightarrow> int \<Rightarrow> int \<Rightarrow> RecallIndex \<Rightarrow> RecallIndex \<times> string \<times> int" where
  "Detect turnText trn ttlTurns ix =
     (if turnText = [] then (ix, [], 0)
      else let ttl = (if ttlTurns \<le> 0 then DefaultRecallTTLTurns else ttlTurns)
           in fold (detect_key turnText trn ttl) (recall_keys ix) (ix, [], 0))"

section \<open>Properties\<close>

text \<open>An occurrence of \<open>key\<close> at \<open>i\<close> that no coordinate character extends.\<close>

definition token_at :: "string \<Rightarrow> string \<Rightarrow> nat \<Rightarrow> bool" where
  "token_at hay key i \<longleftrightarrow> (\<exists>u v. hay = u @ key @ v \<and> length u = i
     \<and> (u = [] \<or> \<not> isCoordChar (last u)) \<and> (v = [] \<or> \<not> isCoordChar (hd v)))"

lemma str_index_first:
  "str_index s p = Some i \<Longrightarrow> j < i \<Longrightarrow> \<not> has_prefix (drop j s) p"
proof (induction s p arbitrary: i j rule: str_index.induct)
  case (2 c s p)
  then show ?case by (cases j) (auto split: if_splits)
qed (simp split: if_splits)

lemma str_index_None: "str_index s p = None \<Longrightarrow> \<not> has_prefix (drop j s) p"
proof (induction s p arbitrary: j rule: str_index.induct)
  case (1 p)
  then show ?case by (auto simp: has_prefix_def split: if_splits)
next
  case (2 c s p)
  then show ?case by (cases j) (auto split: if_splits)
qed

lemma token_at_prefix: "token_at hay key i \<Longrightarrow> has_prefix (drop i hay) key"
  by (auto simp: token_at_def has_prefix_def)

lemma token_at_iff:
  assumes "has_prefix (drop i hay) key" "i \<le> length hay"
  shows "token_at hay key i \<longleftrightarrow> (i = 0 \<or> \<not> isCoordChar (hay ! (i - 1))) \<and>
    (i + length key \<ge> length hay \<or> \<not> isCoordChar (hay ! (i + length key)))"
proof -
  obtain v where v: "drop i hay = key @ v" using assms(1) by (auto simp: has_prefix_def prefix_def)
  define u where "u = take i hay"
  have hay: "hay = u @ key @ v" by (simp add: u_def v [symmetric])
  have i: "length u = i" using assms(2) by (simp add: u_def)
  have "token_at hay key i \<longleftrightarrow> (u = [] \<or> \<not> isCoordChar (last u)) \<and> (v = [] \<or> \<not> isCoordChar (hd v))"
    using hay i by (auto simp: token_at_def)
  also have "u = [] \<or> \<not> isCoordChar (last u) \<longleftrightarrow> i = 0 \<or> \<not> isCoordChar (hay ! (i - 1))"
    using i unfolding hay by (cases u rule: rev_cases) (auto simp: nth_append)
  also have "v = [] \<or> \<not> isCoordChar (hd v) \<longleftrightarrow>
      i + length key \<ge> length hay \<or> \<not> isCoordChar (hay ! (i + length key))"
    using i unfolding hay by (cases v) (auto simp: nth_append)
  finally show ?thesis .
qed

lemma contains_from_iff:
  "key \<noteq> [] \<Longrightarrow> off \<le> length hay \<Longrightarrow> contains_from hay key off \<longleftrightarrow> (\<exists>i \<ge> off. token_at hay key i)"
proof (induction hay key off rule: contains_from.induct)
  case (1 hay key off)
  show ?case
  proof (cases "str_index (drop off hay) key")
    case None
    then have "\<not> has_prefix (drop i hay) key" if "off \<le> i" for i
      using str_index_None [OF None, of "i - off"] that by simp
    then show ?thesis
      using None token_at_prefix by (subst contains_from.simps) auto
  next
    case (Some j)
    obtain t where t: "drop off hay = take j (drop off hay) @ key @ t" "j + length key \<le> length hay - off"
      using str_index_Some [OF Some] by auto
    then have "drop j (drop off hay) = key @ t"
      using append_eq_conv_conj [of "take j (drop off hay)" "key @ t" "drop off hay"] by simp
    then have pre: "has_prefix (drop (j + off) hay) key" by (simp add: has_prefix_def add.commute)
    have le: "j + off + 1 \<le> length hay" using t(2) "1.prems" by (cases key) auto
    have before: "\<not> token_at hay key i" if "off \<le> i" "i < j + off" for i
      using str_index_first [OF Some, of "i - off"] that token_at_prefix by force
    let ?now = "token_at hay key (j + off)"
    have now: "?now \<longleftrightarrow> (j + off = 0 \<or> \<not> isCoordChar (hay ! (j + off - 1))) \<and>
        (j + off + length key \<ge> length hay \<or> \<not> isCoordChar (hay ! (j + off + length key)))"
      by (rule token_at_iff [OF pre]) (use le in simp)
    show ?thesis
    proof (cases ?now)
      case True
      then have "contains_from hay key off" using Some now by (subst contains_from.simps) simp
      then show ?thesis using True by (metis le_add2)
    next
      case False
      have "contains_from hay key off \<longleftrightarrow> contains_from hay key (j + off + 1)"
        using Some now False "1.prems" by (subst contains_from.simps) (auto simp: Let_def)
      also have "\<dots> \<longleftrightarrow> (\<exists>i \<ge> j + off + 1. token_at hay key i)"
        using "1.IH" [OF Some refl refl refl refl] now False "1.prems" le by simp
      also have "\<dots> \<longleftrightarrow> (\<exists>i \<ge> off. token_at hay key i)"
      proof
        assume "\<exists>i \<ge> off. token_at hay key i"
        then obtain i where i: "off \<le> i" "token_at hay key i" by blast
        then have "\<not> i < j + off" "i \<noteq> j + off" using before False by auto
        with i(2) show "\<exists>i \<ge> j + off + 1. token_at hay key i" by (intro exI [of _ i]) simp
      qed (meson add_leD1 le_trans le_add2)
      finally show ?thesis .
    qed
  qed
qed

text \<open>Whole-token matching. The search finds a key exactly when some occurrence of it is not
  extended by a coordinate character on either side.\<close>

theorem containsToken_iff: "containsToken hay key \<longleftrightarrow> key \<noteq> [] \<and> (\<exists>i. token_at hay key i)"
  by (simp add: containsToken_def contains_from_iff)

section \<open>The index as a store of distinct keys\<close>

definition recall_valid :: "RecallIndex \<Rightarrow> bool" where
  "recall_valid ix \<longleftrightarrow> dom (lastTurn ix) = set (recall_keys ix)"

interpretation recall: dedup_store recall_keys "\<lambda>ix k. lastTurn ix k \<noteq> None" Recall_Add "\<lambda>k. k"
    "\<lambda>k. k \<noteq> []" recall_valid
  by unfold_locales (auto simp: recall_valid_def Recall_Add_def dom_def)

text \<open>What one key contributes to \<open>Detect\<close>, from the index the turn started with.\<close>

definition surfaces :: "string \<Rightarrow> int \<Rightarrow> int \<Rightarrow> RecallIndex \<Rightarrow> string \<Rightarrow> bool" where
  "surfaces turnText trn ttl ix key \<longleftrightarrow> containsToken turnText key \<and>
     \<not> (LastTurn (Some ix) key \<ge> 0 \<and> wrap64 (trn - LastTurn (Some ix) key) < ttl)"

lemma detect_fold:
  assumes "distinct ks" "set ks \<subseteq> dom (lastTurn ix)"
  shows "fold (detect_key turnText trn ttl) ks (ix, out, n) =
    (ix \<lparr> lastTurn := (\<lambda>k. if k \<in> set ks \<and> surfaces turnText trn ttl ix k then Some trn else lastTurn ix k) \<rparr>,
     out @ concat (map recall_line (filter (surfaces turnText trn ttl ix) ks)),
     n + int (length (filter (surfaces turnText trn ttl ix) ks)))"
  using assms
proof (induction ks arbitrary: ix out n)
  case (Cons k ks)
  obtain t where t: "lastTurn ix k = Some t" using Cons.prems by auto
  define ix1 where "ix1 = (if surfaces turnText trn ttl ix k
    then ix \<lparr> lastTurn := (lastTurn ix)(k \<mapsto> trn) \<rparr> else ix)"
  have step: "detect_key turnText trn ttl k (ix, out, n) =
      (ix1, out @ (if surfaces turnText trn ttl ix k then recall_line k else []),
       n + (if surfaces turnText trn ttl ix k then 1 else 0))"
    using t by (auto simp: detect_key_def surfaces_def LastTurn_def ix1_def)
  have same: "surfaces turnText trn ttl ix1 k' = surfaces turnText trn ttl ix k'" if "k' \<in> set ks" for k'
    using that Cons.prems by (auto simp: surfaces_def LastTurn_def ix1_def)
  have "filter (surfaces turnText trn ttl ix1) ks = filter (surfaces turnText trn ttl ix) ks"
    by (rule filter_cong) (simp_all add: same)
  moreover have "set ks \<subseteq> dom (lastTurn ix1)" using Cons.prems by (auto simp: ix1_def)
  ultimately have "fold (detect_key turnText trn ttl) (k # ks) (ix, out, n) =
    (ix1 \<lparr> lastTurn := (\<lambda>j. if j \<in> set ks \<and> surfaces turnText trn ttl ix1 j then Some trn else lastTurn ix1 j) \<rparr>,
     out @ concat (map recall_line (filter (surfaces turnText trn ttl ix) (k # ks))),
     n + int (length (filter (surfaces turnText trn ttl ix) (k # ks))))"
    using Cons.IH [of ix1] Cons.prems by (simp add: step)
  moreover have "(\<lambda>j. if j \<in> set ks \<and> surfaces turnText trn ttl ix1 j then Some trn else lastTurn ix1 j)
      = (\<lambda>j. if j \<in> set (k # ks) \<and> surfaces turnText trn ttl ix j then Some trn else lastTurn ix j)"
    by (rule ext) (use same in \<open>auto simp: ix1_def\<close>)
  ultimately show ?case by (simp add: ix1_def)
qed simp

text \<open>The residency window in force: the configured one, or the default for a window that is not positive.\<close>

definition residency :: "int \<Rightarrow> int" where
  "residency ttl = (if ttl \<le> 0 then DefaultRecallTTLTurns else ttl)"

text \<open>C39: surfacing. On a well-formed index and for any residency window, one that is not positive being
  the default of six turns, \<open>Detect\<close> writes one line, in insertion order, for exactly
  the keys the turn mentions as whole tokens and that were not surfaced within the window;
  it stamps those with the turn and changes nothing else, so that a key surfaced now is not surfaced
  again by a later turn within the window.\<close>

theorem Detect_spec:
  assumes "recall_valid ix" "distinct (recall_keys ix)" "body \<noteq> []"
    and "Detect body trn ttl ix = (ix', out, n)"
  shows "out = concat (map recall_line (filter (surfaces body trn (residency ttl) ix) (recall_keys ix)))
    \<and> n = int (length (filter (surfaces body trn (residency ttl) ix) (recall_keys ix)))
    \<and> recall_keys ix' = recall_keys ix \<and> recall_valid ix'
    \<and> (\<forall>k \<in> set (recall_keys ix).
         LastTurn (Some ix') k = (if surfaces body trn (residency ttl) ix k then trn else LastTurn (Some ix) k)
       \<and> (surfaces body trn (residency ttl) ix k \<longrightarrow> 0 \<le> trn \<longrightarrow>
            (\<forall>body' trn'. 0 \<le> trn' - trn \<and> trn' - trn < min (residency ttl) (2 ^ 63) \<longrightarrow>
               \<not> surfaces body' trn' (residency ttl) ix' k)))"
proof -
  let ?w = "residency ttl"
  have dom: "set (recall_keys ix) \<subseteq> dom (lastTurn ix)" using assms(1) by (simp add: recall_valid_def)
  have r: "(ix', out, n) = (ix \<lparr> lastTurn := (\<lambda>k. if k \<in> set (recall_keys ix) \<and> surfaces body trn ?w ix k
        then Some trn else lastTurn ix k) \<rparr>,
     concat (map recall_line (filter (surfaces body trn ?w ix) (recall_keys ix))),
     int (length (filter (surfaces body trn ?w ix) (recall_keys ix))))"
    using assms(3,4) detect_fold [OF assms(2) dom, of body trn ?w "[]" 0] by (simp add: Detect_def residency_def Let_def)
  have "is_i64 d" if "0 \<le> d" "d < min ?w (2 ^ 63)" for d :: int
    using that by (auto simp: is_i64_def)
  then show ?thesis
    using r assms(1) by (auto simp: LastTurn_def surfaces_def recall_valid_def dom_def split: if_splits)
qed

text \<open>The witness: a key mentioned at turn 3 under the default window is not surfaced again at turn 5,
  and under a window of two turns it is.\<close>

lemma sample_surfaces: "surfaces ''k'' 3 w (Recall_Add ''k'' NewRecallIndex) ''k''"
  by (simp add: surfaces_def containsToken_def contains_from.simps has_prefix_def LastTurn_def
      Recall_Add_def NewRecallIndex_def)

lemma sample_index: "recall_keys (Recall_Add ''k'' NewRecallIndex) = [''k'']"
  "recall_valid (Recall_Add ''k'' NewRecallIndex)" "distinct (recall_keys (Recall_Add ''k'' NewRecallIndex))"
  by (auto simp: Recall_Add_def NewRecallIndex_def recall_valid_def)

theorem Detect_spec_witness:
  "(\<exists>ix' n. Detect ''k'' 3 0 (Recall_Add ''k'' NewRecallIndex) = (ix', recall_line ''k'', n)
      \<and> (\<forall>body'. \<not> surfaces body' 5 6 ix' ''k''))
   \<and> (\<exists>ix' n. Detect ''k'' 3 2 (Recall_Add ''k'' NewRecallIndex) = (ix', recall_line ''k'', n)
      \<and> (\<forall>body'. \<not> surfaces body' 4 2 ix' ''k''))"
proof -
  have one: "\<exists>ix' n. Detect ''k'' 3 ttl (Recall_Add ''k'' NewRecallIndex) = (ix', recall_line ''k'', n)
      \<and> (\<forall>body'. \<not> surfaces body' trn' (residency ttl) ix' ''k'')" if "3 \<le> trn'" "trn' - 3 < min (residency ttl) (2 ^ 63)" for ttl trn'
  proof -
    obtain ix' out n where d: "Detect ''k'' 3 ttl (Recall_Add ''k'' NewRecallIndex) = (ix', out, n)"
      by (cases "Detect ''k'' 3 ttl (Recall_Add ''k'' NewRecallIndex)") auto
    have "''k'' \<noteq> []" by simp
    from Detect_spec [OF sample_index(2,3) this d] that d show ?thesis
      by (simp add: sample_index(1) sample_surfaces)
  qed
  show ?thesis
    using one [of 5 0] one [of 4 2] by (simp add: residency_def DefaultRecallTTLTurns_def)
qed

end
