(* ===== verification/Reduce.thy ===== *)
theory Reduce
  imports FoldFreeze CompressLaws Recall
begin

text \<open>
  \<open>reduce.go\<close>: the orchestrator of the reduction levers for one request, with the freeze cost
  guardrail, the page table and the ledger. A state passed by pointer is \<open>ReduceState option\<close> and is
  returned updated; \<open>None\<close> as the outer result is the panic of \<open>compactPlaintext\<close>. Estimates are sums
  of text lengths, which never reach the range of \<open>int\<close>.
\<close>

definition charsPerTokenEst :: int where "charsPerTokenEst = 4"
definition FreezeGuardMaxHorizon :: int where "FreezeGuardMaxHorizon = 5"

datatype Seam = SeamGateway | SeamDelegate

datatype ReduceReason =
    ReduceReasonNone | ReduceReasonReduced | ReduceReasonMeasured | ReduceReasonSkipNoGain
  | ReduceReasonAlready

record PriceRates =
  Priced :: bool
  InputCost :: float64
  WriteCost :: float64
  ReadCost :: float64

record ReduceConfig =
  HistoryFold :: bool
  Compress :: bool
  GatewaySeam :: bool
  DelegateSeam :: bool
  MeasureOnly :: bool
  MinGainTokens :: int
  FreezeGuardEnabled :: bool
  FreezeGuardHorizon :: int
  Rates :: PriceRates
  RecallEnabled :: bool
  RecallTTLTurns :: int
  RecallInject :: bool
  cfgFold :: FoldConfig

record ReduceState =
  Freeze :: FoldFreeze
  Reduced :: bool
  Turn :: int
  RecallIx :: "RecallIndex option"

record ReduceResult =
  outMessages :: jref
  Mutated :: bool
  Reason :: ReduceReason
  BaselineTokens :: int
  ReducedTokens :: int
  RemovedTokens :: int
  FoldableTokens :: int
  EstSavedCostFloor :: float64
  EstSavedCostCeiling :: float64
  outFoldedMsgs :: int
  outRetainedMsgs :: int
  outReusedBoundary :: bool
  outEpochs :: int
  FreezeGuarded :: bool
  outClosetEvict :: EvictResult
  RecallHint :: string
  RecallSurfaced :: int

definition zero_result :: ReduceResult where
  "zero_result = \<lparr> outMessages = None, Mutated = False, Reason = ReduceReasonNone, BaselineTokens = 0,
     ReducedTokens = 0, RemovedTokens = 0, FoldableTokens = 0, EstSavedCostFloor = F64 0,
     EstSavedCostCeiling = F64 0, outFoldedMsgs = 0, outRetainedMsgs = 0, outReusedBoundary = False,
     outEpochs = 0, FreezeGuarded = False, outClosetEvict = EvictNone, RecallHint = [], RecallSurfaced = 0 \<rparr>"

section \<open>The cost guardrail\<close>

definition clamp_horizon :: "int \<Rightarrow> int" where
  "clamp_horizon horizon =
     (let horizon = (if horizon \<le> 0 then 1 else horizon)
      in if horizon > FreezeGuardMaxHorizon then FreezeGuardMaxHorizon else horizon)"

definition FreezeFavorableRates :: "float64 \<Rightarrow> float64 \<Rightarrow> float64 \<Rightarrow> int \<Rightarrow> bool" where
  "FreezeFavorableRates inputCost writeCost readCost horizon =
     (let horizon = clamp_horizon horizon;
          perReuseSaving = fsub inputCost readCost
      in if fle perReuseSaving (F64 0) then False
         else let writePremium = fsub writeCost inputCost
              in if fle writePremium (F64 0) then True
                 else fle writePremium (fmul (float_of_int horizon) perReuseSaving))"

definition freezeCostFavorable :: "PriceRates \<Rightarrow> int \<Rightarrow> int \<Rightarrow> bool" where
  "freezeCostFavorable rates prefixTokens horizon =
     (if prefixTokens \<le> 0 then True
      else if \<not> Priced rates then True
      else FreezeFavorableRates (InputCost rates) (WriteCost rates) (ReadCost rates) horizon)"

section \<open>Estimates\<close>

definition nodeTokenEstimate :: "jref \<Rightarrow> int" where
  "nodeTokenEstimate node =
     (case node of None \<Rightarrow> 0
      | Some v \<Rightarrow> int (length (PrintJSONUnformatted v)) div charsPerTokenEst)"

definition prefixTokenEstimate :: "jref \<Rightarrow> int \<Rightarrow> int" where
  "prefixTokenEstimate messages cnt =
     (if messages = None \<or> cnt \<le> 0 then 0
      else sum_list (map (\<lambda>i. case At messages i of None \<Rightarrow> 0
                            | Some v \<Rightarrow> int (length (PrintJSONUnformatted v)))
                        [0..min cnt (Len messages) - 1]) div charsPerTokenEst)"

definition systemTokens :: "string \<Rightarrow> int" where
  "systemTokens systemPrompt =
     (if systemPrompt \<noteq> [] then int (length systemPrompt) div charsPerTokenEst + 1 else 0)"

section \<open>The page table\<close>

definition print_at :: "jref \<Rightarrow> int \<Rightarrow> string" where
  "print_at messages i = (case At messages i of None \<Rightarrow> [] | Some v \<Rightarrow> PrintJSONUnformatted v)"

definition recallTrack ::
  "jref \<Rightarrow> int \<Rightarrow> ReduceConfig \<Rightarrow> ReduceState option \<Rightarrow> ReduceResult \<Rightarrow> ReduceState option \<times> ReduceResult" where
  "recallTrack original evictedCount cfg st out =
     (case st of
        None \<Rightarrow> (st, out)
      | Some s \<Rightarrow>
          if \<not> RecallEnabled cfg \<or> \<not> IsArray original then (st, out)
          else
            let ix = (case RecallIx s of None \<Rightarrow> NewRecallIndex | Some ix \<Rightarrow> ix);
                n = Len original;
                evictedCount = (if evictedCount > n then n else evictedCount);
                ix = fold (\<lambda>i ix. fst (AddFromText (print_at original i) ix)) [0..evictedCount - 1] ix
            in if Recall_Len (Some ix) = 0 \<or> n = 0 then (Some (s \<lparr> RecallIx := Some ix \<rparr>), out)
               else
                 let (ix, hints, surfaced) = Detect (print_at original (n - 1)) (Turn s) (RecallTTLTurns cfg) ix
                 in (Some (s \<lparr> RecallIx := Some ix \<rparr>),
                     if surfaced > 0 \<and> length hints > 0
                     then out \<lparr> RecallHint := hints, RecallSurfaced := surfaced \<rparr> else out))"

definition recall_notice :: string where
  "recall_notice = ''[context notice '' @ em_dash @ '' not from the user] Earlier turns were folded ''
     @ ''out of this transcript. You referenced something that went with ''
     @ ''them; it is PAGEABLE, not lost:'' @ [CHR 0x0A]"

definition recallInject :: "ReduceResult \<Rightarrow> jref \<Rightarrow> jref" where
  "recallInject out reduced =
     (if \<not> IsArray reduced \<or> RecallHint out = [] then reduced
      else map_option (Append (role_message ''user'' (recall_notice @ RecallHint out))) reduced)"

section \<open>The levers\<close>

definition compress_lever :: "ReduceConfig \<Rightarrow> FoldConfig" where
  "compress_lever cfg =
     \<lparr> FoldEnabled = True, cfgRetainedMsgs = cfgRetainedMsgs (cfgFold cfg), cfgMinFoldMsgs = 0,
       cfgReasoningExcerptBytes = cfgReasoningExcerptBytes (cfgFold cfg), cfgRegisterEnabled = False,
       cfgCloset = cfgCloset (cfgFold cfg), cfgCompactHeadBytes = cfgCompactHeadBytes (cfgFold cfg),
       cfgCompactTailBytes = cfgCompactTailBytes (cfgFold cfg) \<rparr>"

text \<open>The compress step: the array it owns (\<open>None\<close> when it did nothing), the ledger and the state.\<close>

definition reduce_compress ::
  "jref \<Rightarrow> ReduceConfig \<Rightarrow> ReduceState option \<Rightarrow> ReduceResult
    \<Rightarrow> (jref \<times> ReduceResult \<times> ReduceState option) option" where
  "reduce_compress messages cfg st out =
     (if Compress cfg \<and> \<not> MeasureOnly cfg then
        (case CompressView messages (Some (compress_lever cfg)) of
           None \<Rightarrow> None
         | Some cr \<Rightarrow>
             if Folded cr \<and> Messages cr \<noteq> None then
               Some (Messages cr,
                     out \<lparr> Mutated := True, Reason := ReduceReasonReduced, outFoldedMsgs := FoldedMsgs cr,
                           outClosetEvict := ClosetEvict cr \<rparr>,
                     map_option (\<lambda>s. s \<lparr> Reduced := True \<rparr>) st)
             else Some (None, out, st))
      else Some (None, out, st))"

text \<open>The fold step: whether the page-table epilogue ran is visible in \<open>outMessages\<close>.\<close>

definition reduce_fold ::
  "jref \<Rightarrow> jref \<Rightarrow> ReduceConfig \<Rightarrow> ReduceState option \<Rightarrow> ReduceResult \<Rightarrow> ReduceResult \<times> ReduceState option" where
  "reduce_fold messages work cfg st out =
     (let fc = (cfgFold cfg) \<lparr> FoldEnabled := True \<rparr>;
          guarded = (st \<noteq> None \<and> FreezeGuardEnabled cfg
            \<and> \<not> freezeCostFavorable (Rates cfg) (FoldableTokens out) (FreezeGuardHorizon cfg));
          freezeArg = (if guarded then None else map_option Freeze st);
          out = (if guarded then out \<lparr> FreezeGuarded := True \<rparr> else out);
          (fr, fz) = FoldView work (Some fc) freezeArg;
          st = (case fz of None \<Rightarrow> st | Some f \<Rightarrow> map_option (\<lambda>s. s \<lparr> Freeze := f \<rparr>) st)
      in if Folded fr \<and> Messages fr \<noteq> None then
           let out = out \<lparr> outMessages := Messages fr, Mutated := True, Reason := ReduceReasonReduced,
                 outFoldedMsgs := FoldedMsgs fr, outRetainedMsgs := RetainedMsgs fr,
                 outReusedBoundary := ReusedBoundary fr, outClosetEvict := ClosetEvict fr \<rparr>;
               out = (case st of None \<Rightarrow> out | Some s \<Rightarrow> out \<lparr> outEpochs := Epochs (Freeze s) \<rparr>);
               st = map_option (\<lambda>s. s \<lparr> Reduced := True \<rparr>) st;
               (st, out) = recallTrack messages (FoldedMsgs fr) cfg st out;
               out = (if RecallInject cfg then out \<lparr> outMessages := recallInject out (outMessages out) \<rparr> else out)
           in (out, st)
         else (out, st))"

text \<open>The forecast over the view a lever produced, the cost bracket and the measured outcome.\<close>

definition reduce_ledger :: "string \<Rightarrow> ReduceConfig \<Rightarrow> ReduceResult \<Rightarrow> ReduceResult" where
  "reduce_ledger systemPrompt cfg out =
     (let out = (if Mutated out \<and> outMessages out \<noteq> None then
                   let reduced = nodeTokenEstimate (outMessages out) + systemTokens systemPrompt
                   in out \<lparr> ReducedTokens := reduced,
                            RemovedTokens := (if BaselineTokens out > reduced
                                              then BaselineTokens out - reduced else RemovedTokens out) \<rparr>
                 else out);
          basis = (if RemovedTokens out = 0 then FoldableTokens out else RemovedTokens out);
          out = (if Priced (Rates cfg) \<and> basis > 0 then
                   out \<lparr> EstSavedCostFloor := fmul (ReadCost (Rates cfg)) (float_of_int basis),
                         EstSavedCostCeiling := fmul (InputCost (Rates cfg)) (float_of_int basis) \<rparr>
                 else out)
      in if Reason out = ReduceReasonNone
         then out \<lparr> Reason := ReduceReasonMeasured, Mutated := False, outMessages := None \<rparr> else out)"

definition seam_on :: "Seam \<Rightarrow> ReduceConfig \<Rightarrow> bool" where
  "seam_on seam cfg \<longleftrightarrow> seam = SeamGateway \<and> GatewaySeam cfg \<or> seam = SeamDelegate \<and> DelegateSeam cfg"

definition Reduce ::
  "jref \<Rightarrow> string \<Rightarrow> Seam \<Rightarrow> ReduceConfig option \<Rightarrow> ReduceState option
    \<Rightarrow> (ReduceResult \<times> ReduceState option) option" where
  "Reduce messages systemPrompt seam cfg st =
     (case cfg of
        None \<Rightarrow> Some (zero_result, st)
      | Some cfg \<Rightarrow>
          if \<not> IsArray messages \<or> \<not> seam_on seam cfg then Some (zero_result, st)
          else
            let baseline = nodeTokenEstimate messages + systemTokens systemPrompt;
                out = zero_result \<lparr> BaselineTokens := baseline, ReducedTokens := baseline \<rparr>
            in if (case st of None \<Rightarrow> False | Some s \<Rightarrow> Reduced s)
               then Some (out \<lparr> Reason := ReduceReasonAlready \<rparr>, st)
               else
                 let retained = or_default (cfgRetainedMsgs (cfgFold cfg)) FoldDefaultRetainedMsgs;
                     n = Len messages;
                     foldableMsgs = (if n > retained then n - retained else 0);
                     out = out \<lparr> FoldableTokens := prefixTokenEstimate messages foldableMsgs \<rparr>
                 in (case reduce_compress messages cfg st out of
                       None \<Rightarrow> None
                     | Some (owned, out, st) \<Rightarrow>
                         let work = (if owned \<noteq> None then owned else messages);
                             try_fold = (HistoryFold cfg \<and> \<not> MeasureOnly cfg);
                             low_gain = (MinGainTokens cfg > 0 \<and> FoldableTokens out < MinGainTokens cfg)
                         in if try_fold \<and> low_gain \<and> owned = None
                            then Some (out \<lparr> Reason := ReduceReasonSkipNoGain, Mutated := False,
                                             outMessages := None \<rparr>, st)
                            else
                              let (out, st) = (if try_fold \<and> \<not> low_gain
                                               then reduce_fold messages work cfg st out else (out, st));
                                  out = (if owned \<noteq> None \<and> outMessages out = None
                                         then out \<lparr> outMessages := owned \<rparr> else out)
                              in Some (reduce_ledger systemPrompt cfg out, st)))"

end
