(* ===== verification/ReduceLaws.thy ===== *)
theory ReduceLaws
  imports Reduce
begin

text \<open>
  What \<open>Reduce\<close> of \<open>reduce.go\<close> guarantees: the outcome and its ledger, one reduction per request across
  both seams, a page table that records exactly what the fold evicts, and freedom from panics.
\<close>

section \<open>What each lever does to the ledger and the state\<close>

lemma FoldView_not_Folded: "FoldView messages cfg freeze = (r, freeze') \<Longrightarrow> \<not> Folded r \<Longrightarrow> freeze' = freeze"
  by (auto simp: FoldView_def Let_def split: option.splits prod.splits if_splits)

lemma CompressView_Folded:
  "CompressView messages cfg = Some r \<Longrightarrow> Folded r \<Longrightarrow> IsArray (Messages r)"
  by (auto simp: CompressView_def no_fold_def Let_def split: option.splits prod.splits if_splits)

lemma FoldView_array: "FoldView messages cfg freeze = (r, freeze') \<Longrightarrow> Folded r \<Longrightarrow> IsArray (Messages r)"
  by (erule FoldView_Folded) auto

text \<open>A step either leaves the result and the state alone, or marks both.\<close>

definition marked :: "ReduceState option \<Rightarrow> bool" where
  "marked st \<longleftrightarrow> (\<forall>s. st = Some s \<longrightarrow> Reduced s)"

lemma reduce_compress_cases:
  assumes "reduce_compress messages cfg st out = Some (owned, out', st')"
  shows "(owned = None \<and> out' = out \<and> st' = st)
    \<or> (Compress cfg \<and> IsArray owned \<and> st' = map_option (\<lambda>s. s \<lparr> Reduced := True \<rparr>) st
       \<and> (\<exists>n ev. out' = out \<lparr> Mutated := True, Reason := ReduceReasonReduced, outFoldedMsgs := n, outClosetEvict := ev \<rparr>))"
  using assms CompressView_Folded
  by (auto simp: reduce_compress_def split: option.splits if_splits)

text \<open>The estimates of a result: neither lever writes them.\<close>

definition same_ledger :: "ReduceResult \<Rightarrow> ReduceResult \<Rightarrow> bool" where
  "same_ledger out out' \<longleftrightarrow> BaselineTokens out' = BaselineTokens out \<and> ReducedTokens out' = ReducedTokens out
     \<and> RemovedTokens out' = RemovedTokens out \<and> FoldableTokens out' = FoldableTokens out
     \<and> EstSavedCostFloor out' = EstSavedCostFloor out \<and> EstSavedCostCeiling out' = EstSavedCostCeiling out"

lemma recallTrack_frame:
  assumes "recallTrack original n cfg st out = (st', out')"
  shows "same_ledger out out' \<and> outMessages out' = outMessages out \<and> Mutated out' = Mutated out
    \<and> Reason out' = Reason out \<and> outFoldedMsgs out' = outFoldedMsgs out
    \<and> outRetainedMsgs out' = outRetainedMsgs out
    \<and> map_option Reduced st' = map_option Reduced st \<and> map_option Freeze st' = map_option Freeze st
    \<and> map_option Turn st' = map_option Turn st"
  using assms
  by (auto simp: recallTrack_def same_ledger_def Let_def split: option.splits prod.splits if_splits)

lemma recallInject_array [simp]: "IsArray (recallInject out m) = IsArray m"
  by (cases m rule: IsArray.cases) (auto simp: recallInject_def)

lemma reduce_fold_cases:
  assumes "reduce_fold messages work cfg st out = (out', st')"
  shows "same_ledger out out' \<and>
    (outMessages out' = outMessages out \<and> Mutated out' = Mutated out \<and> Reason out' = Reason out
        \<and> outRetainedMsgs out' = outRetainedMsgs out \<and> st' = st
     \<or> IsArray (outMessages out') \<and> Mutated out' \<and> Reason out' = ReduceReasonReduced
        \<and> marked st' \<and> (st' = None \<longleftrightarrow> st = None))"
proof -
  define guarded where "guarded = (st \<noteq> None \<and> FreezeGuardEnabled cfg
      \<and> \<not> freezeCostFavorable (Rates cfg) (FoldableTokens out) (FreezeGuardHorizon cfg))"
  define freezeArg where "freezeArg = (if guarded then None else map_option Freeze st)"
  define out1 where "out1 = (if guarded then out \<lparr> FreezeGuarded := True \<rparr> else out)"
  obtain fr fz where v: "FoldView work (Some ((cfgFold cfg) \<lparr> FoldEnabled := True \<rparr>)) freezeArg = (fr, fz)"
    by fastforce
  note eq = assms [unfolded reduce_fold_def Let_def, folded guarded_def, folded freezeArg_def out1_def, unfolded v prod.case]
  have f1: "same_ledger out out1" "outMessages out1 = outMessages out" "Mutated out1 = Mutated out"
    "Reason out1 = Reason out" "outRetainedMsgs out1 = outRetainedMsgs out"
    by (simp_all add: out1_def same_ledger_def)
  show ?thesis
  proof (cases "Folded fr \<and> Messages fr \<noteq> None")
    case False
    then have "fz = freezeArg" using v FoldView_not_Folded FoldView_array by (metis IsArray.simps(2))
    then have "st' = st" "out' = out1"
      using eq False by (auto simp: freezeArg_def split: option.splits if_splits)
    then show ?thesis using f1 by simp
  next
    case True
    then have arr: "IsArray (Messages fr)" using v FoldView_array by blast
    obtain st1 out2 where t: "recallTrack messages (FoldedMsgs fr) cfg
        (map_option (\<lambda>s. s \<lparr> Reduced := True \<rparr>) (case fz of None \<Rightarrow> st | Some f \<Rightarrow> map_option (\<lambda>s. s \<lparr> Freeze := f \<rparr>) st))
        (case (case fz of None \<Rightarrow> st | Some f \<Rightarrow> map_option (\<lambda>s. s \<lparr> Freeze := f \<rparr>) st) of
           None \<Rightarrow> out1 \<lparr> outMessages := Messages fr, Mutated := True, Reason := ReduceReasonReduced,
                 outFoldedMsgs := FoldedMsgs fr, outRetainedMsgs := RetainedMsgs fr,
                 outReusedBoundary := ReusedBoundary fr, outClosetEvict := ClosetEvict fr \<rparr>
         | Some s \<Rightarrow> out1 \<lparr> outMessages := Messages fr, Mutated := True, Reason := ReduceReasonReduced,
                 outFoldedMsgs := FoldedMsgs fr, outRetainedMsgs := RetainedMsgs fr,
                 outReusedBoundary := ReusedBoundary fr, outClosetEvict := ClosetEvict fr,
                 outEpochs := Epochs (Freeze s) \<rparr>) = (st1, out2)"
      by fastforce
    have o: "out' = (if RecallInject cfg then out2 \<lparr> outMessages := recallInject out2 (outMessages out2) \<rparr> else out2)"
      "st' = st1"
      using eq True t by (auto split: option.splits)
    from recallTrack_frame [OF t] arr f1 show ?thesis
      by (auto simp: o same_ledger_def marked_def split: option.splits)
  qed
qed

text \<open>The cost bracket of a result: the removed tokens, or what could be folded when nothing was removed, at
  the rate of a cached read and at the full rate of the input.\<close>

definition cost_bracket :: "PriceRates \<Rightarrow> ReduceResult \<Rightarrow> float64 \<times> float64" where
  "cost_bracket rates out =
     (let basis = (if RemovedTokens out = 0 then FoldableTokens out else RemovedTokens out)
      in if Priced rates \<and> basis > 0
         then (fmul (ReadCost rates) (float_of_int basis), fmul (InputCost rates) (float_of_int basis))
         else (F64 0, F64 0))"

lemma reduce_ledger_spec:
  assumes "RemovedTokens out = 0" "BaselineTokens out = ReducedTokens out"
    and "Mutated out \<longleftrightarrow> outMessages out \<noteq> None" "Mutated out \<longleftrightarrow> Reason out = ReduceReasonReduced"
    and "Reason out = ReduceReasonReduced \<or> Reason out = ReduceReasonNone"
    and "EstSavedCostFloor out = F64 0" "EstSavedCostCeiling out = F64 0"
    and "out' = reduce_ledger systemPrompt cfg out"
  shows "outMessages out' = outMessages out \<and> Mutated out' = Mutated out
    \<and> outRetainedMsgs out' = outRetainedMsgs out \<and> outFoldedMsgs out' = outFoldedMsgs out
    \<and> RecallHint out' = RecallHint out
    \<and> Reason out' = (if Mutated out then ReduceReasonReduced else ReduceReasonMeasured)
    \<and> BaselineTokens out' = BaselineTokens out
    \<and> ReducedTokens out' = (if Mutated out then nodeTokenEstimate (outMessages out) + systemTokens systemPrompt
                           else BaselineTokens out)
    \<and> RemovedTokens out' = max 0 (BaselineTokens out' - ReducedTokens out')
    \<and> FoldableTokens out' = FoldableTokens out
    \<and> (EstSavedCostFloor out', EstSavedCostCeiling out') = cost_bracket (Rates cfg) out'"
  using assms by (auto simp: reduce_ledger_def Let_def max_def cost_bracket_def)

text \<open>What a fold of the whole transcript could take: the messages in front of the retained band.\<close>

definition foldable :: "jref \<Rightarrow> ReduceConfig \<Rightarrow> int" where
  "foldable messages cfg = prefixTokenEstimate messages (max 0 (Len messages - retained_band (cfgFold cfg)))"

lemma Reduce_cases:
  assumes "Reduce messages sp seam (Some cfg) st = Some (out, st')" "IsArray messages" "seam_on seam cfg"
    and "\<not> (case st of None \<Rightarrow> False | Some s \<Rightarrow> Reduced s)"
  obtains (skip) "Reason out = ReduceReasonSkipNoGain" "\<not> Mutated out" "outMessages out = None" "st' = st"
      "outRetainedMsgs out = 0" "RemovedTokens out = 0" "ReducedTokens out = BaselineTokens out"
      "BaselineTokens out = nodeTokenEstimate messages + systemTokens sp"
      "FoldableTokens out = foldable messages cfg" "EstSavedCostFloor out = F64 0" "EstSavedCostCeiling out = F64 0"
      "FoldableTokens out < MinGainTokens cfg"
  | (run) out0 owned out1 st1 out2 where
      "reduce_compress messages cfg st out0 = Some (owned, out1, st1)"
      "RemovedTokens out0 = 0" "BaselineTokens out0 = nodeTokenEstimate messages + systemTokens sp"
      "BaselineTokens out0 = ReducedTokens out0" "\<not> Mutated out0" "outMessages out0 = None"
      "Reason out0 = ReduceReasonNone" "outRetainedMsgs out0 = 0" "RecallHint out0 = []"
      "(out2, st') = (if HistoryFold cfg \<and> \<not> MeasureOnly cfg
            \<and> \<not> (MinGainTokens cfg > 0 \<and> FoldableTokens out1 < MinGainTokens cfg)
          then reduce_fold messages (if owned \<noteq> None then owned else messages) cfg st1 out1 else (out1, st1))"
      "out = reduce_ledger sp cfg (if owned \<noteq> None \<and> outMessages out2 = None
          then out2 \<lparr> outMessages := owned \<rparr> else out2)"
      "FoldableTokens out0 = foldable messages cfg" "EstSavedCostFloor out0 = F64 0" "EstSavedCostCeiling out0 = F64 0"
proof -
  define out0 where "out0 = zero_result \<lparr> BaselineTokens := nodeTokenEstimate messages + systemTokens sp,
      ReducedTokens := nodeTokenEstimate messages + systemTokens sp,
      FoldableTokens := prefixTokenEstimate messages (if Len messages > or_default (cfgRetainedMsgs (cfgFold cfg)) FoldDefaultRetainedMsgs
         then Len messages - or_default (cfgRetainedMsgs (cfgFold cfg)) FoldDefaultRetainedMsgs else 0) \<rparr>"
  obtain owned out1 st1 where c: "reduce_compress messages cfg st out0 = Some (owned, out1, st1)"
    using assms by (auto simp: Reduce_def out0_def Let_def split: option.splits)
  note c' = c [unfolded out0_def]
  have led: "FoldableTokens out0 = foldable messages cfg" "EstSavedCostFloor out0 = F64 0" "EstSavedCostCeiling out0 = F64 0"
    by (simp_all add: out0_def foldable_def zero_result_def max_def)
  show thesis
  proof (cases "HistoryFold cfg \<and> \<not> MeasureOnly cfg \<and> (MinGainTokens cfg > 0 \<and> FoldableTokens out1 < MinGainTokens cfg) \<and> owned = None")
    case True
    then have "out1 = out0" "st1 = st" using reduce_compress_cases [OF c] by auto
    then show thesis
      using assms True c' led by (intro skip) (auto simp: Reduce_def zero_result_def Let_def out0_def)
  next
    case False
    define r where "r = (if HistoryFold cfg \<and> \<not> MeasureOnly cfg
            \<and> \<not> (MinGainTokens cfg > 0 \<and> FoldableTokens out1 < MinGainTokens cfg)
          then reduce_fold messages (if owned \<noteq> None then owned else messages) cfg st1 out1 else (out1, st1))"
    have "st' = snd r" "out = reduce_ledger sp cfg (if owned \<noteq> None \<and> outMessages (fst r) = None
          then fst r \<lparr> outMessages := owned \<rparr> else fst r)"
      using assms False c' by (auto simp: Reduce_def r_def Let_def split: prod.splits)
    then show thesis
      using led by (intro run [OF c, of "fst r"]) (auto simp: out0_def zero_result_def r_def)
  qed
qed

lemma Reduce_outcome_aux:
  assumes "Reduce messages sp seam cfg st = Some (out, st')"
  shows "(outMessages out \<noteq> None \<longleftrightarrow> Reason out = ReduceReasonReduced) \<and> (Mutated out \<longleftrightarrow> Reason out = ReduceReasonReduced)
    \<and> (Mutated out \<longrightarrow> IsArray (outMessages out)
         \<and> ReducedTokens out = nodeTokenEstimate (outMessages out) + systemTokens sp \<and> marked st' \<and> (st' = None \<longleftrightarrow> st = None))
    \<and> (\<not> Mutated out \<longrightarrow> ReducedTokens out = BaselineTokens out \<and> st' = st)
    \<and> RemovedTokens out = max 0 (BaselineTokens out - ReducedTokens out)"
proof (cases "\<exists>c. cfg = Some c \<and> IsArray messages \<and> seam_on seam c \<and> \<not> (case st of None \<Rightarrow> False | Some s \<Rightarrow> Reduced s)")
  case False
  then show ?thesis using assms
    by (auto simp: Reduce_def zero_result_def Let_def split: option.splits if_splits)
next
  case True
  then obtain c where c: "cfg = Some c" "IsArray messages" "seam_on seam c"
    "\<not> (case st of None \<Rightarrow> False | Some s \<Rightarrow> Reduced s)" by blast
  from assms [unfolded c(1)] c(2-4) show ?thesis
  proof (cases rule: Reduce_cases)
    case skip
    then show ?thesis by simp
  next
    case (run out0 owned out1 st1 out2)
    note cc = reduce_compress_cases [OF run(1)]
    define out3 where "out3 = (if owned \<noteq> None \<and> outMessages out2 = None then out2 \<lparr> outMessages := owned \<rparr> else out2)"
    have one: "RemovedTokens out1 = 0" "BaselineTokens out1 = ReducedTokens out1" "outMessages out1 = None"
      "Mutated out1 \<longleftrightarrow> owned \<noteq> None" "Reason out1 = (if owned \<noteq> None then ReduceReasonReduced else ReduceReasonNone)"
      "owned \<noteq> None \<longrightarrow> IsArray owned \<and> marked st1 \<and> (st1 = None \<longleftrightarrow> st = None)" "owned = None \<longrightarrow> st1 = st"
      using cc run by (auto simp: marked_def IsArray_iff)
    have two: "RemovedTokens out2 = 0" "BaselineTokens out2 = ReducedTokens out2"
      "(outMessages out2 = None \<and> (Mutated out2 \<longleftrightarrow> owned \<noteq> None)
          \<and> Reason out2 = (if owned \<noteq> None then ReduceReasonReduced else ReduceReasonNone) \<and> st' = st1)
       \<or> (IsArray (outMessages out2) \<and> Mutated out2 \<and> Reason out2 = ReduceReasonReduced \<and> marked st' \<and> (st' = None \<longleftrightarrow> st1 = None))"
      using run(10) one reduce_fold_cases [of messages "if owned \<noteq> None then owned else messages" c st1 out1 out2 st']
      by (auto simp: same_ledger_def split: if_splits)
    have three: "RemovedTokens out3 = 0" "BaselineTokens out3 = ReducedTokens out3"
      "Mutated out3 \<longleftrightarrow> outMessages out3 \<noteq> None" "Mutated out3 \<longleftrightarrow> Reason out3 = ReduceReasonReduced"
      "Reason out3 = ReduceReasonReduced \<or> Reason out3 = ReduceReasonNone"
      "Mutated out3 \<longrightarrow> IsArray (outMessages out3) \<and> marked st' \<and> (st' = None \<longleftrightarrow> st = None)"
      "\<not> Mutated out3 \<longrightarrow> st' = st"
      using two one by (auto simp: out3_def)
    have "EstSavedCostFloor out1 = F64 0" "EstSavedCostCeiling out1 = F64 0" using cc run by auto
    then have "EstSavedCostFloor out2 = F64 0" "EstSavedCostCeiling out2 = F64 0"
      using run(10) reduce_fold_cases [of messages "if owned \<noteq> None then owned else messages" c st1 out1 out2 st']
      by (auto simp: same_ledger_def split: if_splits)
    then have cost: "EstSavedCostFloor out3 = F64 0" "EstSavedCostCeiling out3 = F64 0" by (simp_all add: out3_def)
    from reduce_ledger_spec [OF three(1-5) cost run(11) [folded out3_def]] three(3,6,7)
    show ?thesis by (auto split: if_splits)
  qed
qed

lemma Reduce_estimates:
  assumes "Reduce messages sp seam (Some c) st = Some (out, st')" "IsArray messages" "seam_on seam c"
    and "\<not> (case st of None \<Rightarrow> False | Some s \<Rightarrow> Reduced s)"
  shows "BaselineTokens out = nodeTokenEstimate messages + systemTokens sp \<and> FoldableTokens out = foldable messages c
    \<and> Reason out \<noteq> ReduceReasonAlready
    \<and> (EstSavedCostFloor out, EstSavedCostCeiling out)
        = (if Reason out = ReduceReasonSkipNoGain then (F64 0, F64 0) else cost_bracket (Rates c) out)
    \<and> (if Reason out = ReduceReasonSkipNoGain then foldable messages c < MinGainTokens c else True)"
  using assms
proof (cases rule: Reduce_cases)
  case skip
  then show ?thesis by simp
next
  case (run out0 owned out1 st1 out2)
  have one: "same_ledger out0 out1" "outMessages out1 = None" "Mutated out1 \<longleftrightarrow> owned \<noteq> None"
    "Reason out1 = (if owned \<noteq> None then ReduceReasonReduced else ReduceReasonNone)"
    using reduce_compress_cases [OF run(1)] run(5-7) by (auto simp: same_ledger_def IsArray_iff)
  have two: "same_ledger out1 out2"
    "(outMessages out2 = None \<and> (Mutated out2 \<longleftrightarrow> owned \<noteq> None)
        \<and> Reason out2 = (if owned \<noteq> None then ReduceReasonReduced else ReduceReasonNone))
     \<or> (IsArray (outMessages out2) \<and> Mutated out2 \<and> Reason out2 = ReduceReasonReduced)"
    using run(10) one reduce_fold_cases [of messages "if owned \<noteq> None then owned else messages" c st1 out1 out2 st']
    by (auto simp: same_ledger_def split: if_splits)
  define out3 where "out3 = (if owned \<noteq> None \<and> outMessages out2 = None then out2 \<lparr> outMessages := owned \<rparr> else out2)"
  have "same_ledger out2 out3" by (simp add: out3_def same_ledger_def)
  with one(1) two(1) have led: "same_ledger out0 out3" by (simp add: same_ledger_def)
  have flags: "Mutated out3 \<longleftrightarrow> outMessages out3 \<noteq> None" "Mutated out3 \<longleftrightarrow> Reason out3 = ReduceReasonReduced"
    "Reason out3 = ReduceReasonReduced \<or> Reason out3 = ReduceReasonNone"
    using two(2) by (auto simp: out3_def IsArray_iff)
  have zero: "RemovedTokens out3 = 0" "BaselineTokens out3 = ReducedTokens out3" "EstSavedCostFloor out3 = F64 0"
    "EstSavedCostCeiling out3 = F64 0" "FoldableTokens out3 = foldable messages c"
    "BaselineTokens out3 = nodeTokenEstimate messages + systemTokens sp"
    using led run by (simp_all add: same_ledger_def)
  from reduce_ledger_spec [OF zero(1,2) flags zero(3,4) run(11) [folded out3_def]] zero(5,6) show ?thesis
    by simp
qed

text \<open>C6: the outcome of a request and its ledger. The verdict, the mutation flag and the presence of a
  view agree; a view is an array, its size is what the ledger reports and the conversation is marked as
  reduced; a request that is not mutated leaves the conversation state untouched and reports its
  baseline; and the removed tokens are the baseline less the reduced ones, never negative. The baseline
  is the estimate of the messages as they came in and of the system prompt, the foldable tokens are
  those of the messages in front of the retained band, and the cost bracket prices the removed tokens,
  or the foldable ones when none was removed, at the rate of a cached read and at the full rate. A
  request at a seam that is off gives the empty result; a conversation already reduced is measured
  only; and a skip for no gain has fewer foldable tokens than the configured minimum.\<close>

theorem Reduce_outcome:
  assumes "Reduce messages sp seam cfg st = Some (out, st')"
  shows "(outMessages out \<noteq> None \<longleftrightarrow> Reason out = ReduceReasonReduced) \<and> (Mutated out \<longleftrightarrow> Reason out = ReduceReasonReduced)
    \<and> (Mutated out \<longrightarrow> IsArray (outMessages out)
         \<and> ReducedTokens out = nodeTokenEstimate (outMessages out) + systemTokens sp \<and> marked st' \<and> (st' = None \<longleftrightarrow> st = None))
    \<and> (\<not> Mutated out \<longrightarrow> ReducedTokens out = BaselineTokens out \<and> st' = st)
    \<and> RemovedTokens out = max 0 (BaselineTokens out - ReducedTokens out)
    \<and> (case cfg of None \<Rightarrow> out = zero_result
       | Some c \<Rightarrow>
           if \<not> IsArray messages \<or> \<not> seam_on seam c then out = zero_result
           else BaselineTokens out = nodeTokenEstimate messages + systemTokens sp
             \<and> (Reason out = ReduceReasonAlready \<longleftrightarrow> st \<noteq> None \<and> Reduced (the st))
             \<and> FoldableTokens out = (if Reason out = ReduceReasonAlready then 0
                 else prefixTokenEstimate messages (max 0 (Len messages - retained_band (cfgFold c))))
             \<and> (EstSavedCostFloor out, EstSavedCostCeiling out)
                 = (if Reason out \<in> {ReduceReasonAlready, ReduceReasonSkipNoGain} then (F64 0, F64 0)
                    else cost_bracket (Rates c) out)
             \<and> (if Reason out = ReduceReasonSkipNoGain then FoldableTokens out < MinGainTokens c else True))"
proof -
  have "case cfg of None \<Rightarrow> out = zero_result
       | Some c \<Rightarrow>
           if \<not> IsArray messages \<or> \<not> seam_on seam c then out = zero_result
           else BaselineTokens out = nodeTokenEstimate messages + systemTokens sp
             \<and> (Reason out = ReduceReasonAlready \<longleftrightarrow> st \<noteq> None \<and> Reduced (the st))
             \<and> FoldableTokens out = (if Reason out = ReduceReasonAlready then 0
                 else prefixTokenEstimate messages (max 0 (Len messages - retained_band (cfgFold c))))
             \<and> (EstSavedCostFloor out, EstSavedCostCeiling out)
                 = (if Reason out \<in> {ReduceReasonAlready, ReduceReasonSkipNoGain} then (F64 0, F64 0)
                    else cost_bracket (Rates c) out)
             \<and> (if Reason out = ReduceReasonSkipNoGain then FoldableTokens out < MinGainTokens c else True)"
    (is "case cfg of None \<Rightarrow> _ | Some c \<Rightarrow> ?P c")
  proof (cases cfg)
    case None
    then show ?thesis using assms by (simp add: Reduce_def)
  next
    case (Some c)
    have "?P c"
    proof (cases "IsArray messages \<and> seam_on seam c")
      case False
      then show ?thesis using assms Some by (auto simp: Reduce_def)
    next
      case on: True
      show ?thesis
      proof (cases "case st of None \<Rightarrow> False | Some s \<Rightarrow> Reduced s")
        case True
        then show ?thesis using assms Some on by (auto simp: Reduce_def Let_def zero_result_def split: option.splits)
      next
        case False
        have "\<not> (st \<noteq> None \<and> Reduced (the st))" using False by (auto split: option.splits)
        then show ?thesis
          using Reduce_estimates [OF assms [unfolded Some] _ _ False] on by (auto simp: foldable_def)
      qed
    qed
    then show ?thesis using Some by simp
  qed
  then show ?thesis using Reduce_outcome_aux [OF assms] by blast
qed

text \<open>A request is reduced once. After any reduction the same conversation state turns every further
  reduction, at either seam, with any configuration and any messages, into a re-measurement: no view,
  no saving, no change of state.\<close>

theorem Reduce_once:
  assumes "Reduce messages sp seam cfg (Some s) = Some (out, st')" "Mutated out"
    and "IsArray messages2" "seam_on seam2 cfg2"
  shows "\<exists>out2. Reduce messages2 sp2 seam2 (Some cfg2) st' = Some (out2, st')
    \<and> Reason out2 = ReduceReasonAlready \<and> outMessages out2 = None \<and> RemovedTokens out2 = 0
    \<and> BaselineTokens out2 = nodeTokenEstimate messages2 + systemTokens sp2"
proof -
  obtain s' where "st' = Some s'" "Reduced s'"
    using Reduce_outcome_aux [OF assms(1)] assms(2) by (auto simp: marked_def)
  then show ?thesis using assms(3,4) by (auto simp: Reduce_def zero_result_def Let_def)
qed

section \<open>The page table records what the fold evicts\<close>

definition recall_ok :: "RecallIndex option \<Rightarrow> bool" where
  "recall_ok ix \<longleftrightarrow> (\<forall>i. ix = Some i \<longrightarrow> recall_valid i \<and> distinct (recall_keys i))"

text \<open>The coordinates of a text that can be paged back in: its paths and handles.\<close>

definition pageable :: "string \<Rightarrow> string set" where
  "pageable txt = {Value c |c. c \<in> set (Nominate txt None) \<and> Kind c \<in> {CoordKindPath, CoordKindHandle} \<and> Value c \<noteq> []}"

lemma AddFromText_spec:
  assumes "recall_valid ix" "distinct (recall_keys ix)"
  shows "recall_valid (fst (AddFromText txt ix)) \<and> distinct (recall_keys (fst (AddFromText txt ix)))
    \<and> set (recall_keys (fst (AddFromText txt ix))) = set (recall_keys ix) \<union> (if txt = [] then {} else pageable txt)
    \<and> prefix (recall_keys ix) (recall_keys (fst (AddFromText txt ix)))"
proof (cases "txt = []")
  case True
  then show ?thesis using assms by (simp add: AddFromText_def)
next
  case False
  define ks where "ks = map Value (filter (\<lambda>c. Kind c \<in> {CoordKindPath, CoordKindHandle}) (Nominate txt None))"
  have "fold (\<lambda>item. if Kind item \<noteq> CoordKindPath \<and> Kind item \<noteq> CoordKindHandle then id
                                 else Recall_Add (Value item)) items ix
      = fold Recall_Add (map Value (filter (\<lambda>c. Kind c \<in> {CoordKindPath, CoordKindHandle}) items)) ix" for items
    by (induction items arbitrary: ix) auto
  then have "fst (AddFromText txt ix) = fold Recall_Add ks ix"
    using False by (simp add: AddFromText_def Let_def ks_def)
  moreover have "set (filter (\<lambda>k. k \<noteq> []) ks) = pageable txt"
    by (auto simp: ks_def pageable_def)
  ultimately show ?thesis
    using False recall.valid_fold [OF assms(1), of ks] recall.distinct_fold [of ix ks] assms
      recall.keys_fold [OF assms(1), of ks] recall.prefix_fold [OF assms(1), of ks]
    by simp
qed

lemma add_texts_spec:
  assumes "recall_valid ix" "distinct (recall_keys ix)"
  shows "recall_valid (fold (\<lambda>i ix. fst (AddFromText (f i) ix)) is ix)
    \<and> distinct (recall_keys (fold (\<lambda>i ix. fst (AddFromText (f i) ix)) is ix))
    \<and> set (recall_keys (fold (\<lambda>i ix. fst (AddFromText (f i) ix)) is ix))
        = set (recall_keys ix) \<union> (\<Union>i \<in> set is. if f i = [] then {} else pageable (f i))
    \<and> prefix (recall_keys ix) (recall_keys (fold (\<lambda>i ix. fst (AddFromText (f i) ix)) is ix))"
  using assms
proof (induction "is" arbitrary: ix)
  case (Cons i "is")
  from AddFromText_spec [OF Cons.prems, of "f i"] Cons.IH [of "fst (AddFromText (f i) ix)"]
  show ?case by (auto intro: prefix_order.trans)
qed simp

lemma Detect_keys:
  assumes "recall_valid ix" "distinct (recall_keys ix)" "Detect txt trn ttl ix = (ix', out, n)"
  shows "recall_keys ix' = recall_keys ix \<and> recall_valid ix'
    \<and> (\<exists>ks. out = concat (map recall_line ks) \<and> set ks \<subseteq> {k \<in> set (recall_keys ix). containsToken txt k})"
proof (cases "txt = []")
  case True
  then show ?thesis using assms by (auto simp: Detect_def intro!: exI [of _ "[]"])
next
  case False
  define t where "t = (if ttl \<le> 0 then DefaultRecallTTLTurns else ttl)"
  have "set (recall_keys ix) \<subseteq> dom (lastTurn ix)" using assms(1) by (simp add: recall_valid_def)
  note d = detect_fold [OF assms(2) this, of "txt" trn t "[]" 0]
  have "(ix', out, n) = fold (detect_key txt trn t) (recall_keys ix) (ix, [], 0)"
    using assms(3) False by (simp add: Detect_def t_def Let_def)
  then have r: "recall_keys ix' = recall_keys ix" "out = concat (map recall_line (filter (surfaces txt trn t ix) (recall_keys ix)))"
    "lastTurn ix' = (\<lambda>k. if k \<in> set (recall_keys ix) \<and> surfaces txt trn t ix k then Some trn else lastTurn ix k)"
    unfolding d by simp_all
  have "recall_valid ix'" using assms(1) by (auto simp: recall_valid_def dom_def r split: if_splits)
  moreover have "set (filter (surfaces txt trn t ix) (recall_keys ix)) \<subseteq> {k \<in> set (recall_keys ix). containsToken txt k}"
    by (auto simp: surfaces_def)
  ultimately show ?thesis using r(1,2) by blast
qed


lemma pageable_Nil [simp]: "pageable [] = {}"
  by (simp add: pageable_def Nominate_def NominateInto_def empty_CoordSet_def)

lemma print_at_arr: "0 \<le> i \<Longrightarrow> i < int (length ms) \<Longrightarrow> print_at (arr ms) i = PrintJSONUnformatted (ms ! nat i)"
  by (simp add: print_at_def)

lemma reduce_ledger_frame:
  "outRetainedMsgs (reduce_ledger sp cfg out) = outRetainedMsgs out"
  "outFoldedMsgs (reduce_ledger sp cfg out) = outFoldedMsgs out"
  "RecallHint (reduce_ledger sp cfg out) = RecallHint out"
  by (auto simp: reduce_ledger_def Let_def)

text \<open>The coordinates of the first \<open>k\<close> messages.\<close>

definition evicted_coords :: "json list \<Rightarrow> nat \<Rightarrow> string set" where
  "evicted_coords ms k = (\<Union>m \<in> set (take k ms). pageable (PrintJSONUnformatted m))"

lemma evicted_coords_print_at:
  "(\<Union>i \<in> set [0..(if n > int (length ms) then int (length ms) else n) - 1]. pageable (print_at (arr ms) i))
     = evicted_coords ms (nat n)"
proof -
  have "set (take (nat n) ms) = (\<lambda>i. ms ! nat i) ` {0..(if n > int (length ms) then int (length ms) else n) - 1}"
  proof -
    have "set (take (nat n) ms) = {ms ! i |i. i < nat n \<and> i < length ms}"
      by (auto simp: set_conv_nth) (metis nth_take)
    also have "\<dots> = (\<lambda>i. ms ! nat i) ` {0..(if n > int (length ms) then int (length ms) else n) - 1}"
    proof (rule set_eqI, rule iffI)
      fix x assume "x \<in> {ms ! i |i. i < nat n \<and> i < length ms}"
      then obtain i where "x = ms ! i" "i < nat n" "i < length ms" by blast
      then show "x \<in> (\<lambda>i. ms ! nat i) ` {0..(if n > int (length ms) then int (length ms) else n) - 1}"
        by (intro image_eqI [of _ _ "int i"]) auto
    next
      fix x assume "x \<in> (\<lambda>i. ms ! nat i) ` {0..(if n > int (length ms) then int (length ms) else n) - 1}"
      then obtain i where "x = ms ! nat i" "0 \<le> i" "i \<le> (if n > int (length ms) then int (length ms) else n) - 1"
        by auto
      then show "x \<in> {ms ! i |i. i < nat n \<and> i < length ms}"
        by (auto split: if_splits intro!: exI [of _ "nat i"])
    qed
    finally show ?thesis .
  qed
  then show ?thesis
    by (auto simp: evicted_coords_def print_at_arr split: if_splits)
qed

lemma recallTrack_keys:
  assumes "recallTrack (arr ms) n cfg (Some s) out = (st', out')" "RecallEnabled cfg" "recall_ok (RecallIx s)"
  shows "\<exists>s' ix. st' = Some s' \<and> RecallIx s' = Some ix \<and> recall_ok (Some ix)
    \<and> set (recall_keys ix) = set (Recall_Keys (RecallIx s)) \<union> evicted_coords ms (nat n)
    \<and> prefix (Recall_Keys (RecallIx s)) (recall_keys ix)
    \<and> (RecallHint out' = RecallHint out \<or> ms \<noteq> [] \<and> (\<exists>ks. RecallHint out' = concat (map recall_line ks)
         \<and> set ks \<subseteq> {k \<in> set (recall_keys ix). containsToken (PrintJSONUnformatted (last ms)) k}))"
proof -
  define ix0 where "ix0 = (case RecallIx s of None \<Rightarrow> NewRecallIndex | Some ix \<Rightarrow> ix)"
  define ix1 where "ix1 = fold (\<lambda>i ix. fst (AddFromText (print_at (arr ms) i) ix))
      [0..(if n > int (length ms) then int (length ms) else n) - 1] ix0"
  obtain ix2 hints k where d: "Detect (print_at (arr ms) (int (length ms) - 1)) (Turn s) (RecallTTLTurns cfg) ix1 = (ix2, hints, k)"
    by (rule prod_cases3)
  have ok: "recall_valid ix0" "distinct (recall_keys ix0)" "recall_keys ix0 = Recall_Keys (RecallIx s)"
    using assms(3) by (auto simp: ix0_def recall_ok_def NewRecallIndex_def recall_valid_def Recall_Keys_def split: option.splits)
  have one: "recall_valid ix1" "distinct (recall_keys ix1)" "prefix (Recall_Keys (RecallIx s)) (recall_keys ix1)"
    "set (recall_keys ix1) = set (Recall_Keys (RecallIx s)) \<union> evicted_coords ms (nat n)"
    using add_texts_spec [OF ok(1,2), of "print_at (arr ms)" "[0..(if n > int (length ms) then int (length ms) else n) - 1]"] ok(3)
    unfolding evicted_coords_print_at [symmetric] ix1_def [symmetric]
    by (auto simp del: set_upto split: if_splits)
  have two: "recall_keys ix2 = recall_keys ix1" "recall_valid ix2"
    "\<exists>ks. hints = concat (map recall_line ks) \<and> set ks \<subseteq> {k \<in> set (recall_keys ix1).
        containsToken (print_at (arr ms) (int (length ms) - 1)) k}"
    using Detect_keys [OF one(1,2) d] by auto
  have l: "print_at (arr ms) (int (length ms) - 1) = PrintJSONUnformatted (last ms)" if "ms \<noteq> []"
    using that by (subst print_at_arr) (auto simp: last_conv_nth nat_diff_distrib')
  have eq: "(st', out') = (if Recall_Len (Some ix1) = 0 \<or> ms = [] then (Some (s \<lparr> RecallIx := Some ix1 \<rparr>), out)
      else (Some (s \<lparr> RecallIx := Some ix2 \<rparr>), if k > 0 \<and> length hints > 0
                     then out \<lparr> RecallHint := hints, RecallSurfaced := k \<rparr> else out))"
    using assms(2) unfolding assms(1) [symmetric]
    by (simp add: recallTrack_def Let_def ix0_def [symmetric] ix1_def [symmetric] d del: set_upto cong: if_cong split del: if_split)
  show ?thesis
  proof (cases "Recall_Len (Some ix1) = 0 \<or> ms = []")
    case True
    then show ?thesis using eq one by (simp add: recall_ok_def)
  next
    case False
    then show ?thesis using eq one two l by (auto simp: recall_ok_def split: if_splits)
  qed
qed

lemma reduce_fold_recall:
  assumes "reduce_fold (arr ms) work cfg (Some s) out = (out', st')" "RecallEnabled cfg" "recall_ok (RecallIx s)"
    and "outRetainedMsgs out' \<noteq> outRetainedMsgs out"
  shows "\<exists>s' ix. st' = Some s' \<and> RecallIx s' = Some ix \<and> recall_ok (Some ix)
    \<and> set (recall_keys ix) = set (Recall_Keys (RecallIx s)) \<union> evicted_coords ms (nat (outFoldedMsgs out'))
    \<and> prefix (Recall_Keys (RecallIx s)) (recall_keys ix)
    \<and> (RecallHint out' = RecallHint out \<or> ms \<noteq> [] \<and> (\<exists>ks. RecallHint out' = concat (map recall_line ks)
         \<and> set ks \<subseteq> {k \<in> set (recall_keys ix). containsToken (PrintJSONUnformatted (last ms)) k}))"
proof -
  define guarded where "guarded = (Some s \<noteq> None \<and> FreezeGuardEnabled cfg
      \<and> \<not> freezeCostFavorable (Rates cfg) (FoldableTokens out) (FreezeGuardHorizon cfg))"
  define freezeArg where "freezeArg = (if guarded then None else map_option Freeze (Some s))"
  define out1 where "out1 = (if guarded then out \<lparr> FreezeGuarded := True \<rparr> else out)"
  obtain fr fz where v: "FoldView work (Some ((cfgFold cfg) \<lparr> FoldEnabled := True \<rparr>)) freezeArg = (fr, fz)"
    by fastforce
  note eq = assms(1) [unfolded reduce_fold_def Let_def, folded guarded_def, folded freezeArg_def out1_def,
      unfolded v prod.case]
  have o1: "outRetainedMsgs out1 = outRetainedMsgs out" "RecallHint out1 = RecallHint out" by (simp_all add: out1_def)
  have f: "Folded fr \<and> Messages fr \<noteq> None" using eq assms(4) o1 by (auto split: if_splits)
  obtain s1 where s1: "(case fz of None \<Rightarrow> Some s | Some f \<Rightarrow> map_option (\<lambda>s. s \<lparr> Freeze := f \<rparr>) (Some s)) = Some s1"
    "RecallIx s1 = RecallIx s" by (cases fz) auto
  define outf where "outf = out1 \<lparr> outMessages := Messages fr, Mutated := True, Reason := ReduceReasonReduced,
     outFoldedMsgs := FoldedMsgs fr, outRetainedMsgs := RetainedMsgs fr,
     outReusedBoundary := ReusedBoundary fr, outClosetEvict := ClosetEvict fr, outEpochs := Epochs (Freeze s1) \<rparr>"
  obtain st2 out2 where t: "recallTrack (arr ms) (FoldedMsgs fr) cfg (Some (s1 \<lparr> Reduced := True \<rparr>)) outf = (st2, out2)"
    by fastforce
  have "st' = st2" "outFoldedMsgs out' = outFoldedMsgs out2" "RecallHint out' = RecallHint out2"
    using eq f t s1 by (auto simp: outf_def split: if_splits)
  moreover have "outFoldedMsgs out2 = FoldedMsgs fr" using recallTrack_frame [OF t] by (simp add: outf_def)
  ultimately show ?thesis
    using recallTrack_keys [OF t assms(2)] assms(3) s1(2) o1(2) by (simp add: outf_def)
qed

text \<open>C33: the page table. When a request folds away messages with recall enabled, the index afterwards
  holds exactly what it held before (in the same order, in front) and every path and handle found in
  the evicted messages of the original transcript; its keys stay distinct; and a hint names only
  indexed keys that the newest message mentions as whole tokens.\<close>

theorem Reduce_page_table:
  assumes "Reduce (arr ms) sp seam (Some cfg) (Some s) = Some (out, st')"
    and "RecallEnabled cfg" "recall_ok (RecallIx s)" "outRetainedMsgs out \<noteq> 0"
  shows "\<exists>s' ix. st' = Some s' \<and> RecallIx s' = Some ix \<and> recall_ok (Some ix)
    \<and> set (recall_keys ix) = set (Recall_Keys (RecallIx s)) \<union> evicted_coords ms (nat (outFoldedMsgs out))
    \<and> prefix (Recall_Keys (RecallIx s)) (recall_keys ix)
    \<and> (RecallHint out = [] \<or> (\<exists>ks. RecallHint out = concat (map recall_line ks)
         \<and> set ks \<subseteq> {k \<in> set (recall_keys ix). containsToken (PrintJSONUnformatted (last ms)) k}))"
proof -
  have on: "seam_on seam cfg \<and> \<not> Reduced s"
    using assms(1,4) by (auto simp: Reduce_def zero_result_def Let_def split: if_splits)
  have "IsArray (arr ms)" "seam_on seam cfg" "\<not> (case Some s of None \<Rightarrow> False | Some s \<Rightarrow> Reduced s)"
    using on by simp_all
  from assms(1) this show ?thesis
  proof (cases rule: Reduce_cases)
    case skip
    then show ?thesis using assms(4) by simp
  next
    case (run out0 owned out1 st1 out2)
    obtain s1 where s1: "st1 = Some s1" "RecallIx s1 = RecallIx s" "outRetainedMsgs out1 = 0" "RecallHint out1 = []"
      "BaselineTokens out1 = BaselineTokens out0" "RemovedTokens out1 = RemovedTokens out0"
      "ReducedTokens out1 = ReducedTokens out0" 
      using reduce_compress_cases [OF run(1)] run by auto
    let ?out3 = "if owned \<noteq> None \<and> outMessages out2 = None then out2 \<lparr> outMessages := owned \<rparr> else out2"
    have keep: "outRetainedMsgs out = outRetainedMsgs ?out3" "outFoldedMsgs out = outFoldedMsgs ?out3"
      "RecallHint out = RecallHint ?out3"
      unfolding run(11) by (rule reduce_ledger_frame)+
    then have r: "outRetainedMsgs out2 \<noteq> 0" "outFoldedMsgs out = outFoldedMsgs out2" "RecallHint out = RecallHint out2"
      using assms(4) by (auto split: if_splits)
    then have "reduce_fold (arr ms) (if owned \<noteq> None then owned else arr ms) cfg (Some s1) out1 = (out2, st')"
      using run(10) s1 by (auto split: if_splits)
    from reduce_fold_recall [OF this assms(2)] assms(3) s1 r show ?thesis by auto
  qed
qed


text \<open>The sample conversation: two user turns, folding enabled at the gateway.\<close>

definition sample_reduce :: ReduceConfig where
  "sample_reduce = \<lparr> HistoryFold = True, Compress = False, GatewaySeam = True, DelegateSeam = True,
     MeasureOnly = False, MinGainTokens = 0, FreezeGuardEnabled = False, FreezeGuardHorizon = 0,
     Rates = \<lparr> Priced = False, InputCost = F64 0, WriteCost = F64 0, ReadCost = F64 0 \<rparr>,
     RecallEnabled = True, RecallTTLTurns = 0, RecallInject = False, cfgFold = sample_config \<rparr>"

definition fresh_state :: ReduceState where
  "fresh_state = \<lparr> Freeze = fresh_freeze, Reduced = False, Turn = 1, RecallIx = None \<rparr>"

abbreviation sample_messages :: "json list" where
  "sample_messages \<equiv> [sample_turn ''see /etc/hosts'', sample_turn ''b'']"

lemma sample_reduces:
  "\<exists>out st'. Reduce (arr sample_messages) [] SeamGateway (Some sample_reduce) (Some fresh_state) = Some (out, st')
     \<and> Mutated out \<and> outRetainedMsgs out \<noteq> 0"
proof -
  obtain r fz where v: "FoldView (arr sample_messages) (Some sample_config) (Some fresh_freeze) = (r, Some fz)" "Folded r"
    using sample_folds by blast
  have m: "Messages r \<noteq> None" using FoldView_array [OF v] by (auto simp: IsArray_iff)
  have k: "RetainedMsgs r \<noteq> 0"
    using v(1) v(2)
    by (auto elim!: FoldView_Folded dest!: fold_boundary_cases
        simp: fresh_freeze_def frozen_ok_def or_default_def sample_config_def split: if_splits)
  have c: "(cfgFold sample_reduce) \<lparr> FoldEnabled := True \<rparr> = sample_config"
    by (simp add: sample_reduce_def sample_config_def)
  have f: "\<exists>o2 st2. reduce_fold (arr sample_messages) (arr sample_messages) sample_reduce (Some fresh_state) o1 = (o2, st2)
      \<and> Mutated o2 \<and> Reason o2 = ReduceReasonReduced \<and> outRetainedMsgs o2 = RetainedMsgs r" for o1
  proof -
    obtain s1 o1' where t: "recallTrack (arr sample_messages) (FoldedMsgs r) sample_reduce
        (Some (fresh_state \<lparr> Freeze := fz, Reduced := True \<rparr>)) (o1 \<lparr> outMessages := Messages r, Mutated := True,
          Reason := ReduceReasonReduced, outFoldedMsgs := FoldedMsgs r, outRetainedMsgs := RetainedMsgs r,
          outReusedBoundary := ReusedBoundary r, outClosetEvict := ClosetEvict r, outEpochs := Epochs fz \<rparr>) = (s1, o1')"
      by fastforce
    show ?thesis
      using v m t recallTrack_frame [OF t]
      by (simp add: reduce_fold_def c Let_def fresh_state_def) (simp add: sample_reduce_def)
  qed
  have flags: "HistoryFold sample_reduce" "\<not> Compress sample_reduce" "\<not> MeasureOnly sample_reduce"
    "\<not> MinGainTokens sample_reduce > 0" "seam_on SeamGateway sample_reduce" "\<not> Reduced fresh_state"
    by (simp_all add: sample_reduce_def seam_on_def fresh_state_def)
  define o1 where "o1 = zero_result \<lparr> BaselineTokens := nodeTokenEstimate (arr sample_messages) + systemTokens [],
      ReducedTokens := nodeTokenEstimate (arr sample_messages) + systemTokens [],
      FoldableTokens := prefixTokenEstimate (arr sample_messages)
        (if Len (arr sample_messages) > or_default (cfgRetainedMsgs (cfgFold sample_reduce)) FoldDefaultRetainedMsgs
         then Len (arr sample_messages) - or_default (cfgRetainedMsgs (cfgFold sample_reduce)) FoldDefaultRetainedMsgs else 0) \<rparr>"
  obtain o2 st2 where r: "reduce_fold (arr sample_messages) (arr sample_messages) sample_reduce (Some fresh_state) o1 = (o2, st2)"
    "Mutated o2" "Reason o2 = ReduceReasonReduced" "outRetainedMsgs o2 = RetainedMsgs r" using f by blast
  have "Reduce (arr sample_messages) [] SeamGateway (Some sample_reduce) (Some fresh_state)
      = Some (reduce_ledger [] sample_reduce o2, st2)"
    using flags r(1) by (simp add: Reduce_def reduce_compress_def o1_def [symmetric] Let_def del: Len.simps)
  moreover have "Mutated (reduce_ledger [] sample_reduce o2)" "outRetainedMsgs (reduce_ledger [] sample_reduce o2) \<noteq> 0"
    using r k by (simp_all add: reduce_ledger_def Let_def)
  ultimately show ?thesis by blast
qed

theorem Reduce_outcome_witness:
  "\<exists>out st'. Reduce (arr sample_messages) [] SeamGateway (Some sample_reduce) (Some fresh_state) = Some (out, st')
     \<and> outMessages out \<noteq> None \<and> marked st' \<and> st' \<noteq> None
     \<and> BaselineTokens out = nodeTokenEstimate (arr sample_messages)
     \<and> FoldableTokens out = prefixTokenEstimate (arr sample_messages) 1"
proof -
  obtain out st' where r: "Reduce (arr sample_messages) [] SeamGateway (Some sample_reduce) (Some fresh_state) = Some (out, st')"
    "Mutated out" using sample_reduces by blast
  have cfg: "seam_on SeamGateway sample_reduce" "retained_band (cfgFold sample_reduce) = 1" "systemTokens [] = 0"
    "\<not> Reduced fresh_state"
    by (simp_all add: sample_reduce_def seam_on_def sample_config_def or_default_def systemTokens_def fresh_state_def)
  have "outMessages out \<noteq> None" "marked st'" "st' \<noteq> None" "BaselineTokens out = nodeTokenEstimate (arr sample_messages)"
    "FoldableTokens out = prefixTokenEstimate (arr sample_messages) 1"
    using Reduce_outcome [OF r(1)] r(2) cfg by simp_all
  with r(1) show ?thesis by blast
qed

theorem Reduce_once_witness:
  "\<exists>out st' out2. Reduce (arr sample_messages) [] SeamGateway (Some sample_reduce) (Some fresh_state) = Some (out, st')
     \<and> Reduce (arr sample_messages) [] SeamDelegate (Some sample_reduce) st' = Some (out2, st')
     \<and> Reason out2 = ReduceReasonAlready"
proof -
  obtain out st' where r: "Reduce (arr sample_messages) [] SeamGateway (Some sample_reduce) (Some fresh_state) = Some (out, st')"
    "Mutated out" using sample_reduces by blast
  have "IsArray (arr sample_messages)" "seam_on SeamDelegate sample_reduce"
    by (simp_all add: seam_on_def sample_reduce_def)
  from Reduce_once [OF r this, of "[]"] r(1) show ?thesis by blast
qed

theorem Reduce_page_table_witness:
  "\<exists>out s' ix. Reduce (arr sample_messages) [] SeamGateway (Some sample_reduce) (Some fresh_state) = Some (out, Some s')
     \<and> RecallIx s' = Some ix \<and> set (recall_keys ix) = evicted_coords sample_messages (nat (outFoldedMsgs out))"
proof -
  obtain out st' where r: "Reduce (arr sample_messages) [] SeamGateway (Some sample_reduce) (Some fresh_state) = Some (out, st')"
    "outRetainedMsgs out \<noteq> 0" using sample_reduces by blast
  have "RecallEnabled sample_reduce" "recall_ok (RecallIx fresh_state)" "Recall_Keys (RecallIx fresh_state) = []"
    by (simp_all add: sample_reduce_def fresh_state_def recall_ok_def Recall_Keys_def)
  from Reduce_page_table [OF r(1) this(1,2) r(2)] r(1) this(3) show ?thesis by auto
qed

end
