(* ===== verification/StateBlob.thy ===== *)
theory StateBlob
  imports ReduceLaws JsonRoundTrip Interfaces
begin

text \<open>
  \<open>state.go\<close>: the reducer state as a text of at most 6144 bytes. \<open>SerializeState\<close> ranks the keys of the
  page table by the turn they were last surfaced on and drops the coldest; \<open>None\<close> is its false second
  result. \<open>RestoreState\<close> builds a fresh state or reports an error.
\<close>

definition ReduceStateSerialMax :: int where "ReduceStateSerialMax = 6144"

definition boolToNum :: "bool \<Rightarrow> float64" where
  "boolToNum b = (if b then F64 1 else F64 0)"

definition freeze_json :: "FoldFreeze \<Rightarrow> json" where
  "freeze_json fz =
     Set ''prefix_digest'' (NewString (hex_str (unat (PrefixDigest fz))))
       (Set ''epochs'' (NewNumber (float_of_int (Epochs fz)))
         (Set ''tail_cap_msgs'' (NewNumber (float_of_int (TailCapMsgs fz)))
           (Set ''frozen_split'' (NewNumber (float_of_int (FrozenSplit fz)))
             (Set ''active'' (NewNumber (boolToNum (Active fz))) NewObject))))"

text \<open>The document with the recall entries appended so far and the two counters.\<close>

definition state_root :: "ReduceState \<Rightarrow> json list \<Rightarrow> int \<Rightarrow> int \<Rightarrow> json" where
  "state_root st entries kept dropped =
     Set ''recall_dropped'' (NewNumber (float_of_int dropped))
       (Set ''recall_kept'' (NewNumber (float_of_int kept))
         (Set ''recall'' (JSONArray entries)
           (Set ''freeze'' (freeze_json (Freeze st))
             (Set ''turn'' (NewNumber (float_of_int (Turn st))) NewObject))))"

text \<open>The keys with their last turns, higher turns first; the sort is stable.\<close>

definition ranked :: "RecallIndex option \<Rightarrow> (string \<times> int) list" where
  "ranked ix = sort_key (\<lambda>r. - snd r) (map (\<lambda>k. (k, LastTurn ix k)) (Recall_Keys ix))"

definition recall_entry :: "string \<times> int \<Rightarrow> json" where
  "recall_entry r = Set ''t'' (NewNumber (float_of_int (snd r))) (Set ''k'' (NewString (fst r)) NewObject)"

text \<open>The loop over the ranked keys: the entries, the kept and the dropped counter.\<close>

fun keep_keys :: "ReduceState \<Rightarrow> (string \<times> int) list \<Rightarrow> json list \<Rightarrow> int \<Rightarrow> json list \<times> int \<times> int" where
  "keep_keys st [] entries kept = (entries, kept, 0)"
| "keep_keys st (r # rs) entries kept =
     (if fst r = [] then keep_keys st rs entries kept
      else if int (length (PrintJSONUnformatted (state_root st entries 0 0))) + int (length (fst r)) + 48
              > ReduceStateSerialMax
      then (entries, kept, int (length (r # rs)))
      else keep_keys st rs (entries @ [recall_entry r]) (kept + 1))"

definition SerializeState :: "ReduceState option \<Rightarrow> string option" where
  "SerializeState st =
     (case st of
        None \<Rightarrow> None
      | Some s \<Rightarrow>
          let (entries, kept, dropped) = keep_keys s (ranked (RecallIx s)) [] 0;
              out = PrintJSONUnformatted (state_root s entries kept dropped)
          in if int (length out) > ReduceStateSerialMax then None else Some out)"

section \<open>Restoring\<close>

text \<open>\<open>strconv.ParseUint (s, 16, 64)\<close> with its error ignored: 0 after a syntax error, the largest value
  after a range error. Below the cutoff 2^60 the next digit fits.\<close>

fun parse_hex_loop :: "nat \<Rightarrow> string \<Rightarrow> nat" where
  "parse_hex_loop n [] = n"
| "parse_hex_loop n (c # s) =
     (case digit_val c of
        None \<Rightarrow> 0
      | Some d \<Rightarrow> if d \<ge> 16 then 0
                  else if n \<ge> 2 ^ 60 then 2 ^ 64 - 1
                  else parse_hex_loop (n * 16 + d) s)"

definition ParseUint16 :: "string \<Rightarrow> nat" where
  "ParseUint16 s = (if s = [] then 0 else parse_hex_loop 0 s)"

definition get_int :: "jref \<Rightarrow> string \<Rightarrow> int" where
  "get_int v key = (case Get v key of Some (JSONNumber n) \<Rightarrow> int_of_float n | _ \<Rightarrow> 0)"

definition restore_freeze :: "jref \<Rightarrow> FoldFreeze" where
  "restore_freeze fz =
     \<lparr> Active = (case Get fz ''active'' of Some (JSONNumber n) \<Rightarrow> \<not> feq n (F64 0) | _ \<Rightarrow> False),
       FrozenSplit = get_int fz ''frozen_split'', TailCapMsgs = get_int fz ''tail_cap_msgs'',
       Epochs = get_int fz ''epochs'',
       PrefixDigest = (case Get fz ''prefix_digest'' of
           Some (JSONString s) \<Rightarrow> word_of_nat (ParseUint16 s) | _ \<Rightarrow> 0) \<rparr>"

definition restore_key :: "json \<Rightarrow> RecallIndex \<Rightarrow> RecallIndex" where
  "restore_key e ix =
     (case Get (Some e) ''k'' of
        Some (JSONString k) \<Rightarrow>
          if k = [] then ix
          else (case Get (Some e) ''t'' of
                  Some (JSONNumber n) \<Rightarrow> SetLastTurn k (int_of_float n) (Recall_Add k ix)
                | _ \<Rightarrow> Recall_Add k ix)
      | _ \<Rightarrow> ix)"

text \<open>A member of the wrong kind leaves the zero value of its field; an absent object is read as one
  without members.\<close>

definition RestoreState :: "ReduceState option \<Rightarrow> string \<Rightarrow> string + ReduceState" where
  "RestoreState st blob =
     (if st = None \<or> blob = [] then Inl ''economizer: nothing to restore''
      else (case ParseJSON blob of
              Some (JSONObject kvs) \<Rightarrow>
                (let root = Some (JSONObject kvs)
                 in Inr \<lparr> Freeze = restore_freeze (Get root ''freeze''), Reduced = False,
                          Turn = get_int root ''turn'',
                          RecallIx = Some (fold restore_key (Items (Get root ''recall'')) NewRecallIndex) \<rparr>)
            | _ \<Rightarrow> Inl ''economizer: state is not valid JSON''))"

section \<open>The digest as a hexadecimal string\<close>

lemma parse_hex_loop_digits:
  "list_all (\<lambda>d. d < 16) ds \<Longrightarrow> foldl (\<lambda>a d. a * 16 + d) n ds < 2 ^ 64 \<Longrightarrow>
     parse_hex_loop n (map digit_char ds) = foldl (\<lambda>a d. a * 16 + d) n ds"
proof (induction ds arbitrary: n)
  case (Cons d ds)
  have "m \<le> foldl (\<lambda>a d. a * 16 + d) m ds" for m :: nat
  proof (induction ds arbitrary: m)
    case (Cons d ds)
    from this [of "m * 16 + d"] show ?case by simp
  qed simp
  from this [of "n * 16 + d"] have "n < 2 ^ 60" using Cons.prems(2) by simp
  then show ?case using Cons by simp
qed simp

lemma ParseUint16_hex_str:
  assumes "n < 2 ^ 64"
  shows "ParseUint16 (hex_str n) = n"
proof -
  have v: "foldl (\<lambda>a d. a * 16 + d) 0 (to_base 16 n) = n"
    using of_base_to_base [of 16 n] by (simp add: of_base_def)
  moreover have "list_all (\<lambda>d. d < 16) (to_base 16 n)" by (auto simp: list_all_iff intro: to_base_digits)
  ultimately show ?thesis
    using assms parse_hex_loop_digits [of "to_base 16 n" 0] by (simp add: ParseUint16_def hex_str_def)
qed

section \<open>What survives\<close>

definition small :: "int \<Rightarrow> bool" where "small i \<longleftrightarrow> \<bar>i\<bar> < 2 ^ 31"

definition index_of :: "(string \<times> int) list \<Rightarrow> RecallIndex" where
  "index_of rs = \<lparr> recall_keys = map fst rs, lastTurn = map_of rs \<rparr>"

definition kept_recall :: "ReduceState \<Rightarrow> (string \<times> int) list" where
  "kept_recall s = take (length (fst (keep_keys s (ranked (RecallIx s)) [] 0))) (ranked (RecallIx s))"

text \<open>The state after a trip: the kept keys in rank order; provenance of the request is not carried.\<close>

definition after_trip :: "ReduceState \<Rightarrow> ReduceState" where
  "after_trip s = s \<lparr> Reduced := False, RecallIx := Some (index_of (kept_recall s)) \<rparr>"

definition key_ok :: "string \<times> int \<Rightarrow> bool" where
  "key_ok r \<longleftrightarrow> fst r \<noteq> [] \<and> utf8_valid (fst r) \<and> small (snd r)"

definition state_ok :: "ReduceState \<Rightarrow> bool" where
  "state_ok s \<longleftrightarrow> small (Turn s) \<and> small (FrozenSplit (Freeze s)) \<and> small (TailCapMsgs (Freeze s))
     \<and> small (Epochs (Freeze s)) \<and> recall_ok (RecallIx s)
     \<and> small (int (length (Recall_Keys (RecallIx s))))
     \<and> (\<forall>k \<in> set (Recall_Keys (RecallIx s)). key_ok (k, LastTurn (RecallIx s) k))"

lemma set_ranked: "set (ranked ix) = (\<lambda>k. (k, LastTurn ix k)) ` set (Recall_Keys ix)"
  by (simp add: ranked_def)

lemma length_ranked [simp]: "length (ranked ix) = length (Recall_Keys ix)"
  by (simp add: ranked_def)

lemma distinct_ranked: "recall_ok ix \<Longrightarrow> distinct (map fst (ranked ix))"
proof -
  assume "recall_ok ix"
  then have d: "distinct (Recall_Keys ix)" by (auto simp: recall_ok_def Recall_Keys_def split: option.split)
  let ?xs = "map (\<lambda>k. (k, LastTurn ix k)) (Recall_Keys ix)"
  have "mset (map fst (ranked ix)) = mset (map fst ?xs)" by (simp only: ranked_def mset_map mset_sort)
  moreover have "map fst ?xs = Recall_Keys ix" by (simp add: comp_def)
  ultimately show ?thesis using d mset_eq_imp_distinct_iff by metis
qed

lemma ranked_ok: "state_ok s \<Longrightarrow> r \<in> set (ranked (RecallIx s)) \<Longrightarrow> key_ok r"
  by (auto simp: set_ranked state_ok_def)

lemma keep_keys_spec:
  assumes "\<And>r. r \<in> set rs \<Longrightarrow> key_ok r" "keep_keys s rs es k = (es', k', d)"
  shows "\<exists>n \<le> length rs. es' = es @ map recall_entry (take n rs) \<and> k' = k + int n \<and> d = int (length rs - n)"
  using assms
proof (induction s rs es k rule: keep_keys.induct)
  case (2 s r rs es k)
  have r: "fst r \<noteq> []" using 2(3) [of r] by (simp add: key_ok_def)
  show ?case
  proof (cases "int (length (PrintJSONUnformatted (state_root s es 0 0))) + int (length (fst r)) + 48 > ReduceStateSerialMax")
    case True
    then show ?thesis using 2(4) r by (intro exI [of _ 0]) simp
  next
    case False
    then obtain n where "n \<le> length rs" "es' = (es @ [recall_entry r]) @ map recall_entry (take n rs)"
      "k' = k + 1 + int n" "d = int (length rs - n)"
      using 2(2) [OF r False] 2(3,4) r by auto
    then show ?thesis by (intro exI [of _ "Suc n"]) simp
  qed
qed (auto intro: exI [of _ 0])

lemma keep_keys_take:
  "keep_keys s rs es k = (es', k', d) \<Longrightarrow> (\<And>r. r \<in> set rs \<Longrightarrow> key_ok r) \<Longrightarrow>
     keep_keys s (take (length es' - length es) rs) es k = (es', k', 0)"
proof (induction s rs es k rule: keep_keys.induct)
  case (2 s r rs es k)
  have r: "fst r \<noteq> []" using 2(4) [of r] by (simp add: key_ok_def)
  show ?case
  proof (cases "int (length (PrintJSONUnformatted (state_root s es 0 0))) + int (length (fst r)) + 48 > ReduceStateSerialMax")
    case True
    then show ?thesis using 2(3) r by simp
  next
    case False
    then have k: "keep_keys s rs (es @ [recall_entry r]) (k + 1) = (es', k', d)" using 2(3) r by simp
    have "length es' \<ge> length es + 1"
      using keep_keys_spec [OF _ k] 2(4) by auto
    then have "take (length es' - length es) (r # rs) = r # take (length es' - length (es @ [recall_entry r])) rs"
      by (simp add: take_Cons')
    then show ?thesis using 2(2) [OF r False k] 2(4) r False by simp
  qed
qed simp

text \<open>The loop stops at the first key that would not fit, and only there.\<close>

definition over_budget :: "ReduceState \<Rightarrow> json list \<Rightarrow> string \<Rightarrow> bool" where
  "over_budget s entries k \<longleftrightarrow>
     int (length (PrintJSONUnformatted (state_root s entries 0 0))) + int (length k) + 48 > ReduceStateSerialMax"

lemma keep_keys_stop:
  assumes "\<And>r. r \<in> set rs \<Longrightarrow> key_ok r" "keep_keys s rs es k = (es', k', d)"
  shows "length es' - length es = length rs
    \<or> length es' - length es < length rs \<and> over_budget s es' (fst (rs ! (length es' - length es)))"
  using assms
proof (induction s rs es k rule: keep_keys.induct)
  case (2 s r rs es k)
  have r: "fst r \<noteq> []" using 2(3) [of r] by (simp add: key_ok_def)
  show ?case
  proof (cases "int (length (PrintJSONUnformatted (state_root s es 0 0))) + int (length (fst r)) + 48 > ReduceStateSerialMax")
    case True
    then show ?thesis using 2(4) r by (auto simp: over_budget_def)
  next
    case False
    then have step: "keep_keys s rs (es @ [recall_entry r]) (k + 1) = (es', k', d)" using 2(4) r by simp
    have "length es < length es'" using keep_keys_spec [OF _ step] 2(3) by auto
    then have n: "length es' - length es = Suc (length es' - length (es @ [recall_entry r]))" by simp
    from 2(2) [OF r False _ step] 2(3) show ?thesis unfolding n by auto
  qed
qed simp

lemma keep_keys_cong:
  "Freeze s' = Freeze s \<Longrightarrow> Turn s' = Turn s \<Longrightarrow> keep_keys s' rs es k = keep_keys s rs es k"
  by (induction s rs es k rule: keep_keys.induct) (simp_all add: state_root_def)

section \<open>Round trip\<close>

lemma small_float: "small i \<Longrightarrow> float_of_int i = F64 (of_int i) \<and> is_int32_float (F64 (of_int i))"
  by (auto simp: small_def MinInt32_def MaxInt32_def intro!: float_of_int_exact is_int32_float_of_int)

lemma small_back: "small i \<Longrightarrow> int_of_float (F64 (of_int i)) = i"
  by (rule int_of_float_int) (auto simp: small_def is_i64_def)

lemma ascii_name: "list_all (\<lambda>c. byte c < 0x80) s \<Longrightarrow> utf8_valid s"
  by (induction s) (subst utf8_valid.simps, simp add: utf8Sequence_def)+

lemma hex_str_ascii: "utf8_valid (hex_str n)"
proof (rule ascii_name)
  have "byte (digit_char d) < 0x80" if "d \<in> set (to_base 16 n)" for d
  proof -
    have "d < 16" using that by (intro to_base_digits) simp_all
    then show ?thesis by (simp add: byte_digit_char)
  qed
  then show "list_all (\<lambda>c. byte c < 0x80) (hex_str n)" by (auto simp: hex_str_def list_all_iff)
qed

lemmas blob_simps = NewNumber_def NewString_def NewObject_def

lemma printable_entry: "key_ok r \<Longrightarrow> printable (recall_entry r)"
  by (simp add: key_ok_def recall_entry_def blob_simps small_float ascii_name byte_def)

lemma printable_root:
  assumes "state_ok s" "\<And>r. r \<in> set rs \<Longrightarrow> key_ok r" "small k" "small d"
  shows "printable (state_root s (map recall_entry rs) k d)"
proof -
  have "is_int32_float (boolToNum b)" for b
    using is_int32_float_of_int [of 1] is_int32_float_of_int [of 0]
    by (simp add: boolToNum_def MinInt32_def MaxInt32_def)
  then show ?thesis
    using assms
    by (simp add: state_root_def freeze_json_def blob_simps state_ok_def small_float ascii_name byte_def
        hex_str_ascii list_all_iff printable_entry)
qed

lemma restore_freeze_json: "state_ok s \<Longrightarrow> restore_freeze (Some (freeze_json (Freeze s))) = Freeze s"
proof -
  have "unat (PrefixDigest (Freeze s)) < 2 ^ 64"
    by (rule order_less_le_trans [OF unsigned_less]) simp
  then have d: "word_of_nat (ParseUint16 (hex_str (unat (PrefixDigest (Freeze s))))) = PrefixDigest (Freeze s)"
    by (simp add: ParseUint16_hex_str)
  assume "state_ok s"
  with d show ?thesis
    by (cases "Freeze s") (simp add: restore_freeze_def freeze_json_def blob_simps get_int_def state_ok_def small_float small_back
      boolToNum_def feq_def)
qed

lemma restore_keys:
  assumes "\<And>r. r \<in> set rs \<Longrightarrow> key_ok r" "distinct (map fst (ps @ rs))"
  shows "fold restore_key (map recall_entry rs) (index_of ps) = index_of (ps @ rs)"
  using assms
proof (induction rs arbitrary: ps)
  case (Cons r rs)
  have n: "map_of ps (fst r) = None" "fst r \<noteq> []" "small (snd r)"
    using Cons.prems by (auto simp: map_of_eq_None_iff key_ok_def)
  have "map_of (ps @ [r]) = (map_of ps)(fst r \<mapsto> snd r)"
    using n by (cases r) (auto simp: fun_eq_iff map_add_def split: option.split)
  then have "restore_key (recall_entry r) (index_of ps) = index_of (ps @ [r])"
    using n by (simp add: restore_key_def recall_entry_def blob_simps index_of_def Recall_Add_def SetLastTurn_def
        small_float small_back)
  then show ?case using Cons.IH [of "ps @ [r]"] Cons.prems by simp
qed simp


lemma keep_ranked:
  assumes "state_ok s"
  obtains k where "keep_keys s (ranked (RecallIx s)) [] 0
      = (map recall_entry (kept_recall s), int k, int (length (ranked (RecallIx s)) - k))"
    "k = length (kept_recall s)"
proof -
  obtain es k d where e: "keep_keys s (ranked (RecallIx s)) [] 0 = (es, k, d)" by (rule prod_cases3)
  from keep_keys_spec [OF ranked_ok [OF assms] e] obtain n where
    "n \<le> length (ranked (RecallIx s))" "es = map recall_entry (take n (ranked (RecallIx s)))"
    "k = int n" "d = int (length (ranked (RecallIx s)) - n)" by auto
  then show thesis using e by (intro that [of n]) (simp_all add: kept_recall_def min_def)
qed

lemma kept_ok: "state_ok s \<Longrightarrow> r \<in> set (kept_recall s) \<Longrightarrow> key_ok r"
  unfolding kept_recall_def by (blast dest: in_set_takeD intro: ranked_ok)

lemma distinct_kept: "state_ok s \<Longrightarrow> distinct (map fst (kept_recall s))"
  unfolding kept_recall_def take_map [symmetric]
  by (rule distinct_take, rule distinct_ranked) (simp add: state_ok_def)

lemma RestoreState_SerializeState:
  assumes "state_ok s" "SerializeState (Some s) = Some b"
  shows "RestoreState (Some live) b = Inr (after_trip s)"
proof -
  obtain k where k: "keep_keys s (ranked (RecallIx s)) [] 0
      = (map recall_entry (kept_recall s), int k, int (length (ranked (RecallIx s)) - k))"
    "k = length (kept_recall s)" using keep_ranked [OF assms(1)] by blast
  have "length (kept_recall s) \<le> length (Recall_Keys (RecallIx s))" by (simp add: kept_recall_def)
  then have sm: "small (int k)" "small (int (length (ranked (RecallIx s)) - k))"
    using assms(1) k(2) by (auto simp: state_ok_def small_def)
  define v where "v = state_root s (map recall_entry (kept_recall s)) (int k) (int (length (ranked (RecallIx s)) - k))"
  have b: "b = PrintJSONUnformatted v"
    using assms(2) unfolding v_def by (simp add: SerializeState_def k(1) Let_def split: if_splits)
  have "printable v" unfolding v_def by (rule printable_root [OF assms(1) kept_ok [OF assms(1)] sm])
  then have p: "ParseJSON b = Some v" unfolding b by (rule parse_printed)
  have ix: "index_of [] = NewRecallIndex" by (simp add: index_of_def NewRecallIndex_def)
  have "fold restore_key (map recall_entry (kept_recall s)) NewRecallIndex = index_of (kept_recall s)"
    unfolding ix [symmetric] using restore_keys [of "kept_recall s" "[]"] kept_ok [OF assms(1)] distinct_kept [OF assms(1)]
    by simp
  moreover have "b \<noteq> []" unfolding b v_def by (simp add: state_root_def blob_simps)
  ultimately show ?thesis
    using p assms(1) restore_freeze_json [OF assms(1)]
    by (simp add: RestoreState_def v_def state_root_def blob_simps get_int_def after_trip_def state_ok_def
        small_float small_back)
qed

lemma sorted_ranked: "sorted (map (\<lambda>r. - snd r) (ranked ix))"
  by (simp add: ranked_def)

lemma ranked_index_of:
  assumes "distinct (map fst rs)" "sorted (map (\<lambda>r. - snd r) rs)"
  shows "ranked (Some (index_of rs)) = rs"
proof -
  have "(k, LastTurn (Some (index_of rs)) k) = (k, t)" if "(k, t) \<in> set rs" for k t
    using that assms(1) by (simp add: LastTurn_def index_of_def)
  then have "map (\<lambda>k. (k, LastTurn (Some (index_of rs)) k)) (map fst rs) = rs"
    by (auto intro!: map_idI)
  then show ?thesis
    using assms(2) by (simp add: ranked_def Recall_Keys_def index_of_def sort_key_id_if_sorted)
qed


lemma after_trip_ranked: "state_ok s \<Longrightarrow> ranked (RecallIx (after_trip s)) = kept_recall s"
proof -
  assume "state_ok s"
  moreover have "sorted (map (\<lambda>r. - snd r) (kept_recall s))"
    unfolding kept_recall_def take_map [symmetric] by (intro sorted_wrt_take) (rule sorted_ranked)
  ultimately show ?thesis by (simp add: after_trip_def ranked_index_of distinct_kept)
qed

lemma after_trip_ok: "state_ok s \<Longrightarrow> state_ok (after_trip s)"
proof -
  assume ok: "state_ok s"
  have keys: "(k, LastTurn (RecallIx (after_trip s)) k) \<in> set (kept_recall s)"
    if "k \<in> set (Recall_Keys (RecallIx (after_trip s)))" for k
    using that unfolding after_trip_ranked [OF ok, symmetric] set_ranked by simp
  have "recall_ok (Some (index_of (kept_recall s)))"
    using distinct_kept [OF ok] by (auto simp: recall_ok_def recall_valid_def index_of_def dom_map_of_conv_image_fst)
  moreover have "length (Recall_Keys (RecallIx (after_trip s))) \<le> length (Recall_Keys (RecallIx s))"
    by (simp add: after_trip_def Recall_Keys_def index_of_def kept_recall_def)
  moreover have "key_ok (k, LastTurn (RecallIx (after_trip s)) k)"
    if "k \<in> set (Recall_Keys (RecallIx (after_trip s)))" for k
    using kept_ok [OF ok keys [OF that]] .
  ultimately show ?thesis using ok by (auto simp: state_ok_def after_trip_def small_def)
qed

lemma after_trip_twice: "state_ok s \<Longrightarrow> after_trip (after_trip s) = after_trip s"
proof -
  assume ok: "state_ok s"
  obtain es k d where e: "keep_keys s (ranked (RecallIx s)) [] 0 = (es, k, d)" by (rule prod_cases3)
  have l: "length es \<le> length (ranked (RecallIx s))"
    using keep_keys_spec [OF ranked_ok [OF ok] e] by auto
  have "keep_keys (after_trip s) (kept_recall s) [] 0 = keep_keys s (kept_recall s) [] 0"
    by (rule keep_keys_cong) (simp_all add: after_trip_def)
  also have "\<dots> = (es, k, 0)"
    using keep_keys_take [OF e ranked_ok [OF ok]] e by (simp add: kept_recall_def)
  finally have "kept_recall (after_trip s) = kept_recall s"
    using e l by (simp add: kept_recall_def [of "after_trip s"] after_trip_ranked [OF ok])
      (simp add: kept_recall_def)
  then show ?thesis by (simp add: after_trip_def [of "after_trip s"]) (simp add: after_trip_def)
qed

interpretation blob: persisted "\<lambda>s. SerializeState (Some s)"
    "\<lambda>b. case RestoreState (Some fresh_state) b of Inl e \<Rightarrow> None | Inr s \<Rightarrow> Some s" state_ok after_trip
  by unfold_locales (auto simp: RestoreState_SerializeState after_trip_ok after_trip_twice)

text \<open>C18: the state survives a process. Restoring a serialized state, whatever was live before, gives the
  same turn and the same frozen boundary with every bit of its digest, and the hottest keys of the page
  table with the turns they were surfaced on: no dropped key was surfaced later than a kept one, and a
  key is dropped only when the document with the keys before it leaves no room for it in the row (its
  own bytes and 48 for its entry and the counters). The
  mark of the current request is not carried over, and further restarts change nothing.\<close>

theorem state_roundtrip:
  assumes "state_ok s" "SerializeState (Some s) = Some b"
  shows "\<exists>s' ix n. RestoreState (Some live) b = Inr s' \<and> Freeze s' = Freeze s \<and> Turn s' = Turn s \<and> \<not> Reduced s'
    \<and> RecallIx s' = Some ix \<and> recall_ok (Some ix) \<and> recall_keys ix = map fst (take n (ranked (RecallIx s)))
    \<and> (if n < length (ranked (RecallIx s))
       then over_budget s (map recall_entry (take n (ranked (RecallIx s)))) (fst (ranked (RecallIx s) ! n))
       else n = length (ranked (RecallIx s)))
    \<and> (\<forall>k \<in> set (recall_keys ix). LastTurn (Some ix) k = LastTurn (RecallIx s) k
         \<and> (\<forall>k' \<in> set (Recall_Keys (RecallIx s)) - set (recall_keys ix).
              LastTurn (RecallIx s) k' \<le> LastTurn (RecallIx s) k))
    \<and> (SerializeState (Some s') \<noteq> None \<longrightarrow> (blob.restart ^^ Suc m) (Some s) = Some s')"
proof -
  let ?rs = "ranked (RecallIx s)" and ?ix = "index_of (kept_recall s)"
  define n where "n = length (fst (keep_keys s ?rs [] 0))"
  have keys: "recall_keys ?ix = map fst (take n ?rs)" by (simp add: index_of_def kept_recall_def n_def)
  have stop: "if n < length ?rs then over_budget s (map recall_entry (take n ?rs)) (fst (?rs ! n)) else n = length ?rs"
  proof -
    obtain k d where e: "keep_keys s ?rs [] 0 = (map recall_entry (kept_recall s), k, d)"
      using keep_ranked [OF assms(1)] by metis
    have n: "length (kept_recall s) = n" using e by (simp add: n_def)
    have t: "kept_recall s = take n ?rs" by (simp add: kept_recall_def n_def)
    have "length (map recall_entry (kept_recall s)) - length ([] :: json list) = n" by (simp add: n)
    from keep_keys_stop [OF ranked_ok [OF assms(1)] e, unfolded this, unfolded t] show ?thesis
      by (auto simp del: length_ranked)
  qed
  have same: "LastTurn (Some ?ix) (fst r) = snd r \<and> snd r = LastTurn (RecallIx s) (fst r)" if "r \<in> set (take n ?rs)" for r
  proof
    have "(fst r, snd r) \<in> set (kept_recall s)" using that by (simp add: kept_recall_def n_def)
    then have "map_of (kept_recall s) (fst r) = Some (snd r)"
      by (rule map_of_is_SomeI [OF distinct_kept [OF assms(1)]])
    then show "LastTurn (Some ?ix) (fst r) = snd r" by (simp add: LastTurn_def index_of_def)
    show "snd r = LastTurn (RecallIx s) (fst r)"
      using in_set_takeD [OF that] by (auto simp: set_ranked)
  qed
  have cold: "LastTurn (RecallIx s) k' \<le> snd r"
    if "r \<in> set (take n ?rs)" "k' \<in> set (Recall_Keys (RecallIx s))" "k' \<notin> fst ` set (take n ?rs)" for r k'
  proof -
    have "(k', LastTurn (RecallIx s) k') \<in> set ?rs" using that(2) by (simp add: set_ranked)
    then have "(k', LastTurn (RecallIx s) k') \<in> set (drop n ?rs)"
      using that(3) append_take_drop_id [of n ?rs] by (metis UnE fst_conv image_eqI set_append)
    moreover have "sorted (map (\<lambda>r. - snd r) (take n ?rs) @ map (\<lambda>r. - snd r) (drop n ?rs))"
      unfolding map_append [symmetric] append_take_drop_id by (rule sorted_ranked)
    ultimately show ?thesis using that(1) by (force simp: sorted_append)
  qed
  have "recall_ok (Some ?ix)" using after_trip_ok [OF assms(1)] by (simp add: state_ok_def after_trip_def)
  moreover have "\<forall>k \<in> set (recall_keys ?ix). LastTurn (Some ?ix) k = LastTurn (RecallIx s) k
         \<and> (\<forall>k' \<in> set (Recall_Keys (RecallIx s)) - set (recall_keys ?ix). LastTurn (RecallIx s) k' \<le> LastTurn (RecallIx s) k)"
    unfolding keys using same cold by auto
  moreover have "SerializeState (Some (after_trip s)) \<noteq> None \<longrightarrow> (blob.restart ^^ Suc m) (Some s) = Some (after_trip s)"
    using blob.restarts_stable [OF assms(1)] assms(2) by simp
  ultimately show ?thesis
    using RestoreState_SerializeState [OF assms, of live] keys stop
    by (intro exI [of _ "after_trip s"] exI [of _ ?ix] exI [of _ n]) (simp add: after_trip_def)
qed

section \<open>The bound\<close>

text \<open>A key no byte of which is escaped, as the harvested coordinates are.\<close>

definition plain :: "string \<Rightarrow> bool" where
  "plain k \<longleftrightarrow> list_all (\<lambda>c. 32 \<le> byte c \<and> c \<noteq> CHR 0x22 \<and> c \<noteq> CHR 0x5C) k"

lemma cjsonEscapeByte_plain:
  assumes "32 \<le> byte c" "c \<noteq> CHR 0x22" "c \<noteq> CHR 0x5C"
  shows "cjsonEscapeByte c = [c]"
proof -
  have "byte (CHR 0x08) = 8" "byte (CHR 0x0C) = 12" "byte (CHR 0x0A) = 10" "byte (CHR 0x0D) = 13" "byte (CHR 0x09) = 9"
    by (simp_all add: byte_def)
  then have "c \<noteq> CHR 0x08" "c \<noteq> CHR 0x0C" "c \<noteq> CHR 0x0A" "c \<noteq> CHR 0x0D" "c \<noteq> CHR 0x09"
    using assms(1) by auto
  then show ?thesis using assms by (simp add: cjsonEscapeByte_def)
qed

lemma plain_concat: "plain k \<Longrightarrow> concat (map cjsonEscapeByte k) = k"
  by (rule concat_singletons) (simp add: plain_def list_all_iff cjsonEscapeByte_plain)

lemma length_int_str: "small i \<Longrightarrow> length (int_str i) \<le> 11"
proof -
  assume "small i"
  then have "nat i < 10 ^ 10" "nat (- i) < 10 ^ 10" by (auto simp: small_def)
  then show ?thesis
    using length_nat_str [of 10 "nat i"] length_nat_str [of 10 "nat (- i)"] by (simp add: int_str_def)
qed

lemma print_small: "small i \<Longrightarrow> CJSONNumber (float_of_int i) = int_str i"
  using CJSONNumber_int [of i] small_float [of i] by (auto simp: small_def MinInt32_def MaxInt32_def)

lemma length_commas_snoc: "length (commas (xs @ [x])) \<le> length (commas xs) + 1 + length x"
  by (induction xs rule: commas.induct) auto

lemma print_entry:
  assumes "key_ok r" "plain (fst r)"
  shows "length (PrintJSONUnformatted (recall_entry r)) \<le> length (fst r) + 25"
  using assms length_int_str [of "snd r"]
  by (simp add: key_ok_def recall_entry_def blob_simps print_member_def plain_concat print_small
      cjsonEscape_def cjsonEscapeByte_def byte_def)

text \<open>The size of the document around its entries and its counters.\<close>

definition frame :: "ReduceState \<Rightarrow> nat" where
  "frame s = length (PrintJSONUnformatted (state_root s [] 0 0)) - 2"

lemma int_str_0: "int_str 0 = ''0''"
  by (simp add: int_str_def nat_str_def to_base.simps)

lemma print_root:
  assumes "small k" "small d"
  shows "length (PrintJSONUnformatted (state_root s es k d))
    = frame s + length (commas (map PrintJSONUnformatted es)) + length (int_str k) + length (int_str d)"
  using assms by (simp add: frame_def state_root_def blob_simps print_member_def print_small int_str_0 small_def)

lemma frame_bound:
  assumes "state_ok s"
  shows "frame s \<le> 300"
proof -
  have "length (hex_str (unat (PrefixDigest (Freeze s)))) \<le> 16"
  proof -
    have "unat (PrefixDigest (Freeze s)) < 16 ^ Suc 15"
      by (rule order_less_le_trans [OF unsigned_less]) simp
    then show ?thesis using length_to_base [of 16 "unat (PrefixDigest (Freeze s))" 15] by (simp add: hex_str_def)
  qed
  moreover have "plain (hex_str n)" for n
  proof -
    have "32 \<le> byte (digit_char d) \<and> digit_char d \<noteq> CHR 0x22 \<and> digit_char d \<noteq> CHR 0x5C" if "d \<in> set (to_base 16 n)" for d
    proof -
      have "d < 16" using that by (intro to_base_digits) simp_all
      then have "32 \<le> byte (digit_char d)" "byte (digit_char d) \<noteq> byte (CHR 0x22)"
        "byte (digit_char d) \<noteq> byte (CHR 0x5C)" by (simp_all add: byte_digit_char) (simp_all add: byte_def)
      then show ?thesis by (simp only: byte_inject) simp
    qed
    then show ?thesis by (auto simp: plain_def hex_str_def list_all_iff)
  qed
  moreover have "length (CJSONNumber (boolToNum b)) = 1" for b
    using CJSONNumber_int [of 1] CJSONNumber_int [of 0] 
    by (simp add: boolToNum_def MinInt32_def MaxInt32_def int_str_0) (simp add: int_str_def nat_str_def to_base.simps)
  ultimately show ?thesis
    using assms length_int_str [of "Turn s"] length_int_str [of "FrozenSplit (Freeze s)"]
      length_int_str [of "TailCapMsgs (Freeze s)"] length_int_str [of "Epochs (Freeze s)"]
    by (simp add: frame_def state_root_def freeze_json_def blob_simps print_member_def print_small state_ok_def
        plain_concat cjsonEscape_def cjsonEscapeByte_def byte_def small_def int_str_0)
qed


lemma keep_keys_bound:
  assumes "keep_keys s rs es k = (es', k', d)" "\<And>r. r \<in> set rs \<Longrightarrow> key_ok r \<and> plain (fst r)"
    and "length (PrintJSONUnformatted (state_root s es 0 0)) \<le> 6122"
  shows "length (PrintJSONUnformatted (state_root s es' 0 0)) \<le> 6122"
  using assms
proof (induction s rs es k rule: keep_keys.induct)
  case (2 s r rs es k)
  have r: "key_ok r" "plain (fst r)" "fst r \<noteq> []" using 2(4) [of r] by (simp_all add: key_ok_def)
  show ?case
  proof (cases "int (length (PrintJSONUnformatted (state_root s es 0 0))) + int (length (fst r)) + 48 > ReduceStateSerialMax")
    case True
    then show ?thesis using 2(3,5) r(3) by simp
  next
    case False
    have "small 0" by (simp add: small_def)
    then have "length (PrintJSONUnformatted (state_root s (es @ [recall_entry r]) 0 0))
        \<le> length (PrintJSONUnformatted (state_root s es 0 0)) + 26 + length (fst r)"
      using length_commas_snoc [of "map PrintJSONUnformatted es" "PrintJSONUnformatted (recall_entry r)"] print_entry [OF r(1,2)]
      by (simp add: print_root)
    then have "length (PrintJSONUnformatted (state_root s (es @ [recall_entry r]) 0 0)) \<le> 6122"
      using False by (simp add: ReduceStateSerialMax_def)
    then show ?thesis using 2(2) [OF r(3) False] 2(3,4) r(3) False by simp
  qed
qed simp

lemma SerializeState_fits_aux:
  assumes "state_ok s" "\<forall>k \<in> set (Recall_Keys (RecallIx s)). plain k"
  shows "\<exists>b. SerializeState (Some s) = Some b \<and> int (length b) \<le> ReduceStateSerialMax"
proof -
  obtain es k d where e: "keep_keys s (ranked (RecallIx s)) [] 0 = (es, k, d)" by (rule prod_cases3)
  obtain n where n: "n \<le> length (ranked (RecallIx s))" "k = int n" "d = int (length (ranked (RecallIx s)) - n)"
    using keep_keys_spec [OF ranked_ok [OF assms(1)] e] by auto
  then have sm: "small k" "small d" "small 0" using assms(1) by (auto simp: state_ok_def small_def)
  have keys: "key_ok r \<and> plain (fst r)" if "r \<in> set (ranked (RecallIx s))" for r
    using that ranked_ok [OF assms(1)] assms(2) by (auto simp: set_ranked)
  have "length (PrintJSONUnformatted (state_root s es 0 0)) \<le> 6122"
    using keep_keys_bound [OF e keys] frame_bound [OF assms(1)] sm(3) by (simp add: print_root int_str_0)
  then have "length (PrintJSONUnformatted (state_root s es k d)) \<le> 6142"
    using print_root [OF sm(1,2), of s es] print_root [OF sm(3,3), of s es] length_int_str [OF sm(1)] length_int_str [OF sm(2)]
    by (simp add: int_str_0)
  then show ?thesis by (simp add: SerializeState_def e ReduceStateSerialMax_def Let_def)
qed

text \<open>The state always fits. With 32-bit counters and keys that need no escape, as every harvested
  coordinate is, the serialized state exists and is within the bound of the store row, however many
  keys the page table holds: the overflow is dropped, never the whole state.\<close>

theorem SerializeState_fits:
  assumes "state_ok s" "\<forall>k \<in> set (Recall_Keys (RecallIx s)). plain k"
  shows "\<exists>b. SerializeState (Some s) = Some b \<and> int (length b) \<le> ReduceStateSerialMax"
  using assms by (rule SerializeState_fits_aux)

lemma keep_keys_all:
  assumes "\<And>r. r \<in> set rs \<Longrightarrow> key_ok r \<and> plain (fst r)"
    and "length (PrintJSONUnformatted (state_root s es 0 0)) + (\<Sum>r\<leftarrow>rs. length (fst r) + 26) + 22 \<le> 6144"
  shows "length (fst (keep_keys s rs es k)) = length es + length rs"
  using assms
proof (induction rs arbitrary: es k)
  case (Cons r rs)
  have r: "key_ok r" "plain (fst r)" "fst r \<noteq> []" "small 0"
    using Cons.prems(1) [of r] by (simp_all add: key_ok_def small_def)
  have fits: "\<not> int (length (PrintJSONUnformatted (state_root s es 0 0))) + int (length (fst r)) + 48 > ReduceStateSerialMax"
    using Cons.prems(2) by (simp add: ReduceStateSerialMax_def)
  have "length (PrintJSONUnformatted (state_root s (es @ [recall_entry r]) 0 0))
      \<le> length (PrintJSONUnformatted (state_root s es 0 0)) + 26 + length (fst r)"
    using length_commas_snoc [of "map PrintJSONUnformatted es" "PrintJSONUnformatted (recall_entry r)"] print_entry [OF r(1,2)] r(4)
    by (simp add: print_root)
  then show ?case
    using fits r(3) Cons.IH [of "es @ [recall_entry r]" "k + 1"] Cons.prems by simp
qed simp

text \<open>The size of a page table: what its entries take at most. Within it every key is kept.\<close>

definition table_size :: "RecallIndex option \<Rightarrow> nat" where
  "table_size ix = (\<Sum>k\<leftarrow>Recall_Keys ix. length k + 26)"

lemma kept_all:
  assumes "state_ok s" "\<forall>k \<in> set (Recall_Keys (RecallIx s)). plain k" "table_size (RecallIx s) \<le> 5820"
  shows "kept_recall s = ranked (RecallIx s)"
proof -
  have "small 0" by (simp add: small_def)
  then have "length (PrintJSONUnformatted (state_root s [] 0 0)) \<le> 302"
    using frame_bound [OF assms(1)] by (simp add: print_root int_str_0)
  moreover have "(\<Sum>r\<leftarrow>ranked (RecallIx s). length (fst r) + 26) = table_size (RecallIx s)"
  proof -
    have "mset (map (\<lambda>r. length (fst r) + 26) (ranked (RecallIx s))) = mset (map (\<lambda>k. length k + 26) (Recall_Keys (RecallIx s)))"
      by (simp add: ranked_def multiset.map_comp comp_def)
    then show ?thesis unfolding table_size_def by (metis sum_mset_sum_list)
  qed
  moreover have "key_ok r \<and> plain (fst r)" if "r \<in> set (ranked (RecallIx s))" for r
    using that ranked_ok [OF assms(1) that] assms(2) by (auto simp: set_ranked)
  ultimately have "length (fst (keep_keys s (ranked (RecallIx s)) [] 0)) = length (ranked (RecallIx s))"
    using keep_keys_all [of "ranked (RecallIx s)" s "[]" 0] assms(3) by simp
  then show ?thesis by (simp add: kept_recall_def)
qed

definition sample_state :: ReduceState where
  "sample_state = \<lparr> Freeze = \<lparr> Active = True, FrozenSplit = 4, TailCapMsgs = 24, Epochs = 1,
       PrefixDigest = 0xCBF29CE484222325 \<rparr>, Reduced = True, Turn = 7,
     RecallIx = Some (SetLastTurn ''/b'' 5 (Recall_Add ''/b'' (Recall_Add ''/a'' NewRecallIndex))) \<rparr>"

lemma sample_state_ok: "state_ok sample_state" "\<forall>k \<in> set (Recall_Keys (RecallIx sample_state)). plain k"
  by (auto simp: sample_state_def state_ok_def small_def recall_ok_def recall_valid_def SetLastTurn_def
      Recall_Add_def NewRecallIndex_def Recall_Keys_def LastTurn_def key_ok_def plain_def ascii_name byte_def)

theorem SerializeState_fits_witness:
  "\<exists>b. SerializeState (Some sample_state) = Some b \<and> int (length b) \<le> 6144"
  using SerializeState_fits [OF sample_state_ok] by (simp add: ReduceStateSerialMax_def)

theorem state_roundtrip_witness:
  "\<exists>b s'. SerializeState (Some sample_state) = Some b \<and> RestoreState (Some fresh_state) b = Inr s'
     \<and> PrefixDigest (Freeze s') = 0xCBF29CE484222325 \<and> \<not> Reduced s' \<and> Turn s' = 7
     \<and> set (Recall_Keys (RecallIx s')) = {''/a'', ''/b''}"
proof -
  have "\<exists>b. SerializeState (Some sample_state) = Some b"
    using SerializeState_fits_aux [OF sample_state_ok] by blast
  then obtain b where b: "SerializeState (Some sample_state) = Some b" by blast
  obtain s' where s': "RestoreState (Some fresh_state) b = Inr s'" "Freeze s' = Freeze sample_state"
    "Turn s' = Turn sample_state" "\<not> Reduced s'"
    using state_roundtrip [OF sample_state_ok(1) b, of fresh_state 0] by blast
  have "PrefixDigest (Freeze s') = 0xCBF29CE484222325" "Turn s' = 7"
    by (simp_all add: s' sample_state_def)
  moreover have "set (Recall_Keys (RecallIx s')) = {''/a'', ''/b''}"
  proof -
    have keys: "Recall_Keys (RecallIx sample_state) = [''/a'', ''/b'']"
      by (simp add: sample_state_def Recall_Keys_def SetLastTurn_def Recall_Add_def NewRecallIndex_def)
    then have "table_size (RecallIx sample_state) \<le> 5820" by (simp add: table_size_def)
    from kept_all [OF sample_state_ok this] have "s' = sample_state \<lparr> Reduced := False,
        RecallIx := Some (index_of (ranked (RecallIx sample_state))) \<rparr>"
      using RestoreState_SerializeState [OF sample_state_ok(1) b, of fresh_state] s'(1) by (simp add: after_trip_def)
    then have "set (Recall_Keys (RecallIx s')) = fst ` set (ranked (RecallIx sample_state))"
      by (simp add: Recall_Keys_def index_of_def)
    also have "\<dots> = set (Recall_Keys (RecallIx sample_state))" by (force simp: set_ranked)
    finally show ?thesis by (simp add: keys)
  qed
  ultimately show ?thesis using b s' by blast
qed

end
