(* ===== verification/Gateway.thy ===== *)
theory Gateway
  imports ReduceLaws
begin

text \<open>
  \<open>gateway.go\<close> and \<open>gateway_wire.go\<close>: the decision to dispatch a reduced request, the request path of the
  gateway with its per-session circuit breaker, and the handling of the upstream status. The session
  store, the stats sink and the structural check are injected in the source; here they are functions
  on a state \<open>'w\<close> of the outside world, arguments of every operation. The container is a value: an
  operation returns it updated.
\<close>

section \<open>The decision\<close>

datatype GWBypassReason =
    GWBypassNone | GWBypassReduceAllocFailed | GWBypassReduceParseFailed | GWBypassReduceInternalAssertion
  | GWBypassReduceFormatUnsupported | GWBypassNoOp | GWBypassStructuralViolation | GWBypassSnapshotOOM
  | GWBypassReplaceFailed | GWBypassConstructFailed

fun GWBypassReason_String :: "GWBypassReason \<Rightarrow> string" where
  "GWBypassReason_String GWBypassNone = ''none''"
| "GWBypassReason_String GWBypassReduceAllocFailed = ''reduce_alloc_failed''"
| "GWBypassReason_String GWBypassReduceParseFailed = ''reduce_parse_failed''"
| "GWBypassReason_String GWBypassReduceInternalAssertion = ''reduce_internal_assertion''"
| "GWBypassReason_String GWBypassReduceFormatUnsupported = ''reduce_format_unsupported''"
| "GWBypassReason_String GWBypassNoOp = ''no_op''"
| "GWBypassReason_String GWBypassStructuralViolation = ''structural_violation''"
| "GWBypassReason_String GWBypassSnapshotOOM = ''snapshot_oom''"
| "GWBypassReason_String GWBypassReplaceFailed = ''replace_failed''"
| "GWBypassReason_String GWBypassConstructFailed = ''construct_failed''"

datatype ReduceError =
    ReduceErrNone | ReduceErrAllocFailed | ReduceErrParseFailed | ReduceErrInternalAssertion
  | ReduceErrFormatUnsupported

fun reduceErrorToBypass :: "ReduceError \<Rightarrow> GWBypassReason" where
  "reduceErrorToBypass ReduceErrAllocFailed = GWBypassReduceAllocFailed"
| "reduceErrorToBypass ReduceErrParseFailed = GWBypassReduceParseFailed"
| "reduceErrorToBypass ReduceErrFormatUnsupported = GWBypassReduceFormatUnsupported"
| "reduceErrorToBypass _ = GWBypassReduceInternalAssertion"

text \<open>A structural check repairs its argument in place and counts the repairs: it returns both.\<close>

type_synonym StructuralCheck = "json \<Rightarrow> json \<times> int"

definition GWSnapshotMessages :: "jref \<Rightarrow> jref" where
  "GWSnapshotMessages messages = (case messages of None \<Rightarrow> None | Some v \<Rightarrow> Some (Clone v))"

definition GWSnapshotTokenCount :: "jref \<Rightarrow> int" where
  "GWSnapshotTokenCount messages = nodeTokenEstimate messages"

definition GWShouldApply ::
  "bool \<Rightarrow> ReduceResult option \<Rightarrow> ReduceError \<Rightarrow> StructuralCheck option \<Rightarrow> GWBypassReason" where
  "GWShouldApply reduceOK res err repair =
     (case res of
        None \<Rightarrow> reduceErrorToBypass ReduceErrInternalAssertion
      | Some r \<Rightarrow>
          if \<not> reduceOK then reduceErrorToBypass err
          else if outMessages r = None \<or> \<not> Mutated r \<or> Reason r \<noteq> ReduceReasonReduced then GWBypassNoOp
          else if ReducedTokens r \<ge> BaselineTokens r then GWBypassNoOp
          else (case (repair, outMessages r) of
                  (Some check, Some v) \<Rightarrow>
                    if snd (check (Clone v)) \<noteq> 0 then GWBypassStructuralViolation else GWBypassNone
                | _ \<Rightarrow> GWBypassNone))"

text \<open>The updated container and whether the array was installed.\<close>

definition GWReplaceMessages :: "jref \<Rightarrow> string \<Rightarrow> jref \<Rightarrow> jref \<times> bool" where
  "GWReplaceMessages container key reduced =
     (case (container, reduced) of
        (Some (JSONObject kvs), Some r) \<Rightarrow>
          if key = [] then (container, False) else (Some (Set key r (JSONObject kvs)), True)
      | _ \<Rightarrow> (container, False))"

definition GWProvenanceMarkReduced :: "ReduceState \<Rightarrow> ReduceState" where
  "GWProvenanceMarkReduced st = st \<lparr> Reduced := True \<rparr>"

definition GWProvenanceClear :: "ReduceState \<Rightarrow> ReduceState" where
  "GWProvenanceClear st = st \<lparr> Reduced := False \<rparr>"

section \<open>The ports\<close>

record 'w SessionStore =
  ResolveKey :: "string \<Rightarrow> string \<Rightarrow> string \<Rightarrow> 'w \<Rightarrow> string option"
  IsDisabled :: "string \<Rightarrow> 'w \<Rightarrow> bool"
  Disable :: "string \<Rightarrow> int \<Rightarrow> string \<Rightarrow> 'w \<Rightarrow> 'w"

record 'w GatewayStats =
  Inc :: "string \<Rightarrow> 'w \<Rightarrow> 'w"
  IncReason :: "string \<Rightarrow> string \<Rightarrow> 'w \<Rightarrow> 'w"
  RecordTokenDelta :: "int \<Rightarrow> int \<Rightarrow> 'w \<Rightarrow> 'w"

record 'w GatewayDeps =
  Sessions :: "'w SessionStore option"
  Stats :: "'w GatewayStats option"
  Repair :: "StructuralCheck option"

record GatewayConfig =
  cfgMutateOn :: bool
  SessionDisableTTLMS :: int
  FoldRetainedMsgs :: int

record RequestIdentity =
  SessionHeader :: string
  Bearer :: string
  AuthIdentity :: string

record MutateCtx =
  MutateOn :: bool
  HaveKey :: bool
  ctxMutated :: bool
  Key :: string
  Pristine :: jref
  ctxState :: ReduceState
  TTLMS :: int

datatype PostAction = PostNone | PostResend

definition zero_state :: ReduceState where
  "zero_state = \<lparr> Freeze = \<lparr> Active = False, FrozenSplit = 0, TailCapMsgs = 0, Epochs = 0, PrefixDigest = 0 \<rparr>,
     Reduced = False, Turn = 0, RecallIx = None \<rparr>"

definition zero_ctx :: MutateCtx where
  "zero_ctx = \<lparr> MutateOn = False, HaveKey = False, ctxMutated = False, Key = [], Pristine = None,
     ctxState = zero_state, TTLMS = 0 \<rparr>"

definition statsInc :: "'w GatewayDeps \<Rightarrow> string \<Rightarrow> 'w \<Rightarrow> 'w" where
  "statsInc d c w = (case Stats d of None \<Rightarrow> w | Some s \<Rightarrow> Inc s c w)"

definition statsIncReason :: "'w GatewayDeps \<Rightarrow> string \<Rightarrow> string \<Rightarrow> 'w \<Rightarrow> 'w" where
  "statsIncReason d c reason w = (case Stats d of None \<Rightarrow> w | Some s \<Rightarrow> IncReason s c reason w)"

definition disable :: "'w GatewayDeps \<Rightarrow> string \<Rightarrow> int \<Rightarrow> string \<Rightarrow> 'w \<Rightarrow> 'w" where
  "disable d key ttl reason w = (case Sessions d of None \<Rightarrow> w | Some s \<Rightarrow> Disable s key ttl reason w)"

section \<open>The request path\<close>

definition gateway_fold :: "int \<Rightarrow> FoldConfig" where
  "gateway_fold retained =
     \<lparr> FoldEnabled = False, cfgRetainedMsgs = retained, cfgMinFoldMsgs = 0, cfgReasoningExcerptBytes = 0,
       cfgRegisterEnabled = False,
       cfgCloset = \<lparr> Enabled = False, BudgetBytes = 0, MaxRatioPct = 0, Denylist = [] \<rparr>,
       cfgCompactHeadBytes = 0, cfgCompactTailBytes = 0 \<rparr>"

definition gateway_reduce :: "GatewayConfig \<Rightarrow> ReduceConfig" where
  "gateway_reduce cfg =
     \<lparr> HistoryFold = False, Compress = True, GatewaySeam = True, DelegateSeam = False, MeasureOnly = False,
       MinGainTokens = 0, FreezeGuardEnabled = False, FreezeGuardHorizon = 0,
       Rates = \<lparr> Priced = False, InputCost = F64 0, WriteCost = F64 0, ReadCost = F64 0 \<rparr>,
       RecallEnabled = False, RecallTTLTurns = 0, RecallInject = False,
       cfgFold = gateway_fold (FoldRetainedMsgs cfg) \<rparr>"

text \<open>From the snapshot on: the array is present, the context carries the key. \<open>None\<close> is the panic of the
  body shrink.\<close>

definition mutate_array ::
  "json \<Rightarrow> string \<Rightarrow> json \<Rightarrow> string \<Rightarrow> GatewayConfig \<Rightarrow> 'w GatewayDeps \<Rightarrow> MutateCtx \<Rightarrow> 'w
    \<Rightarrow> (jref \<times> MutateCtx \<times> 'w) option" where
  "mutate_array container key msgs systemPrompt cfg deps ctx w =
     (let w = statsInc deps ''mutate_attempted'' w;
          ctx = ctx \<lparr> Pristine := GWSnapshotMessages (Some msgs) \<rparr>;
          clear = (\<lambda>ctx :: MutateCtx. ctx \<lparr> ctxState := GWProvenanceClear (ctxState ctx) \<rparr>)
      in if Pristine ctx = None
         then Some (Some container, ctx, statsIncReason deps ''hard_bypass'' ''snapshot_oom'' w)
         else (case Reduce (Some msgs) systemPrompt SeamGateway (Some (gateway_reduce cfg)) None of
                 None \<Rightarrow> None
               | Some (res, _) \<Rightarrow>
                   (let bypass = GWShouldApply True (Some res) ReduceErrNone (Repair deps)
                    in if bypass \<noteq> GWBypassNone
                       then Some (Some container, clear ctx,
                              statsIncReason deps ''hard_bypass'' (GWBypassReason_String bypass) w)
                       else
                         (let (container', ok) = GWReplaceMessages (Some container) key (outMessages res)
                          in if \<not> ok
                             then Some (container', clear ctx, statsIncReason deps ''hard_bypass'' ''replace_failed'' w)
                             else
                               (let w = statsInc deps ''mutate_applied'' w
                                in Some (container',
                                     ctx \<lparr> ctxState := GWProvenanceMarkReduced (ctxState ctx), ctxMutated := True \<rparr>,
                                     (case Stats deps of None \<Rightarrow> w
                                      | Some s \<Rightarrow> RecordTokenDelta s (BaselineTokens res) (ReducedTokens res) w)))))))"

definition BufferedMutate ::
  "jref \<Rightarrow> string \<Rightarrow> string \<Rightarrow> RequestIdentity \<Rightarrow> GatewayConfig \<Rightarrow> 'w GatewayDeps \<Rightarrow> MutateCtx option \<Rightarrow> 'w
    \<Rightarrow> (jref \<times> MutateCtx option \<times> 'w) option" where
  "BufferedMutate container key systemPrompt ident cfg deps ctx w =
     (case ctx of
        None \<Rightarrow> Some (container, None, w)
      | Some _ \<Rightarrow>
          (case container of
             None \<Rightarrow> Some (container, Some zero_ctx, w)
           | Some c \<Rightarrow>
               if key = [] \<or> \<not> cfgMutateOn cfg then Some (container, Some zero_ctx, w)
               else
                 let ctx = zero_ctx \<lparr> MutateOn := True, TTLMS := SessionDisableTTLMS cfg \<rparr>
                 in (case Sessions deps of
                       None \<Rightarrow> Some (container, Some ctx, w)
                     | Some store \<Rightarrow>
                         (case ResolveKey store (SessionHeader ident) (Bearer ident) (AuthIdentity ident) w of
                            None \<Rightarrow> Some (container, Some ctx, w)
                          | Some sessionKey \<Rightarrow>
                              let ctx = ctx \<lparr> Key := sessionKey, HaveKey := True \<rparr>
                              in if IsDisabled store sessionKey w
                                 then Some (container, Some ctx, statsInc deps ''session_disabled_blocks'' w)
                                 else (case Get container key of
                                         Some (JSONArray xs) \<Rightarrow>
                                           map_option (\<lambda>(c', ctx', w'). (c', Some ctx', w'))
                                             (mutate_array c key (JSONArray xs) systemPrompt cfg deps ctx w)
                                       | _ \<Rightarrow> Some (container, Some ctx, w))))))"

section \<open>After the upstream status\<close>

text \<open>The repair of the restored array is in place: it shows in the container.\<close>

definition restore_pristine ::
  "jref \<Rightarrow> string \<Rightarrow> 'w GatewayDeps \<Rightarrow> MutateCtx \<Rightarrow> jref \<times> MutateCtx" where
  "restore_pristine container key deps ctx =
     (if Pristine ctx = None then (container, ctx)
      else let (container', ok) = GWReplaceMessages container key (Pristine ctx)
           in if \<not> ok then (container', ctx)
              else (case (Get container' key, Repair deps, container') of
                      (Some restored, Some check, Some c) \<Rightarrow> (Some (Set key (fst (check restored)) c), ctx \<lparr> Pristine := None \<rparr>)
                    | _ \<Rightarrow> (container', ctx \<lparr> Pristine := None \<rparr>)))"

definition BufferedAfterStatus ::
  "jref \<Rightarrow> string \<Rightarrow> int \<Rightarrow> 'w GatewayDeps \<Rightarrow> MutateCtx option \<Rightarrow> 'w
    \<Rightarrow> PostAction \<times> jref \<times> MutateCtx option \<times> 'w" where
  "BufferedAfterStatus container key httpStatus deps ctx w =
     (case ctx of
        None \<Rightarrow> (PostNone, container, None, w)
      | Some c \<Rightarrow>
          if \<not> ctxMutated c \<or> container = None \<or> key = [] then (PostNone, container, Some c, w)
          else if httpStatus sdiv 100 = 4 then
            (let (container, c) = restore_pristine container key deps c;
                 w = disable deps (Key c) (TTLMS c) ''4xx'' w;
                 c = c \<lparr> ctxState := GWProvenanceClear (ctxState c) \<rparr>;
                 w = statsInc deps ''4xx_restore_resend'' w
             in (PostResend, container, Some (c \<lparr> ctxMutated := False \<rparr>), w))
          else if httpStatus sdiv 100 = 5 then
            (let w = disable deps (Key c) (TTLMS c) ''5xx'' w;
                 c = c \<lparr> ctxState := GWProvenanceClear (ctxState c) \<rparr>;
                 w = statsInc deps ''5xx_disable'' w
             in (PostNone, container, Some (c \<lparr> ctxMutated := False \<rparr>), w))
          else (PostNone, container, Some c, w))"

definition StreamDisable ::
  "'w GatewayDeps \<Rightarrow> MutateCtx option \<Rightarrow> string \<Rightarrow> 'w \<Rightarrow> MutateCtx option \<times> 'w" where
  "StreamDisable deps ctx reason w =
     (case ctx of
        None \<Rightarrow> (None, w)
      | Some c \<Rightarrow>
          if \<not> ctxMutated c \<or> \<not> HaveKey c then (Some c, w)
          else let reason = (if reason = [] then ''stream'' else reason);
                   w = disable deps (Key c) (TTLMS c) reason w;
                   c = c \<lparr> ctxState := GWProvenanceClear (ctxState c) \<rparr>;
                   w = statsInc deps ''stream_error_disable'' w
               in (Some (c \<lparr> ctxMutated := False \<rparr>), w))"

definition AnthropicStreamErrorIsInvalidRequest :: "string \<Rightarrow> bool" where
  "AnthropicStreamErrorIsInvalidRequest data =
     (if data = [] then False
      else let root = ParseJSON data
           in if \<not> IsObject root then False
              else let err = Get root ''error''
                   in if \<not> IsObject err then False
                      else GetString err ''type'' = ''invalid_request_error''
                         \<or> GetString err ''type'' = ''request_too_large'')"

definition StatusIsInvalidRequest :: "int \<Rightarrow> bool" where
  "StatusIsInvalidRequest httpStatus \<longleftrightarrow> httpStatus = 400 \<or> httpStatus = 413 \<or> httpStatus = 422"

end
