(* ===== verification/GatewayLaws.thy ===== *)
theory GatewayLaws
  imports Gateway
begin

text \<open>
  What the gateway of \<open>gateway.go\<close> and \<open>gateway_wire.go\<close> guarantees: nothing is dispatched that cannot be
  restored, a refused request is restored and resent at most once, and a tripped session passes through.
\<close>

lemma Reduce_baseline:
  assumes "Reduce messages sp seam cfg st = Some (out, st')" "Mutated out"
  shows "BaselineTokens out = nodeTokenEstimate messages + systemTokens sp"
proof -
  obtain c where c: "cfg = Some c" "IsArray messages" "seam_on seam c" "\<not> (case st of None \<Rightarrow> False | Some s \<Rightarrow> Reduced s)"
    using assms by (auto simp: Reduce_def zero_result_def Let_def split: option.splits if_splits)
  from assms(1) [unfolded c(1)] c(2-4) show ?thesis
  proof (cases rule: Reduce_cases)
    case (run out0 owned out1 st1 out2)
    have "BaselineTokens out1 = BaselineTokens out0" using reduce_compress_cases [OF run(1)] by auto
    moreover have "BaselineTokens out2 = BaselineTokens out1"
      using run(10) reduce_fold_cases [of messages "if owned \<noteq> None then owned else messages" c st1 out1 out2 st']
      by (auto simp: same_ledger_def split: if_splits)
    moreover have "BaselineTokens (reduce_ledger sp c r) = BaselineTokens r" for r
      by (simp add: reduce_ledger_def Let_def)
    ultimately show ?thesis using run(3,11) by simp
  qed simp
qed

section \<open>The decision\<close>

lemma GWShouldApply_cases:
  "GWShouldApply ok res err repair = GWBypassNone \<longleftrightarrow>
     (\<exists>r v. ok \<and> res = Some r \<and> outMessages r = Some v \<and> Mutated r \<and> Reason r = ReduceReasonReduced
        \<and> ReducedTokens r < BaselineTokens r \<and> (\<forall>check. repair = Some check \<longrightarrow> snd (check v) = 0))"
  by (cases err) (auto simp: GWShouldApply_def split: option.splits)

section \<open>The core invariant\<close>

text \<open>The array that was replaced, what replaced it, and how the original comes back.\<close>

definition applied :: "json \<Rightarrow> string \<Rightarrow> string \<Rightarrow> GatewayConfig \<Rightarrow> 'w GatewayDeps \<Rightarrow> MutateCtx \<Rightarrow> jref \<Rightarrow> json list \<Rightarrow> json \<Rightarrow> bool" where
  "applied c key sp cfg deps ctx c' msgs reduced \<longleftrightarrow>
     Get (Some c) key = Some (JSONArray msgs) \<and> c' = Some (Set key reduced c) \<and> Set key (JSONArray msgs) (Set key reduced c) = c
     \<and> Pristine ctx = Some (JSONArray msgs)
     \<and> nodeTokenEstimate (Some reduced) < nodeTokenEstimate (Some (JSONArray msgs))
     \<and> (\<forall>check. Repair deps = Some check \<longrightarrow> snd (check reduced) = 0)
     \<and> (\<exists>res. Reduce (Some (JSONArray msgs)) sp SeamGateway (Some (gateway_reduce cfg)) None = Some (res, None)
          \<and> outMessages res = Some reduced)"

lemma GWReplaceMessages_object:
  "GWReplaceMessages (Some c) key r = (c', ok) \<Longrightarrow>
     if ok then IsObject (Some c) \<and> key \<noteq> [] \<and> (\<exists>v. r = Some v \<and> c' = Some (Set key v c)) else c' = Some c"
  by (cases c) (auto simp: GWReplaceMessages_def split: option.splits if_splits)

lemma mutate_array_safe:
  assumes "mutate_array c key (JSONArray msgs) sp cfg deps ctx w = Some (c', ctx', w')" "\<not> ctxMutated ctx"
    and "Get (Some c) key = Some (JSONArray msgs)"
  shows "HaveKey ctx' = HaveKey ctx \<and> Key ctx' = Key ctx \<and> MutateOn ctx' = MutateOn ctx \<and> TTLMS ctx' = TTLMS ctx
    \<and> (if ctxMutated ctx' then Reduced (ctxState ctx') \<and> (\<exists>reduced. applied c key sp cfg deps ctx' c' msgs reduced)
       else c' = Some c)"
proof -
  define ctx1 where "ctx1 = ctx \<lparr> Pristine := Some (JSONArray msgs) \<rparr>"
  define w1 where "w1 = statsInc deps ''mutate_attempted'' w"
  have snap: "GWSnapshotMessages (Some (JSONArray msgs)) = Some (JSONArray msgs)"
    by (simp add: GWSnapshotMessages_def)
  note m = assms(1) [unfolded mutate_array_def Let_def snap, folded ctx1_def w1_def]
  have p: "Pristine ctx1 = Some (JSONArray msgs)" by (simp add: ctx1_def)
  obtain res st where r: "Reduce (Some (JSONArray msgs)) sp SeamGateway (Some (gateway_reduce cfg)) None = Some (res, st)"
    using m p by (auto split: option.splits)
  have out: "st = None" "ReducedTokens res = nodeTokenEstimate (outMessages res) + systemTokens sp" if "Mutated res"
    using Reduce_outcome_aux [OF r] that by auto
  have base: "BaselineTokens res = nodeTokenEstimate (Some (JSONArray msgs)) + systemTokens sp" if "Mutated res"
    using that Reduce_baseline [OF r] by simp
  show ?thesis
  proof (cases "GWShouldApply True (Some res) ReduceErrNone (Repair deps) = GWBypassNone")
    case False
    then show ?thesis using m p r assms(2) by (auto simp: ctx1_def)
  next
    case True
    then obtain v where v: "outMessages res = Some v" "Mutated res" "ReducedTokens res < BaselineTokens res"
      "\<forall>check. Repair deps = Some check \<longrightarrow> snd (check v) = 0"
      by (auto simp: GWShouldApply_cases)
    obtain c1 ok where rep: "GWReplaceMessages (Some c) key (outMessages res) = (c1, ok)" by fastforce
    note rep' = GWReplaceMessages_object [OF rep]
    show ?thesis
    proof (cases ok)
      case False
      then show ?thesis using m p r True rep rep' assms(2) by (auto simp: ctx1_def)
    next
      case ok: True
      then have "c' = c1" "ctx' = ctx1 \<lparr> ctxState := GWProvenanceMarkReduced (ctxState ctx1), ctxMutated := True \<rparr>"
        using m p r True rep by auto
      moreover have "applied c key sp cfg deps ctx' c1 msgs v"
        using ok rep' v out base r assms(3) obj.restore_field [OF assms(3)] calculation(2) p
        by (auto simp: applied_def)
      ultimately show ?thesis using ok by (auto simp: GWProvenanceMarkReduced_def ctx1_def)
    qed
  qed
qed


lemma BufferedMutate_cases:
  assumes "BufferedMutate (Some c) key sp ident cfg deps (Some ctx0) w = Some (c', ctx', w')"
  obtains (pristine) ctx where "ctx' = Some ctx" "c' = Some c" "\<not> ctxMutated ctx"
  | (mutated) ctx store msgs reduced where "ctx' = Some ctx" "ctxMutated ctx" "HaveKey ctx" "Reduced (ctxState ctx)"
      "cfgMutateOn cfg" "key \<noteq> []" "Sessions deps = Some store"
      "ResolveKey store (SessionHeader ident) (Bearer ident) (AuthIdentity ident) w = Some (Key ctx)"
      "\<not> IsDisabled store (Key ctx) w" "TTLMS ctx = SessionDisableTTLMS cfg"
      "applied c key sp cfg deps ctx c' msgs reduced"
proof -
  have z: "\<not> ctxMutated zero_ctx" by (simp add: zero_ctx_def)
  show thesis
  proof (cases "key = [] \<or> \<not> cfgMutateOn cfg \<or> Sessions deps = None")
    case True
    then show thesis using assms z by (intro pristine [of "the ctx'"]) (auto simp: BufferedMutate_def split: if_splits)
  next
    case False
    then obtain store where s: "Sessions deps = Some store" "key \<noteq> []" "cfgMutateOn cfg" by auto
    let ?k = "ResolveKey store (SessionHeader ident) (Bearer ident) (AuthIdentity ident) w"
    show thesis
    proof (cases "\<exists>k msgs. ?k = Some k \<and> \<not> IsDisabled store k w \<and> Get (Some c) key = Some (JSONArray msgs)")
      case False
      then show thesis using assms s z
        by (intro pristine [of "the ctx'"]) (auto simp: BufferedMutate_def Let_def split: if_splits option.splits json.splits)
    next
      case True
      then obtain k msgs where k: "?k = Some k" "\<not> IsDisabled store k w" "Get (Some c) key = Some (JSONArray msgs)"
        by blast
      let ?ctx1 = "zero_ctx \<lparr> MutateOn := True, TTLMS := SessionDisableTTLMS cfg, Key := k, HaveKey := True \<rparr>"
      obtain ctx where m: "mutate_array c key (JSONArray msgs) sp cfg deps ?ctx1 w = Some (c', ctx, w')" "ctx' = Some ctx"
        using assms s k by (auto simp: BufferedMutate_def Let_def)
      note safe = mutate_array_safe [OF m(1) _ k(3)]
      have "\<not> ctxMutated ?ctx1" using z by simp
      with safe have a: "HaveKey ctx" "Key ctx = k" "TTLMS ctx = SessionDisableTTLMS cfg"
        "if ctxMutated ctx then Reduced (ctxState ctx) \<and> (\<exists>reduced. applied c key sp cfg deps ctx c' msgs reduced) else c' = Some c"
        by auto
      show thesis
      proof (cases "ctxMutated ctx")
        case True
        with a obtain reduced where "Reduced (ctxState ctx)" "applied c key sp cfg deps ctx c' msgs reduced" by auto
        with True a(1-3) m(2) s k show thesis by (intro mutated [of ctx store msgs reduced]) auto
      next
        case False
        with a m(2) show thesis by (intro pristine) auto
      qed
    qed
  qed
qed

text \<open>C4: nothing is dispatched that cannot be restored. When the request path changes a container, the
  tier is on, the session is known and its breaker closed, the new array is the view of the reducer,
  smaller than the original and free of repairs, it differs from the original container in that one
  array only, and putting back the snapshot gives the original container; in every other outcome the
  container is returned as it came.\<close>

theorem BufferedMutate_safe:
  assumes "BufferedMutate (Some c) key sp ident cfg deps (Some ctx0) w = Some (c', Some ctx, w')"
  shows "if ctxMutated ctx then
      cfgMutateOn cfg \<and> (\<exists>store. Sessions deps = Some store \<and> \<not> IsDisabled store (Key ctx) w
        \<and> ResolveKey store (SessionHeader ident) (Bearer ident) (AuthIdentity ident) w = Some (Key ctx))
      \<and> (\<exists>msgs reduced. applied c key sp cfg deps ctx c' msgs reduced)
    else c' = Some c"
  using assms by (cases rule: BufferedMutate_cases) auto

section \<open>One turn of a dispatched request\<close>

datatype gw_event = UpstreamStatus int | StreamFailure string

type_synonym 'w gw_state = "jref \<times> MutateCtx option \<times> 'w"

definition gw_handle :: "'w GatewayDeps \<Rightarrow> string \<Rightarrow> gw_event \<Rightarrow> 'w gw_state \<Rightarrow> PostAction \<times> 'w gw_state" where
  "gw_handle deps key ev s =
     (case s of (c, ctx, w) \<Rightarrow>
        (case ev of
           UpstreamStatus st \<Rightarrow> BufferedAfterStatus c key st deps ctx w
         | StreamFailure reason \<Rightarrow> (let (ctx', w') = StreamDisable deps ctx reason w in (PostNone, c, ctx', w'))))"

text \<open>The steps of a turn, labelled with the action the caller must take.\<close>

inductive gw_run :: "'w GatewayDeps \<Rightarrow> string \<Rightarrow> 'w gw_state \<Rightarrow> PostAction list \<Rightarrow> 'w gw_state \<Rightarrow> bool"
  for deps key where
  start: "gw_run deps key s [] s"
| step: "gw_run deps key s acts s' \<Longrightarrow> gw_handle deps key ev s' = (act, s'') \<Longrightarrow> gw_run deps key s (acts @ [act]) s''"

inductive_cases gw_runE: "gw_run deps key s acts s'"

text \<open>The restored container: the original, with its array repaired by the structural check.\<close>

definition restored :: "json \<Rightarrow> string \<Rightarrow> 'w GatewayDeps \<Rightarrow> json list \<Rightarrow> json" where
  "restored c key deps msgs =
     (case Repair deps of None \<Rightarrow> c | Some check \<Rightarrow> Set key (fst (check (JSONArray msgs))) c)"

lemma after_4xx:
  assumes "applied c key sp cfg deps ctx c' msgs reduced" "ctxMutated ctx" "key \<noteq> []" "st sdiv 100 = 4"
  shows "\<exists>ctx'. BufferedAfterStatus c' key st deps (Some ctx) w =
      (PostResend, Some (restored c key deps msgs), Some ctx',
       statsInc deps ''4xx_restore_resend'' (disable deps (Key ctx) (TTLMS ctx) ''4xx'' w))
    \<and> \<not> ctxMutated ctx' \<and> Pristine ctx' = None \<and> \<not> Reduced (ctxState ctx')"
proof -
  obtain kvs where c: "c = JSONObject kvs" using assms(1) by (cases c) (auto simp: applied_def)
  then obtain kvs' where c': "Set key reduced c = JSONObject kvs'" by simp
  note a = assms(1) [unfolded applied_def]
  have rep: "GWReplaceMessages c' key (Pristine ctx) = (Some c, True)"
    using a assms(3) c' by (simp add: GWReplaceMessages_def)
  have "restore_pristine c' key deps ctx = (Some (restored c key deps msgs), ctx \<lparr> Pristine := None \<rparr>)"
    using a rep by (auto simp: restore_pristine_def restored_def split: option.split)
  then show ?thesis
    using assms a by (auto simp: BufferedAfterStatus_def GWProvenanceClear_def Let_def)
qed

lemma not_mutated_inert:
  assumes "\<not> ctxMutated ctx"
  shows "gw_handle deps key ev (c, Some ctx, w) = (PostNone, c, Some ctx, w)"
  using assms by (cases ev) (auto simp: gw_handle_def BufferedAfterStatus_def StreamDisable_def)

lemma handle_mutated:
  assumes "applied c key sp cfg deps ctx c' msgs reduced" "ctxMutated ctx" "key \<noteq> []" "HaveKey ctx"
    and "gw_handle deps key ev (c', Some ctx, w) = (act, s)"
  obtains (idle) "act = PostNone" "s = (c', Some ctx, w)"
  | (resend) ctx' w' where "act = PostResend" "s = (Some (restored c key deps msgs), Some ctx', w')" "\<not> ctxMutated ctx'"
      "w' = statsInc deps ''4xx_restore_resend'' (disable deps (Key ctx) (TTLMS ctx) ''4xx'' w)"
  | (trip) ctx' w' reason stat where "act = PostNone" "s = (c', Some ctx', w')" "\<not> ctxMutated ctx'"
      "w' = statsInc deps stat (disable deps (Key ctx) (TTLMS ctx) reason w)"
proof (cases ev)
  case (UpstreamStatus st)
  show thesis
  proof (cases "st sdiv 100 = 4")
    case True
    from after_4xx [OF assms(1-3) this, of w] assms(5) UpstreamStatus show thesis
      by (auto simp: gw_handle_def intro: resend)
  next
    case False
    have "c' \<noteq> None" using assms(1) by (simp add: applied_def)
    then show thesis using False UpstreamStatus assms(2,3,5) idle
      by (auto simp: gw_handle_def BufferedAfterStatus_def Let_def intro: trip split: if_splits)
  qed
next
  case (StreamFailure reason)
  then show thesis using assms(2,4,5)
    by (auto simp: gw_handle_def StreamDisable_def Let_def intro: trip split: if_splits)
qed

lemma gw_run_invariant:
  assumes "gw_run deps key (c', Some ctx, w) acts s" "applied c key sp cfg deps ctx c' msgs reduced"
    and "ctxMutated ctx" "key \<noteq> []" "HaveKey ctx"
  shows "(PostResend \<notin> set acts \<and> s = (c', Some ctx, w))
    \<or> (\<exists>ctx2 stat reason. \<not> ctxMutated ctx2 \<and> snd (snd s) = statsInc deps stat (disable deps (Key ctx) (TTLMS ctx) reason w)
        \<and> fst (snd s) = Some ctx2
        \<and> (if PostResend \<in> set acts then fst s = Some (restored c key deps msgs) \<and> length (filter (\<lambda>a. a = PostResend) acts) = 1
           else fst s = c'))"
  using assms
proof (induction "(c', Some ctx, w)" acts s rule: gw_run.induct)
  case start
  then show ?case by simp
next
  case (step acts s' ev act s'')
  then consider (same) "PostResend \<notin> set acts" "s' = (c', Some ctx, w)"
    | (settled) ctx2 stat reason where "\<not> ctxMutated ctx2" "fst (snd s') = Some ctx2"
        "snd (snd s') = statsInc deps stat (disable deps (Key ctx) (TTLMS ctx) reason w)"
        "if PostResend \<in> set acts then fst s' = Some (restored c key deps msgs) \<and> length (filter (\<lambda>a. a = PostResend) acts) = 1
           else fst s' = c'"
    by blast
  then show ?case
  proof cases
    case same
    show ?thesis
    proof (rule handle_mutated [OF step(4-7) step(3) [unfolded same(2)]], goal_cases)
      case 1
      then show ?thesis using same by simp
    next
      case (2 ctx' w')
      then show ?thesis using same(1) by (auto simp: filter_empty_conv)
    next
      case (3 ctx' w' reason stat)
      then show ?thesis using same(1) by auto
    qed
  next
    case settled
    then obtain c2 w2 where s': "s' = (c2, Some ctx2, w2)" by (cases s') auto
    then have "act = PostNone" "s'' = s'" using step(3) by (simp_all add: not_mutated_inert [OF settled(1)])
    then show ?thesis using settled by (intro disjI2) auto
  qed
qed


text \<open>C21: one turn, one reaction. After a mutated dispatch, whatever statuses and stream failures arrive and
  in whatever order, either none of them mattered and nothing changed, or exactly one tripped the
  breaker, once; the request is resent at most once, and it is resent exactly when the container was
  brought back to the original, up to the repairs of the structural check.\<close>

theorem gateway_turn:
  assumes "BufferedMutate (Some c) key sp ident cfg deps (Some ctx0) w0 = Some (c', Some ctx, w)" "ctxMutated ctx"
    and "gw_run deps key (c', Some ctx, w) acts (c'', ctx'', w'')"
  shows "(PostResend \<notin> set acts \<and> (c'', ctx'', w'') = (c', Some ctx, w))
    \<or> (\<exists>ctx2 stat reason msgs. ctx'' = Some ctx2 \<and> \<not> ctxMutated ctx2
        \<and> w'' = statsInc deps stat (disable deps (Key ctx) (SessionDisableTTLMS cfg) reason w)
        \<and> Get (Some c) key = Some (JSONArray msgs)
        \<and> (if PostResend \<in> set acts then c'' = Some (restored c key deps msgs) \<and> length (filter (\<lambda>a. a = PostResend) acts) = 1
           else c'' = c'))"
  using assms(1)
proof (cases rule: BufferedMutate_cases)
  case (pristine ctx1)
  then show ?thesis using assms(2) by simp
next
  case (mutated ctx1 store msgs reduced)
  then have a: "applied c key sp cfg deps ctx c' msgs reduced" "HaveKey ctx" "key \<noteq> []" "TTLMS ctx = SessionDisableTTLMS cfg"
    by simp_all
  note inv = gw_run_invariant [OF assms(3) a(1) assms(2) a(3,2), unfolded fst_conv snd_conv a(4)]
  have "Get (Some c) key = Some (JSONArray msgs)" using a(1) by (simp add: applied_def)
  with inv show ?thesis by blast
qed

text \<open>
  What is expected of the session store and of the counters, with a clock \<open>now\<close> and the time \<open>till\<close> which a
  key is disabled: a key reads as disabled before that time, disabling sets it to the time-to-live from
  now, the key depends on the identity alone, and counting touches neither.
\<close>

definition timed_breaker :: "'w GatewayDeps \<Rightarrow> 'w SessionStore \<Rightarrow> ('w \<Rightarrow> int) \<Rightarrow> (string \<Rightarrow> 'w \<Rightarrow> int) \<Rightarrow> bool" where
  "timed_breaker deps store now till \<longleftrightarrow>
     (\<forall>k w. IsDisabled store k w \<longleftrightarrow> now w < till k w)
     \<and> (\<forall>k ttl reason w. till k (Disable store k ttl reason w) = now w + ttl)
     \<and> (\<forall>h b a w w'. ResolveKey store h b a w = ResolveKey store h b a w')
     \<and> (\<forall>stat w. now (statsInc deps stat w) = now w) \<and> (\<forall>k stat w. till k (statsInc deps stat w) = till k w)"

text \<open>What happens after a turn, up to a time \<open>limit\<close>: requests of the same identity, each with whatever its
  upstream answers, at a time before the limit; and between them anything that does not shorten the time
  the key is disabled. The list has what each request sent and the actions it led to.\<close>

inductive further :: "'w GatewayDeps \<Rightarrow> RequestIdentity \<Rightarrow> ('w \<Rightarrow> int) \<Rightarrow> ('w \<Rightarrow> int) \<Rightarrow> int
    \<Rightarrow> 'w \<Rightarrow> (json \<times> jref \<times> PostAction list) list \<Rightarrow> 'w \<Rightarrow> bool" for deps ident now till limit where
  none: "further deps ident now till limit w [] w"
| elapse: "further deps ident now till limit w sends w1 \<Longrightarrow> till w1 \<le> till w2 \<Longrightarrow> further deps ident now till limit w sends w2"
| request: "further deps ident now till limit w sends w1 \<Longrightarrow> now w1 < limit \<Longrightarrow>
    BufferedMutate (Some c) key sp ident cfg deps (Some ctx0) w1 = Some (c', Some ctx, w2) \<Longrightarrow>
    gw_run deps key (c', Some ctx, w2) acts (c'', ctx'', w3) \<Longrightarrow>
    further deps ident now till limit w (sends @ [(c, c'', acts)]) w3"

lemma gw_run_inert:
  assumes "gw_run deps key s acts s'" "s = (c, Some ctx, w)" "\<not> ctxMutated ctx"
  shows "s' = s \<and> PostResend \<notin> set acts"
  using assms
proof (induction s acts s' rule: gw_run.induct)
  case (step s acts s' ev act s'')
  then show ?case using not_mutated_inert [OF step.prems(2), of deps key ev c w] by simp
qed simp

text \<open>A request in the time the key is disabled.\<close>

lemma disabled_passes:
  assumes "Sessions deps = Some store" "IsDisabled store k w"
    and "ResolveKey store (SessionHeader ident) (Bearer ident) (AuthIdentity ident) w = Some k"
  shows "\<exists>ctx w'. BufferedMutate (Some c) key sp ident cfg deps (Some ctx0) w = Some (Some c, Some ctx, w')
    \<and> \<not> ctxMutated ctx \<and> (w' = w \<or> w' = statsInc deps ''session_disabled_blocks'' w)"
  using assms by (auto simp: BufferedMutate_def zero_ctx_def Let_def)

lemma further_passes:
  assumes "further deps ident now (till k) limit w sends w'" "timed_breaker deps store now till" "Sessions deps = Some store"
    and "ResolveKey store (SessionHeader ident) (Bearer ident) (AuthIdentity ident) w = Some k" "limit \<le> till k w"
  shows "limit \<le> till k w' \<and> (\<forall>(c, sent, acts) \<in> set sends. sent = Some c \<and> PostResend \<notin> set acts)"
  using assms(1,5)
proof (induction rule: further.induct)
  case (request w sends w1 c key sp cfg ctx0 c' ctx w2 acts c'' ctx'' w3)
  then have "IsDisabled store k w1" using assms(2) by (auto simp: timed_breaker_def)
  moreover have "ResolveKey store (SessionHeader ident) (Bearer ident) (AuthIdentity ident) w1 = Some k"
    using assms(2,4) unfolding timed_breaker_def by metis
  ultimately have "c' = Some c" "\<not> ctxMutated ctx" "w2 = w1 \<or> w2 = statsInc deps ''session_disabled_blocks'' w1"
    using disabled_passes [OF assms(3), of k w1 ident c key sp cfg ctx0] request.hyps(3) by auto
  moreover have "(c'', ctx'', w3) = (c', Some ctx, w2) \<and> PostResend \<notin> set acts"
    by (rule gw_run_inert [OF request.hyps(4) refl calculation(2)])
  moreover have "till k w2 = till k w1" using calculation(3) assms(2) by (auto simp: timed_breaker_def)
  ultimately show ?case using request.IH request.prems by auto
qed auto

text \<open>C22: a tripped session passes through until its time is over. Let the session store keep its promises
  (\<open>timed_breaker\<close>) and let a turn have tripped the breaker. Then the key is disabled for exactly the
  configured time-to-live from the trip on, and every further request of the same identity within that
  time, however many, whatever their containers, configurations and upstream answers, and whatever
  else happens in between that does not enable the key, is sent as it came and never resent; and so is
  the next one.\<close>

theorem tripped_session_passes:
  assumes "BufferedMutate (Some c) key sp ident cfg deps (Some ctx0) w0 = Some (c', Some ctx, w)" "ctxMutated ctx"
    and "gw_run deps key (c', Some ctx, w) acts (c'', Some ctx1, w1)" "\<not> ctxMutated ctx1"
    and "Sessions deps = Some store" "timed_breaker deps store now till"
    and "further deps ident now (till (Key ctx)) (now w + SessionDisableTTLMS cfg) w1 sends w2"
  shows "till (Key ctx) w1 = now w + SessionDisableTTLMS cfg
    \<and> (\<forall>(c, sent, acts) \<in> set sends. sent = Some c \<and> PostResend \<notin> set acts)
    \<and> (if now w2 < now w + SessionDisableTTLMS cfg
       then \<exists>ctx3 w3. BufferedMutate (Some c3) key3 sp3 ident cfg3 deps (Some ctx0') w2 = Some (Some c3, Some ctx3, w3)
              \<and> \<not> ctxMutated ctx3
       else True)"
  using assms(1)
proof (cases rule: BufferedMutate_cases)
  case (pristine ctx2)
  then show ?thesis using assms(2) by simp
next
  case (mutated ctx2 store2 msgs reduced)
  let ?limit = "now w + SessionDisableTTLMS cfg"
  have a: "applied c key sp cfg deps ctx c' msgs reduced" "HaveKey ctx" "key \<noteq> []" "TTLMS ctx = SessionDisableTTLMS cfg"
    "ResolveKey store (SessionHeader ident) (Bearer ident) (AuthIdentity ident) w0 = Some (Key ctx)"
    using mutated assms(5) by simp_all
  note laws = assms(6) [unfolded timed_breaker_def]
  have key: "ResolveKey store (SessionHeader ident) (Bearer ident) (AuthIdentity ident) x = Some (Key ctx)" for x
    using laws a(5) by metis
  have "\<exists>stat reason. w1 = statsInc deps stat (disable deps (Key ctx) (TTLMS ctx) reason w)"
    using gw_run_invariant [OF assms(3) a(1) assms(2) a(3,2)] assms(2,4) by auto
  then have trip: "till (Key ctx) w1 = ?limit" using assms(5) laws a(4) by (auto simp: disable_def)
  then have f: "?limit \<le> till (Key ctx) w2" "\<forall>(c, sent, acts) \<in> set sends. sent = Some c \<and> PostResend \<notin> set acts"
    using further_passes [OF assms(7,6,5) key] by auto
  have "\<exists>ctx3 w3. BufferedMutate (Some c3) key3 sp3 ident cfg3 deps (Some ctx0') w2 = Some (Some c3, Some ctx3, w3)
      \<and> \<not> ctxMutated ctx3" if "now w2 < ?limit"
  proof -
    have "IsDisabled store (Key ctx) w2" using that f(1) laws by auto
    from disabled_passes [OF assms(5) this key] show ?thesis by blast
  qed
  then show ?thesis using trip f(2) by simp
qed

section \<open>A request that is reduced\<close>

definition big_body :: string where "big_body = CHR ''x'' # replicate 799 (CHR ''x'')"

definition big_messages :: "json list" where
  "big_messages = [role_message ''tool'' big_body, role_message ''assistant'' ''ok'']"

definition big_request :: json where
  "big_request = JSONObject [(''model'', JSONString ''m''), (''messages'', JSONArray big_messages)]"

definition sample_gateway :: GatewayConfig where
  "sample_gateway = \<lparr> cfgMutateOn = True, SessionDisableTTLMS = 1000, FoldRetainedMsgs = 1 \<rparr>"

text \<open>The outside world: the disabled keys.\<close>

definition sample_store :: "string set SessionStore" where
  "sample_store = \<lparr> ResolveKey = (\<lambda>h b a w. if h = [] then None else Some h), IsDisabled = (\<lambda>k w. k \<in> w),
     Disable = (\<lambda>k ttl r w. insert k w) \<rparr>"

definition sample_deps :: "string set GatewayDeps" where
  "sample_deps = \<lparr> Sessions = Some sample_store, Stats = None, Repair = None \<rparr>"

definition sample_ident :: RequestIdentity where
  "sample_ident = \<lparr> SessionHeader = ''s1'', Bearer = [], AuthIdentity = [] \<rparr>"

definition big_out :: string where
  "big_out = take 512 big_body @ omitted_notice 208 @ drop 720 big_body"

lemma big_shrinks: "CompactBody big_body [] (Some (compress_config (compress_lever (gateway_reduce cfg)))) = Some big_out"
proof -
  have c: "compress_config (compress_lever (gateway_reduce cfg))
      = \<lparr> CompactEnabled = True, Threshold = 160, HeadBytes = 0, TailBytes = 80, PerTool = [] \<rparr>"
    by (simp add: compress_config_def compress_lever_def gateway_reduce_def gateway_fold_def or_default_def
        fold_defaults compact_defaults signed_divide_int_def sgn_if)
  show ?thesis
    using compactPlaintext_ok [of 512 80 big_body]
    by (simp add: c CompactBody_def tool_threshold_def startsWithJSON_def big_body_def compact_defaults big_out_def)
qed

lemma length_big: "length big_body = 800" "length big_out = 621"
proof -
  have "length (omitted_notice 208) = 29" by code_simp
  then show "length big_body = 800" "length big_out = 621" by (simp_all add: big_body_def big_out_def)
qed

lemma big_compresses:
  "\<exists>r. CompressView (Some (JSONArray big_messages)) (Some (compress_lever (gateway_reduce sample_gateway))) = Some r
     \<and> Folded r \<and> Messages r = Some (JSONArray [role_message ''tool'' big_out, role_message ''assistant'' ''ok''])"
proof -
  let ?cc = "compress_config (compress_lever (gateway_reduce sample_gateway))"
  let ?m = "role_message ''tool'' big_body"
  have get: "Get (Some ?m) ''content'' = Some (JSONString big_body)" "GetString (Some ?m) ''role'' = ''tool''"
    "GetString (Some ?m) ''type'' = []"
    by (simp_all add: role_message_def NewString_def NewObject_def GetString_def)
  have th: "Threshold ?cc = 160"
    by (simp add: compress_config_def compress_lever_def gateway_reduce_def gateway_fold_def or_default_def fold_defaults Let_def)
  have s: "Set ''content'' (NewString big_out) ?m = role_message ''tool'' big_out"
    by (simp add: role_message_def NewObject_def)
  have "big_out \<noteq> []" using length_big by auto
  then have f: "compressBodyField ?m ''content'' ?cc 0 empty_CoordSet
      = Some (role_message ''tool'' big_out, True, 800, nominate big_body (turn_provenance 0) empty_CoordSet)"
    using length_big by (simp add: compressBodyField_def get Text_def th big_shrinks s)
  have "Get (Some (role_message ''tool'' big_out)) ''content'' = Some (JSONString big_out)"
    by (simp add: role_message_def NewString_def NewObject_def)
  then have "compressMessageBodies ?m ?cc 0 empty_CoordSet
      = Some (role_message ''tool'' big_out, 1, 800, nominate big_body (turn_provenance 0) empty_CoordSet)"
    using f by (simp add: compressMessageBodies_def get)
  moreover have "cfgRetainedMsgs (compress_lever (gateway_reduce sample_gateway)) = 1"
    "FoldEnabled (compress_lever (gateway_reduce sample_gateway))"
    "\<not> Enabled (cfgCloset (compress_lever (gateway_reduce sample_gateway)))"
    by (simp_all add: compress_lever_def gateway_reduce_def gateway_fold_def sample_gateway_def)
  ultimately show ?thesis
    by (simp add: CompressView_def big_messages_def or_default_def RenderCloset_def Let_def split: prod.split del: At.simps)
qed


lemma print_tool_message:
  "length (PrintJSONUnformatted (JSONArray [role_message r b, m]))
     = length (PrintJSONUnformatted (JSONArray [role_message r [], m])) + length (concat (map cjsonEscapeByte b))"
  by (simp add: role_message_def NewString_def NewObject_def print_member_def cjsonEscape_def)

lemma escape_x: "cjsonEscapeByte (CHR ''x'') = ''x''"
  by code_simp

lemma escape_xs: "length (concat (replicate n (cjsonEscapeByte (CHR ''x'')))) = n"
  by (induction n) (simp_all add: escape_x)

lemma big_tokens:
  "nodeTokenEstimate (Some (JSONArray [role_message ''tool'' big_out, role_message ''assistant'' ''ok'']))
     < nodeTokenEstimate (Some (JSONArray big_messages))"
proof -
  let ?m = "role_message ''assistant'' ''ok''"
  have n: "length (concat (map cjsonEscapeByte (omitted_notice 208))) = 31" by code_simp
  have b: "big_body = replicate 800 (CHR ''x'')" by (simp add: big_body_def numeral_eq_Suc)
  have "length (concat (map cjsonEscapeByte big_out)) = 623"
    unfolding big_out_def b by (simp add: escape_xs n)
  moreover have "length (concat (map cjsonEscapeByte big_body)) = 800" unfolding b by (simp add: escape_xs)
  ultimately show ?thesis
    unfolding nodeTokenEstimate_def option.case big_messages_def print_tool_message [of "''tool''" big_out]
      print_tool_message [of "''tool''" big_body] charsPerTokenEst_def
    by linarith
qed

lemma big_reduces:
  "\<exists>res. Reduce (Some (JSONArray big_messages)) [] SeamGateway (Some (gateway_reduce sample_gateway)) None = Some (res, None)
     \<and> outMessages res = Some (JSONArray [role_message ''tool'' big_out, role_message ''assistant'' ''ok''])
     \<and> Mutated res \<and> Reason res = ReduceReasonReduced \<and> ReducedTokens res < BaselineTokens res"
proof -
  obtain r where r: "CompressView (Some (JSONArray big_messages)) (Some (compress_lever (gateway_reduce sample_gateway))) = Some r"
    "Folded r" "Messages r = Some (JSONArray [role_message ''tool'' big_out, role_message ''assistant'' ''ok''])"
    using big_compresses by blast
  have flags: "Compress (gateway_reduce sample_gateway)" "\<not> MeasureOnly (gateway_reduce sample_gateway)"
    "\<not> HistoryFold (gateway_reduce sample_gateway)" "seam_on SeamGateway (gateway_reduce sample_gateway)"
    "\<not> Priced (Rates (gateway_reduce sample_gateway))"
    by (simp_all add: gateway_reduce_def seam_on_def)
  show ?thesis
    using r flags big_tokens
    by (simp add: Reduce_def reduce_compress_def reduce_ledger_def zero_result_def Let_def del: Len.simps)
qed

lemma big_mutates_at:
  assumes "Sessions deps = Some store" "Stats deps = None" "Repair deps = None"
    and "ResolveKey store (SessionHeader ident) (Bearer ident) (AuthIdentity ident) w0 = Some k" "\<not> IsDisabled store k w0"
  shows "\<exists>ctx. BufferedMutate (Some big_request) ''messages'' [] ident sample_gateway deps (Some zero_ctx) w0
     = Some (Some (Set ''messages'' (JSONArray [role_message ''tool'' big_out, role_message ''assistant'' ''ok'']) big_request), Some ctx, w0)
   \<and> ctxMutated ctx \<and> Key ctx = k"
proof -
  obtain res where r: "Reduce (Some (JSONArray big_messages)) [] SeamGateway (Some (gateway_reduce sample_gateway)) None = Some (res, None)"
    "outMessages res = Some (JSONArray [role_message ''tool'' big_out, role_message ''assistant'' ''ok''])"
    "Mutated res" "Reason res = ReduceReasonReduced" "ReducedTokens res < BaselineTokens res"
    using big_reduces by blast
  have "GWShouldApply True (Some res) ReduceErrNone (Repair deps) = GWBypassNone"
    using r assms(3) by (simp add: GWShouldApply_cases)
  moreover have "Get (Some big_request) ''messages'' = Some (JSONArray big_messages)" by (simp add: big_request_def)
  ultimately show ?thesis
    using r(1,2) assms
    by (simp add: BufferedMutate_def mutate_array_def sample_gateway_def [THEN arg_cong [where f = cfgMutateOn]]
        statsInc_def GWSnapshotMessages_def GWReplaceMessages_def big_request_def Let_def)
qed

lemma big_mutates:
  "\<exists>ctx w. BufferedMutate (Some big_request) ''messages'' [] sample_ident sample_gateway sample_deps (Some zero_ctx) {}
     = Some (Some (Set ''messages'' (JSONArray [role_message ''tool'' big_out, role_message ''assistant'' ''ok'']) big_request), Some ctx, w)
   \<and> ctxMutated ctx"
  using big_mutates_at [of sample_deps sample_store sample_ident "{}" "''s1''"]
  by (auto simp: sample_deps_def sample_store_def sample_ident_def)

theorem BufferedMutate_safe_witness:
  "\<exists>ctx w msgs reduced. BufferedMutate (Some big_request) ''messages'' [] sample_ident sample_gateway sample_deps (Some zero_ctx) {}
       = Some (Some (Set ''messages'' reduced big_request), Some ctx, w)
     \<and> Set ''messages'' (JSONArray msgs) (Set ''messages'' reduced big_request) = big_request"
proof -
  obtain c' ctx w where m: "BufferedMutate (Some big_request) ''messages'' [] sample_ident sample_gateway sample_deps (Some zero_ctx) {}
      = Some (c', Some ctx, w)" "ctxMutated ctx" using big_mutates by blast
  then obtain msgs reduced where "applied big_request ''messages'' [] sample_gateway sample_deps ctx c' msgs reduced"
    using BufferedMutate_safe [OF m(1)] by auto
  then have "c' = Some (Set ''messages'' reduced big_request)"
    "Set ''messages'' (JSONArray msgs) (Set ''messages'' reduced big_request) = big_request"
    by (simp_all add: applied_def)
  with m(1) show ?thesis by blast
qed

lemma big_4xx:
  assumes "BufferedMutate (Some big_request) ''messages'' [] ident sample_gateway deps (Some zero_ctx) w0
      = Some (c', Some ctx, w)" "ctxMutated ctx"
  shows "\<exists>ctx'. gw_run deps ''messages'' (c', Some ctx, w) [PostResend]
      (Some (restored big_request ''messages'' deps big_messages), Some ctx', statsInc deps ''4xx_restore_resend''
         (disable deps (Key ctx) (TTLMS ctx) ''4xx'' w))
    \<and> \<not> ctxMutated ctx'"
  using assms(1)
proof (cases rule: BufferedMutate_cases)
  case (pristine ctx1)
  then show ?thesis using assms(2) by simp
next
  case (mutated ctx1 store msgs reduced)
  then have a: "applied big_request ''messages'' [] sample_gateway deps ctx c' msgs reduced" by simp
  then have "msgs = big_messages" by (simp add: applied_def big_request_def)
  moreover have "(400 :: int) sdiv 100 = 4" by (simp add: signed_divide_int_def sgn_if)
  ultimately obtain ctx' where "BufferedAfterStatus c' ''messages'' 400 deps (Some ctx) w =
      (PostResend, Some (restored big_request ''messages'' deps big_messages), Some ctx',
       statsInc deps ''4xx_restore_resend'' (disable deps (Key ctx) (TTLMS ctx) ''4xx'' w))" "\<not> ctxMutated ctx'"
    using after_4xx [OF a assms(2)] by blast
  then have "gw_handle deps ''messages'' (UpstreamStatus 400) (c', Some ctx, w) =
      (PostResend, Some (restored big_request ''messages'' deps big_messages), Some ctx',
       statsInc deps ''4xx_restore_resend'' (disable deps (Key ctx) (TTLMS ctx) ''4xx'' w))"
    by (simp add: gw_handle_def)
  from gw_run.step [OF gw_run.start this] \<open>\<not> ctxMutated ctx'\<close> show ?thesis by auto
qed

theorem gateway_turn_witness:
  "\<exists>ctx w s. gw_run sample_deps ''messages'' (Some (Set ''messages''
       (JSONArray [role_message ''tool'' big_out, role_message ''assistant'' ''ok'']) big_request), Some ctx, w) [PostResend] s
     \<and> fst s = Some big_request"
proof -
  obtain c' ctx w where m: "BufferedMutate (Some big_request) ''messages'' [] sample_ident sample_gateway sample_deps (Some zero_ctx) {}
      = Some (c', Some ctx, w)" "ctxMutated ctx"
    "c' = Some (Set ''messages'' (JSONArray [role_message ''tool'' big_out, role_message ''assistant'' ''ok'']) big_request)"
    using big_mutates by blast
  obtain c2 ctx2 w2 where r: "gw_run sample_deps ''messages'' (c', Some ctx, w) [PostResend] (c2, Some ctx2, w2)"
    using big_4xx [OF m(1,2)] by blast
  obtain msgs where "Get (Some big_request) ''messages'' = Some (JSONArray msgs)"
    "c2 = Some (restored big_request ''messages'' sample_deps msgs)"
    using gateway_turn [OF m(1,2) r] by auto
  then have "c2 = Some big_request" by (simp add: restored_def sample_deps_def)
  with r m(3) show ?thesis by auto
qed

text \<open>A store with a clock: the time and the time each key is disabled till.\<close>

definition clock_store :: "(int \<times> (string \<Rightarrow> int)) SessionStore" where
  "clock_store = \<lparr> ResolveKey = (\<lambda>h b a w. if h = [] then None else Some h), IsDisabled = (\<lambda>k (t, u). t < u k),
     Disable = (\<lambda>k ttl r (t, u). (t, u(k := t + ttl))) \<rparr>"

definition clock_deps :: "(int \<times> (string \<Rightarrow> int)) GatewayDeps" where
  "clock_deps = \<lparr> Sessions = Some clock_store, Stats = None, Repair = None \<rparr>"

lemma clock_laws: "timed_breaker clock_deps clock_store fst (\<lambda>k w. snd w k)"
  by (simp add: timed_breaker_def clock_deps_def clock_store_def statsInc_def split_beta)

text \<open>The witness: a turn at time 100 is reduced, refused by the provider and trips the breaker for a second;
  a request at time 600 and one at 1099 pass, and one at time 1100 is reduced again.\<close>

theorem tripped_session_passes_witness:
  "\<exists>ctx w1 ctx1.
     BufferedMutate (Some big_request) ''messages'' [] sample_ident sample_gateway clock_deps (Some zero_ctx) (100, \<lambda>_. 0)
       = Some (Some (Set ''messages'' (JSONArray [role_message ''tool'' big_out, role_message ''assistant'' ''ok'']) big_request),
               Some ctx, (100, \<lambda>_. 0))
   \<and> gw_run clock_deps ''messages'' (Some (Set ''messages'' (JSONArray [role_message ''tool'' big_out,
         role_message ''assistant'' ''ok'']) big_request), Some ctx, (100, \<lambda>_. 0)) [PostResend] (Some big_request, Some ctx1, w1)
   \<and> (\<exists>ctx2 w2. BufferedMutate (Some big_request) ''messages'' [] sample_ident sample_gateway clock_deps (Some zero_ctx) (600, snd w1)
         = Some (Some big_request, Some ctx2, w2))
   \<and> (\<exists>ctx3 w3. BufferedMutate (Some big_request) ''messages'' [] sample_ident sample_gateway clock_deps (Some zero_ctx) (1099, snd w1)
         = Some (Some big_request, Some ctx3, w3))
   \<and> (\<exists>c4 ctx4 w4. BufferedMutate (Some big_request) ''messages'' [] sample_ident sample_gateway clock_deps (Some zero_ctx) (1100, snd w1)
         = Some (c4, Some ctx4, w4) \<and> ctxMutated ctx4)"
proof -
  let ?w = "(100, \<lambda>_. 0) :: int \<times> (string \<Rightarrow> int)"
  let ?sent = "Some (Set ''messages'' (JSONArray [role_message ''tool'' big_out, role_message ''assistant'' ''ok'']) big_request)"
  have deps: "Sessions clock_deps = Some clock_store" "Stats clock_deps = None" "Repair clock_deps = None"
    "ResolveKey clock_store (SessionHeader sample_ident) (Bearer sample_ident) (AuthIdentity sample_ident) w = Some ''s1''" for w
    by (simp_all add: clock_deps_def clock_store_def sample_ident_def)
  have dis: "IsDisabled clock_store k (t, u) \<longleftrightarrow> t < u k" for k t u by (simp add: clock_store_def)
  have ttl: "SessionDisableTTLMS sample_gateway = 1000" by (simp add: sample_gateway_def)
  obtain ctx where m: "BufferedMutate (Some big_request) ''messages'' [] sample_ident sample_gateway clock_deps (Some zero_ctx) ?w
      = Some (?sent, Some ctx, ?w)" "ctxMutated ctx" "Key ctx = ''s1''"
    using big_mutates_at [OF deps(1-4), of ?w] by (auto simp: dis)
  obtain ctx1 w1 where g: "gw_run clock_deps ''messages'' (?sent, Some ctx, ?w) [PostResend] (Some big_request, Some ctx1, w1)"
    "\<not> ctxMutated ctx1"
  proof -
    have "restored big_request ''messages'' clock_deps big_messages = big_request" by (simp add: restored_def deps(3))
    with big_4xx [OF m(1,2)] that show thesis by metis
  qed
  have elapse: "further clock_deps sample_ident fst (\<lambda>w. snd w (Key ctx)) (fst ?w + SessionDisableTTLMS sample_gateway) w1 [] (t, snd w1)" for t
    by (rule further.elapse [OF further.none]) simp
  have pass: "\<exists>ctx3 w3. BufferedMutate (Some big_request) ''messages'' [] sample_ident sample_gateway clock_deps (Some zero_ctx) (t, snd w1)
         = Some (Some big_request, Some ctx3, w3)" if "t < 1100" for t
    using tripped_session_passes [OF m(1,2) g deps(1) clock_laws elapse [of t], of big_request "''messages''" "[]" sample_gateway zero_ctx]
      that by (auto simp: ttl)
  have "snd w1 ''s1'' = 1100"
    using tripped_session_passes [OF m(1,2) g deps(1) clock_laws elapse [of 0], of big_request "''messages''" "[]" sample_gateway zero_ctx]
      m(3) by (simp add: ttl)
  then have again: "\<exists>ctx4. BufferedMutate (Some big_request) ''messages'' [] sample_ident sample_gateway clock_deps (Some zero_ctx) (1100, snd w1)
         = Some (?sent, Some ctx4, (1100, snd w1)) \<and> ctxMutated ctx4"
    using big_mutates_at [OF deps(1-4), of "(1100, snd w1)"] by (auto simp: dis)
  have "\<exists>c4 ctx4 w4. BufferedMutate (Some big_request) ''messages'' [] sample_ident sample_gateway clock_deps (Some zero_ctx) (1100, snd w1)
         = Some (c4, Some ctx4, w4) \<and> ctxMutated ctx4" using again by blast
  moreover have "(600 :: int) < 1100" "(1099 :: int) < 1100" by simp_all
  note pass [OF this(1)] pass [OF this(2)]
  ultimately show ?thesis using m(1) g(1) by blast
qed

end
