(* ===== verification/RepairPairs.thy ===== *)
theory RepairPairs
  imports Json JsonParse Interfaces
begin

text \<open>
  \<open>repair.go\<close>: the repair of tool pairs in a message history, for the three wire shapes, and the
  coercion of tool-call arguments. The functions update the array in place; here they return the
  updated messages with the count of repairs. A loop that removes backwards by index is a filter.
\<close>

definition cancelMsg :: string where "cancelMsg = ''[Tool call was cancelled or timed out]''"

datatype msg_format = fmtOpenAI | fmtAnthropic | fmtResponses

record idSet =
  order :: "string list"
  id_seen :: "string set"

definition newIDSet :: idSet where "newIDSet = \<lparr> order = [], id_seen = {} \<rparr>"

definition id_has :: "idSet \<Rightarrow> string \<Rightarrow> bool" where "id_has s i \<longleftrightarrow> i \<in> id_seen s"

definition id_add :: "string \<Rightarrow> idSet \<Rightarrow> idSet" where
  "id_add i s = (if id_has s i then s else \<lparr> order = order s @ [i], id_seen = insert i (id_seen s) \<rparr>)"

definition id_empty :: "idSet \<Rightarrow> bool" where "id_empty s \<longleftrightarrow> order s = []"

text \<open>The contents of a field that is present as a string.\<close>

definition stringField :: "jref \<Rightarrow> string \<Rightarrow> string option" where
  "stringField v key = (case Get v key of Some (JSONString s) \<Rightarrow> Some s | _ \<Rightarrow> None)"

definition opt_add :: "string option \<Rightarrow> idSet \<Rightarrow> idSet" where
  "opt_add i s = (case i of None \<Rightarrow> s | Some i \<Rightarrow> id_add i s)"

text \<open>The items of a field that is an array.\<close>

definition array_field :: "json \<Rightarrow> string \<Rightarrow> json list" where
  "array_field m key = Items (Get (Some m) key)"

section \<open>Calls and results\<close>

definition collect_calls :: "json \<Rightarrow> idSet \<Rightarrow> idSet" where
  "collect_calls msg ids =
     (let ids = (if GetString (Some msg) ''role'' = ''assistant'' then
                   let ids = fold (\<lambda>tc. opt_add (stringField (Some tc) ''id'')) (array_field msg ''tool_calls'') ids
                   in fold (\<lambda>b ids. if GetString (Some b) ''type'' = ''tool_use''
                                    then opt_add (stringField (Some b) ''id'') ids else ids)
                        (array_field msg ''content'') ids
                 else ids)
      in if GetString (Some msg) ''type'' = ''function_call''
         then opt_add (stringField (Some msg) ''call_id'') ids else ids)"

definition collectToolCallIDs :: "json list \<Rightarrow> idSet" where
  "collectToolCallIDs ms = fold collect_calls ms newIDSet"

definition collect_results :: "json \<Rightarrow> idSet \<Rightarrow> idSet" where
  "collect_results msg ids =
     (let role = GetString (Some msg) ''role'';
          ids = (if role = ''tool'' then opt_add (stringField (Some msg) ''tool_call_id'') ids
                 else if role = ''user'' then
                   fold (\<lambda>b ids. if GetString (Some b) ''type'' = ''tool_result''
                                 then opt_add (stringField (Some b) ''tool_use_id'') ids else ids)
                     (array_field msg ''content'') ids
                 else ids)
      in if GetString (Some msg) ''type'' = ''function_call_output''
         then opt_add (stringField (Some msg) ''call_id'') ids else ids)"

definition collectToolResultIDs :: "json list \<Rightarrow> idSet" where
  "collectToolResultIDs ms = fold collect_results ms newIDSet"

fun detectFormat :: "json list \<Rightarrow> msg_format" where
  "detectFormat [] = fmtOpenAI"
| "detectFormat (m # ms) =
     (let t = GetString (Some m) ''type''; role = GetString (Some m) ''role''
      in if t = ''function_call'' \<or> t = ''function_call_output'' then fmtResponses
         else if role = [] then detectFormat ms
         else if role = ''assistant''
              \<and> list_ex (\<lambda>b. GetString (Some b) ''type'' = ''tool_use'') (array_field m ''content'') then fmtAnthropic
         else if role = ''tool'' then fmtOpenAI
         else detectFormat ms)"

section \<open>OpenAI\<close>

definition tool_message :: "string \<Rightarrow> json" where
  "tool_message i = Set ''content'' (NewString cancelMsg)
     (Set ''tool_call_id'' (NewString i) (Set ''role'' (NewString ''tool'') NewObject))"

text \<open>Where the issuing assistant message stands.\<close>

fun issuer :: "string \<Rightarrow> json list \<Rightarrow> nat option" where
  "issuer i [] = None"
| "issuer i (m # ms) =
     (if GetString (Some m) ''role'' = ''assistant''
         \<and> list_ex (\<lambda>tc. GetString (Some tc) ''id'' = i) (array_field m ''tool_calls'')
      then Some 0 else map_option Suc (issuer i ms))"

definition answer_openai :: "string \<Rightarrow> json list \<Rightarrow> json list" where
  "answer_openai i ms =
     (case issuer i ms of
        None \<Rightarrow> ms @ [tool_message i]
      | Some j \<Rightarrow>
          let k = j + 1;
              k = k + length (takeWhile (\<lambda>m. GetString (Some m) ''role'' = ''tool'') (drop k ms))
          in take k ms @ tool_message i # drop k ms)"

text \<open>Answer the calls of \<open>ids\<close> that have no result.\<close>

definition answer_all :: "(string \<Rightarrow> json list \<Rightarrow> json list) \<Rightarrow> idSet \<Rightarrow> idSet \<Rightarrow> json list \<Rightarrow> json list \<times> int" where
  "answer_all answer callIDs resultIDs ms =
     fold (\<lambda>i (ms, n). if id_has resultIDs i then (ms, n) else (answer i ms, n + 1)) (order callIDs) (ms, 0)"

definition orphan :: "idSet \<Rightarrow> string option \<Rightarrow> bool" where
  "orphan callIDs i \<longleftrightarrow> (case i of None \<Rightarrow> False | Some i \<Rightarrow> \<not> id_has callIDs i)"

definition drop_where :: "(json \<Rightarrow> bool) \<Rightarrow> json list \<Rightarrow> json list \<times> int" where
  "drop_where P ms = (filter (\<lambda>m. \<not> P m) ms, int (length (filter P ms)))"

definition repairOrphansOpenAI :: "json list \<Rightarrow> idSet \<Rightarrow> idSet \<Rightarrow> json list \<times> int" where
  "repairOrphansOpenAI ms callIDs resultIDs =
     (let (ms, n) = answer_all answer_openai callIDs resultIDs ms;
          (ms, d) = drop_where (\<lambda>m. GetString (Some m) ''role'' = ''tool''
                      \<and> orphan callIDs (stringField (Some m) ''tool_call_id'')) ms
      in (ms, n + d))"

section \<open>Anthropic\<close>

definition tool_result :: "string \<Rightarrow> json" where
  "tool_result i = Set ''content'' (NewString cancelMsg)
     (Set ''tool_use_id'' (NewString i) (Set ''type'' (NewString ''tool_result'') NewObject))"

definition issues :: "string \<Rightarrow> json \<Rightarrow> bool" where
  "issues i m \<longleftrightarrow> GetString (Some m) ''role'' = ''assistant''
     \<and> list_ex (\<lambda>b. GetString (Some b) ''type'' = ''tool_use'' \<and> GetString (Some b) ''id'' = i) (array_field m ''content'')"

text \<open>The walk: append the block to the first user message with a content array after the call, or to
  a new user message at the end.\<close>

fun answer_anthropic_walk :: "string \<Rightarrow> bool \<Rightarrow> json list \<Rightarrow> json list" where
  "answer_anthropic_walk i found [] =
     [Set ''content'' (Append (tool_result i) NewArray) (Set ''role'' (NewString ''user'') NewObject)]"
| "answer_anthropic_walk i found (m # ms) =
     (if \<not> found then m # answer_anthropic_walk i (issues i m) ms
      else if GetString (Some m) ''role'' = ''user'' \<and> IsArray (Get (Some m) ''content'')
           then Set ''content'' (JSONArray (array_field m ''content'' @ [tool_result i])) m # ms
           else m # answer_anthropic_walk i True ms)"

definition answer_anthropic :: "string \<Rightarrow> json list \<Rightarrow> json list" where
  "answer_anthropic i ms = answer_anthropic_walk i False ms"

text \<open>One user message of the second loop: what is left of it and the blocks removed.\<close>

definition orphan_block :: "idSet \<Rightarrow> json \<Rightarrow> bool" where
  "orphan_block callIDs b \<longleftrightarrow> GetString (Some b) ''type'' = ''tool_result''
     \<and> orphan callIDs (stringField (Some b) ''tool_use_id'')"

definition prune_message :: "idSet \<Rightarrow> json \<Rightarrow> json list \<times> int" where
  "prune_message callIDs m =
     (if GetString (Some m) ''role'' \<noteq> ''user'' \<or> \<not> IsArray (Get (Some m) ''content'') then ([m], 0)
      else let (bs, d) = drop_where (orphan_block callIDs) (array_field m ''content'')
           in (if bs = [] then [] else [Set ''content'' (JSONArray bs) m], d))"

definition repairOrphansAnthropic :: "json list \<Rightarrow> idSet \<Rightarrow> idSet \<Rightarrow> json list \<times> int" where
  "repairOrphansAnthropic ms callIDs resultIDs =
     (let (ms, n) = answer_all answer_anthropic callIDs resultIDs ms
      in (concat (map (fst \<circ> prune_message callIDs) ms), n + sum_list (map (snd \<circ> prune_message callIDs) ms)))"

section \<open>Responses\<close>

definition call_output :: "string \<Rightarrow> json" where
  "call_output i = Set ''output'' (NewString cancelMsg)
     (Set ''call_id'' (NewString i) (Set ''type'' (NewString ''function_call_output'') NewObject))"

definition repairOrphansResponses :: "json list \<Rightarrow> idSet \<Rightarrow> idSet \<Rightarrow> json list \<times> int" where
  "repairOrphansResponses ms callIDs resultIDs =
     (let (ms, n) = answer_all (\<lambda>i ms. ms @ [call_output i]) callIDs resultIDs ms;
          (ms, d) = drop_where (\<lambda>m. GetString (Some m) ''type'' = ''function_call_output''
                      \<and> orphan callIDs (stringField (Some m) ''call_id'')) ms
      in (ms, n + d))"

section \<open>The whole pass\<close>

definition sanitize_call :: "json \<Rightarrow> json" where
  "sanitize_call tc =
     (case Get (Some tc) ''function'' of
        None \<Rightarrow> tc
      | Some fn \<Rightarrow>
          (case Get (Some fn) ''arguments'' of
             Some (JSONString s) \<Rightarrow>
               if ParseJSON s \<noteq> None then tc
               else Set ''function'' (Set ''arguments'' (NewString ''{}'') (Delete ''arguments'' fn)) tc
           | _ \<Rightarrow> Set ''function'' (Set ''arguments'' (NewString ''{}'') (Delete ''arguments'' fn)) tc))"

definition SanitizeAssistantToolArguments :: "json \<Rightarrow> json" where
  "SanitizeAssistantToolArguments msg =
     (if \<not> IsArray (Get (Some msg) ''tool_calls'') then msg
      else Set ''tool_calls'' (JSONArray (map sanitize_call (array_field msg ''tool_calls''))) msg)"

definition sanitize_message :: "json \<Rightarrow> json" where
  "sanitize_message m =
     (if GetString (Some m) ''role'' = ''assistant'' then SanitizeAssistantToolArguments m else m)"

definition repair_messages :: "json list \<Rightarrow> json list \<times> int" where
  "repair_messages ms0 =
     (let ms = map sanitize_message ms0;
          callIDs = collectToolCallIDs ms; resultIDs = collectToolResultIDs ms
      in if id_empty callIDs \<and> id_empty resultIDs then (ms, 0)
         else (case detectFormat ms of
                 fmtAnthropic \<Rightarrow> repairOrphansAnthropic ms callIDs resultIDs
               | fmtResponses \<Rightarrow> repairOrphansResponses ms callIDs resultIDs
               | fmtOpenAI \<Rightarrow> repairOrphansOpenAI ms callIDs resultIDs))"

definition MessageHistoryRepair :: "json \<Rightarrow> json \<times> int" where
  "MessageHistoryRepair messages =
     (case messages of
        JSONArray (m # ms) \<Rightarrow> apfst JSONArray (repair_messages (m # ms))
      | _ \<Rightarrow> (messages, 0))"

end
