(* ===== verification/RepairLaws.thy ===== *)
theory RepairLaws
  imports RepairPairs
begin

text \<open>
  What the repair of \<open>repair.go\<close> guarantees. The locale \<open>repair_shape\<close> states what one wire shape owes to
  the pass, and proves pairing, the meaning of the count and idempotence from it; the three shapes are
  its interpretations.
\<close>

section \<open>The ids as lists\<close>

interpretation ids: dedup_store order id_has id_add "\<lambda>i. i" "\<lambda>i. True" "\<lambda>s. id_seen s = set (order s)"
  by unfold_locales (auto simp: id_has_def id_add_def)

text \<open>The ids a message contributes, in the order they are added.\<close>

definition present :: "(json \<Rightarrow> string option) \<Rightarrow> json list \<Rightarrow> string list" where
  "present f ms = concat (map (\<lambda>m. case f m of None \<Rightarrow> [] | Some i \<Rightarrow> [i]) ms)"

definition call_list :: "json \<Rightarrow> string list" where
  "call_list m =
     (if GetString (Some m) ''role'' = ''assistant''
      then present (\<lambda>tc. stringField (Some tc) ''id'') (array_field m ''tool_calls'')
         @ present (\<lambda>b. stringField (Some b) ''id'')
             (filter (\<lambda>b. GetString (Some b) ''type'' = ''tool_use'') (array_field m ''content''))
      else [])
     @ (if GetString (Some m) ''type'' = ''function_call'' then present (\<lambda>m. stringField (Some m) ''call_id'') [m] else [])"

definition result_list :: "json \<Rightarrow> string list" where
  "result_list m =
     (if GetString (Some m) ''role'' = ''tool'' then present (\<lambda>m. stringField (Some m) ''tool_call_id'') [m]
      else if GetString (Some m) ''role'' = ''user''
      then present (\<lambda>b. stringField (Some b) ''tool_use_id'')
             (filter (\<lambda>b. GetString (Some b) ''type'' = ''tool_result'') (array_field m ''content''))
      else [])
     @ (if GetString (Some m) ''type'' = ''function_call_output'' then present (\<lambda>m. stringField (Some m) ''call_id'') [m] else [])"

definition calls :: "json list \<Rightarrow> string set" where "calls ms = (\<Union>m \<in> set ms. set (call_list m))"
definition results :: "json list \<Rightarrow> string set" where "results ms = (\<Union>m \<in> set ms. set (result_list m))"

lemma present_simps [simp]:
  "present f [] = []" "present f (m # ms) = (case f m of None \<Rightarrow> [] | Some i \<Rightarrow> [i]) @ present f ms"
  by (simp_all add: present_def)

lemma fold_opt_add: "fold (\<lambda>m. opt_add (f m)) ms ids = fold id_add (present f ms) ids"
  by (induction ms arbitrary: ids) (auto simp: opt_add_def split: option.split)

lemma fold_opt_add_if:
  "fold (\<lambda>m ids. if P m then opt_add (f m) ids else ids) ms ids = fold id_add (present f (filter P ms)) ids"
  by (induction ms arbitrary: ids) (auto simp: opt_add_def split: option.split)

lemma collect_calls_list: "collect_calls m ids = fold id_add (call_list m) ids"
  by (simp add: collect_calls_def call_list_def fold_opt_add fold_opt_add_if opt_add_def Let_def split: option.split)

lemma collect_results_list: "collect_results m ids = fold id_add (result_list m) ids"
  by (simp add: collect_results_def result_list_def fold_opt_add_if opt_add_def Let_def split: option.split)

lemma fold_concat: "fold (\<lambda>m ids. fold g (f m) ids) ms ids = fold g (concat (map f ms)) ids"
  by (induction ms arbitrary: ids) simp_all

lemma collected:
  "set (order (collectToolCallIDs ms)) = calls ms" "id_has (collectToolCallIDs ms) i \<longleftrightarrow> i \<in> calls ms"
  "set (order (collectToolResultIDs ms)) = results ms" "id_has (collectToolResultIDs ms) i \<longleftrightarrow> i \<in> results ms"
proof -
  have c: "collectToolCallIDs ms = fold id_add (concat (map call_list ms)) newIDSet"
    "collectToolResultIDs ms = fold id_add (concat (map result_list ms)) newIDSet"
    by (simp_all add: collectToolCallIDs_def collectToolResultIDs_def collect_calls_list [abs_def]
        collect_results_list [abs_def] fold_concat)
  have v: "id_seen newIDSet = set (order newIDSet)" by (simp add: newIDSet_def)
  show s: "set (order (collectToolCallIDs ms)) = calls ms" "set (order (collectToolResultIDs ms)) = results ms"
    using ids.keys_fold [OF v] by (simp_all add: c newIDSet_def calls_def results_def)
  have "id_seen (collectToolCallIDs ms) = set (order (collectToolCallIDs ms))"
    "id_seen (collectToolResultIDs ms) = set (order (collectToolResultIDs ms))"
    unfolding c by (rule ids.valid_fold [OF v])+
  then show "id_has (collectToolCallIDs ms) i \<longleftrightarrow> i \<in> calls ms" "id_has (collectToolResultIDs ms) i \<longleftrightarrow> i \<in> results ms"
    by (simp_all add: id_has_def s)
qed

lemma calls_append [simp]: "calls (xs @ ys) = calls xs \<union> calls ys" "calls (m # ms) = set (call_list m) \<union> calls ms" "calls [] = {}"
  and results_append [simp]: "results (xs @ ys) = results xs \<union> results ys" "results (m # ms) = set (result_list m) \<union> results ms" "results [] = {}"
  by (auto simp: calls_def results_def)

section \<open>What every shape shares\<close>

text \<open>
  A wire shape answers a call and prunes orphans. The laws: an answer adds one result and no call;
  pruning keeps the calls and exactly the results of known calls, counts nothing exactly when there
  was no orphan, and leaves what it has pruned alone.
\<close>

locale repair_shape =
  fixes pure :: "json list \<Rightarrow> bool"
    and answer :: "string \<Rightarrow> json list \<Rightarrow> json list"
    and prune :: "idSet \<Rightarrow> json list \<Rightarrow> json list \<times> int"
  assumes pure_answer: "pure ms \<Longrightarrow> pure (answer i ms)"
    and calls_answer: "pure ms \<Longrightarrow> calls (answer i ms) = calls ms"
    and results_answer: "pure ms \<Longrightarrow> results (answer i ms) = insert i (results ms)"
    and pure_prune: "pure ms \<Longrightarrow> pure (fst (prune C ms))"
    and calls_prune: "pure ms \<Longrightarrow> calls (fst (prune C ms)) = calls ms"
    and results_prune: "pure ms \<Longrightarrow> results (fst (prune C ms)) = {i \<in> results ms. id_has C i}"
    and prune_count: "pure ms \<Longrightarrow> snd (prune C ms) \<ge> 0 \<and> (snd (prune C ms) = 0 \<longleftrightarrow> (\<forall>i \<in> results ms. id_has C i))"
    and prune_twice: "pure ms \<Longrightarrow> \<forall>i \<in> results (fst (prune C ms)). id_has C' i \<Longrightarrow>
      fst (prune C' (fst (prune C ms))) = fst (prune C ms)"
begin

definition repair :: "json list \<Rightarrow> json list \<times> int" where
  "repair ms = (let (ms', n) = answer_all answer (collectToolCallIDs ms) (collectToolResultIDs ms) ms;
                    (ms'', d) = prune (collectToolCallIDs ms) ms' in (ms'', n + d))"

lemma answers:
  "pure ms \<Longrightarrow> pure (fold answer is ms) \<and> calls (fold answer is ms) = calls ms
     \<and> results (fold answer is ms) = set is \<union> results ms"
  by (induction "is" arbitrary: ms) (auto simp: pure_answer calls_answer results_answer)

lemma answer_all_eq:
  "answer_all answer C R ms = (fold answer (filter (\<lambda>i. \<not> id_has R i) (order C)) ms,
     int (length (filter (\<lambda>i. \<not> id_has R i) (order C))))"
proof -
  have "fold (\<lambda>i (ms, n). if id_has R i then (ms, n) else (answer i ms, n + 1)) is (ms, n)
      = (fold answer (filter (\<lambda>i. \<not> id_has R i) is) ms, n + int (length (filter (\<lambda>i. \<not> id_has R i) is)))" for "is" n
    by (induction "is" arbitrary: ms n) simp_all
  then show ?thesis by (simp add: answer_all_def)
qed

lemma repair_spec:
  assumes "pure ms" "repair ms = (ms', n)"
  shows "pure ms' \<and> calls ms' = calls ms \<and> results ms' = calls ms \<and> (n = 0 \<longleftrightarrow> calls ms = results ms)
    \<and> repair ms' = (ms', 0)"
proof -
  define miss where "miss = filter (\<lambda>i. \<not> id_has (collectToolResultIDs ms) i) (order (collectToolCallIDs ms))"
  have miss: "set miss = calls ms - results ms" by (auto simp: miss_def collected)
  let ?a = "fold answer miss ms" and ?C = "collectToolCallIDs ms"
  have a: "pure ?a" "calls ?a = calls ms" "results ?a = calls ms \<union> results ms"
    using answers [OF assms(1), of miss] miss by auto
  have r: "ms' = fst (prune ?C ?a)" "n = int (length miss) + snd (prune ?C ?a)"
    using assms(2) by (auto simp: repair_def answer_all_eq miss_def [symmetric] split: prod.splits)
  have p: "pure ms'" "calls ms' = calls ms" "results ms' = calls ms"
    using pure_prune [OF a(1)] calls_prune [OF a(1)] results_prune [OF a(1), of ?C] a(2,3) by (auto simp: r collected)
  have "n = 0 \<longleftrightarrow> miss = [] \<and> snd (prune ?C ?a) = 0" using prune_count [OF a(1), of ?C] by (auto simp: r(2))
  also have "\<dots> \<longleftrightarrow> calls ms = results ms"
    using prune_count [OF a(1), of ?C] miss a(3) by (auto simp: collected)
  finally have n: "n = 0 \<longleftrightarrow> calls ms = results ms" .
  have none: "filter (\<lambda>i. \<not> id_has (collectToolResultIDs ms') i) (order (collectToolCallIDs ms')) = []"
    using p by (auto simp: filter_empty_conv collected)
  have "\<forall>i \<in> results ms'. id_has (collectToolCallIDs ms') i" using p by (simp add: collected)
  then have "fst (prune (collectToolCallIDs ms') ms') = ms'" "snd (prune (collectToolCallIDs ms') ms') = 0"
    using prune_twice [OF a(1), of ?C "collectToolCallIDs ms'"] prune_count [OF p(1), of "collectToolCallIDs ms'"]
    by (simp_all add: r(1) [symmetric])
  then have "repair ms' = (ms', 0)" by (simp add: repair_def answer_all_eq none case_prod_beta)
  with p n show ?thesis by simp
qed

end

section \<open>The three shapes\<close>

definition no_function_item :: "json \<Rightarrow> bool" where
  "no_function_item m \<longleftrightarrow> GetString (Some m) ''type'' \<noteq> ''function_call'' \<and> GetString (Some m) ''type'' \<noteq> ''function_call_output''"

definition no_blocks :: "json \<Rightarrow> bool" where
  "no_blocks m \<longleftrightarrow> list_all (\<lambda>b. GetString (Some b) ''type'' \<noteq> ''tool_use'' \<and> GetString (Some b) ''type'' \<noteq> ''tool_result'')
     (array_field m ''content'')"

definition clean :: "json \<Rightarrow> bool" where "clean m \<longleftrightarrow> sanitize_message m = m"

fun in_shape :: "msg_format \<Rightarrow> json \<Rightarrow> bool" where
  "in_shape fmtOpenAI m \<longleftrightarrow> no_function_item m \<and> no_blocks m"
| "in_shape fmtAnthropic m \<longleftrightarrow> no_function_item m \<and> GetString (Some m) ''role'' \<noteq> ''tool'' \<and> array_field m ''tool_calls'' = []"
| "in_shape fmtResponses m \<longleftrightarrow> no_blocks m \<and> GetString (Some m) ''role'' \<noteq> ''tool'' \<and> array_field m ''tool_calls'' = []
     \<and> (\<not> no_function_item m \<longrightarrow> GetString (Some m) ''role'' = [])"

definition shape :: "msg_format \<Rightarrow> json list \<Rightarrow> bool" where
  "shape f ms \<longleftrightarrow> (\<forall>m \<in> set ms. in_shape f m \<and> clean m)"

lemma shape_simps [simp]:
  "shape f []" "shape f (m # ms) \<longleftrightarrow> in_shape f m \<and> clean m \<and> shape f ms"
  "shape f (xs @ ys) \<longleftrightarrow> shape f xs \<and> shape f ys"
  by (auto simp: shape_def)

lemma shape_filter: "shape f ms \<Longrightarrow> shape f (filter P ms)"
  by (simp add: shape_def)

lemma clean_other: "GetString (Some m) ''role'' \<noteq> ''assistant'' \<Longrightarrow> clean m"
  by (simp add: clean_def sanitize_message_def)

lemmas message_simps = GetString_def NewString_def NewObject_def NewArray_def array_field_def stringField_def

lemma tool_message_facts [simp]:
  "in_shape fmtOpenAI (tool_message i)" "clean (tool_message i)" "call_list (tool_message i) = []" "result_list (tool_message i) = [i]"
  by (simp_all add: tool_message_def in_shape.simps no_function_item_def no_blocks_def clean_other call_list_def result_list_def message_simps)

lemma call_output_facts [simp]:
  "in_shape fmtResponses (call_output i)" "clean (call_output i)" "call_list (call_output i) = []" "result_list (call_output i) = [i]"
  by (simp_all add: call_output_def in_shape.simps no_function_item_def no_blocks_def clean_other call_list_def result_list_def message_simps)

declare in_shape.simps [simp del]

text \<open>Pruning by a filter, for the two shapes whose results are whole messages.\<close>

lemma drop_where_laws:
  assumes "shape f ms" "\<And>m. m \<in> set ms \<Longrightarrow> P m \<Longrightarrow> call_list m = [] \<and> (\<exists>i. result_list m = [i] \<and> \<not> id_has C i)"
    and "\<And>m i. m \<in> set ms \<Longrightarrow> \<not> P m \<Longrightarrow> i \<in> set (result_list m) \<Longrightarrow> id_has C i"
  shows "shape f (fst (drop_where P ms)) \<and> calls (fst (drop_where P ms)) = calls ms
    \<and> results (fst (drop_where P ms)) = {i \<in> results ms. id_has C i}
    \<and> snd (drop_where P ms) \<ge> 0 \<and> (snd (drop_where P ms) = 0 \<longleftrightarrow> (\<forall>i \<in> results ms. id_has C i))"
proof -
  have k: "\<not> id_has C i" if "m \<in> set ms" "P m" "i \<in> set (result_list m)" for m i
    using assms(2) [OF that(1,2)] that(3) by auto
  have "(\<forall>m \<in> set ms. \<not> P m) \<longleftrightarrow> (\<forall>i \<in> results ms. id_has C i)"
    using assms(2,3) by (fastforce simp: results_def)
  moreover have "results (fst (drop_where P ms)) = {i \<in> results ms. id_has C i}"
    using k assms(3) by (simp add: drop_where_def results_def) blast
  moreover have "calls (fst (drop_where P ms)) = calls ms"
    using assms(2) by (auto simp: drop_where_def calls_def)
  ultimately show ?thesis
    using assms(1) by (auto simp: drop_where_def shape_filter filter_empty_conv)
qed

lemma filter_twice:
  assumes "\<And>m. m \<in> set ms \<Longrightarrow> \<not> P m \<Longrightarrow> \<not> P' m"
  shows "fst (drop_where P' (fst (drop_where P ms))) = fst (drop_where P ms)"
  using assms by (auto simp: drop_where_def intro: filter_cong)

abbreviation prune_openai :: "idSet \<Rightarrow> json list \<Rightarrow> json list \<times> int" where
  "prune_openai C \<equiv> drop_where (\<lambda>m. GetString (Some m) ''role'' = ''tool'' \<and> orphan C (stringField (Some m) ''tool_call_id''))"

abbreviation prune_responses :: "idSet \<Rightarrow> json list \<Rightarrow> json list \<times> int" where
  "prune_responses C \<equiv> drop_where (\<lambda>m. GetString (Some m) ''type'' = ''function_call_output'' \<and> orphan C (stringField (Some m) ''call_id''))"

lemma result_list_openai:
  assumes "in_shape fmtOpenAI m"
  shows "result_list m = (if GetString (Some m) ''role'' = ''tool'' then present (\<lambda>m. stringField (Some m) ''tool_call_id'') [m] else [])"
proof -
  have "filter (\<lambda>b. GetString (Some b) ''type'' = ''tool_result'') (array_field m ''content'') = []"
    using assms by (auto simp: filter_empty_conv no_blocks_def list_all_iff in_shape.simps)
  then show ?thesis using assms by (simp add: result_list_def no_function_item_def in_shape.simps)
qed

lemma result_list_responses:
  assumes "in_shape fmtResponses m"
  shows "result_list m = (if GetString (Some m) ''type'' = ''function_call_output'' then present (\<lambda>m. stringField (Some m) ''call_id'') [m] else [])"
proof -
  have "filter (\<lambda>b. GetString (Some b) ''type'' = ''tool_result'') (array_field m ''content'') = []"
    using assms by (auto simp: filter_empty_conv no_blocks_def list_all_iff in_shape.simps)
  then show ?thesis using assms by (simp add: result_list_def in_shape.simps)
qed

lemma call_list_quiet:
  "GetString (Some m) ''role'' \<noteq> ''assistant'' \<Longrightarrow> GetString (Some m) ''type'' \<noteq> ''function_call'' \<Longrightarrow> call_list m = []"
  by (simp add: call_list_def)

lemma prune_openai_laws:
  "shape fmtOpenAI ms \<Longrightarrow> shape fmtOpenAI (fst (prune_openai C ms)) \<and> calls (fst (prune_openai C ms)) = calls ms
    \<and> results (fst (prune_openai C ms)) = {i \<in> results ms. id_has C i}
    \<and> snd (prune_openai C ms) \<ge> 0 \<and> (snd (prune_openai C ms) = 0 \<longleftrightarrow> (\<forall>i \<in> results ms. id_has C i))"
  by (rule drop_where_laws)
    (auto simp: shape_def in_shape.simps result_list_openai call_list_quiet no_function_item_def orphan_def split: option.splits if_splits)

lemma prune_responses_laws:
  "shape fmtResponses ms \<Longrightarrow> shape fmtResponses (fst (prune_responses C ms)) \<and> calls (fst (prune_responses C ms)) = calls ms
    \<and> results (fst (prune_responses C ms)) = {i \<in> results ms. id_has C i}
    \<and> snd (prune_responses C ms) \<ge> 0 \<and> (snd (prune_responses C ms) = 0 \<longleftrightarrow> (\<forall>i \<in> results ms. id_has C i))"
  by (rule drop_where_laws)
    (auto simp: shape_def in_shape.simps result_list_responses call_list_quiet no_function_item_def orphan_def split: option.splits if_splits)

lemma answer_openai_parts: "\<exists>xs ys. ms = xs @ ys \<and> answer_openai i ms = xs @ tool_message i # ys"
  by (auto simp: answer_openai_def Let_def split: option.split intro: exI [of _ ms])
    (metis append_take_drop_id)

interpretation openai: repair_shape "shape fmtOpenAI" answer_openai prune_openai
proof (unfold_locales, goal_cases)
  case (1 ms i)
  then show ?case using answer_openai_parts [of ms i] by auto
next
  case (2 ms i)
  then show ?case using answer_openai_parts [of ms i] by auto
next
  case (3 ms i)
  then show ?case using answer_openai_parts [of ms i] by auto
next
  case (8 ms C C')
  show ?case
  proof (rule filter_twice)
    fix m assume m: "m \<in> set ms" "\<not> (GetString (Some m) ''role'' = ''tool'' \<and> orphan C (stringField (Some m) ''tool_call_id''))"
    then have "m \<in> set (fst (prune_openai C ms))" by (simp add: drop_where_def)
    then have "\<forall>i \<in> set (result_list m). id_has C' i" using 8(2) by (auto simp: results_def)
    then show "\<not> (GetString (Some m) ''role'' = ''tool'' \<and> orphan C' (stringField (Some m) ''tool_call_id''))"
      using 8(1) m(1) by (auto simp: result_list_openai shape_def orphan_def split: option.splits)
  qed
qed (use prune_openai_laws in auto)

interpretation responses: repair_shape "shape fmtResponses" "\<lambda>i ms. ms @ [call_output i]" prune_responses
proof (unfold_locales, goal_cases)
  case (8 ms C C')
  show ?case
  proof (rule filter_twice)
    fix m assume m: "m \<in> set ms" "\<not> (GetString (Some m) ''type'' = ''function_call_output'' \<and> orphan C (stringField (Some m) ''call_id''))"
    then have "m \<in> set (fst (prune_responses C ms))" by (simp add: drop_where_def)
    then have "\<forall>i \<in> set (result_list m). id_has C' i" using 8(2) by (auto simp: results_def)
    then show "\<not> (GetString (Some m) ''type'' = ''function_call_output'' \<and> orphan C' (stringField (Some m) ''call_id''))"
      using 8(1) m(1) by (auto simp: result_list_responses shape_def orphan_def split: option.splits)
  qed
qed (use prune_responses_laws in auto)


text \<open>The Anthropic shape prunes inside messages.\<close>

definition prune_anthropic :: "idSet \<Rightarrow> json list \<Rightarrow> json list \<times> int" where
  "prune_anthropic C ms = (concat (map (fst \<circ> prune_message C) ms), sum_list (map (snd \<circ> prune_message C) ms))"

lemma prune_anthropic_simps [simp]:
  "fst (prune_anthropic C []) = []" "snd (prune_anthropic C []) = 0"
  "fst (prune_anthropic C (m # ms)) = fst (prune_message C m) @ fst (prune_anthropic C ms)"
  "snd (prune_anthropic C (m # ms)) = snd (prune_message C m) + snd (prune_anthropic C ms)"
  by (simp_all add: prune_anthropic_def)

lemma content_array:
  assumes "IsArray (Get (Some m) ''content'')"
  shows "IsObject (Some m)" "Get (Some (Set ''content'' v m)) k = (if k = ''content'' then Some v else Get (Some m) k)"
proof -
  show o: "IsObject (Some m)" using assms by (cases m) auto
  show "Get (Some (Set ''content'' v m)) k = (if k = ''content'' then Some v else Get (Some m) k)"
    using Get_Set [OF o] by simp
qed

text \<open>A user message with its content blocks replaced.\<close>

lemma user_content:
  assumes "IsArray (Get (Some m) ''content'')" "GetString (Some m) ''role'' = ''user''" "in_shape fmtAnthropic m"
  shows "in_shape fmtAnthropic (Set ''content'' (JSONArray bs) m)" "clean (Set ''content'' (JSONArray bs) m)"
    "call_list (Set ''content'' (JSONArray bs) m) = []"
    "result_list (Set ''content'' (JSONArray bs) m)
       = present (\<lambda>b. stringField (Some b) ''tool_use_id'') (filter (\<lambda>b. GetString (Some b) ''type'' = ''tool_result'') bs)"
    "call_list m = []"
    "result_list m = present (\<lambda>b. stringField (Some b) ''tool_use_id'')
       (filter (\<lambda>b. GetString (Some b) ''type'' = ''tool_result'') (array_field m ''content''))"
    "GetString (Some (Set ''content'' (JSONArray bs) m)) ''role'' = ''user''"
    "array_field (Set ''content'' (JSONArray bs) m) ''content'' = bs"
proof -
  let ?m = "Set ''content'' (JSONArray bs) m"
  have g: "GetString (Some ?m) ''role'' = GetString (Some m) ''role''" "GetString (Some ?m) ''type'' = GetString (Some m) ''type''"
    "array_field ?m ''tool_calls'' = array_field m ''tool_calls''" "array_field ?m ''content'' = bs"
    by (simp_all add: GetString_def array_field_def content_array [OF assms(1)])
  then show "in_shape fmtAnthropic ?m" "clean ?m" "call_list ?m = []" "call_list m = []"
    "result_list ?m = present (\<lambda>b. stringField (Some b) ''tool_use_id'') (filter (\<lambda>b. GetString (Some b) ''type'' = ''tool_result'') bs)"
    "result_list m = present (\<lambda>b. stringField (Some b) ''tool_use_id'')
       (filter (\<lambda>b. GetString (Some b) ''type'' = ''tool_result'') (array_field m ''content''))"
    "GetString (Some ?m) ''role'' = ''user''" "array_field ?m ''content'' = bs"
    using assms by (simp_all add: in_shape.simps no_function_item_def clean_other call_list_def result_list_def)
qed

lemma present_set: "set (present f bs) = {i. \<exists>b \<in> set bs. f b = Some i}"
  by (auto simp: present_def split: option.splits)

lemma Set_content_same: "IsArray (Get (Some m) ''content'') \<Longrightarrow> Set ''content'' (JSONArray (array_field m ''content'')) m = m"
  by (rule obj.put_get) (auto simp: IsArray_iff array_field_def)

lemma orphan_block_iff:
  "orphan_block C b \<longleftrightarrow> GetString (Some b) ''type'' = ''tool_result'' \<and> (\<exists>i. stringField (Some b) ''tool_use_id'' = Some i \<and> \<not> id_has C i)"
  by (simp add: orphan_block_def orphan_def split: option.split)

lemma Items_no_array: "\<not> IsArray v \<Longrightarrow> Items v = []"
  by (cases v rule: Items.cases) simp_all

lemma result_list_anthropic_other:
  "in_shape fmtAnthropic m \<Longrightarrow> \<not> (GetString (Some m) ''role'' = ''user'' \<and> IsArray (Get (Some m) ''content'')) \<Longrightarrow> result_list m = []"
  by (auto simp: in_shape.simps result_list_def no_function_item_def array_field_def Items_no_array)

lemma prune_message_laws:
  assumes "in_shape fmtAnthropic m" "clean m"
  shows "shape fmtAnthropic (fst (prune_message C m)) \<and> calls (fst (prune_message C m)) = set (call_list m)
    \<and> results (fst (prune_message C m)) = {i \<in> set (result_list m). id_has C i}
    \<and> snd (prune_message C m) \<ge> 0 \<and> (snd (prune_message C m) = 0 \<longleftrightarrow> (\<forall>i \<in> set (result_list m). id_has C i))
    \<and> ((\<forall>i \<in> results (fst (prune_message C m)). id_has C' i) \<longrightarrow>
         concat (map (fst \<circ> prune_message C') (fst (prune_message C m))) = fst (prune_message C m))"
proof (cases "GetString (Some m) ''role'' = ''user'' \<and> IsArray (Get (Some m) ''content'')")
  case False
  then have "prune_message X m = ([m], 0)" for X by (auto simp: prune_message_def)
  then show ?thesis using assms result_list_anthropic_other [OF assms(1) False] by simp
next
  case True
  note u = user_content [OF conjunct2 [OF True] conjunct1 [OF True] assms(1)]
  define bs where "bs = filter (\<lambda>b. \<not> orphan_block C b) (array_field m ''content'')"
  have p: "prune_message C m = (if bs = [] then [] else [Set ''content'' (JSONArray bs) m],
      int (length (filter (orphan_block C) (array_field m ''content''))))"
    using True by (simp add: prune_message_def drop_where_def bs_def)
  have r: "set (result_list (Set ''content'' (JSONArray bs) m)) = {i \<in> set (result_list m). id_has C i}"
    by (auto simp: u present_set bs_def orphan_block_iff)
  have e: "bs = [] \<Longrightarrow> {i \<in> set (result_list m). id_has C i} = {}"
    using r by (auto simp: u)
  have "prune_message C' (Set ''content'' (JSONArray bs) m) = ([Set ''content'' (JSONArray bs) m], 0)"
    if "bs \<noteq> []" "\<forall>i \<in> set (result_list (Set ''content'' (JSONArray bs) m)). id_has C' i"
  proof -
    have "filter (orphan_block C') bs = []" "filter (\<lambda>b. \<not> orphan_block C' b) bs = bs"
      using that(2) by (auto simp: u present_set filter_empty_conv filter_id_conv orphan_block_iff)
    moreover have "IsArray (Get (Some (Set ''content'' (JSONArray bs) m)) ''content'')"
      using content_array [OF conjunct2 [OF True]] by simp
    ultimately show ?thesis
      using that(1) by (simp add: prune_message_def u drop_where_def) (simp add: content_array [OF conjunct2 [OF True]] obj.put_put)
  qed
  moreover have "(filter (orphan_block C) (array_field m ''content'') = []) \<longleftrightarrow> (\<forall>i \<in> set (result_list m). id_has C i)"
    by (auto simp: u present_set filter_empty_conv orphan_block_iff)
  ultimately show ?thesis using u r e by (auto simp: p)
qed


lemma prune_anthropic_laws:
  "shape fmtAnthropic ms \<Longrightarrow> shape fmtAnthropic (fst (prune_anthropic C ms))
    \<and> calls (fst (prune_anthropic C ms)) = calls ms
    \<and> results (fst (prune_anthropic C ms)) = {i \<in> results ms. id_has C i}
    \<and> snd (prune_anthropic C ms) \<ge> 0 \<and> (snd (prune_anthropic C ms) = 0 \<longleftrightarrow> (\<forall>i \<in> results ms. id_has C i))
    \<and> ((\<forall>i \<in> results (fst (prune_anthropic C ms)). id_has C' i) \<longrightarrow>
         fst (prune_anthropic C' (fst (prune_anthropic C ms))) = fst (prune_anthropic C ms))"
proof (induction ms)
  case (Cons m ms)
  have "in_shape fmtAnthropic m" "clean m" using Cons.prems by simp_all
  note m = prune_message_laws [OF this, of C C']
  have "fst (prune_anthropic C' (xs @ ys)) = concat (map (fst \<circ> prune_message C') xs) @ fst (prune_anthropic C' ys)" for xs ys
    by (simp add: prune_anthropic_def)
  then show ?case using m Cons.IH Cons.prems by auto
qed (simp add: prune_anthropic_def)

lemma new_user_message:
  "in_shape fmtAnthropic (Set ''content'' (Append (tool_result i) NewArray) (Set ''role'' (NewString ''user'') NewObject))
   \<and> clean (Set ''content'' (Append (tool_result i) NewArray) (Set ''role'' (NewString ''user'') NewObject))
   \<and> call_list (Set ''content'' (Append (tool_result i) NewArray) (Set ''role'' (NewString ''user'') NewObject)) = []
   \<and> result_list (Set ''content'' (Append (tool_result i) NewArray) (Set ''role'' (NewString ''user'') NewObject)) = [i]"
  by (simp add: in_shape.simps no_function_item_def clean_other call_list_def result_list_def tool_result_def message_simps)

lemma answer_walk_laws:
  "shape fmtAnthropic ms \<Longrightarrow> shape fmtAnthropic (answer_anthropic_walk i found ms)
    \<and> calls (answer_anthropic_walk i found ms) = calls ms \<and> results (answer_anthropic_walk i found ms) = insert i (results ms)"
proof (induction i found ms rule: answer_anthropic_walk.induct)
  case (1 i found)
  then show ?case using new_user_message [of i] by simp
next
  case (2 i found m ms)
  show ?case
  proof (cases "found \<and> GetString (Some m) ''role'' = ''user'' \<and> IsArray (Get (Some m) ''content'')")
    case True
    then have "in_shape fmtAnthropic m" using 2(3) by simp
    note u = user_content [OF conjunct2 [OF conjunct2 [OF True]] conjunct1 [OF conjunct2 [OF True]] this]
    have "GetString (Some (tool_result i)) ''type'' = ''tool_result''" "stringField (Some (tool_result i)) ''tool_use_id'' = Some i"
      by (simp_all add: tool_result_def message_simps)
    then have "set (result_list (Set ''content'' (JSONArray (array_field m ''content'' @ [tool_result i])) m)) = insert i (set (result_list m))"
      by (auto simp: u present_set)
    then show ?thesis using True 2(3) u by simp
  next
    case False
    then show ?thesis using 2 by (cases found) auto
  qed
qed

interpretation anthropic: repair_shape "shape fmtAnthropic" answer_anthropic prune_anthropic
proof (unfold_locales, goal_cases)
  case (8 ms C C')
  then show ?case using prune_anthropic_laws [of ms C C'] by simp
qed (use answer_walk_laws prune_anthropic_laws in \<open>auto simp: answer_anthropic_def\<close>)

section \<open>The whole pass\<close>

lemma repair_functions:
  "repairOrphansOpenAI ms (collectToolCallIDs ms) (collectToolResultIDs ms) = openai.repair ms"
  "repairOrphansResponses ms (collectToolCallIDs ms) (collectToolResultIDs ms) = responses.repair ms"
  "repairOrphansAnthropic ms (collectToolCallIDs ms) (collectToolResultIDs ms) = anthropic.repair ms"
  by (simp_all add: repairOrphansOpenAI_def openai.repair_def repairOrphansResponses_def responses.repair_def
      repairOrphansAnthropic_def anthropic.repair_def prune_anthropic_def)

text \<open>Sanitizing touches arguments only, and once is enough.\<close>

lemma Get_function_Set: "k \<noteq> ''function'' \<Longrightarrow> Get (Some (sanitize_call tc)) k = Get (Some tc) k"
proof -
  have "Get (Some (Set ''function'' v tc)) k = Get (Some tc) k" if "k \<noteq> ''function''" for v
    using that by (cases tc) (auto simp: map_of_set_key)
  then show "k \<noteq> ''function'' \<Longrightarrow> Get (Some (sanitize_call tc)) k = Get (Some tc) k"
    by (auto simp: sanitize_call_def split: option.split json.split)
qed

lemma ParseJSON_braces: "ParseJSON ''{}'' = Some (JSONObject [])"
  by (simp add: ParseJSON_def parse_value.simps skipWS_def jsonWS_def)

lemma sanitize_call_twice: "sanitize_call (sanitize_call tc) = sanitize_call tc"
proof (cases "sanitize_call tc = tc")
  case False
  then obtain fn where fn: "Get (Some tc) ''function'' = Some fn"
    "sanitize_call tc = Set ''function'' (Set ''arguments'' (NewString ''{}'') (Delete ''arguments'' fn)) tc"
    by (auto simp: sanitize_call_def split: option.splits json.splits if_splits)
  let ?fn = "Set ''arguments'' (NewString ''{}'') (Delete ''arguments'' fn)"
  have o: "IsObject (Some tc)" using fn(1) by (cases tc) auto
  then have g: "Get (Some (sanitize_call tc)) ''function'' = Some ?fn" by (simp add: fn(2) Get_Set)
  show ?thesis
  proof (cases "IsObject (Some fn)")
    case True
    then have "IsObject (Some (Delete ''arguments'' fn))" by (cases fn) auto
    then have "Get (Some ?fn) ''arguments'' = Some (JSONString ''{}'')" by (simp add: Get_Set NewString_def)
    moreover have "ParseJSON ''{}'' \<noteq> None" by (simp add: ParseJSON_braces)
    ultimately show ?thesis unfolding sanitize_call_def [of "sanitize_call tc"] g by simp
  next
    case False
    then have "?fn = fn" by (cases fn) auto
    then have "sanitize_call tc = tc" using fn(1) by (simp add: fn(2) obj.put_get)
    then show ?thesis by simp
  qed
qed simp


lemma sanitize_message_facts:
  "GetString (Some (sanitize_message m)) ''role'' = GetString (Some m) ''role''"
  "GetString (Some (sanitize_message m)) ''type'' = GetString (Some m) ''type''"
  "array_field (sanitize_message m) ''content'' = array_field m ''content''"
  "stringField (Some (sanitize_message m)) ''call_id'' = stringField (Some m) ''call_id''"
  "stringField (Some (sanitize_message m)) ''tool_call_id'' = stringField (Some m) ''tool_call_id''"
  "array_field (sanitize_message m) ''tool_calls'' =
     (if GetString (Some m) ''role'' = ''assistant'' then map sanitize_call (array_field m ''tool_calls'') else array_field m ''tool_calls'')"
proof -
  have other: "Get (Some (sanitize_message m)) k = Get (Some m) k" if "k \<noteq> ''tool_calls''" for k
  proof -
    have "Get (Some (Set ''tool_calls'' v m)) k = Get (Some m) k" for v
      using that by (cases m) (auto simp: map_of_set_key)
    then show ?thesis by (simp add: sanitize_message_def SanitizeAssistantToolArguments_def)
  qed
  then show "GetString (Some (sanitize_message m)) ''role'' = GetString (Some m) ''role''"
    "GetString (Some (sanitize_message m)) ''type'' = GetString (Some m) ''type''"
    "array_field (sanitize_message m) ''content'' = array_field m ''content''"
    "stringField (Some (sanitize_message m)) ''call_id'' = stringField (Some m) ''call_id''"
    "stringField (Some (sanitize_message m)) ''tool_call_id'' = stringField (Some m) ''tool_call_id''"
    by (simp_all add: GetString_def array_field_def stringField_def)
  show "array_field (sanitize_message m) ''tool_calls'' =
     (if GetString (Some m) ''role'' = ''assistant'' then map sanitize_call (array_field m ''tool_calls'') else array_field m ''tool_calls'')"
  proof (cases "IsArray (Get (Some m) ''tool_calls'')")
    case True
    then have "IsObject (Some m)" by (cases m) auto
    then show ?thesis using True
      by (simp add: sanitize_message_def SanitizeAssistantToolArguments_def array_field_def Get_Set)
  next
    case False
    then show ?thesis
      by (simp add: sanitize_message_def SanitizeAssistantToolArguments_def array_field_def Items_no_array)
  qed
qed

lemma clean_sanitize: "clean (sanitize_message m)"
proof (cases "GetString (Some m) ''role'' = ''assistant'' \<and> IsArray (Get (Some m) ''tool_calls'')")
  case True
  then have o: "IsObject (Some m)" by (cases m) auto
  let ?m = "sanitize_message m"
  have s: "?m = Set ''tool_calls'' (JSONArray (map sanitize_call (array_field m ''tool_calls''))) m"
    using True by (simp add: sanitize_message_def SanitizeAssistantToolArguments_def)
  then have "IsArray (Get (Some ?m) ''tool_calls'')" using o by (simp add: Get_Set)
  moreover have "GetString (Some ?m) ''role'' = ''assistant''" using True by (simp add: sanitize_message_facts)
  ultimately have "sanitize_message ?m = Set ''tool_calls'' (JSONArray (map sanitize_call (array_field ?m ''tool_calls''))) ?m"
    by (simp add: sanitize_message_def [of ?m] SanitizeAssistantToolArguments_def)
  also have "\<dots> = ?m"
    using True by (simp add: sanitize_message_facts sanitize_call_twice comp_def) (simp add: s obj.put_put)
  finally show ?thesis by (simp add: clean_def)
next
  case False
  then have "sanitize_message m = m" by (auto simp: sanitize_message_def SanitizeAssistantToolArguments_def)
  then show ?thesis by (simp add: clean_def)
qed

lemma present_map: "(\<And>x. f (g x) = f x) \<Longrightarrow> present f (map g xs) = present f xs"
  by (simp add: present_def comp_def)

lemma lists_sanitize: "call_list (sanitize_message m) = call_list m" "result_list (sanitize_message m) = result_list m"
proof -
  have "stringField (Some (sanitize_call tc)) ''id'' = stringField (Some tc) ''id''" for tc
    by (simp add: stringField_def Get_function_Set)
  then show "call_list (sanitize_message m) = call_list m"
    by (simp add: call_list_def sanitize_message_facts present_map)
  show "result_list (sanitize_message m) = result_list m"
    by (simp add: result_list_def sanitize_message_facts)
qed

lemma shape_sanitize: "(\<forall>m \<in> set ms. in_shape f m) \<Longrightarrow> shape f (map sanitize_message ms)"
  by (cases f) (auto simp: shape_def clean_sanitize in_shape.simps no_function_item_def no_blocks_def sanitize_message_facts)

lemma sets_sanitize: "calls (map sanitize_message ms) = calls ms" "results (map sanitize_message ms) = results ms"
  by (auto simp: calls_def results_def lists_sanitize)

text \<open>What the first deciding message is in each shape.\<close>

lemma detect_openai: "shape fmtOpenAI ms \<Longrightarrow> detectFormat ms = fmtOpenAI"
  by (induction ms) (auto simp: in_shape.simps no_function_item_def no_blocks_def list_all_iff list_ex_iff Let_def)

lemma detect_anthropic: "shape fmtAnthropic ms \<Longrightarrow> calls ms \<noteq> {} \<Longrightarrow> detectFormat ms = fmtAnthropic"
proof (induction ms)
  case (Cons m ms)
  show ?case
  proof (cases "call_list m = []")
    case True
    then show ?thesis using Cons by (auto simp: in_shape.simps no_function_item_def Let_def)
  next
    case False
    then have "GetString (Some m) ''role'' = ''assistant''"
      "\<exists>b \<in> set (array_field m ''content''). GetString (Some b) ''type'' = ''tool_use''"
      using Cons.prems by (auto simp: call_list_def in_shape.simps no_function_item_def present_def split: if_splits)
    then show ?thesis using Cons.prems by (auto simp: in_shape.simps no_function_item_def Let_def list_ex_iff)
  qed
qed simp

lemma detect_responses: "shape fmtResponses ms \<Longrightarrow> calls ms \<noteq> {} \<or> results ms \<noteq> {} \<Longrightarrow> detectFormat ms = fmtResponses"
proof (induction ms)
  case (Cons m ms)
  show ?case
  proof (cases "no_function_item m")
    case True
    moreover have "filter (\<lambda>b. GetString (Some b) ''type'' = ''tool_use'') (array_field m ''content'') = []"
      using Cons.prems by (auto simp: in_shape.simps no_blocks_def filter_empty_conv list_all_iff)
    ultimately have "call_list m = []" "result_list m = []"
      using Cons.prems by (auto simp: call_list_def result_list_responses in_shape.simps no_function_item_def)
    then show ?thesis using Cons True
      by (auto simp: in_shape.simps no_function_item_def no_blocks_def list_ex_iff list_all_iff Let_def)
  next
    case False
    then show ?thesis by (auto simp: no_function_item_def Let_def)
  qed
qed simp

lemma map_clean: "shape f ms \<Longrightarrow> map sanitize_message ms = ms"
  by (simp add: shape_def clean_def map_idI)

lemma repair_messages_aux:
  assumes "\<forall>m \<in> set ms. in_shape f m" "f = fmtAnthropic \<longrightarrow> calls ms \<noteq> {}" "repair_messages ms = (ms', n)"
  shows "calls ms' = calls ms \<and> results ms' = calls ms \<and> (n = 0 \<longleftrightarrow> calls ms = results ms) \<and> repair_messages ms' = (ms', 0)"
proof -
  define ms1 where "ms1 = map sanitize_message ms"
  have s: "shape f ms1" "calls ms1 = calls ms" "results ms1 = results ms"
    using assms(1) by (simp_all add: ms1_def shape_sanitize sets_sanitize)
  define rep where "rep xs = (case f of fmtAnthropic \<Rightarrow> anthropic.repair xs | fmtResponses \<Rightarrow> responses.repair xs
      | fmtOpenAI \<Rightarrow> openai.repair xs)" for xs
  have eq: "repair_messages xs = (if calls xs = {} \<and> results xs = {} then (map sanitize_message xs, 0) else rep (map sanitize_message xs))"
    if "shape f (map sanitize_message xs)" "f = fmtAnthropic \<longrightarrow> calls xs \<noteq> {}" for xs
  proof -
    have "id_empty (collectToolCallIDs (map sanitize_message xs)) \<longleftrightarrow> calls xs = {}"
      "id_empty (collectToolResultIDs (map sanitize_message xs)) \<longleftrightarrow> results xs = {}"
      using collected(1,3) [of "map sanitize_message xs"] by (auto simp: id_empty_def sets_sanitize)
    then show ?thesis
      using that detect_openai [of "map sanitize_message xs"] detect_anthropic [of "map sanitize_message xs"]
        detect_responses [of "map sanitize_message xs"]
      by (cases f) (auto simp: repair_messages_def rep_def Let_def sets_sanitize repair_functions)
  qed
  have rs: "shape f ms'' \<and> calls ms'' = calls ms1 \<and> results ms'' = calls ms1 \<and> (k = 0 \<longleftrightarrow> calls ms1 = results ms1) \<and> rep ms'' = (ms'', 0)"
    if "rep ms1 = (ms'', k)" for ms'' k
  proof (cases f)
    case fmtOpenAI
    have "openai.repair ms1 = (ms'', k)" using that by (simp add: rep_def fmtOpenAI)
    from openai.repair_spec [OF s(1) [unfolded fmtOpenAI] this] show ?thesis by (simp add: rep_def fmtOpenAI)
  next
    case fmtAnthropic
    have "anthropic.repair ms1 = (ms'', k)" using that by (simp add: rep_def fmtAnthropic)
    from anthropic.repair_spec [OF s(1) [unfolded fmtAnthropic] this] show ?thesis by (simp add: rep_def fmtAnthropic)
  next
    case fmtResponses
    have "responses.repair ms1 = (ms'', k)" using that by (simp add: rep_def fmtResponses)
    from responses.repair_spec [OF s(1) [unfolded fmtResponses] this] show ?thesis by (simp add: rep_def fmtResponses)
  qed
  show ?thesis
  proof (cases "calls ms = {} \<and> results ms = {}")
    case True
    then have "ms' = ms1" "n = 0" using eq [of ms] assms(2,3) s(1) by (simp_all add: ms1_def)
    moreover have "repair_messages ms1 = (ms1, 0)"
      using eq [of ms1] True s assms(2) by (simp add: map_clean [OF s(1)])
    ultimately show ?thesis using True s by simp
  next
    case False
    then have "rep ms1 = (ms', n)"
      using eq [of ms, folded ms1_def, OF s(1) assms(2), unfolded if_not_P [OF False]] assms(3) by simp
    from rs [OF this] have r: "shape f ms'" "calls ms' = calls ms" "results ms' = calls ms" "n = 0 \<longleftrightarrow> calls ms = results ms"
      "rep ms' = (ms', 0)" by (simp_all add: s)
    then have "repair_messages ms' = (ms', 0)"
      using eq [of ms'] assms(2) by (simp add: map_clean)
    with r show ?thesis by simp
  qed
qed


text \<open>C7: the repair pairs every call. On a transcript of one wire shape (for Anthropic one that still has a
  call) the repaired transcript has the same calls, exactly one side for every other: the set of
  answered ids is the set of issued ids; the count is zero exactly when that held before; and a second
  repair changes nothing and counts nothing.\<close>

theorem repair_pairs:
  assumes "\<forall>m \<in> set ms. in_shape f m" "f = fmtAnthropic \<longrightarrow> calls ms \<noteq> {}" "repair_messages ms = (ms', n)"
  shows "calls ms' = calls ms \<and> results ms' = calls ms \<and> (n = 0 \<longleftrightarrow> calls ms = results ms) \<and> repair_messages ms' = (ms', 0)"
  using assms by (rule repair_messages_aux)

definition tool_use_message :: "string \<Rightarrow> json" where
  "tool_use_message i = JSONObject [(''role'', JSONString ''assistant''),
     (''content'', JSONArray [JSONObject [(''type'', JSONString ''tool_use''), (''id'', JSONString i)]])]"

definition tool_result_message :: "string \<Rightarrow> json" where
  "tool_result_message i = JSONObject [(''role'', JSONString ''user''), (''content'', JSONArray [tool_result i])]"

lemma anthropic_messages:
  "in_shape fmtAnthropic (tool_use_message i)" "in_shape fmtAnthropic (tool_result_message i)"
  "calls [tool_use_message i, tool_result_message j] = {i}" "results [tool_use_message i, tool_result_message j] = {j}"
  "calls [tool_result_message j] = {}" "results [tool_result_message j] = {j}"
  by (simp_all add: tool_use_message_def tool_result_message_def in_shape.simps no_function_item_def message_simps
      call_list_def result_list_def tool_result_def)

theorem repair_pairs_witness:
  "\<exists>ms' n. repair_messages [tool_use_message ''a'', tool_result_message ''b''] = (ms', n) \<and> n \<noteq> 0
     \<and> calls ms' = {''a''} \<and> results ms' = {''a''}"
proof -
  obtain ms' n where r: "repair_messages [tool_use_message ''a'', tool_result_message ''b''] = (ms', n)" by fastforce
  have "\<forall>m \<in> set [tool_use_message ''a'', tool_result_message ''b'']. in_shape fmtAnthropic m"
    "fmtAnthropic = fmtAnthropic \<longrightarrow> calls [tool_use_message ''a'', tool_result_message ''b''] \<noteq> {}"
    by (simp_all add: anthropic_messages del: calls_append)
  from repair_pairs [OF this r] r show ?thesis by (simp add: anthropic_messages del: calls_append results_append)
qed

text \<open>The check has a blind spot. When no call is left in an Anthropic transcript, the format is taken for
  OpenAI: the orphaned result is not removed and the count is zero, so the structural check passes a
  transcript that the provider rejects.\<close>

theorem repair_misses_orphan:
  assumes "ms = [tool_result_message i]"
  shows "repair_messages ms = (ms, 0) \<and> calls ms = {} \<and> results ms = {i}"
proof -
  have "sanitize_message (tool_result_message i) = tool_result_message i"
    by (simp add: sanitize_message_def tool_result_message_def message_simps)
  moreover have "detectFormat [tool_result_message i] = fmtOpenAI"
    by (simp add: tool_result_message_def message_simps Let_def)
  moreover have "order (collectToolCallIDs [tool_result_message i]) = []"
    using collected(1) [of "[tool_result_message i]"] by (simp add: anthropic_messages del: calls_append)
  moreover have "GetString (Some (tool_result_message i)) ''role'' = ''user''"
    by (simp add: tool_result_message_def message_simps)
  ultimately show ?thesis
    by (simp add: assms repair_messages_def repairOrphansOpenAI_def answer_all_def drop_where_def anthropic_messages
        Let_def del: calls_append results_append)
qed

theorem repair_misses_orphan_witness:
  "repair_messages [tool_result_message ''b''] = ([tool_result_message ''b''], 0)"
  using repair_misses_orphan [of "[tool_result_message ''b'']" "''b''"] by simp

end
