(* ===== verification/Rail.thy ===== *)
theory Rail
  imports Interfaces JsonRoundTrip
begin

text \<open>
  \<open>rail.go\<close>: the task rail, an objective with an ordered list of steps. An operation on a nil rail is
  an error; the others return the updated rail or the error text. A \<open>StepState\<close> value is one of the
  three constants everywhere in the source (\<open>RestoreRail\<close> normalizes), so it is a datatype.
\<close>

datatype StepState = StepPending | StepReserved | StepDone

definition step_num :: "StepState \<Rightarrow> int" where
  "step_num st = (case st of StepPending \<Rightarrow> 0 | StepReserved \<Rightarrow> 1 | StepDone \<Rightarrow> 2)"

record RailStep =
  Title :: string
  Evidence :: string
  State :: StepState

record TaskRail =
  Objective :: string
  Locked :: bool
  Steps :: "RailStep list"

type_synonym 'a result = "string + 'a"

definition nil_rail :: string where "nil_rail = ''economizer: nil rail''"

definition out_of_range :: "int \<Rightarrow> string" where
  "out_of_range idx = ''economizer: step '' @ int_str idx @ '' out of range''"

definition Rail_Start :: "string \<Rightarrow> string list \<Rightarrow> TaskRail option \<Rightarrow> TaskRail result" where
  "Rail_Start objective titles r =
     (case r of
        None \<Rightarrow> Inl nil_rail
      | Some _ \<Rightarrow> Inr \<lparr> Objective = objective, Locked = True,
          Steps = map (\<lambda>t. \<lparr> Title = t, Evidence = [], State = StepPending \<rparr>) titles \<rparr>)"

definition Reserve :: "int \<Rightarrow> TaskRail option \<Rightarrow> TaskRail result" where
  "Reserve idx r =
     (case r of
        None \<Rightarrow> Inl (out_of_range idx)
      | Some rail \<Rightarrow>
          if idx < 0 \<or> idx \<ge> int (length (Steps rail)) then Inl (out_of_range idx)
          else if State (Steps rail ! nat idx) \<noteq> StepPending then
            Inl (''economizer: step '' @ int_str idx @ '' is not pending'')
          else Inr (rail \<lparr> Steps := (Steps rail) [nat idx := (Steps rail ! nat idx) \<lparr> State := StepReserved \<rparr>] \<rparr>))"

definition Ack :: "int \<Rightarrow> string \<Rightarrow> TaskRail option \<Rightarrow> TaskRail result" where
  "Ack idx evidence r =
     (case r of
        None \<Rightarrow> Inl (out_of_range idx)
      | Some rail \<Rightarrow>
          if idx < 0 \<or> idx \<ge> int (length (Steps rail)) then Inl (out_of_range idx)
          else let step = Steps rail ! nat idx;
                   step = (if evidence \<noteq> [] then step \<lparr> Evidence := evidence \<rparr> else step)
               in Inr (rail \<lparr> Steps := (Steps rail) [nat idx := step \<lparr> State := StepDone \<rparr>] \<rparr>))"

fun first_open :: "int \<Rightarrow> RailStep list \<Rightarrow> int" where
  "first_open i [] = -1"
| "first_open i (s # ss) = (if State s \<noteq> StepDone then i else first_open (i + 1) ss)"

definition Next :: "TaskRail option \<Rightarrow> int" where
  "Next r = (case r of None \<Rightarrow> -1 | Some rail \<Rightarrow> first_open 0 (Steps rail))"

definition DoneCount :: "TaskRail option \<Rightarrow> int" where
  "DoneCount r = (case r of None \<Rightarrow> 0
     | Some rail \<Rightarrow> int (length (filter (\<lambda>s. State s = StepDone) (Steps rail))))"

section \<open>Persistence\<close>

definition step_json :: "RailStep \<Rightarrow> json" where
  "step_json s =
     (let o1 = Set ''state'' (NewNumber (float_of_int (step_num (State s))))
                 (Set ''title'' (NewString (Title s)) NewObject)
      in if Evidence s \<noteq> [] then Set ''evidence'' (NewString (Evidence s)) o1 else o1)"

definition rail_json :: "TaskRail \<Rightarrow> json" where
  "rail_json r =
     Set ''steps'' (fold (\<lambda>s a. Append (step_json s) a) (Steps r) NewArray)
       (Set ''locked'' (if Locked r then JSONTrue else JSONFalse)
         (Set ''objective'' (NewString (Objective r)) NewObject))"

definition Rail_Serialize :: "TaskRail option \<Rightarrow> string result" where
  "Rail_Serialize r = (case r of None \<Rightarrow> Inl nil_rail | Some rail \<Rightarrow> Inr (PrintJSONUnformatted (rail_json rail)))"

text \<open>One entry of \<open>steps\<close>; an entry that is not an object is skipped.\<close>

definition restore_step :: "json \<Rightarrow> RailStep list" where
  "restore_step v =
     (if \<not> IsObject (Some v) then []
      else [\<lparr> Title = GetString (Some v) ''title'', Evidence = GetString (Some v) ''evidence'',
              State = (case Get (Some v) ''state'' of
                         Some (JSONNumber n) \<Rightarrow>
                           (let i = int_of_float n
                            in if i = 1 then StepReserved else if i = 2 then StepDone else StepPending)
                       | _ \<Rightarrow> StepPending) \<rparr>])"

definition RestoreRail :: "TaskRail option \<Rightarrow> string \<Rightarrow> TaskRail result" where
  "RestoreRail r blob =
     (if r = None \<or> blob = [] then Inl ''economizer: nothing to restore''
      else (case ParseJSON blob of
              Some (JSONObject kvs) \<Rightarrow>
                (let root = Some (JSONObject kvs); steps = Get root ''steps''
                 in if steps \<noteq> None \<and> \<not> IsArray steps then Inl ''economizer: rail steps is not an array''
                    else Inr \<lparr> Objective = GetString root ''objective'',
                               Locked = (case Get root ''locked'' of
                                   Some JSONTrue \<Rightarrow> True
                                 | Some (JSONNumber n) \<Rightarrow> \<not> feq n (F64 0)
                                 | _ \<Rightarrow> False),
                               Steps = concat (map restore_step (Items steps)) \<rparr>)
            | _ \<Rightarrow> Inl ''economizer: rail is not a JSON object''))"

section \<open>Round trip\<close>

definition rail_printable :: "TaskRail \<Rightarrow> bool" where
  "rail_printable r \<longleftrightarrow> utf8_valid (Objective r) \<and>
     (\<forall>s \<in> set (Steps r). utf8_valid (Title s) \<and> utf8_valid (Evidence s))"

lemma fold_Append: "fold (\<lambda>s a. Append (f s) a) ss (JSONArray xs) = JSONArray (xs @ map f ss)"
  by (induction ss arbitrary: xs) simp_all

lemma step_num_float: "float_of_int (step_num st) = F64 (of_int (step_num st))"
  by (rule float_of_int_exact) (cases st; simp add: step_num_def)


lemma utf8_ascii: "list_all (\<lambda>c. byte c < 0x80) s \<Longrightarrow> utf8_valid s"
  by (induction s) (subst utf8_valid.simps, simp add: utf8Sequence_def)+

lemma is_int32_small: "\<bar>i\<bar> < 2 ^ 31 \<Longrightarrow> is_int32_float (F64 (of_int i))"
  by (rule is_int32_float_of_int) (simp_all add: MinInt32_def MaxInt32_def)

lemma int32_float: "\<bar>i\<bar> < 2 ^ 31 \<Longrightarrow> is_int32_float (float_of_int i)"
  by (subst float_of_int_exact) (simp_all add: is_int32_small)

lemma step_num_int32: "is_int32_float (float_of_int (step_num st))"
  by (rule int32_float) (cases st; simp add: step_num_def)

lemma step_printable:
  "utf8_valid (Title s) \<Longrightarrow> utf8_valid (Evidence s) \<Longrightarrow> printable (step_json s)"
  by (auto simp: step_json_def NewString_def NewNumber_def NewObject_def step_num_int32 Let_def
      utf8_ascii byte_def)

lemma restore_step_json: "restore_step (step_json s) = [s]"
proof -
  have "int_of_float (float_of_int (step_num (State s))) = step_num (State s)"
    unfolding step_num_float by (rule int_of_float_int) (cases "State s"; simp add: step_num_def is_i64_def)
  then show ?thesis
    by (cases s; cases "State s")
      (auto simp: restore_step_def step_json_def NewString_def NewNumber_def NewObject_def GetString_def
        Let_def step_num_def)
qed

lemma rail_json_eq:
  "rail_json r = JSONObject [(''objective'', JSONString (Objective r)),
     (''locked'', if Locked r then JSONTrue else JSONFalse), (''steps'', JSONArray (map step_json (Steps r)))]"
  by (simp add: rail_json_def NewString_def NewObject_def NewArray_def fold_Append)

lemma restore_steps: "concat (map restore_step (map step_json ss)) = ss"
  by (induction ss) (simp_all add: restore_step_json)

lemma RestoreRail_Serialize:
  assumes "rail_printable r" "Rail_Serialize (Some r) = Inr b"
  shows "RestoreRail (Some r0) b = Inr r"
proof -
  have "printable (rail_json r)"
    using assms(1) by (auto simp: rail_json_eq rail_printable_def utf8_ascii byte_def list_all_iff step_printable)
  then have "ParseJSON b = Some (rail_json r)"
    using assms(2) by (auto simp: Rail_Serialize_def dest: parse_printed)
  moreover have "b \<noteq> []" using assms(2) by (auto simp: Rail_Serialize_def rail_json_eq)
  ultimately show ?thesis
    using restore_steps [of "Steps r"]
    by (simp add: RestoreRail_def rail_json_eq GetString_def)
qed

interpretation rail: persisted
    "\<lambda>r. case Rail_Serialize (Some r) of Inl e \<Rightarrow> None | Inr b \<Rightarrow> Some b"
    "\<lambda>b. case RestoreRail (Some \<lparr> Objective = [], Locked = False, Steps = [] \<rparr>) b of Inl e \<Rightarrow> None | Inr r \<Rightarrow> Some r"
    rail_printable "\<lambda>r. r"
  by unfold_locales (auto simp: RestoreRail_Serialize split: sum.splits)

section \<open>A rail in use\<close>

instantiation StepState :: linorder
begin

definition less_eq_StepState :: "StepState \<Rightarrow> StepState \<Rightarrow> bool" where
  "less_eq_StepState a b \<longleftrightarrow> step_num a \<le> step_num b"

definition less_StepState :: "StepState \<Rightarrow> StepState \<Rightarrow> bool" where
  "less_StepState a b \<longleftrightarrow> step_num a < step_num b"

instance
proof
  fix a b :: StepState
  show "a \<le> b \<Longrightarrow> b \<le> a \<Longrightarrow> a = b"
    by (cases a; cases b) (simp_all add: less_eq_StepState_def step_num_def)
qed (auto simp: less_eq_StepState_def less_StepState_def)

end

text \<open>The operations of a running rail: a claim, an acknowledgement whose evidence is valid UTF-8 (other
  bytes would come back from the store replaced), and a trip through the store.\<close>

inductive rail_op :: "TaskRail \<Rightarrow> TaskRail \<Rightarrow> bool" where
  reserve: "Reserve idx (Some r) = Inr r' \<Longrightarrow> rail_op r r'"
| ack: "Ack idx evidence (Some r) = Inr r' \<Longrightarrow> utf8_valid evidence \<Longrightarrow> rail_op r r'"
| reload: "Rail_Serialize (Some r) = Inr b \<Longrightarrow> RestoreRail r0 b = Inr r' \<Longrightarrow> rail_op r r'"

definition same_plan :: "TaskRail \<Rightarrow> TaskRail \<Rightarrow> bool" where
  "same_plan r r' \<longleftrightarrow> Objective r' = Objective r \<and> Locked r' = Locked r
     \<and> map Title (Steps r') = map Title (Steps r)
     \<and> list_all2 (\<lambda>s s'. State s \<le> State s') (Steps r) (Steps r')"

lemma same_plan_refl [simp]: "same_plan r r"
  by (simp add: same_plan_def list_all2_refl)

lemma same_plan_trans: "same_plan r r' \<Longrightarrow> same_plan r' r'' \<Longrightarrow> same_plan r r''"
  unfolding same_plan_def by (auto intro: list_all2_trans [rotated 1])

lemma state_bounds: "StepPending \<le> st" "st \<le> StepDone"
  by (cases st; simp add: less_eq_StepState_def step_num_def)+

lemma same_plan_update:
  assumes "i < length (Steps r)" "Title s' = Title (Steps r ! i)" "State (Steps r ! i) \<le> State s'"
  shows "same_plan r (r \<lparr> Steps := (Steps r) [i := s'] \<rparr>)"
proof -
  have "map Title ((Steps r) [i := s']) = map Title (Steps r)"
    using assms(1,2) by (simp add: map_update list_update_same_conv)
  moreover have "list_all2 (\<lambda>s s'. State s \<le> State s') (Steps r) ((Steps r) [i := s'])"
    using assms by (auto simp: list_all2_conv_all_nth nth_list_update)
  ultimately show ?thesis by (simp add: same_plan_def)
qed

lemma rail_printable_update:
  "rail_printable r \<Longrightarrow> i < length (Steps r) \<Longrightarrow> utf8_valid (Title s') \<Longrightarrow> utf8_valid (Evidence s') \<Longrightarrow>
     rail_printable (r \<lparr> Steps := (Steps r) [i := s'] \<rparr>)"
  by (auto simp: rail_printable_def dest!: set_update_subset_insert [THEN subsetD])

lemma rail_op_plan:
  assumes "rail_op r r'" "rail_printable r"
  shows "same_plan r r' \<and> rail_printable r'"
  using assms
proof (induction rule: rail_op.induct)
  case (reserve idx r r')
  then show ?case
    by (auto simp: Reserve_def nat_less_iff intro!: same_plan_update rail_printable_update state_bounds
        split: if_splits)
      (auto simp: rail_printable_def nat_less_iff)
next
  case (ack idx evidence r r')
  then show ?case
    by (auto simp: Ack_def Let_def nat_less_iff intro!: same_plan_update rail_printable_update state_bounds
        split: if_splits)
      (auto simp: rail_printable_def nat_less_iff)
next
  case (reload r b r0 r')
  then obtain x where "r0 = Some x" by (cases r0) (auto simp: RestoreRail_def)
  then have "r' = r" using RestoreRail_Serialize [OF reload(3,1)] reload(2) by simp
  then show ?case using reload(3) by simp
qed

lemma done_mono:
  "list_all2 (\<lambda>s s'. State s \<le> State s') ss ss' \<Longrightarrow>
     length (filter (\<lambda>s. State s = StepDone) ss) \<le> length (filter (\<lambda>s. State s = StepDone) ss')"
  by (induction rule: list_all2_induct) (auto simp: state_bounds(2) antisym)

lemma first_open_spec:
  "0 \<le> i \<Longrightarrow> (first_open i ss = -1 \<and> (\<forall>s \<in> set ss. State s = StepDone)) \<or>
     (\<exists>n < length ss. first_open i ss = i + int n \<and> State (ss ! n) \<noteq> StepDone
        \<and> (\<forall>j < n. State (ss ! j) = StepDone))"
proof (induction i ss rule: first_open.induct)
  case (2 i s ss)
  show ?case
  proof (cases "State s = StepDone")
    case True
    from 2 True consider "first_open (i + 1) ss = -1" "\<forall>s \<in> set ss. State s = StepDone"
      | n where "n < length ss" "first_open (i + 1) ss = i + 1 + int n" "State (ss ! n) \<noteq> StepDone"
        "\<forall>j < n. State (ss ! j) = StepDone" by auto
    then show ?thesis
    proof cases
      case 2
      then show ?thesis using True
        by (intro disjI2 exI [of _ "Suc n"]) (auto simp: less_Suc_eq_0_disj)
    qed (use True in simp)
  qed auto
qed simp

lemma rail_ops_plan:
  "rail_op\<^sup>*\<^sup>* r r' \<Longrightarrow> rail_printable r \<Longrightarrow> same_plan r r' \<and> rail_printable r'"
  by (induction rule: rtranclp_induct) (auto dest: rail_op_plan intro: same_plan_trans)

text \<open>C35: the plan cannot drift, as long as its text is UTF-8. From a rail started with an objective and
  titles that are valid UTF-8, through any sequence of claims, acknowledgements whose evidence is valid
  UTF-8, and trips through the store, the objective, the lock and the titles stay what they were at the start,
  every step's state only moves forward, and no completed work is lost: the count of done steps never
  decreases, and \<open>Next\<close> names the first step that is not done.\<close>

theorem rail_plan_stable:
  assumes "Rail_Start objective titles (Some r0) = Inr r" "rail_op\<^sup>*\<^sup>* r r1" "rail_op\<^sup>*\<^sup>* r1 r2"
    and "utf8_valid objective" "list_all utf8_valid titles"
  shows "Objective r2 = objective \<and> Locked r2 \<and> map Title (Steps r2) = titles
    \<and> list_all2 (\<lambda>s s'. State s \<le> State s') (Steps r1) (Steps r2)
    \<and> DoneCount (Some r1) \<le> DoneCount (Some r2)
    \<and> (if Next (Some r2) = -1 then \<forall>s \<in> set (Steps r2). State s = StepDone
       else State (Steps r2 ! nat (Next (Some r2))) \<noteq> StepDone
         \<and> (\<forall>i < nat (Next (Some r2)). State (Steps r2 ! i) = StepDone))"
proof -
  have r: "r = \<lparr> Objective = objective, Locked = True,
      Steps = map (\<lambda>t. \<lparr> Title = t, Evidence = [], State = StepPending \<rparr>) titles \<rparr>"
    using assms(1) by (simp add: Rail_Start_def)
  then have "rail_printable r"
    using assms(4,5) by (auto simp: rail_printable_def list_all_iff utf8_ascii)
  then have 1: "same_plan r r1" "rail_printable r1" using rail_ops_plan [OF assms(2)] by auto
  then have 2: "same_plan r1 r2" using rail_ops_plan [OF assms(3)] by auto
  then have "DoneCount (Some r1) \<le> DoneCount (Some r2)"
    using done_mono [of "Steps r1" "Steps r2"] by (simp add: DoneCount_def same_plan_def)
  moreover have "Objective r2 = objective" "Locked r2" "map Title (Steps r2) = titles"
    "list_all2 (\<lambda>s s'. State s \<le> State s') (Steps r1) (Steps r2)"
    using 1 2 by (auto simp: same_plan_def r comp_def)
  ultimately show ?thesis
    using first_open_spec [of 0 "Steps r2"] by (auto simp: Next_def)
qed

theorem rail_plan_stable_witness:
  "\<exists>r r2. Rail_Start ''goal'' [''a'', ''b''] (Some \<lparr> Objective = [], Locked = False, Steps = [] \<rparr>) = Inr r
     \<and> Reserve 0 (Some r) = Inr r2 \<and> map Title (Steps r2) = [''a'', ''b''] \<and> Next (Some r2) = 0"
proof -
  define r where "r = \<lparr> Objective = ''goal'', Locked = True, Steps =
    [\<lparr> Title = ''a'', Evidence = [], State = StepPending \<rparr>, \<lparr> Title = ''b'', Evidence = [], State = StepPending \<rparr>] \<rparr>"
  have s: "Rail_Start ''goal'' [''a'', ''b''] (Some \<lparr> Objective = [], Locked = False, Steps = [] \<rparr>) = Inr r"
    by (simp add: Rail_Start_def r_def)
  obtain r2 where r2: "Reserve 0 (Some r) = Inr r2" by (simp add: Reserve_def r_def)
  then have n: "Next (Some r2) = 0" by (auto simp: Reserve_def r_def Next_def)
  have "rail_op\<^sup>*\<^sup>* r r2" using r2 by (intro r_into_rtranclp rail_op.reserve)
  from rail_plan_stable [OF s this] s r2 n show ?thesis by (auto simp: utf8_ascii byte_def)
qed

text \<open>The store keeps a rail exactly. Whatever rail was live before, restoring the serialized text of
  a rail with valid UTF-8 gives that rail back: objective, lock, and every step with its state and
  evidence; and so does every later restart.\<close>

theorem rail_roundtrip:
  assumes "rail_printable r" "Rail_Serialize (Some r) = Inr b"
  shows "RestoreRail (Some live) b = Inr r \<and> (rail.restart ^^ Suc n) (Some r) = Some r"
proof -
  have "(case Rail_Serialize (Some r) of Inl e \<Rightarrow> None | Inr b \<Rightarrow> Some b) \<noteq> None" using assms(2) by simp
  from rail.restarts_stable [OF assms(1) this this] RestoreRail_Serialize [OF assms] show ?thesis by blast
qed

definition sample_rail :: TaskRail where
  "sample_rail = \<lparr> Objective = ''goal'', Locked = True,
     Steps = [\<lparr> Title = ''a'', Evidence = ''h1'', State = StepDone \<rparr>] \<rparr>"

theorem rail_roundtrip_witness:
  "\<exists>b. Rail_Serialize (Some sample_rail) = Inr b \<and> RestoreRail (Some sample_rail) b = Inr sample_rail"
proof -
  obtain b where b: "Rail_Serialize (Some sample_rail) = Inr b" by (simp add: Rail_Serialize_def)
  have "rail_printable sample_rail" by (simp add: rail_printable_def sample_rail_def utf8_ascii byte_def)
  from rail_roundtrip [OF this b] b show ?thesis by blast
qed

end
