(* ===== verification/Episode.thy ===== *)
theory Episode
  imports Interfaces JsonRoundTrip
begin

text \<open>
  \<open>episode.go\<close>: the sealed work episode, a conclusion with the files it was drawn from, in the order
  they were touched. A nil seal is \<open>None\<close>.
\<close>

record EpisodeSeal =
  Conclusion :: string
  Files :: "string list"

definition SetConclusion :: "string \<Rightarrow> EpisodeSeal \<Rightarrow> EpisodeSeal" where
  "SetConclusion body s = s \<lparr> Conclusion := body \<rparr>"

definition AddFile :: "string \<Rightarrow> EpisodeSeal \<Rightarrow> EpisodeSeal" where
  "AddFile path s =
     (if path = [] then s
      else if list_ex (\<lambda>f. f = path) (Files s) then s
      else s \<lparr> Files := Files s @ [path] \<rparr>)"

definition Touches :: "string \<Rightarrow> EpisodeSeal option \<Rightarrow> bool" where
  "Touches path s =
     (case s of None \<Rightarrow> False
      | Some e \<Rightarrow> if path = [] then False else list_ex (\<lambda>f. f = path) (Files e))"

definition seal_json :: "EpisodeSeal \<Rightarrow> json" where
  "seal_json s =
     Set ''files'' (fold (\<lambda>f a. Append (NewString f) a) (Files s) NewArray)
       (Set ''conclusion'' (NewString (Conclusion s)) NewObject)"

definition Seal_Serialize :: "EpisodeSeal option \<Rightarrow> string + string" where
  "Seal_Serialize s =
     (case s of None \<Rightarrow> Inl ''economizer: nil seal'' | Some e \<Rightarrow> Inr (PrintJSONUnformatted (seal_json e)))"

definition restore_file :: "json \<Rightarrow> EpisodeSeal \<Rightarrow> EpisodeSeal" where
  "restore_file f s = (case f of JSONString p \<Rightarrow> AddFile p s | _ \<Rightarrow> s)"

definition ParseEpisodeSeal :: "EpisodeSeal option \<Rightarrow> string \<Rightarrow> string + EpisodeSeal" where
  "ParseEpisodeSeal s blob =
     (if s = None \<or> blob = [] then Inl ''economizer: nothing to parse''
      else (case ParseJSON blob of
              Some (JSONObject kvs) \<Rightarrow>
                (let root = Some (JSONObject kvs); files = Get root ''files''
                 in if files \<noteq> None \<and> \<not> IsArray files then Inl ''economizer: seal files is not an array''
                    else Inr (fold restore_file (Items files)
                           (SetConclusion (GetString root ''conclusion'') \<lparr> Conclusion = [], Files = [] \<rparr>)))
            | _ \<Rightarrow> Inl ''economizer: seal is not a JSON object''))"

section \<open>Properties\<close>

interpretation seal: dedup_store Files "\<lambda>s k. k \<in> set (Files s)" AddFile "\<lambda>p. p" "\<lambda>p. p \<noteq> []" "\<lambda>s. True"
  by unfold_locales (auto simp: AddFile_def list_ex_iff)

definition seal_ok :: "EpisodeSeal \<Rightarrow> bool" where
  "seal_ok s \<longleftrightarrow> utf8_valid (Conclusion s) \<and> list_all utf8_valid (Files s) \<and> distinct (Files s) \<and> [] \<notin> set (Files s)"

lemma fold_Append_strings:
  "fold (\<lambda>f a. Append (NewString f) a) fs (JSONArray xs) = JSONArray (xs @ map JSONString fs)"
  by (induction fs arbitrary: xs) (simp_all add: NewString_def)

lemma seal_json_eq:
  "seal_json s = JSONObject [(''conclusion'', JSONString (Conclusion s)),
     (''files'', JSONArray (map JSONString (Files s)))]"
  by (simp add: seal_json_def NewString_def NewObject_def NewArray_def fold_Append_strings [unfolded NewString_def])

lemma restore_files:
  "distinct (Files s @ fs) \<Longrightarrow> [] \<notin> set fs \<Longrightarrow>
     fold restore_file (map JSONString fs) s = s \<lparr> Files := Files s @ fs \<rparr>"
  by (induction fs arbitrary: s) (auto simp: restore_file_def AddFile_def list_ex_iff)

lemma ParseEpisodeSeal_Serialize:
  assumes "seal_ok s" "Seal_Serialize (Some s) = Inr b"
  shows "ParseEpisodeSeal (Some s0) b = Inr s"
proof -
  have ascii: "utf8_valid ''conclusion''" "utf8_valid ''files''"
    by (simp_all add: utf8_valid.simps utf8Sequence_def byte_def)
  have "printable (seal_json s)"
    using assms(1) ascii by (simp add: seal_json_eq seal_ok_def list_all_iff)
  then have "ParseJSON b = Some (seal_json s)"
    using assms(2) by (auto simp: Seal_Serialize_def dest: parse_printed)
  moreover have "b \<noteq> []" using assms(2) by (auto simp: Seal_Serialize_def seal_json_eq)
  ultimately show ?thesis
    using assms(1) restore_files [of "\<lparr> Conclusion = Conclusion s, Files = [] \<rparr>" "Files s"]
    by (simp add: ParseEpisodeSeal_def seal_json_eq GetString_def SetConclusion_def seal_ok_def)
qed

interpretation seal_store: persisted
    "\<lambda>s. case Seal_Serialize (Some s) of Inl e \<Rightarrow> None | Inr b \<Rightarrow> Some b"
    "\<lambda>b. case ParseEpisodeSeal (Some \<lparr> Conclusion = [], Files = [] \<rparr>) b of Inl e \<Rightarrow> None | Inr s \<Rightarrow> Some s"
    seal_ok "\<lambda>s. s"
  by unfold_locales (auto simp: ParseEpisodeSeal_Serialize split: sum.splits)

text \<open>A seal recalls exactly the files that were added. After any additions to a seal and a trip
  through the store the loaded seal touches a path exactly when it was touched before or is one of the
  added (non-empty) paths; the inventory has no repetition and keeps the order of first touch.\<close>

theorem seal_recalls:
  assumes "seal_ok s" "list_all utf8_valid paths" "Seal_Serialize (Some (fold AddFile paths s)) = Inr b"
  shows "\<exists>s'. ParseEpisodeSeal (Some live) b = Inr s' \<and> Conclusion s' = Conclusion s
    \<and> distinct (Files s') \<and> prefix (Files s) (Files s')
    \<and> (\<forall>p. Touches p (Some s') \<longleftrightarrow> Touches p (Some s) \<or> p \<noteq> [] \<and> p \<in> set paths)"
proof -
  let ?s = "fold AddFile paths s"
  have c: "Conclusion (fold AddFile ps s) = Conclusion s" for ps s
    by (induction ps arbitrary: s) (simp_all add: AddFile_def)
  have keys: "set (Files ?s) = set (Files s) \<union> set (filter (\<lambda>p. p \<noteq> []) paths)"
    using seal.keys_fold [where s = s and as = paths] by simp
  moreover have d: "distinct (Files ?s)"
    using seal.distinct_fold [where s = s and as = paths] assms(1) by (simp add: seal_ok_def)
  ultimately have "seal_ok ?s"
    using assms(1,2) c by (auto simp: seal_ok_def list_all_iff)
  then have "ParseEpisodeSeal (Some live) b = Inr ?s" using assms(3) by (rule ParseEpisodeSeal_Serialize)
  then show ?thesis
    using d c keys seal.prefix_fold [where s = s and as = paths] by (auto simp: Touches_def list_ex_iff)
qed

theorem seal_recalls_witness:
  "\<exists>b s'. Seal_Serialize (Some (fold AddFile [''a.go'', ''b.go'', ''a.go''] \<lparr> Conclusion = ''ok'', Files = [] \<rparr>)) = Inr b
     \<and> ParseEpisodeSeal (Some \<lparr> Conclusion = [], Files = [] \<rparr>) b = Inr s' \<and> Touches ''b.go'' (Some s')"
proof -
  obtain b where b: "Seal_Serialize (Some (fold AddFile [''a.go'', ''b.go'', ''a.go'']
      \<lparr> Conclusion = ''ok'', Files = [] \<rparr>)) = Inr b" by (simp add: Seal_Serialize_def)
  have "seal_ok \<lparr> Conclusion = ''ok'', Files = [] \<rparr>" "list_all utf8_valid [''a.go'', ''b.go'', ''a.go'']"
    by (simp_all add: seal_ok_def utf8_valid.simps utf8Sequence_def byte_def)
  from seal_recalls [OF this b, of "\<lparr> Conclusion = [], Files = [] \<rparr>"] b show ?thesis by auto
qed

end
