(* ===== verification/Bytes.thy ===== *)
theory Bytes
  imports Prelude "HOL-Library.Word"
begin

text \<open>
  Little-endian access to a byte slice, the part of \<open>encoding/binary\<close> that the bus sources call. A
  slice is a byte string; a \<open>Put\<close> returns the slice after the store. The accessors are total here:
  every caller checks the length of its slice first, and the laws below are stated within it.
\<close>

section \<open>Bytes of a number\<close>

fun le_bytes :: "nat \<Rightarrow> nat \<Rightarrow> string" where
  "le_bytes 0 v = []"
| "le_bytes (Suc n) v = char_of (v mod 256) # le_bytes n (v div 256)"

fun le_value :: "string \<Rightarrow> nat" where
  "le_value [] = 0"
| "le_value (c # cs) = byte c + 256 * le_value cs"

lemma length_le_bytes [simp]: "length (le_bytes n v) = n"
  by (induction n arbitrary: v) simp_all

lemma le_value_le_bytes [simp]: "le_value (le_bytes n v) = v mod 256 ^ n"
proof (induction n arbitrary: v)
  case (Suc n)
  then show ?case
    by (simp add: mod_mult2_eq [of v 256 "256 ^ n"] byte_def add.commute)
qed simp

lemma le_bytes_le_value [simp]: "le_bytes (length bs) (le_value bs) = bs"
proof (induction bs)
  case (Cons c cs)
  then show ?case using byte_less [of c]
    by (simp add: mod_less div_less del: byte_less)
qed simp

lemma le_value_less: "le_value bs < 256 ^ length bs"
proof (induction bs)
  case (Cons c cs)
  then show ?case using byte_less [of c] by (simp del: byte_less)
qed simp

section \<open>Slices\<close>

text \<open>\<open>n\<close> bytes at an offset, and their replacement.\<close>

definition slice :: "nat \<Rightarrow> nat \<Rightarrow> string \<Rightarrow> string" where
  "slice off n b = take n (drop off b)"

definition store :: "nat \<Rightarrow> string \<Rightarrow> string \<Rightarrow> string" where
  "store off bs b = take off b @ bs @ drop (off + length bs) b"

lemma length_slice [simp]: "off + n \<le> length b \<Longrightarrow> length (slice off n b) = n"
  by (simp add: slice_def)

lemma length_store [simp]: "off + length bs \<le> length b \<Longrightarrow> length (store off bs b) = length b"
  by (simp add: store_def)

lemma slice_store_same [simp]:
  "off + length bs \<le> length b \<Longrightarrow> n = length bs \<Longrightarrow> slice off n (store off bs b) = bs"
  by (simp add: slice_def store_def)

lemma store_nth:
  "off + length bs \<le> length b \<Longrightarrow> i < length b
    \<Longrightarrow> store off bs b ! i = (if off \<le> i \<and> i < off + length bs then bs ! (i - off) else b ! i)"
  by (auto simp: store_def nth_append min_def)

lemma slice_store_other:
  assumes "off + length bs \<le> length b" "o' + n \<le> length b" "o' + n \<le> off \<or> off + length bs \<le> o'"
  shows "slice o' n (store off bs b) = slice o' n b"
proof (rule nth_equalityI)
  show "length (slice o' n (store off bs b)) = length (slice o' n b)" using assms by simp
  fix i assume "i < length (slice o' n (store off bs b))"
  then have "i < n" using assms by simp
  then show "slice o' n (store off bs b) ! i = slice o' n b ! i"
    using assms by (auto simp: slice_def store_nth)
qed

lemma slice_append: "slice off (m + n) b = slice off m b @ slice (off + m) n b"
  by (simp add: slice_def take_add drop_drop add.commute)

lemma slice_prefix: "slice off n (take k b) = slice off n b" if "off + n \<le> k"
  using that by (simp add: slice_def drop_take min_def)

lemma slice_append_left: "off + n \<le> length b \<Longrightarrow> slice off n (b @ c) = slice off n b"
  by (simp add: slice_def)

lemma slice_0: "slice 0 n b = take n b"
  by (simp add: slice_def)

section \<open>Fixed-width integers\<close>

definition Uint16 :: "string \<Rightarrow> nat \<Rightarrow> 16 word" where
  "Uint16 b off = word_of_nat (le_value (slice off 2 b))"

definition Uint32 :: "string \<Rightarrow> nat \<Rightarrow> 32 word" where
  "Uint32 b off = word_of_nat (le_value (slice off 4 b))"

definition Uint64 :: "string \<Rightarrow> nat \<Rightarrow> 64 word" where
  "Uint64 b off = word_of_nat (le_value (slice off 8 b))"

definition PutUint16 :: "nat \<Rightarrow> 16 word \<Rightarrow> string \<Rightarrow> string" where
  "PutUint16 off v b = store off (le_bytes 2 (unat v)) b"

definition PutUint32 :: "nat \<Rightarrow> 32 word \<Rightarrow> string \<Rightarrow> string" where
  "PutUint32 off v b = store off (le_bytes 4 (unat v)) b"

definition PutUint64 :: "nat \<Rightarrow> 64 word \<Rightarrow> string \<Rightarrow> string" where
  "PutUint64 off v b = store off (le_bytes 8 (unat v)) b"

lemma length_Put [simp]:
  "off + 2 \<le> length b \<Longrightarrow> length (PutUint16 off v16 b) = length b"
  "off + 4 \<le> length b \<Longrightarrow> length (PutUint32 off v32 b) = length b"
  "off + 8 \<le> length b \<Longrightarrow> length (PutUint64 off v64 b) = length b"
  by (simp_all add: PutUint16_def PutUint32_def PutUint64_def)

lemma unat_mod_width:
  "unat (v16 :: 16 word) mod 65536 = unat v16"
  "unat (v32 :: 32 word) mod 4294967296 = unat v32"
  "unat (v64 :: 64 word) mod 18446744073709551616 = unat v64"
proof -
  have "unat v16 < 2 ^ LENGTH(16)" "unat v32 < 2 ^ LENGTH(32)" "unat v64 < 2 ^ LENGTH(64)"
    by (rule unsigned_less)+
  then show "unat (v16 :: 16 word) mod 65536 = unat v16" "unat (v32 :: 32 word) mod 4294967296 = unat v32"
    "unat (v64 :: 64 word) mod 18446744073709551616 = unat v64" by simp_all
qed

text \<open>Widening keeps the value, and so does a sum that does not wrap.\<close>

lemma unat_ucast_widen [simp]: "unat (ucast (v :: 32 word) :: 64 word) = unat v"
proof -
  have "unat v < 2 ^ LENGTH(32)" by (rule unsigned_less)
  then show ?thesis by (simp add: unsigned_ucast_eq take_bit_nat_eq_self_iff)
qed

lemma unat_add_no_wrap: "\<not> x + y < x \<Longrightarrow> unat (x + y) = unat x + unat y"
  by (metis not_less unat_plus_simple)

lemma Uint_Put_same [simp]:
  "off + 2 \<le> length b \<Longrightarrow> Uint16 (PutUint16 off v16 b) off = v16"
  "off + 4 \<le> length b \<Longrightarrow> Uint32 (PutUint32 off v32 b) off = v32"
  "off + 8 \<le> length b \<Longrightarrow> Uint64 (PutUint64 off v64 b) off = v64"
  by (simp_all add: Uint16_def Uint32_def Uint64_def PutUint16_def PutUint32_def PutUint64_def unat_mod_width)

lemma Uint_Put_other [simp]:
  "off + 2 \<le> length b \<Longrightarrow> p + 2 \<le> length b \<Longrightarrow> p + 2 \<le> off \<or> off + 2 \<le> p \<Longrightarrow> Uint16 (PutUint16 off v16 b) p = Uint16 b p"
  "off + 2 \<le> length b \<Longrightarrow> p + 4 \<le> length b \<Longrightarrow> p + 4 \<le> off \<or> off + 2 \<le> p \<Longrightarrow> Uint32 (PutUint16 off v16 b) p = Uint32 b p"
  "off + 2 \<le> length b \<Longrightarrow> p + 8 \<le> length b \<Longrightarrow> p + 8 \<le> off \<or> off + 2 \<le> p \<Longrightarrow> Uint64 (PutUint16 off v16 b) p = Uint64 b p"
  "off + 4 \<le> length b \<Longrightarrow> p + 2 \<le> length b \<Longrightarrow> p + 2 \<le> off \<or> off + 4 \<le> p \<Longrightarrow> Uint16 (PutUint32 off v32 b) p = Uint16 b p"
  "off + 4 \<le> length b \<Longrightarrow> p + 4 \<le> length b \<Longrightarrow> p + 4 \<le> off \<or> off + 4 \<le> p \<Longrightarrow> Uint32 (PutUint32 off v32 b) p = Uint32 b p"
  "off + 4 \<le> length b \<Longrightarrow> p + 8 \<le> length b \<Longrightarrow> p + 8 \<le> off \<or> off + 4 \<le> p \<Longrightarrow> Uint64 (PutUint32 off v32 b) p = Uint64 b p"
  "off + 8 \<le> length b \<Longrightarrow> p + 2 \<le> length b \<Longrightarrow> p + 2 \<le> off \<or> off + 8 \<le> p \<Longrightarrow> Uint16 (PutUint64 off v64 b) p = Uint16 b p"
  "off + 8 \<le> length b \<Longrightarrow> p + 4 \<le> length b \<Longrightarrow> p + 4 \<le> off \<or> off + 8 \<le> p \<Longrightarrow> Uint32 (PutUint64 off v64 b) p = Uint32 b p"
  "off + 8 \<le> length b \<Longrightarrow> p + 8 \<le> length b \<Longrightarrow> p + 8 \<le> off \<or> off + 8 \<le> p \<Longrightarrow> Uint64 (PutUint64 off v64 b) p = Uint64 b p"
  by (simp_all add: Uint16_def Uint32_def Uint64_def PutUint16_def PutUint32_def PutUint64_def slice_store_other)

text \<open>A slice read as an integer has the bytes of that integer.\<close>

lemma le_bytes_Uint:
  "off + 2 \<le> length b \<Longrightarrow> le_bytes 2 (unat (Uint16 b off)) = slice off 2 b"
  "off + 4 \<le> length b \<Longrightarrow> le_bytes 4 (unat (Uint32 b off)) = slice off 4 b"
  "off + 8 \<le> length b \<Longrightarrow> le_bytes 8 (unat (Uint64 b off)) = slice off 8 b"
proof -
  have *: "le_bytes n (le_value (slice off n b)) = slice off n b" if "off + n \<le> length b" for n
    using le_bytes_le_value [of "slice off n b"] that by simp
  have lt: "le_value (slice off n b) < 256 ^ n" if "off + n \<le> length b" for n
    using le_value_less [of "slice off n b"] that by simp
  show "off + 2 \<le> length b \<Longrightarrow> le_bytes 2 (unat (Uint16 b off)) = slice off 2 b"
    using * [of 2] lt [of 2] by (simp add: Uint16_def unat_of_nat)
  show "off + 4 \<le> length b \<Longrightarrow> le_bytes 4 (unat (Uint32 b off)) = slice off 4 b"
    using * [of 4] lt [of 4] by (simp add: Uint32_def unat_of_nat)
  show "off + 8 \<le> length b \<Longrightarrow> le_bytes 8 (unat (Uint64 b off)) = slice off 8 b"
    using * [of 8] lt [of 8] by (simp add: Uint64_def unat_of_nat)
qed

text \<open>Stores one after the other, from the front of a buffer.\<close>

lemma Put_append:
  "off = length p \<Longrightarrow> PutUint16 off v16 (p @ q) = p @ le_bytes 2 (unat v16) @ drop 2 q"
  "off = length p \<Longrightarrow> PutUint32 off v32 (p @ q) = p @ le_bytes 4 (unat v32) @ drop 4 q"
  "off = length p \<Longrightarrow> PutUint64 off v64 (p @ q) = p @ le_bytes 8 (unat v64) @ drop 8 q"
  by (simp_all add: PutUint16_def PutUint32_def PutUint64_def store_def)

section \<open>Interface of the wire codecs\<close>

text \<open>
  A header of \<open>len\<close> bytes: \<open>encode\<close> writes it to the front of a buffer or refuses, \<open>decode\<close> reads it
  back or refuses. The frame header of the bus and the message header of the module protocol are
  providers.
\<close>

locale wire_codec =
  fixes encode :: "'m \<Rightarrow> string \<Rightarrow> string option"
    and decode :: "string \<Rightarrow> 'm option"
    and wf :: "'m \<Rightarrow> bool"
    and width :: nat
    and fits :: "'m \<Rightarrow> nat \<Rightarrow> bool"
  assumes encode_iff: "encode m b \<noteq> None \<longleftrightarrow> wf m \<and> width \<le> length b"
    and encode_shape: "encode m b = Some b' \<Longrightarrow> \<exists>h. length h = width \<and> b' = h @ drop width b"
    and decode_encode: "encode m b = Some b' \<Longrightarrow> fits m (length b) \<Longrightarrow> decode b' = Some m"
    and encode_decode: "decode b = Some m \<Longrightarrow> width \<le> length c \<Longrightarrow> encode m c = Some (take width b @ drop width c)"
    and decode_wf: "decode b = Some m \<Longrightarrow> wf m \<and> width \<le> length b \<and> fits m (length b)"
begin

lemma encode_length: "encode m b = Some b' \<Longrightarrow> length b' = length b"
  using encode_shape [of m b b'] encode_iff [of m b] by auto

lemma encode_tail: "encode m b = Some b' \<Longrightarrow> drop width b' = drop width b"
  using encode_shape [of m b b'] by auto

text \<open>Two buffers decode to the same header exactly when their headers are the same bytes.\<close>

lemma decode_inj:
  assumes "decode b = Some m" "decode c = Some m"
  shows "take width b = take width c"
proof -
  have w: "width \<le> length b" "width \<le> length c" using decode_wf assms by blast+
  have "take width b @ drop width b = take width c @ drop width b"
    using encode_decode [OF assms(1) w(1)] encode_decode [OF assms(2) w(1)] by (metis option.inject)
  with w show ?thesis by (metis append_same_eq)
qed

lemma decode_header:
  assumes "decode b = Some m" "length c = length b" "take width c = take width b"
  shows "decode c = Some m"
proof -
  have b: "width \<le> length b" "fits m (length b)" using decode_wf assms(1) by blast+
  have "encode m c = Some (take width b @ drop width c)" using encode_decode assms(1,2) b by simp
  also have "take width b @ drop width c = c" using assms(3) by (metis append_take_drop_id)
  finally show ?thesis using decode_encode b(2) assms(2) by simp
qed

end

end
