(* ===== verification/Wire.thy ===== *)
theory Wire
  imports Bytes
begin

text \<open>
  Model of \<open>wire.go\<close>: the 64-byte frame header of the event bus, its validation, its codec and the
  bounds check of a payload reference. Header fields keep their width; a buffer is a byte string and
  an encoder returns the count it returns and the buffer after the call.
\<close>

section \<open>Constants\<close>

definition WireMagic :: "32 word" where "WireMagic = 0x30535542"
definition WireVersion :: "16 word" where "WireVersion = 3"
definition HdrLen :: nat where "HdrLen = 64"
definition MaxPayload :: "32 word" where "MaxPayload = 1048576"

definition FInline :: "16 word" where "FInline = 0x0001"
definition FArena :: "16 word" where "FArena = 0x0002"
definition FNotification :: "16 word" where "FNotification = 0x0004"
definition FRequest :: "16 word" where "FRequest = 0x0008"
definition FReply :: "16 word" where "FReply = 0x0010"
definition FCancel :: "16 word" where "FCancel = 0x0020"
definition FControl :: "16 word" where "FControl = 0x0040"
definition FMore :: "16 word" where "FMore = 0x0080"

definition fPlacementMask :: "16 word" where "fPlacementMask = FInline OR FArena"
definition fPatternMask :: "16 word" where "fPatternMask = FNotification OR FRequest OR FReply OR FCancel"
definition fKnownMask :: "16 word" where "fKnownMask = fPlacementMask OR fPatternMask OR FControl OR FMore"

lemmas flag_defs = FInline_def FArena_def FNotification_def FRequest_def FReply_def FCancel_def
  FControl_def FMore_def fPlacementMask_def fPatternMask_def fKnownMask_def

definition KindError :: "32 word" where "KindError = 3"
definition KindCapabilityAbsent :: "32 word" where "KindCapabilityAbsent = 4"
definition KindModuleBase :: "32 word" where "KindModuleBase = 256"

record Frame =
  HdrFlags :: "16 word"
  hdrWireVersion :: "16 word"
  EventKind :: "32 word"
  PrincipalRef :: "32 word"
  CorrelationID :: "64 word"
  Seq :: "64 word"
  LogicalTS :: "64 word"
  PayloadRef :: "64 word"
  PayloadLen :: "32 word"
  SrcHandle :: "32 word"
  DstHandle :: "32 word"
  Generation :: "32 word"

datatype Result = OK | ErrShort | ErrMagic | ErrVersion | ErrFlags | ErrPayloadLen | ErrCorrelation | ErrReserved

fun Result_String :: "Result \<Rightarrow> string" where
  "Result_String OK = ''OK''"
| "Result_String ErrShort = ''ERR_SHORT''"
| "Result_String ErrMagic = ''ERR_MAGIC''"
| "Result_String ErrVersion = ''ERR_VERSION''"
| "Result_String ErrFlags = ''ERR_FLAGS''"
| "Result_String ErrPayloadLen = ''ERR_PAYLOAD_LEN''"
| "Result_String ErrCorrelation = ''ERR_CORRELATION''"
| "Result_String ErrReserved = ''ERR_RESERVED''"

section \<open>Validation\<close>

definition exactlyOne :: "16 word \<Rightarrow> bool" where
  "exactlyOne v \<longleftrightarrow> v \<noteq> 0 \<and> v AND (v - 1) = 0"

definition has_flag :: "Frame \<Rightarrow> 16 word \<Rightarrow> bool" where
  "has_flag f m \<longleftrightarrow> HdrFlags f AND m \<noteq> 0"

text \<open>The check of the payload fields, of the continuation flag, of the generation and of the
  correlation: each is one block of the function and returns its error or goes on.\<close>

definition validate_payload :: "Frame \<Rightarrow> Result" where
  "validate_payload f =
     (let placement = HdrFlags f AND fPlacementMask
      in if PayloadLen f > 0 then
           (if \<not> exactlyOne placement then ErrFlags
            else if PayloadLen f > MaxPayload then ErrPayloadLen else OK)
         else if placement \<noteq> 0 then ErrFlags
         else if PayloadRef f \<noteq> 0 then ErrPayloadLen else OK)"

definition validate_more :: "Frame \<Rightarrow> Result" where
  "validate_more f =
     (let placement = HdrFlags f AND fPlacementMask; pattern = HdrFlags f AND fPatternMask
      in if has_flag f FMore
            \<and> (pattern \<noteq> FRequest \<and> pattern \<noteq> FReply \<or> placement \<noteq> FInline \<or> PayloadLen f = 0)
         then ErrFlags else OK)"

definition validate_correlation :: "Frame \<Rightarrow> Result" where
  "validate_correlation f =
     (if has_flag f FNotification then (if CorrelationID f \<noteq> 0 then ErrCorrelation else OK)
      else if CorrelationID f = 0 then ErrCorrelation else OK)"

definition Validate :: "Frame \<Rightarrow> Result" where
  "Validate f =
     (if hdrWireVersion f \<noteq> WireVersion then ErrVersion
      else if HdrFlags f AND NOT fKnownMask \<noteq> 0 then ErrFlags
      else if \<not> exactlyOne (HdrFlags f AND fPatternMask) then ErrFlags
      else if validate_payload f \<noteq> OK then validate_payload f
      else if validate_more f \<noteq> OK then validate_more f
      else if \<not> has_flag f FArena \<and> Generation f \<noteq> 0 then ErrFlags
      else validate_correlation f)"

section \<open>Codec\<close>

definition zero_frame :: Frame where
  "zero_frame = \<lparr> HdrFlags = 0, hdrWireVersion = 0, EventKind = 0, PrincipalRef = 0, CorrelationID = 0,
     Seq = 0, LogicalTS = 0, PayloadRef = 0, PayloadLen = 0, SrcHandle = 0, DstHandle = 0, Generation = 0 \<rparr>"

text \<open>The stores of the encoder, in order, into a header cleared first.\<close>

definition put_frame :: "Frame \<Rightarrow> string \<Rightarrow> string" where
  "put_frame f b =
     (let b = PutUint32 0 WireMagic b;
          b = PutUint16 4 (HdrFlags f) b;
          b = PutUint16 6 (hdrWireVersion f) b;
          b = PutUint32 8 (EventKind f) b;
          b = PutUint32 12 (PrincipalRef f) b;
          b = PutUint64 16 (CorrelationID f) b;
          b = PutUint64 24 (Seq f) b;
          b = PutUint64 32 (LogicalTS f) b;
          b = PutUint64 40 (PayloadRef f) b;
          b = PutUint32 48 (PayloadLen f) b;
          b = PutUint32 52 (SrcHandle f) b;
          b = PutUint32 56 (DstHandle f) b
      in PutUint32 60 (Generation f) b)"

definition Encode :: "Frame \<Rightarrow> string \<Rightarrow> nat \<times> string" where
  "Encode f out =
     (if length out < HdrLen then (0, out)
      else if Validate f \<noteq> OK then (0, out)
      else (HdrLen, put_frame f (store 0 (replicate HdrLen (CHR 0x00)) out)))"

definition get_frame :: "string \<Rightarrow> Frame" where
  "get_frame b =
     \<lparr> HdrFlags = Uint16 b 4, hdrWireVersion = Uint16 b 6, EventKind = Uint32 b 8, PrincipalRef = Uint32 b 12,
       CorrelationID = Uint64 b 16, Seq = Uint64 b 24, LogicalTS = Uint64 b 32, PayloadRef = Uint64 b 40,
       PayloadLen = Uint32 b 48, SrcHandle = Uint32 b 52, DstHandle = Uint32 b 56, Generation = Uint32 b 60 \<rparr>"

text \<open>The frame behind the out parameter after the call.\<close>

definition Decode :: "string \<Rightarrow> Frame \<Rightarrow> Result \<times> Frame" where
  "Decode b out =
     (if length b < HdrLen then (ErrShort, out)
      else if Uint32 b 0 \<noteq> WireMagic then (ErrMagic, out)
      else let f = get_frame b; r = Validate f
           in if r \<noteq> OK then (r, out) else (OK, f))"

section \<open>Placement\<close>

definition CheckPlacement :: "Frame \<Rightarrow> 32 word \<Rightarrow> 64 word \<Rightarrow> Result" where
  "CheckPlacement f slotSize arenaSize =
     (if Validate f \<noteq> OK then Validate f
      else if PayloadLen f = 0 then OK
      else if has_flag f FInline then
        (let end = PayloadRef f + ucast (PayloadLen f)
         in if end < PayloadRef f then ErrPayloadLen
            else if PayloadRef f < of_nat HdrLen \<or> end > ucast slotSize then ErrPayloadLen else OK)
      else if ucast (PayloadLen f) > arenaSize then ErrPayloadLen else OK)"

section \<open>Laws\<close>

lemma HdrLen_numeral [simp]: "HdrLen = 64" by (simp add: HdrLen_def)

text \<open>The header as the bytes of its fields.\<close>

definition frame_bytes :: "Frame \<Rightarrow> string" where
  "frame_bytes f = le_bytes 4 (unat WireMagic) @ le_bytes 2 (unat (HdrFlags f)) @ le_bytes 2 (unat (hdrWireVersion f))
     @ le_bytes 4 (unat (EventKind f)) @ le_bytes 4 (unat (PrincipalRef f)) @ le_bytes 8 (unat (CorrelationID f))
     @ le_bytes 8 (unat (Seq f)) @ le_bytes 8 (unat (LogicalTS f)) @ le_bytes 8 (unat (PayloadRef f))
     @ le_bytes 4 (unat (PayloadLen f)) @ le_bytes 4 (unat (SrcHandle f)) @ le_bytes 4 (unat (DstHandle f))
     @ le_bytes 4 (unat (Generation f))"

lemma length_frame_bytes [simp]: "length (frame_bytes f) = 64"
  by (simp add: frame_bytes_def)

lemma put_frame_bytes: "64 \<le> length b \<Longrightarrow> put_frame f b = frame_bytes f @ drop 64 b"
  using Put_append(2) [of 0 "[]" _ b] unfolding put_frame_def frame_bytes_def Let_def
  by (simp add: Put_append append_assoc [symmetric] del: append_assoc)

lemma length_put_frame [simp]: "64 \<le> length b \<Longrightarrow> length (put_frame f b) = length b"
  by (simp add: put_frame_bytes)

lemma magic_frame_bytes [simp]: "Uint32 (frame_bytes f @ r) 0 = WireMagic"
  by (simp add: Uint32_def slice_def frame_bytes_def unat_mod_width)

lemma get_frame_bytes [simp]: "get_frame (frame_bytes f @ r) = f"
  by (simp add: get_frame_def frame_bytes_def Uint16_def Uint32_def Uint64_def slice_def unat_mod_width)

lemma frame_bytes_get:
  assumes "64 \<le> length b" "Uint32 b 0 = WireMagic"
  shows "frame_bytes (get_frame b) = take 64 b"
proof -
  have "take 64 b = slice 0 (4 + (2 + (2 + (4 + (4 + (8 + (8 + (8 + (8 + (4 + (4 + (4 + 4)))))))))))) b"
    by (simp add: slice_0)
  also have "\<dots> = frame_bytes (get_frame b)"
    unfolding slice_append using assms
    by (simp add: frame_bytes_def get_frame_def le_bytes_Uint assms(2) [symmetric])
  finally show ?thesis by simp
qed


section \<open>What a valid header says\<close>

lemma below_16:
  assumes "n < (16 :: nat)"
  obtains "n = 0" | "n = 1" | "n = 2" | "n = 3" | "n = 4" | "n = 5" | "n = 6" | "n = 7" | "n = 8" | "n = 9"
    | "n = 10" | "n = 11" | "n = 12" | "n = 13" | "n = 14" | "n = 15"
  using assms by (auto simp: less_Suc_eq numeral_eq_Suc)

lemma pattern_value:
  "v AND 0x3C = (if bit v 2 then 4 else 0) OR (if bit v 3 then 8 else 0)
     OR (if bit v 4 then 16 else 0) OR (if bit v 5 then 32 else (0 :: 16 word))"
  by (rule bit_word_eqI, simp, erule below_16) (simp_all add: bit_and_iff bit_or_iff)

lemma placement_value:
  "v AND 3 = (if bit v 0 then 1 else 0) OR (if bit v 1 then 2 else (0 :: 16 word))"
  by (rule bit_word_eqI, simp, erule below_16) (simp_all add: bit_and_iff bit_or_iff)

lemma exactlyOne_pattern: "exactlyOne (v AND fPatternMask) \<longleftrightarrow> v AND fPatternMask \<in> {FNotification, FRequest, FReply, FCancel}"
  by (cases "bit v 2"; cases "bit v 3"; cases "bit v 4"; cases "bit v 5")
     (simp_all add: exactlyOne_def flag_defs pattern_value)

lemma exactlyOne_placement: "exactlyOne (v AND fPlacementMask) \<longleftrightarrow> v AND fPlacementMask \<in> {FInline, FArena}"
  by (cases "bit v 0"; cases "bit v 1") (simp_all add: exactlyOne_def flag_defs placement_value)

lemma has_flag_pattern:
  "m \<in> {FNotification, FRequest, FReply, FCancel} \<Longrightarrow> has_flag f m \<longleftrightarrow> (HdrFlags f AND fPatternMask) AND m \<noteq> 0"
  by (auto simp: has_flag_def flag_defs and.assoc)

lemma has_flag_placement:
  "m \<in> {FInline, FArena} \<Longrightarrow> has_flag f m \<longleftrightarrow> (HdrFlags f AND fPlacementMask) AND m \<noteq> 0"
  by (auto simp: has_flag_def flag_defs and.assoc)

text \<open>A frame is valid when it has this version, one message pattern, known flags only, a payload with
  exactly one placement or none at all, and a correlation unless it is a notification; fragments are
  inline requests or replies, and a generation belongs to the arena.\<close>

definition one_placement :: "Frame \<Rightarrow> bool" where
  "one_placement f \<longleftrightarrow> (if PayloadLen f = 0 then HdrFlags f AND fPlacementMask = 0 \<and> PayloadRef f = 0
      else (HdrFlags f AND fPlacementMask \<in> {FInline, FArena} \<and> PayloadLen f \<le> MaxPayload))"

lemma validate_payload_iff: "validate_payload f = OK \<longleftrightarrow> one_placement f"
proof (cases "PayloadLen f = 0")
  case False
  then have "0 < PayloadLen f" by (simp add: word_neq_0_conv)
  with False show ?thesis
    by (auto simp: validate_payload_def one_placement_def Let_def exactlyOne_placement dest: leD)
qed (simp add: validate_payload_def one_placement_def Let_def)

lemma validate_more_iff:
  "validate_more f = OK \<longleftrightarrow> (has_flag f FMore \<longrightarrow> HdrFlags f AND fPatternMask \<in> {FRequest, FReply}
     \<and> HdrFlags f AND fPlacementMask = FInline \<and> PayloadLen f \<noteq> 0)"
  by (auto simp: validate_more_def Let_def split: if_splits)

lemma validate_correlation_iff:
  "validate_correlation f = OK \<longleftrightarrow> (has_flag f FNotification \<longleftrightarrow> CorrelationID f = 0)"
  by (auto simp: validate_correlation_def split: if_splits)

lemma if_error:
  "(if P then ErrVersion else r) = OK \<longleftrightarrow> \<not> P \<and> r = OK"
  "(if P then ErrFlags else r) = OK \<longleftrightarrow> \<not> P \<and> r = OK"
  "(if q \<noteq> OK then q else r) = OK \<longleftrightarrow> q = OK \<and> r = OK"
  by auto

lemma Validate_iff:
  "Validate f = OK \<longleftrightarrow>
     hdrWireVersion f = WireVersion \<and> HdrFlags f AND NOT fKnownMask = 0
     \<and> HdrFlags f AND fPatternMask \<in> {FNotification, FRequest, FReply, FCancel}
     \<and> one_placement f
     \<and> (has_flag f FMore \<longrightarrow> HdrFlags f AND fPatternMask \<in> {FRequest, FReply}
           \<and> HdrFlags f AND fPlacementMask = FInline)
     \<and> (Generation f \<noteq> 0 \<longrightarrow> has_flag f FArena)
     \<and> (has_flag f FNotification \<longleftrightarrow> CorrelationID f = 0)"
proof -
  have "one_placement f \<Longrightarrow> HdrFlags f AND fPlacementMask = FInline \<Longrightarrow> PayloadLen f \<noteq> 0"
    by (auto simp: one_placement_def FInline_def)
  then show ?thesis
    unfolding Validate_def exactlyOne_pattern if_error
    unfolding validate_payload_iff validate_more_iff validate_correlation_iff by blast
qed

section \<open>The codec\<close>

lemma Encode_eq:
  "Encode f out = (if 64 \<le> length out \<and> Validate f = OK then (64, frame_bytes f @ drop 64 out) else (0, out))"
  by (auto simp: Encode_def put_frame_bytes store_def)

lemma Decode_OK:
  "Decode b g = (OK, f) \<longleftrightarrow> 64 \<le> length b \<and> Uint32 b 0 = WireMagic \<and> f = get_frame b \<and> Validate f = OK"
  by (auto simp: Decode_def Let_def)

lemma Decode_frame_bytes [simp]: "Validate f = OK \<Longrightarrow> Decode (frame_bytes f @ r) g = (OK, f)"
  by (simp add: Decode_OK)

interpretation frame: wire_codec
  "\<lambda>f b. case Encode f b of (n, b') \<Rightarrow> if n = HdrLen then Some b' else None"
  "\<lambda>b. case Decode b zero_frame of (r, f) \<Rightarrow> if r = OK then Some f else None"
  "\<lambda>f. Validate f = OK" HdrLen "\<lambda>_ _. True"
proof (unfold_locales, goal_cases)
  case (3 m b b')
  then show ?case by (auto simp: Encode_eq split: if_splits)
next
  case (4 b m c)
  then have "Decode b zero_frame = (OK, m)" by (cases "Decode b zero_frame") (auto split: if_splits)
  then show ?case using 4(2) by (auto simp: Decode_OK Encode_eq frame_bytes_get)
next
  case (5 b m)
  then have "Decode b zero_frame = (OK, m)" by (cases "Decode b zero_frame") (auto split: if_splits)
  then show ?case by (auto simp: Decode_OK)
qed (auto simp: Encode_eq split: if_splits intro!: exI [of _ "frame_bytes _"])

text \<open>C29: the frame codec is exact. Encoding refuses, leaving the buffer alone, exactly when the buffer is
  short or the frame invalid, and otherwise writes 64 bytes and nothing beyond them, which decode to
  that frame; a failed decode leaves its target alone, and a successful one yields a valid frame, and
  encoding that frame over the buffer it was read from changes no byte of it.\<close>

theorem frame_codec_exact:
  "(case Encode f out of (n, b) \<Rightarrow>
      if 64 \<le> length out \<and> Validate f = OK
      then n = 64 \<and> length b = length out \<and> drop 64 b = drop 64 out \<and> Decode b g = (OK, f)
      else n = 0 \<and> b = out)
   \<and> (case Decode inb g of (r, h) \<Rightarrow>
        if r \<noteq> OK then h = g
        else Validate h = OK \<and> 64 \<le> length inb \<and> Encode h inb = (64, inb))"
proof -
  have "h = g" if "Decode inb g = (r, h)" "r \<noteq> OK" for r h
    using that by (auto simp: Decode_def Let_def split: if_splits)
  then show ?thesis
    by (auto simp: Encode_eq Decode_OK frame_bytes_get split: prod.splits)
qed

lemma CheckPlacement_inline:
  assumes "CheckPlacement f slot arena = OK" "has_flag f FInline" "PayloadLen f \<noteq> 0"
  shows "64 \<le> unat (PayloadRef f)" "unat (PayloadRef f) + unat (PayloadLen f) \<le> unat slot"
    "unat (PayloadRef f + ucast (PayloadLen f)) = unat (PayloadRef f) + unat (PayloadLen f)"
proof -
  let ?e = "PayloadRef f + ucast (PayloadLen f)"
  have *: "\<not> ?e < PayloadRef f" "\<not> PayloadRef f < 64" "\<not> ?e > ucast slot"
    using assms by (auto simp: CheckPlacement_def Let_def split: if_splits)
  show sum: "unat ?e = unat (PayloadRef f) + unat (PayloadLen f)"
    using unat_add_no_wrap [OF *(1)] by simp
  show "64 \<le> unat (PayloadRef f)" using *(2) by (simp add: word_less_nat_alt)
  show "unat (PayloadRef f) + unat (PayloadLen f) \<le> unat slot"
    using *(3) sum by (simp add: word_less_nat_alt)
qed

end
