(* ===== verification/Ring.thy ===== *)
theory Ring
  imports Bytes
begin

text \<open>
  Model of \<open>ring.go\<close>: the single-producer single-consumer ring that two processes share. The memory
  of the mapping is a byte string that every operation reads or returns updated; a ring is a view of it
  that starts at an offset and keeps the validated geometry. A slot handed out is the offset of its
  first byte in the mapping: it aliases the memory and is filled in place. Atomic loads and stores of
  the two counters read and write their eight bytes, little-endian as the mapping is shared with the
  host on the same machine.
\<close>

section \<open>Layout\<close>

definition ringMagic :: "32 word" where "ringMagic = 0x474e4952"
definition ringOffHead :: nat where "ringOffHead = 64"
definition ringOffTail :: nat where "ringOffTail = 128"
definition ringHdrBytes :: nat where "ringHdrBytes = 192"

lemmas ring_offsets [simp] = ringOffHead_def ringOffTail_def ringHdrBytes_def

record Ring =
  ringBase :: nat
  slotSize :: "32 word"
  capacity :: "32 word"
  mask :: "32 word"
  slotsOff :: "32 word"

definition load_head :: "Ring \<Rightarrow> string \<Rightarrow> 64 word" where
  "load_head r mem = Uint64 mem (ringBase r + ringOffHead)"

definition load_tail :: "Ring \<Rightarrow> string \<Rightarrow> 64 word" where
  "load_tail r mem = Uint64 mem (ringBase r + ringOffTail)"

definition store_head :: "Ring \<Rightarrow> 64 word \<Rightarrow> string \<Rightarrow> string" where
  "store_head r v mem = PutUint64 (ringBase r + ringOffHead) v mem"

definition store_tail :: "Ring \<Rightarrow> 64 word \<Rightarrow> string \<Rightarrow> string" where
  "store_tail r v mem = PutUint64 (ringBase r + ringOffTail) v mem"

text \<open>Adopt the ring that starts at \<open>base\<close> of the mapping; \<open>None\<close> is \<open>ErrRingLayout\<close>.\<close>

definition AttachRing :: "nat \<Rightarrow> string \<Rightarrow> Ring option" where
  "AttachRing base mem =
     (if length mem - base < ringHdrBytes then None
      else if Uint32 mem base \<noteq> ringMagic then None
      else let slot = Uint32 mem (base + 4); capv = Uint32 mem (base + 8);
               msk = Uint32 mem (base + 12); off = Uint32 mem (base + 16)
           in if capv < 2 \<or> capv AND (capv - 1) \<noteq> 0 \<or> slot = 0 \<or> msk \<noteq> capv - 1 \<or> off \<noteq> of_nat ringHdrBytes then None
              else if length mem - base < unat off + unat slot * unat capv then None
              else let r = \<lparr> ringBase = base, slotSize = slot, capacity = capv, mask = msk, slotsOff = off \<rparr>
                   in if load_head r mem - load_tail r mem > ucast capv then None else Some r)"

section \<open>Operations\<close>

definition Ring_Count :: "Ring \<Rightarrow> string \<Rightarrow> 64 word" where
  "Ring_Count r mem = load_head r mem - load_tail r mem"

text \<open>The slot of an index, as the offset of its first byte.\<close>

definition ring_slot :: "Ring \<Rightarrow> 64 word \<Rightarrow> nat" where
  "ring_slot r index = ringBase r + unat (slotsOff r) + unat (index AND ucast (mask r)) * unat (slotSize r)"

definition ProduceBegin :: "Ring \<Rightarrow> string \<Rightarrow> nat option" where
  "ProduceBegin r mem =
     (let head = load_head r mem; tail = load_tail r mem
      in if head - tail \<ge> ucast (capacity r) then None else Some (ring_slot r head))"

definition ProduceCommit :: "Ring \<Rightarrow> string \<Rightarrow> string" where
  "ProduceCommit r mem = store_head r (load_head r mem + 1) mem"

definition ConsumeBegin :: "Ring \<Rightarrow> string \<Rightarrow> nat option" where
  "ConsumeBegin r mem =
     (let tail = load_tail r mem; head = load_head r mem
      in if head = tail then None else Some (ring_slot r tail))"

definition ConsumeCommit :: "Ring \<Rightarrow> string \<Rightarrow> string" where
  "ConsumeCommit r mem = store_tail r (load_tail r mem + 1) mem"

text \<open>Lay a ring out in memory: zero, geometry, counters, and the magic last.\<close>

definition initRing :: "nat \<Rightarrow> string \<Rightarrow> 32 word \<Rightarrow> 32 word \<Rightarrow> string \<times> Ring option" where
  "initRing base mem slot capv =
     (if capv < 2 \<or> capv AND (capv - 1) \<noteq> 0 \<or> slot = 0 then (mem, None)
      else let need = ringHdrBytes + unat slot * unat capv
           in if length mem - base < need then (mem, None)
              else let mem = store base (replicate need (CHR 0x00)) mem;
                       mem = PutUint32 (base + 4) slot mem;
                       mem = PutUint32 (base + 8) capv mem;
                       mem = PutUint32 (base + 12) (capv - 1) mem;
                       mem = PutUint32 (base + 16) (of_nat ringHdrBytes) mem;
                       mem = PutUint64 (base + ringOffHead) 0 mem;
                       mem = PutUint64 (base + ringOffTail) 0 mem;
                       mem = PutUint32 base ringMagic mem
                   in (mem, AttachRing base mem))"

section \<open>Geometry\<close>

lemma power_of_two_mask:
  fixes v :: "32 word"
  assumes "v \<noteq> 0" "v AND (v - 1) = 0"
  shows "\<exists>k < 32. unat v = 2 ^ k"
proof -
  let ?n = "unat v"
  have pos: "?n > 0" using assms(1) by (simp add: unat_gt_0)
  obtain k where k: "2 ^ k \<le> ?n" "?n < 2 ^ (k + 1)" using ex_power_ivl1 [of 2 ?n] pos by auto
  have "?n < 2 ^ LENGTH(32)" by (rule unsigned_less)
  with k(1) have "(2 :: nat) ^ k < 2 ^ 32" by simp
  then have "k < 32" by (rule power_less_imp_less_exp [rotated]) simp
  have pred: "unat (v - 1) = ?n - 1" using assms(1) by (simp add: unat_minus_one)
  have bit_nat: "bit w k \<longleftrightarrow> odd (unat w div 2 ^ k)" for w :: "32 word"
    by (simp add: bit_iff_odd [symmetric] bit_unsigned_iff \<open>k < 32\<close>)
  have one: "m div 2 ^ k = 1" if "2 ^ k \<le> m" "m < 2 ^ (k + 1)" for m :: nat
    using that by (intro div_nat_eqI) simp_all
  have bit_k: "bit v k" using one [OF k] by (simp add: bit_nat)
  have "?n = 2 ^ k"
  proof (rule ccontr)
    assume "?n \<noteq> 2 ^ k"
    then have "2 ^ k \<le> ?n - 1" "?n - 1 < 2 ^ (k + 1)" using k by auto
    then have "bit (v - 1) k" using one [of "?n - 1"] by (simp add: bit_nat pred)
    with bit_k have "bit (v AND (v - 1)) k" by (simp add: bit_and_iff)
    then show False using assms(2) by simp
  qed
  with \<open>k < 32\<close> show ?thesis by blast
qed

lemma unat_and_mask:
  fixes v :: "32 word" and i :: "64 word"
  assumes "unat v = 2 ^ k" "k < 32"
  shows "unat (i AND ucast (v - 1)) = unat i mod 2 ^ k"
proof -
  have "v \<noteq> 0" using assms(1) by auto
  then have "unat (v - 1) = 2 ^ k - 1" using assms(1) by (simp add: unat_minus_one)
  then have "unat (ucast (v - 1) :: 64 word) = 2 ^ k - 1" by simp
  then have "(ucast (v - 1) :: 64 word) = word_of_nat (2 ^ k - 1)" by (metis of_nat_unat ucast_id)
  also have "\<dots> = Bit_Operations.mask k" by (simp add: mask_eq_exp_minus_1 of_nat_diff)
  finally have "i AND ucast (v - 1) = take_bit k i" by (simp add: take_bit_eq_mask)
  then have "unat (i AND ucast (v - 1)) = take_bit k (unat i)" by (simp only: unsigned_take_bit_eq)
  then show ?thesis by (simp add: take_bit_eq_mod)
qed


section \<open>What the ring holds\<close>

definition ring_geometry :: "Ring \<Rightarrow> nat \<Rightarrow> bool" where
  "ring_geometry r n \<longleftrightarrow>
     (\<exists>k. 1 \<le> k \<and> k < 32 \<and> unat (capacity r) = 2 ^ k) \<and> mask r = capacity r - 1 \<and> slotSize r \<noteq> 0
     \<and> slotsOff r = 192 \<and> ringBase r + 192 + unat (slotSize r) * unat (capacity r) \<le> n"

definition ring_ok :: "Ring \<Rightarrow> string \<Rightarrow> bool" where
  "ring_ok r mem \<longleftrightarrow> ring_geometry r (length mem) \<and> unat (Ring_Count r mem) \<le> unat (capacity r)"

definition slot_bytes :: "Ring \<Rightarrow> string \<Rightarrow> 64 word \<Rightarrow> string" where
  "slot_bytes r mem index = slice (ring_slot r index) (unat (slotSize r)) mem"

text \<open>The slots from the tail to the head, oldest first.\<close>

definition pending :: "Ring \<Rightarrow> string \<Rightarrow> string list" where
  "pending r mem = map (\<lambda>j. slot_bytes r mem (load_tail r mem + of_nat j)) [0..<unat (Ring_Count r mem)]"

lemma length_pending [simp]: "length (pending r mem) = unat (Ring_Count r mem)"
  by (simp add: pending_def)

lemma AttachRing_ok:
  assumes "AttachRing base mem = Some r"
  shows "ring_ok r mem" "ringBase r = base" "AttachRing base mem = Some r"
proof -
  let ?cap = "Uint32 mem (base + 8)"
  have *: "\<not> length mem - base < 192" "\<not> ?cap < 2" "?cap AND (?cap - 1) = 0" "Uint32 mem (base + 4) \<noteq> 0"
    "Uint32 mem (base + 12) = ?cap - 1" "Uint32 mem (base + 16) = 192"
    "\<not> length mem - base < 192 + unat (Uint32 mem (base + 4)) * unat ?cap"
    and r: "r = \<lparr> ringBase = base, slotSize = Uint32 mem (base + 4), capacity = ?cap, mask = ?cap - 1, slotsOff = 192 \<rparr>"
    and count: "\<not> load_head r mem - load_tail r mem > ucast ?cap"
    using assms by (auto simp: AttachRing_def Let_def split: if_splits)
  have two: "2 \<le> unat ?cap" using *(2) by (simp add: word_less_nat_alt)
  then have "?cap \<noteq> 0" by auto
  from power_of_two_mask [OF this *(3)] obtain k where k: "k < 32" "unat ?cap = 2 ^ k" by blast
  with two have "1 \<le> k" by (cases k) auto
  with k * show "ring_ok r mem"
    using count by (auto simp: ring_ok_def ring_geometry_def r Ring_Count_def word_less_nat_alt not_less)
  show "ringBase r = base" by (simp add: r)
qed (rule assms)

lemma slot_position:
  assumes "ring_geometry r n" "unat (capacity r) = c"
  shows "ring_slot r (i + of_nat j) = ringBase r + 192 + (unat i + j) mod c * unat (slotSize r)"
proof -
  obtain k where k: "k < 32" "c = 2 ^ k" using assms by (auto simp: ring_geometry_def)
  have dvd: "(2 :: nat) ^ k dvd 2 ^ LENGTH(64)" using k(1) by (intro le_imp_power_dvd) simp
  have "unat (i + of_nat j) mod 2 ^ k = (unat i + j) mod 2 ^ k"
  proof -
    have "unat (i + of_nat j) = (unat i + unat (of_nat j :: 64 word)) mod 2 ^ LENGTH(64)"
      by (simp add: unat_word_ariths)
    also have "\<dots> = (unat i + j) mod 2 ^ LENGTH(64)" by (simp add: unat_of_nat mod_simps)
    finally show ?thesis by (simp only: mod_mod_cancel [OF dvd])
  qed
  then show ?thesis
    using unat_and_mask [of "capacity r" k "i + of_nat j"] k assms by (simp add: ring_slot_def ring_geometry_def)
qed

lemma slot_bounds:
  assumes "ring_geometry r n"
  shows "ringBase r + 192 \<le> ring_slot r i" "ring_slot r i + unat (slotSize r) \<le> n"
proof -
  let ?c = "unat (capacity r)" and ?s = "unat (slotSize r)"
  have c: "?c > 0" "ringBase r + 192 + ?s * ?c \<le> n" using assms by (auto simp: ring_geometry_def)
  have pos: "ring_slot r i = ringBase r + 192 + unat i mod ?c * ?s"
    using slot_position [OF assms refl, of i 0] by simp
  show "ringBase r + 192 \<le> ring_slot r i" by (simp add: pos)
  have "unat i mod ?c + 1 \<le> ?c" using c(1) by (simp add: Suc_leI)
  then have "(unat i mod ?c + 1) * ?s \<le> ?c * ?s" by (rule mult_le_mono1)
  then show "ring_slot r i + ?s \<le> n" using c(2) by (simp add: pos algebra_simps)
qed

lemma slots_disjoint:
  assumes "ring_geometry r n" "j < j'" "j' - j < unat (capacity r)"
  shows "ring_slot r (i + of_nat j) + unat (slotSize r) \<le> ring_slot r (i + of_nat j')
    \<or> ring_slot r (i + of_nat j') + unat (slotSize r) \<le> ring_slot r (i + of_nat j)"
proof -
  let ?c = "unat (capacity r)" and ?s = "unat (slotSize r)"
  let ?p = "(unat i + j) mod ?c" and ?q = "(unat i + j') mod ?c"
  have "?p \<noteq> ?q"
  proof
    assume "?p = ?q"
    then have "?c dvd (unat i + j') - (unat i + j)" by (metis mod_eq_dvd_iff_nat assms(2) less_imp_le add_le_cancel_left)
    then show False using assms(2,3) by (auto dest: dvd_imp_le)
  qed
  moreover have "a * ?s + ?s \<le> b * ?s" if "a < b" for a b :: nat
    using mult_le_mono1 [of "Suc a" b ?s] that by simp
  ultimately have "?p * ?s + ?s \<le> ?q * ?s \<or> ?q * ?s + ?s \<le> ?p * ?s"
    by (cases ?p ?q rule: linorder_cases) blast+
  then show ?thesis
    unfolding slot_position [OF assms(1) refl] by linarith
qed

section \<open>One operation\<close>

lemma counters_store:
  assumes "ring_geometry r (length mem)" "ringBase r + 192 \<le> off" "off + length bs \<le> length mem"
  shows "load_head r (store off bs mem) = load_head r mem" "load_tail r (store off bs mem) = load_tail r mem"
proof -
  have "ringBase r + 192 \<le> length mem" using assms by simp
  then show "load_head r (store off bs mem) = load_head r mem" "load_tail r (store off bs mem) = load_tail r mem"
    using assms by (simp_all add: load_head_def load_tail_def Uint64_def slice_store_other)
qed

lemma counters_commit:
  assumes "ring_geometry r (length mem)"
  shows "load_head r (store_head r v mem) = v" "load_tail r (store_head r v mem) = load_tail r mem"
    "load_tail r (store_tail r v mem) = v" "load_head r (store_tail r v mem) = load_head r mem"
    "slot_bytes r (store_head r v mem) i = slot_bytes r mem i" "slot_bytes r (store_tail r v mem) i = slot_bytes r mem i"
    "length (store_head r v mem) = length mem" "length (store_tail r v mem) = length mem"
proof -
  have len: "ringBase r + 192 \<le> length mem" using assms by (simp add: ring_geometry_def)
  then show "load_head r (store_head r v mem) = v" "load_tail r (store_head r v mem) = load_tail r mem"
    "load_tail r (store_tail r v mem) = v" "load_head r (store_tail r v mem) = load_head r mem"
    "length (store_head r v mem) = length mem" "length (store_tail r v mem) = length mem"
    by (simp_all add: load_head_def load_tail_def store_head_def store_tail_def)
  show "slot_bytes r (store_head r v mem) i = slot_bytes r mem i" "slot_bytes r (store_tail r v mem) i = slot_bytes r mem i"
    using slot_bounds [OF assms, of i] len
    by (simp_all add: slot_bytes_def store_head_def store_tail_def PutUint64_def slice_store_other)
qed

lemma head_eq: "load_head r mem = load_tail r mem + of_nat (length (pending r mem))"
  by (simp add: Ring_Count_def)

lemma unat_capacity_64: "unat (ucast (capacity r) :: 64 word) = unat (capacity r)"
  by simp

lemma ProduceBegin_None: "ProduceBegin r mem = None \<longleftrightarrow> unat (capacity r) \<le> length (pending r mem)"
  by (simp add: ProduceBegin_def Let_def Ring_Count_def word_le_nat_alt)

lemma ProduceBegin_Some:
  "ProduceBegin r mem = Some off \<longleftrightarrow> length (pending r mem) < unat (capacity r) \<and> off = ring_slot r (load_head r mem)"
  by (auto simp: ProduceBegin_def Let_def Ring_Count_def word_le_nat_alt)

lemma pending_empty: "pending r mem = [] \<longleftrightarrow> load_head r mem = load_tail r mem"
proof -
  have "pending r mem = [] \<longleftrightarrow> unat (Ring_Count r mem) = 0" by (simp add: pending_def)
  also have "\<dots> \<longleftrightarrow> Ring_Count r mem = 0" by (rule unsigned_eq_0_iff)
  finally show ?thesis by (simp add: Ring_Count_def)
qed

lemma ConsumeBegin_None: "ConsumeBegin r mem = None \<longleftrightarrow> pending r mem = []"
  by (simp add: ConsumeBegin_def Let_def pending_empty)

lemma ConsumeBegin_Some:
  "ConsumeBegin r mem = Some off \<longleftrightarrow> pending r mem \<noteq> [] \<and> off = ring_slot r (load_tail r mem)"
  by (auto simp: ConsumeBegin_def Let_def pending_empty)

lemma hd_pending: "pending r mem \<noteq> [] \<Longrightarrow> hd (pending r mem) = slot_bytes r mem (load_tail r mem)"
proof -
  assume "pending r mem \<noteq> []"
  then obtain n where "unat (Ring_Count r mem) = Suc n"
    by (cases "unat (Ring_Count r mem)") (simp_all add: pending_def)
  then show ?thesis by (simp add: pending_def upt_conv_Cons del: upt_Suc)
qed

text \<open>Filling the free slot shows nothing to the consumer.\<close>

lemma write_slot:
  assumes "ring_ok r mem" "length (pending r mem) < unat (capacity r)"
    and "ring_slot r (load_head r mem) \<le> off" "off + length bs \<le> ring_slot r (load_head r mem) + unat (slotSize r)"
  shows "pending r (store off bs mem) = pending r mem" "ring_ok r (store off bs mem)"
    "load_head r (store off bs mem) = load_head r mem" "load_tail r (store off bs mem) = load_tail r mem"
proof -
  have geo: "ring_geometry r (length mem)" using assms(1) by (simp add: ring_ok_def)
  note b = slot_bounds [OF geo, of "load_head r mem"]
  have in_mem: "ringBase r + 192 \<le> off" "off + length bs \<le> length mem" using b assms(3,4) by linarith+
  show counters: "load_head r (store off bs mem) = load_head r mem" "load_tail r (store off bs mem) = load_tail r mem"
    using counters_store [OF geo in_mem] .
  have "slot_bytes r (store off bs mem) (load_tail r mem + of_nat j) = slot_bytes r mem (load_tail r mem + of_nat j)"
    if "j < length (pending r mem)" for j
  proof -
    let ?s = "ring_slot r (load_tail r mem + of_nat j)"
    have "?s + unat (slotSize r) \<le> ring_slot r (load_head r mem)
        \<or> ring_slot r (load_head r mem) + unat (slotSize r) \<le> ?s"
      using slots_disjoint [OF geo that, of "load_tail r mem"] assms(2) head_eq [of r mem] by (simp del: length_pending)
    then have "?s + unat (slotSize r) \<le> off \<or> off + length bs \<le> ?s" using assms(3,4) by linarith
    then show ?thesis
      using slot_bounds(2) [OF geo, of "load_tail r mem + of_nat j"] in_mem(2)
      by (simp add: slot_bytes_def slice_store_other)
  qed
  then show "pending r (store off bs mem) = pending r mem"
    by (simp add: pending_def Ring_Count_def counters)
  show "ring_ok r (store off bs mem)"
    using assms(1) in_mem by (simp add: ring_ok_def Ring_Count_def counters)
qed

lemma ProduceCommit_pending:
  assumes "ring_ok r mem" "length (pending r mem) < unat (capacity r)"
  shows "pending r (ProduceCommit r mem) = pending r mem @ [slot_bytes r mem (load_head r mem)]"
    "ring_ok r (ProduceCommit r mem)" "load_tail r (ProduceCommit r mem) = load_tail r mem"
proof -
  have geo: "ring_geometry r (length mem)" using assms(1) by (simp add: ring_ok_def)
  note c = counters_commit [OF geo, of "load_head r mem + 1", folded ProduceCommit_def]
  have "unat (capacity r) < 2 ^ LENGTH(32)" by (rule unsigned_less)
  then have small: "unat (Ring_Count r mem) < 2 ^ 32" using assms(2) by simp
  have "unat (Ring_Count r (ProduceCommit r mem)) = unat (load_head r mem - load_tail r mem + 1)"
    by (simp add: Ring_Count_def c algebra_simps)
  also have "\<dots> = Suc (unat (Ring_Count r mem))"
    using small by (simp add: Ring_Count_def unat_word_ariths)
  finally have count: "unat (Ring_Count r (ProduceCommit r mem)) = Suc (unat (Ring_Count r mem))" .
  show "pending r (ProduceCommit r mem) = pending r mem @ [slot_bytes r mem (load_head r mem)]"
    by (simp add: pending_def count c) (simp add: Ring_Count_def)
  show "ring_ok r (ProduceCommit r mem)"
    using geo assms(2) by (simp add: ring_ok_def count c)
  show "load_tail r (ProduceCommit r mem) = load_tail r mem" by (rule c(2))
qed

lemma ConsumeCommit_pending:
  assumes "ring_ok r mem" "pending r mem \<noteq> []"
  shows "pending r (ConsumeCommit r mem) = tl (pending r mem)" "ring_ok r (ConsumeCommit r mem)"
    "load_head r (ConsumeCommit r mem) = load_head r mem"
proof -
  have geo: "ring_geometry r (length mem)" using assms(1) by (simp add: ring_ok_def)
  note c = counters_commit [OF geo, of "load_tail r mem + 1", folded ConsumeCommit_def]
  have pos: "Ring_Count r mem \<noteq> 0" using assms(2) by (auto simp: pending_def)
  have "unat (Ring_Count r (ConsumeCommit r mem)) = unat (Ring_Count r mem - 1)"
    by (simp add: Ring_Count_def c algebra_simps)
  also have "\<dots> = unat (Ring_Count r mem) - 1" using pos by (simp add: unat_minus_one)
  finally have count: "unat (Ring_Count r (ConsumeCommit r mem)) = unat (Ring_Count r mem) - 1" .
  obtain n where n: "unat (Ring_Count r mem) = Suc n"
    using assms(2) by (cases "unat (Ring_Count r mem)") (simp_all add: pending_def)
  have "pending r (ConsumeCommit r mem) = map (\<lambda>j. slot_bytes r mem (load_tail r mem + of_nat (Suc j))) [0..<n]"
    by (simp add: pending_def count n c algebra_simps)
  also have "\<dots> = tl (pending r mem)"
    by (simp add: pending_def n upt_conv_Cons map_Suc_upt [symmetric] del: upt_Suc of_nat_Suc)
  finally show "pending r (ConsumeCommit r mem) = tl (pending r mem)" .
  show "ring_ok r (ConsumeCommit r mem)"
    using assms(1) by (auto simp: ring_ok_def count c)
  show "load_head r (ConsumeCommit r mem) = load_head r mem" by (rule c(4))
qed


section \<open>Two processes on one ring\<close>

text \<open>
  The producer begins, fills its slot byte by byte and commits; the consumer begins and commits; the
  steps interleave freely. Each operation makes one load of the counter that the other side writes, so
  it takes effect there. \<open>sent\<close> and \<open>got\<close> record what was in the slot at the two commits.
\<close>

record duplex =
  shared :: string
  begun :: "nat option"
  held :: "nat option"
  sent :: "string list"
  got :: "string list"

inductive ring_step :: "Ring \<Rightarrow> duplex \<Rightarrow> duplex \<Rightarrow> bool" for r where
  produce_begin: "ring_step r s (s\<lparr>begun := ProduceBegin r (shared s)\<rparr>)"
| produce_write: "begun s = Some off \<Longrightarrow> i < unat (slotSize r)
    \<Longrightarrow> ring_step r s (s\<lparr>shared := store (off + i) [c] (shared s)\<rparr>)"
| produce_commit: "begun s = Some off
    \<Longrightarrow> ring_step r s (s\<lparr>shared := ProduceCommit r (shared s), begun := None,
          sent := sent s @ [slice off (unat (slotSize r)) (shared s)]\<rparr>)"
| consume_begin: "ring_step r s (s\<lparr>held := ConsumeBegin r (shared s)\<rparr>)"
| consume_commit: "held s = Some off
    \<Longrightarrow> ring_step r s (s\<lparr>shared := ConsumeCommit r (shared s), held := None,
          got := got s @ [slice off (unat (slotSize r)) (shared s)]\<rparr>)"

definition attached :: "string \<Rightarrow> duplex" where
  "attached mem = \<lparr> shared = mem, begun = None, held = None, sent = [], got = [] \<rparr>"

definition ring_inv :: "Ring \<Rightarrow> string list \<Rightarrow> duplex \<Rightarrow> bool" where
  "ring_inv r initial s \<longleftrightarrow>
     ring_ok r (shared s) \<and> got s @ pending r (shared s) = initial @ sent s
     \<and> (\<forall>off. begun s = Some off \<longrightarrow> length (pending r (shared s)) < unat (capacity r) \<and> off = ring_slot r (load_head r (shared s)))
     \<and> (\<forall>off. held s = Some off \<longrightarrow> pending r (shared s) \<noteq> [] \<and> off = ring_slot r (load_tail r (shared s)))"

lemma ring_inv_step: "ring_step r s s' \<Longrightarrow> ring_inv r initial s \<Longrightarrow> ring_inv r initial s'"
proof (induction rule: ring_step.induct)
  case (produce_begin s)
  then show ?case by (simp add: ring_inv_def ProduceBegin_Some)
next
  case (produce_write s off i c)
  then have "ring_ok r (shared s)" "length (pending r (shared s)) < unat (capacity r)"
    "off = ring_slot r (load_head r (shared s))" by (simp_all add: ring_inv_def)
  with write_slot [of r "shared s" "off + i" "[c]"] produce_write show ?case
    by (simp add: ring_inv_def del: length_pending)
next
  case (produce_commit s off)
  then have *: "ring_ok r (shared s)" "length (pending r (shared s)) < unat (capacity r)"
    and off: "off = ring_slot r (load_head r (shared s))" by (simp_all add: ring_inv_def)
  from produce_commit ProduceCommit_pending [OF *] show ?case
    by (auto simp: ring_inv_def off slot_bytes_def simp del: length_pending)
next
  case (consume_begin s)
  then show ?case by (simp add: ring_inv_def ConsumeBegin_Some)
next
  case (consume_commit s off)
  then have *: "ring_ok r (shared s)" "pending r (shared s) \<noteq> []"
    and off: "off = ring_slot r (load_tail r (shared s))" by (simp_all add: ring_inv_def)
  have "slice off (unat (slotSize r)) (shared s) = hd (pending r (shared s))"
    using hd_pending [OF *(2)] by (simp add: off slot_bytes_def)
  moreover have "length (pending r (ConsumeCommit r (shared s))) < unat (capacity r)"
    if "length (pending r (shared s)) < unat (capacity r)"
    using that ConsumeCommit_pending(1) [OF *] by (metis length_tl diff_le_self le_less_trans)
  ultimately show ?case
    using consume_commit ConsumeCommit_pending [OF *] *(2)
    by (auto simp: ring_inv_def simp del: length_pending)
qed

lemma ring_inv_run: "(ring_step r)\<^sup>*\<^sup>* s s' \<Longrightarrow> ring_inv r initial s \<Longrightarrow> ring_inv r initial s'"
  by (induction rule: rtranclp_induct) (auto intro: ring_inv_step)

lemma ring_inv_attached: "AttachRing base mem = Some r \<Longrightarrow> ring_inv r (pending r mem) (attached mem)"
  using AttachRing_ok(1) by (simp add: ring_inv_def attached_def)

text \<open>C3: the ring is a bounded queue. From any attached state, the counters at any value, whatever
  interleaving of begins, single-byte writes and commits runs, the slots taken are those that were
  there and those published, complete, in order and once each, up to the ones still in the ring, of
  which there are never more than the capacity; production is refused exactly when the ring is full
  and consumption exactly when it is empty; and the slot a consumer holds keeps the bytes of the
  oldest message, whatever the producer does meanwhile.\<close>

theorem ring_fifo:
  assumes "AttachRing base mem = Some r" "(ring_step r)\<^sup>*\<^sup>* (attached mem) s"
  shows "got s @ pending r (shared s) = pending r mem @ sent s
    \<and> length (pending r (shared s)) \<le> unat (capacity r)
    \<and> (ProduceBegin r (shared s) = None \<longleftrightarrow> length (pending r (shared s)) = unat (capacity r))
    \<and> (ConsumeBegin r (shared s) = None \<longleftrightarrow> pending r (shared s) = [])
    \<and> (case held s of None \<Rightarrow> True
       | Some off \<Rightarrow> pending r (shared s) \<noteq> [] \<and> slice off (unat (slotSize r)) (shared s) = hd (pending r (shared s)))"
proof -
  have inv: "ring_inv r (pending r mem) s"
    using ring_inv_run [OF assms(2)] ring_inv_attached [OF assms(1)] by blast
  then have le: "length (pending r (shared s)) \<le> unat (capacity r)" by (simp add: ring_inv_def ring_ok_def)
  have "ProduceBegin r (shared s) = None \<longleftrightarrow> length (pending r (shared s)) = unat (capacity r)"
    using le by (auto simp: ProduceBegin_None simp del: length_pending)
  moreover have "held s = Some off \<Longrightarrow> pending r (shared s) \<noteq> []
      \<and> slice off (unat (slotSize r)) (shared s) = hd (pending r (shared s))" for off
    using inv hd_pending [of r "shared s"] by (simp add: ring_inv_def slot_bytes_def)
  ultimately show ?thesis
    using inv le by (auto simp: ring_inv_def ConsumeBegin_None simp del: length_pending split: option.splits)
qed

text \<open>A ring of two one-byte slots whose counters are about to wrap.\<close>

definition wrap_mem :: string where
  "wrap_mem = le_bytes 4 (unat ringMagic) @ le_bytes 4 1 @ le_bytes 4 2 @ le_bytes 4 1 @ le_bytes 4 192
     @ replicate 44 (CHR 0x00) @ le_bytes 8 (2 ^ 64 - 1) @ replicate 56 (CHR 0x00) @ le_bytes 8 (2 ^ 64 - 1)
     @ replicate 56 (CHR 0x00) @ ''ab''"

definition wrap_ring :: Ring where
  "wrap_ring = \<lparr> ringBase = 0, slotSize = 1, capacity = 2, mask = 1, slotsOff = 192 \<rparr>"

lemma wrap_fields:
  "length wrap_mem = 194" "Uint32 wrap_mem 0 = ringMagic" "Uint32 wrap_mem 4 = 1" "Uint32 wrap_mem 8 = 2"
  "Uint32 wrap_mem 12 = 1" "Uint32 wrap_mem 16 = 192" "Uint64 wrap_mem 64 = - 1" "Uint64 wrap_mem 128 = - 1"
  by (simp_all add: wrap_mem_def Uint32_def Uint64_def slice_def unat_mod_width)

lemma wrap_attach: "AttachRing 0 wrap_mem = Some wrap_ring"
  by (simp add: AttachRing_def wrap_fields load_head_def load_tail_def wrap_ring_def Let_def)

text \<open>One message goes through: the producer wraps the head to 0, the consumer the tail.\<close>

theorem ring_fifo_witness:
  "\<exists>s. (ring_step wrap_ring)\<^sup>*\<^sup>* (attached wrap_mem) s \<and> sent s = [''x''] \<and> got s @ pending wrap_ring (shared s) = [''x'']"
proof -
  let ?s1 = "(attached wrap_mem)\<lparr>begun := ProduceBegin wrap_ring wrap_mem\<rparr>"
  let ?s2 = "?s1\<lparr>shared := store 193 ''x'' wrap_mem\<rparr>"
  let ?s3 = "?s2\<lparr>shared := ProduceCommit wrap_ring (shared ?s2), begun := None,
      sent := [slice 193 1 (store 193 ''x'' wrap_mem)]\<rparr>"
  have off: "ProduceBegin wrap_ring wrap_mem = Some 193"
    by (simp add: ProduceBegin_def load_head_def load_tail_def wrap_fields ring_slot_def wrap_ring_def Let_def)
  have "ring_step wrap_ring (attached wrap_mem) ?s1"
    using produce_begin [of wrap_ring "attached wrap_mem"] by (simp add: attached_def)
  moreover have "ring_step wrap_ring ?s1 ?s2"
    using produce_write [of ?s1 193 0 wrap_ring "CHR ''x''"] off by (simp add: attached_def wrap_ring_def)
  moreover have "ring_step wrap_ring ?s2 ?s3"
    using produce_commit [of ?s2 193 wrap_ring] off by (simp add: attached_def wrap_ring_def)
  ultimately have run: "(ring_step wrap_ring)\<^sup>*\<^sup>* (attached wrap_mem) ?s3"
    by (meson rtranclp.rtrancl_into_rtrancl rtranclp.rtrancl_refl)
  have "sent ?s3 = [''x'']" by (simp add: wrap_fields)
  moreover have "pending wrap_ring wrap_mem = []"
    by (simp add: pending_empty load_head_def load_tail_def wrap_fields wrap_ring_def)
  ultimately show ?thesis using ring_fifo [OF wrap_attach run] run by auto
qed

section \<open>A fresh ring\<close>

lemma initRing_attach:
  assumes "initRing base mem slot capv = (mem', ro)" "base \<le> length mem"
  shows "if capv < 2 \<or> capv AND (capv - 1) \<noteq> 0 \<or> slot = 0 \<or> length mem - base < 192 + unat slot * unat capv
    then mem' = mem \<and> ro = None
    else \<exists>r. ro = Some r \<and> slotSize r = slot \<and> capacity r = capv \<and> pending r mem' = []"
proof (cases "capv < 2 \<or> capv AND (capv - 1) \<noteq> 0 \<or> slot = 0 \<or> length mem - base < 192 + unat slot * unat capv")
  case False
  let ?n = "192 + unat slot * unat capv"
  let ?m0 = "store base (replicate ?n (CHR 0x00)) mem"
  have "\<not> length mem - base < ?n" using False by blast
  then have len: "base + ?n \<le> length mem" using assms(2) by linarith
  then have len0: "length ?m0 = length mem" by simp
  define m1 where "m1 = PutUint32 (base + 16) 192 (PutUint32 (base + 12) (capv - 1) (PutUint32 (base + 8) capv (PutUint32 (base + 4) slot ?m0)))"
  have len1: "length m1 = length mem" using len by (simp add: m1_def)
  have f1: "Uint32 m1 (base + 4) = slot" "Uint32 m1 (base + 8) = capv" "Uint32 m1 (base + 12) = capv - 1"
    "Uint32 m1 (base + 16) = 192"
    using len by (simp_all add: m1_def)
  have mem': "mem' = PutUint32 base ringMagic (PutUint64 (base + 128) 0 (PutUint64 (base + 64) 0 m1))"
    and ro: "ro = AttachRing base mem'"
    using assms(1) False by (auto simp: initRing_def Let_def m1_def)
  have fields: "length mem' = length mem" "Uint32 mem' base = ringMagic" "Uint32 mem' (base + 4) = slot"
    "Uint32 mem' (base + 8) = capv" "Uint32 mem' (base + 12) = capv - 1" "Uint32 mem' (base + 16) = 192"
    "Uint64 mem' (base + 64) = 0" "Uint64 mem' (base + 128) = 0"
    using len len1 f1 by (simp_all add: mem')
  then show ?thesis
    using False by (auto simp: ro AttachRing_def Let_def load_head_def load_tail_def pending_empty)
qed (use assms in \<open>auto simp: initRing_def Let_def split: if_splits\<close>)

end
