(* ===== verification/BusClient.thy ===== *)
theory BusClient
  imports Wire Ring
begin

text \<open>
  Model of \<open>region.go\<close> and \<open>client.go\<close>: validation of the control and queue-pair regions, the attach
  handshake, and the client's operations on its two rings. The mapped memory is state: the control
  region, which only the host writes, and the queue pair. System calls are parameters of the
  handshake: what the socket delivered and what a mapping contains.
\<close>

datatype bus_error =
  ErrDenied | ErrProtocol | ErrEpoch | ErrWouldBlock | ErrPayload | ErrRingLayout | ErrRegion
  | ErrModuleConfig | ErrModuleRuntime | ErrModuleMessage | ErrSystem | ErrContext

section \<open>Regions\<close>

definition ctlMagic :: "32 word" where "ctlMagic = 0x4c544342"
definition ctlBytes :: nat where "ctlBytes = 96"
definition specVersion :: "32 word" where "specVersion = 1"
definition layoutVersion :: "32 word" where "layoutVersion = 1"
definition qpMagic :: "32 word" where "qpMagic = 0x52504251"
definition qpBytes :: nat where "qpBytes = 96"

lemmas region_sizes [simp] = ctlBytes_def qpBytes_def

definition AttachControl :: "string \<Rightarrow> bool" where
  "AttachControl mem \<longleftrightarrow>
     (if length mem < ctlBytes then False
      else if Uint32 mem 0 \<noteq> ctlMagic then False
      else if Uint32 mem 4 \<noteq> specVersion \<or> Uint32 mem 8 \<noteq> layoutVersion then False
      else let slot = Uint32 mem 16; inl = Uint32 mem 20; arena = Uint64 mem 32
           in \<not> (slot = 0 \<or> inl > slot \<or> arena = 0))"

definition Control_SlotSize :: "string \<Rightarrow> 32 word" where "Control_SlotSize mem = Uint32 mem 16"
definition Control_InlineBudget :: "string \<Rightarrow> 32 word" where "Control_InlineBudget mem = Uint32 mem 20"
definition Control_QueueCapacity :: "string \<Rightarrow> 32 word" where "Control_QueueCapacity mem = Uint32 mem 24"
definition Control_ArenaSize :: "string \<Rightarrow> 64 word" where "Control_ArenaSize mem = Uint64 mem 32"
definition Epoch :: "string \<Rightarrow> 64 word" where "Epoch mem = Uint64 mem 40"

record QueuePair =
  Inbound :: Ring
  Outbound :: Ring

definition AttachQueuePair :: "string \<Rightarrow> bus_error + QueuePair" where
  "AttachQueuePair mem =
     (if length mem < qpBytes then Inl ErrRegion
      else if Uint32 mem 0 \<noteq> qpMagic then Inl ErrRegion
      else let inOff = Uint32 mem 24; outOff = Uint32 mem 28
           in if unat inOff \<ge> length mem \<or> unat outOff \<ge> length mem \<or> inOff = outOff then Inl ErrRegion
              else (case AttachRing (unat inOff) mem of
                      None \<Rightarrow> Inl ErrRingLayout
                    | Some inbound \<Rightarrow>
                        (case AttachRing (unat outOff) mem of
                           None \<Rightarrow> Inl ErrRingLayout
                         | Some outbound \<Rightarrow> Inr \<lparr> Inbound = inbound, Outbound = outbound \<rparr>)))"

definition QueuePair_ControlLost :: "string \<Rightarrow> bool" where
  "QueuePair_ControlLost mem \<longleftrightarrow> Uint32 mem 20 \<noteq> 0"

definition SetHeartbeat :: "64 word \<Rightarrow> string \<Rightarrow> string" where
  "SetHeartbeat now mem = PutUint64 32 now mem"

text \<open>The size of a queue pair: a header, then two rings, each aligned to 64.\<close>

definition align64 :: "int \<Rightarrow> int" where
  "align64 n = wrap64 (n + 63) AND NOT 63"

definition qpairBytes :: "32 word \<Rightarrow> 32 word \<Rightarrow> int" where
  "qpairBytes slot capv =
     (let ring = wrap64 (int ringHdrBytes + wrap64 (uint slot * uint capv));
          inOff = align64 (int qpBytes);
          outOff = align64 (wrap64 (inOff + ring))
      in wrap64 (outOff + ring))"

section \<open>The client\<close>

record Client =
  Handle :: "32 word"
  clStatus :: "32 word"
  clSlotSize :: "32 word"
  inlineBudget :: "32 word"
  queueCapacity :: "32 word"
  arenaSize :: "64 word"
  attachedEpoch :: "64 word"
  hasControl :: bool
  qp :: QueuePair
  pendingRead :: bool

record mapped =
  ctlMem :: string
  qpMem :: string

record Event =
  evFrame :: Frame
  evPayload :: string

definition EpochChanged :: "Client \<Rightarrow> mapped \<Rightarrow> bool" where
  "EpochChanged c m \<longleftrightarrow> hasControl c \<and> Epoch (ctlMem m) \<noteq> attachedEpoch c"

definition Client_Heartbeat :: "64 word \<Rightarrow> mapped \<Rightarrow> mapped" where
  "Client_Heartbeat now m = m\<lparr>qpMem := SetHeartbeat now (qpMem m)\<rparr>"

definition Client_ControlLost :: "mapped \<Rightarrow> bool" where
  "Client_ControlLost m = QueuePair_ControlLost (qpMem m)"

definition moduleInlineBudget :: "Client \<Rightarrow> 32 word" where
  "moduleInlineBudget c = inlineBudget c"

subsection \<open>Attach\<close>

definition attachReqMagic :: "32 word" where "attachReqMagic = 0x51524241"
definition attachReplyMagic :: "32 word" where "attachReplyMagic = 0x50524241"
definition attachReplyBytes :: nat where "attachReplyBytes = 48"
definition AttachOK :: "32 word" where "AttachOK = 0"

definition attach_request :: "32 word \<Rightarrow> 32 word \<Rightarrow> string" where
  "attach_request principalClass principalRef =
     (let b = replicate 16 (CHR 0x00);
          b = PutUint32 0 attachReqMagic b;
          b = PutUint16 4 WireVersion b;
          b = PutUint16 6 WireVersion b;
          b = PutUint32 8 principalClass b
      in PutUint32 12 principalRef b)"

text \<open>What the system calls give: whether the request could be sent, the received reply (its length, the
  buffer and the number of descriptors), and the mapping of a descriptor at a length.\<close>

record attach_env =
  sendmsg :: "string \<Rightarrow> bool"
  recvmsg :: "(nat \<times> string \<times> nat) option"
  mmap :: "nat \<Rightarrow> int \<Rightarrow> string option"

definition no_ring :: Ring where
  "no_ring = \<lparr> ringBase = 0, slotSize = 0, capacity = 0, mask = 0, slotsOff = 0 \<rparr>"

definition zero_client :: Client where
  "zero_client = \<lparr> Handle = 0, clStatus = 0, clSlotSize = 0, inlineBudget = 0, queueCapacity = 0, arenaSize = 0,
     attachedEpoch = 0, hasControl = False, qp = \<lparr> Inbound = no_ring, Outbound = no_ring \<rparr>, pendingRead = False \<rparr>"

definition reply_client :: "string \<Rightarrow> Client" where
  "reply_client b = zero_client\<lparr> clStatus := Uint32 b 4, Handle := Uint32 b 8, clSlotSize := Uint32 b 16,
     inlineBudget := Uint32 b 20, queueCapacity := Uint32 b 24, arenaSize := Uint64 b 32, attachedEpoch := Uint64 b 40 \<rparr>"

text \<open>The mappings and the two validations that end the handshake.\<close>

definition attach_map :: "attach_env \<Rightarrow> Client \<Rightarrow> bus_error + Client \<times> mapped" where
  "attach_map env c =
     (case mmap env 0 (int ctlBytes) of
        None \<Rightarrow> Inl ErrSystem
      | Some ctl \<Rightarrow>
          (case mmap env 1 (sint (16 + arenaSize c)) of
             None \<Rightarrow> Inl ErrSystem
           | Some _ \<Rightarrow>
               (case mmap env 2 (qpairBytes (clSlotSize c) (queueCapacity c)) of
                  None \<Rightarrow> Inl ErrSystem
                | Some qpm \<Rightarrow>
                    if \<not> AttachControl ctl then Inl ErrRegion
                    else (case AttachQueuePair qpm of
                            Inl e \<Rightarrow> Inl e
                          | Inr q \<Rightarrow> Inr (c\<lparr> hasControl := True, qp := q \<rparr>, \<lparr> ctlMem = ctl, qpMem = qpm \<rparr>)))))"

definition AttachAs :: "attach_env \<Rightarrow> 32 word \<Rightarrow> 32 word \<Rightarrow> bus_error + Client \<times> mapped" where
  "AttachAs env principalClass principalRef =
     (if \<not> sendmsg env (attach_request principalClass principalRef) then Inl ErrSystem
      else (case recvmsg env of
              None \<Rightarrow> Inl ErrSystem
            | Some (n, reply, fds) \<Rightarrow>
                if n \<noteq> attachReplyBytes \<or> Uint32 reply 0 \<noteq> attachReplyMagic then Inl ErrProtocol
                else if Uint32 reply 4 \<noteq> AttachOK then Inl ErrDenied
                else if fds \<noteq> 3 then Inl ErrProtocol
                else attach_map env (reply_client reply)))"

definition Attach :: "attach_env \<Rightarrow> bus_error + Client \<times> mapped" where
  "Attach env = AttachAs env 0 0"

subsection \<open>Sending\<close>

definition emit_frame :: "Client \<Rightarrow> 16 word \<Rightarrow> 32 word \<Rightarrow> 64 word \<Rightarrow> string \<Rightarrow> Frame" where
  "emit_frame c flags kind corr payload =
     (let f = zero_frame\<lparr> HdrFlags := flags, hdrWireVersion := WireVersion, EventKind := kind,
                CorrelationID := corr, SrcHandle := Handle c \<rparr>
      in if payload \<noteq> [] then f\<lparr> HdrFlags := HdrFlags f OR FInline, PayloadLen := of_nat (length payload),
                                  PayloadRef := of_nat HdrLen \<rparr> else f)"

text \<open>\<open>copy(slot[HdrLen:], payload)\<close>: as much as fits.\<close>

definition copy_payload :: "string \<Rightarrow> string \<Rightarrow> string" where
  "copy_payload slot payload = store HdrLen (take (length slot - HdrLen) payload) slot"

definition emit ::
  "Client \<Rightarrow> 16 word \<Rightarrow> 32 word \<Rightarrow> 64 word \<Rightarrow> string \<Rightarrow> mapped \<Rightarrow> bus_error option \<times> mapped" where
  "emit c flags kind corr payload m =
     (if \<not> hasControl c then (Some ErrProtocol, m)
      else if payload \<noteq> [] \<and> ((of_nat (length payload) :: 32 word) > inlineBudget c
                \<or> HdrLen + length payload > unat (clSlotSize c)) then (Some ErrPayload, m)
      else if EpochChanged c m then (Some ErrEpoch, m)
      else let r = Outbound (qp c)
           in (case ProduceBegin r (qpMem m) of
                 None \<Rightarrow> (Some ErrWouldBlock, m)
               | Some off \<Rightarrow>
                   let (n, slot) = Encode (emit_frame c flags kind corr payload) (slice off (unat (slotSize r)) (qpMem m))
                   in if n \<noteq> HdrLen then (Some ErrProtocol, m)
                      else let slot = (if payload \<noteq> [] then copy_payload slot payload else slot)
                           in (None, m\<lparr> qpMem := ProduceCommit r (store off slot (qpMem m)) \<rparr>)))"

definition Publish :: "Client \<Rightarrow> 32 word \<Rightarrow> string \<Rightarrow> mapped \<Rightarrow> bus_error option \<times> mapped" where
  "Publish c kind payload m = emit c FNotification kind 0 payload m"

definition fragment ::
  "16 word \<Rightarrow> Client \<Rightarrow> 32 word \<Rightarrow> 64 word \<Rightarrow> string \<Rightarrow> bool \<Rightarrow> mapped \<Rightarrow> bus_error option \<times> mapped" where
  "fragment pattern c kind corr payload more' m =
     (if corr = 0 then (Some ErrProtocol, m)
      else if more' \<and> payload = [] then (Some ErrProtocol, m)
      else emit c (if more' then pattern OR FMore else pattern) kind corr payload m)"

definition RequestFragment :: "Client \<Rightarrow> 32 word \<Rightarrow> 64 word \<Rightarrow> string \<Rightarrow> bool \<Rightarrow> mapped \<Rightarrow> bus_error option \<times> mapped" where
  "RequestFragment = fragment FRequest"

definition ReplyFragment :: "Client \<Rightarrow> 32 word \<Rightarrow> 64 word \<Rightarrow> string \<Rightarrow> bool \<Rightarrow> mapped \<Rightarrow> bus_error option \<times> mapped" where
  "ReplyFragment = fragment FReply"

definition Request :: "Client \<Rightarrow> 32 word \<Rightarrow> 64 word \<Rightarrow> string \<Rightarrow> mapped \<Rightarrow> bus_error option \<times> mapped" where
  "Request c kind corr payload m = RequestFragment c kind corr payload False m"

definition Client_Reply :: "Client \<Rightarrow> 32 word \<Rightarrow> 64 word \<Rightarrow> string \<Rightarrow> mapped \<Rightarrow> bus_error option \<times> mapped" where
  "Client_Reply c kind corr payload m = ReplyFragment c kind corr payload False m"

definition Cancel :: "Client \<Rightarrow> 32 word \<Rightarrow> 64 word \<Rightarrow> mapped \<Rightarrow> bus_error option \<times> mapped" where
  "Cancel c kind corr m = (if corr = 0 then (Some ErrProtocol, m) else emit c FCancel kind corr [] m)"

subsection \<open>Receiving\<close>

datatype polled = PollError bus_error | NoEvent | GotEvent Event

text \<open>The payload view of a decoded slot at \<open>off\<close>. The bounds test is on the wrapped sum, as in the code;
  \<open>None\<close> is the panic of a slice expression whose bounds cross or leave the mapping.\<close>

definition poll_payload :: "Client \<Rightarrow> Frame \<Rightarrow> nat \<Rightarrow> string \<Rightarrow> string option" where
  "poll_payload c f off mem =
     (let end = PayloadRef f + ucast (PayloadLen f)
      in if has_flag f FInline \<and> PayloadLen f > 0 \<and> end \<le> ucast (clSlotSize c)
         then if PayloadRef f > end \<or> off + unat end > length mem then None
              else Some (slice (off + unat (PayloadRef f)) (unat end - unat (PayloadRef f)) mem)
         else Some [])"

definition Poll :: "Client \<Rightarrow> mapped \<Rightarrow> (polled \<times> Client \<times> mapped) option" where
  "Poll c m =
     (if \<not> hasControl c then Some (PollError ErrProtocol, c, m)
      else if EpochChanged c m then Some (PollError ErrEpoch, c, m)
      else let r = Inbound (qp c);
               m = (if pendingRead c then m\<lparr> qpMem := ConsumeCommit r (qpMem m) \<rparr> else m);
               c = c\<lparr> pendingRead := False \<rparr>
           in (case ConsumeBegin r (qpMem m) of
                 None \<Rightarrow> Some (NoEvent, c, m)
               | Some off \<Rightarrow>
                   (case Decode (slice off (unat (slotSize r)) (qpMem m)) zero_frame of
                      (OK, f) \<Rightarrow>
                        map_option (\<lambda>p. (GotEvent \<lparr> evFrame = f, evPayload = p \<rparr>, c\<lparr> pendingRead := True \<rparr>, m))
                          (poll_payload c f off (qpMem m))
                    | _ \<Rightarrow> Some (NoEvent, c, m\<lparr> qpMem := ConsumeCommit r (qpMem m) \<rparr>))))"


section \<open>What a fragment puts on the ring\<close>

lemma ring_slot_length: "ring_ok r mem \<Longrightarrow> length (slot_bytes r mem i) = unat (slotSize r)"
  using slot_bounds(2) [of r "length mem" i] by (simp add: slot_bytes_def ring_ok_def)

lemma fill_slot:
  assumes "ring_ok r mem" "ProduceBegin r mem = Some off" "length slot = unat (slotSize r)"
  shows "pending r (ProduceCommit r (store off slot mem)) = pending r mem @ [slot]"
    "ring_ok r (ProduceCommit r (store off slot mem))"
proof -
  have off: "off = ring_slot r (load_head r mem)" and free: "length (pending r mem) < unat (capacity r)"
    using assms(2) by (auto simp: ProduceBegin_Some simp del: length_pending)
  have w: "pending r (store off slot mem) = pending r mem" "ring_ok r (store off slot mem)"
    "load_head r (store off slot mem) = load_head r mem"
    using write_slot [OF assms(1) free, of off slot] assms(3) off by simp_all
  have "off + length slot \<le> length mem"
    using slot_bounds(2) [of r "length mem" "load_head r mem"] assms(1,3) by (simp add: off ring_ok_def)
  then have "slot_bytes r (store off slot mem) (load_head r mem) = slot"
    using assms(3) by (simp add: slot_bytes_def off)
  then show "pending r (ProduceCommit r (store off slot mem)) = pending r mem @ [slot]"
    "ring_ok r (ProduceCommit r (store off slot mem))"
    using ProduceCommit_pending [OF w(2)] w free by (simp_all del: length_pending)
qed

definition fragment_flags :: "16 word \<Rightarrow> bool \<Rightarrow> 16 word" where
  "fragment_flags pattern more' = (if more' then pattern OR FMore else pattern)"

lemma Validate_emit_frame:
  assumes "pattern \<in> {FRequest, FReply}" "corr \<noteq> 0" "more' \<longrightarrow> payload \<noteq> []" "length payload < 2 ^ 32"
  shows "Validate (emit_frame c (fragment_flags pattern more') kind corr payload) = OK \<longleftrightarrow> length payload \<le> 2 ^ 20"
proof -
  have n: "of_nat (length payload) = (0 :: 32 word) \<longleftrightarrow> payload = []"
    "(of_nat (length payload) :: 32 word) \<le> MaxPayload \<longleftrightarrow> length payload \<le> 2 ^ 20"
    using assms(4) by (simp_all add: word_le_nat_alt unat_of_nat MaxPayload_def of_nat_eq_0_iff word_of_nat_eq_0_iff)
      (auto dest: dvd_imp_le)
  show ?thesis
    using assms(1-3) n
    by (cases more'; cases "payload = []")
       (auto simp: Validate_iff emit_frame_def zero_frame_def fragment_flags_def one_placement_def has_flag_def
          flag_defs Let_def)
qed

lemma emit_frame_slot:
  assumes "64 + length payload \<le> length slot" "Validate (emit_frame c flags kind corr payload) = OK"
  shows "\<exists>slot'. Encode (emit_frame c flags kind corr payload) slot = (64, slot')
    \<and> length (if payload \<noteq> [] then copy_payload slot' payload else slot') = length slot
    \<and> Decode (if payload \<noteq> [] then copy_payload slot' payload else slot') g = (OK, emit_frame c flags kind corr payload)
    \<and> slice 64 (length payload) (if payload \<noteq> [] then copy_payload slot' payload else slot') = payload"
proof -
  let ?f = "emit_frame c flags kind corr payload"
  have "copy_payload (frame_bytes ?f @ drop 64 slot) payload = frame_bytes ?f @ payload @ drop (64 + length payload) slot"
    using assms(1) by (simp add: copy_payload_def store_def drop_drop add.commute)
  then show ?thesis using assms by (cases "payload = []") (simp_all add: Encode_eq slice_def)
qed

text \<open>The error of a fragment, as the caller sees it.\<close>

definition fragment_error :: "Client \<Rightarrow> 64 word \<Rightarrow> string \<Rightarrow> bool \<Rightarrow> mapped \<Rightarrow> bus_error option" where
  "fragment_error c corr payload more' m =
     (let r = Outbound (qp c)
      in if corr = 0 \<or> (more' \<and> payload = []) \<or> \<not> hasControl c then Some ErrProtocol
         else if payload \<noteq> [] \<and> \<not> (length payload \<le> unat (inlineBudget c) \<and> 64 + length payload \<le> unat (clSlotSize c))
              then Some ErrPayload
         else if EpochChanged c m then Some ErrEpoch
         else if length (pending r (qpMem m)) = unat (capacity r) then Some ErrWouldBlock
         else if length payload > 2 ^ 20 \<or> unat (clSlotSize c) < 64 then Some ErrProtocol
         else None)"

lemma emit_exact:
  assumes ok: "ring_ok (Outbound (qp c)) (qpMem m)" and size: "slotSize (Outbound (qp c)) = clSlotSize c"
    and room: "hasControl c" "payload = [] \<or> length payload \<le> unat (inlineBudget c) \<and> 64 + length payload \<le> unat (clSlotSize c)"
    and epoch: "\<not> EpochChanged c m"
    and off: "ProduceBegin (Outbound (qp c)) (qpMem m) = Some off"
    and valid: "Validate (emit_frame c flags kind corr payload) = OK \<longleftrightarrow> length payload \<le> 2 ^ 20"
  shows "if length payload > 2 ^ 20 \<or> unat (clSlotSize c) < 64 then emit c flags kind corr payload m = (Some ErrProtocol, m)
    else \<exists>slot m'. emit c flags kind corr payload m = (None, m')
       \<and> pending (Outbound (qp c)) (qpMem m') = pending (Outbound (qp c)) (qpMem m) @ [slot]
       \<and> ring_ok (Outbound (qp c)) (qpMem m') \<and> ctlMem m' = ctlMem m
       \<and> Decode slot zero_frame = (OK, emit_frame c flags kind corr payload) \<and> slice 64 (length payload) slot = payload"
proof -
  let ?r = "Outbound (qp c)" and ?f = "emit_frame c flags kind corr payload"
  let ?slot = "slice off (unat (slotSize ?r)) (qpMem m)"
  have len: "length ?slot = unat (clSlotSize c)"
    using ring_slot_length [OF ok, of "load_head ?r (qpMem m)"] off size
    by (simp add: ProduceBegin_Some slot_bytes_def del: length_pending)
  have small: "unat (clSlotSize c) < 2 ^ 32" using unsigned_less [of "clSlotSize c"] by simp
  have fits: "payload = [] \<or> unat (of_nat (length payload) :: 32 word) = length payload"
    using room(2) small by (auto simp: unat_of_nat)
  have run: "emit c flags kind corr payload m =
      (case Encode ?f ?slot of (n, slot) \<Rightarrow>
         if n \<noteq> HdrLen then (Some ErrProtocol, m)
         else (None, m\<lparr> qpMem := ProduceCommit ?r (store off (if payload \<noteq> [] then copy_payload slot payload else slot) (qpMem m)) \<rparr>))"
    using room epoch off fits by (auto simp: emit_def Let_def word_less_nat_alt split: prod.splits)
  show ?thesis
  proof (cases "length payload > 2 ^ 20 \<or> unat (clSlotSize c) < 64")
    case True
    then have "fst (Encode ?f ?slot) = 0" using valid len by (auto simp: Encode_eq)
    then show ?thesis using True run by (auto split: prod.splits)
  next
    case False
    then have "64 + length payload \<le> length ?slot" "Validate ?f = OK" using len room(2) valid by auto
    from emit_frame_slot [OF this, of zero_frame] obtain slot' where slot':
      "Encode ?f ?slot = (64, slot')"
      "length (if payload \<noteq> [] then copy_payload slot' payload else slot') = length ?slot"
      "Decode (if payload \<noteq> [] then copy_payload slot' payload else slot') zero_frame = (OK, ?f)"
      "slice 64 (length payload) (if payload \<noteq> [] then copy_payload slot' payload else slot') = payload"
      by blast
    from fill_slot [OF ok off, of "if payload \<noteq> [] then copy_payload slot' payload else slot'"] slot'(2) len size
    show ?thesis using False run slot' by auto
  qed
qed

lemma fragment_exact_aux:
  assumes ok: "ring_ok (Outbound (qp c)) (qpMem m)" and size: "slotSize (Outbound (qp c)) = clSlotSize c"
    and pattern: "pattern \<in> {FRequest, FReply}" and run: "fragment pattern c kind corr payload more' m = (e, m')"
  shows "e = fragment_error c corr payload more' m
    \<and> (if e = None then \<exists>slot. pending (Outbound (qp c)) (qpMem m') = pending (Outbound (qp c)) (qpMem m) @ [slot]
         \<and> ring_ok (Outbound (qp c)) (qpMem m') \<and> ctlMem m' = ctlMem m
         \<and> Decode slot zero_frame = (OK, emit_frame c (fragment_flags pattern more') kind corr payload)
         \<and> slice 64 (length payload) slot = payload
       else m' = m)"
proof -
  let ?r = "Outbound (qp c)"
  have small: "unat (clSlotSize c) < 2 ^ 32" using unsigned_less [of "clSlotSize c"] by simp
  have le: "length (pending ?r (qpMem m)) \<le> unat (capacity ?r)" using ok by (simp add: ring_ok_def)
  let ?roomy = "payload = [] \<or> length payload \<le> unat (inlineBudget c) \<and> 64 + length payload \<le> unat (clSlotSize c)"
  consider (bad) "corr = 0 \<or> (more' \<and> payload = []) \<or> \<not> hasControl c"
    | (big) "corr \<noteq> 0" "\<not> (more' \<and> payload = [])" "hasControl c" "\<not> ?roomy"
    | (epoch) "corr \<noteq> 0" "\<not> (more' \<and> payload = [])" "hasControl c" ?roomy "EpochChanged c m"
    | (full) "corr \<noteq> 0" "\<not> (more' \<and> payload = [])" "hasControl c" ?roomy "\<not> EpochChanged c m" "ProduceBegin ?r (qpMem m) = None"
    | (go) off where "corr \<noteq> 0" "\<not> (more' \<and> payload = [])" "hasControl c" ?roomy "\<not> EpochChanged c m" "ProduceBegin ?r (qpMem m) = Some off"
    by (cases "ProduceBegin ?r (qpMem m)") blast+
  then show ?thesis
  proof cases
    case bad
    then show ?thesis using run by (auto simp: fragment_def emit_def fragment_error_def Let_def split: if_splits)
  next
    case big
    have "unat (of_nat (length payload) :: 32 word) > unat (inlineBudget c) \<or> 64 + length payload > unat (clSlotSize c)"
      using big(4) small by (cases "length payload < 2 ^ 32") (auto simp: unat_of_nat)
    then show ?thesis using run big by (auto simp: fragment_def emit_def fragment_error_def Let_def word_less_nat_alt)
  next
    case epoch
    then have "\<not> unat (of_nat (length payload) :: 32 word) > unat (inlineBudget c)"
      using small by (auto simp: unat_of_nat)
    then show ?thesis using run epoch by (auto simp: fragment_def emit_def fragment_error_def Let_def word_less_nat_alt)
  next
    case full
    then have "\<not> unat (of_nat (length payload) :: 32 word) > unat (inlineBudget c)"
      using small by (auto simp: unat_of_nat)
    moreover have "length (pending ?r (qpMem m)) = unat (capacity ?r)" using full(6) le by (simp only: ProduceBegin_None)
    ultimately show ?thesis
      using run full by (auto simp: fragment_def emit_def fragment_error_def Let_def word_less_nat_alt)
  next
    case go
    have "length payload < 2 ^ 32" using go(4) small by auto
    with Validate_emit_frame [OF pattern go(1)] go(2)
    have "Validate (emit_frame c (fragment_flags pattern more') kind corr payload) = OK \<longleftrightarrow> length payload \<le> 2 ^ 20"
      by blast
    note main = emit_exact [OF ok size go(3) go(4) go(5) go(6) this]
    have "length (pending ?r (qpMem m)) < unat (capacity ?r)" using go(6) by (simp only: ProduceBegin_Some)
    then have "fragment_error c corr payload more' m =
        (if length payload > 2 ^ 20 \<or> unat (clSlotSize c) < 64 then Some ErrProtocol else None)"
      using go by (auto simp: fragment_error_def Let_def simp del: length_pending)
    moreover have "fragment pattern c kind corr payload more' m = emit c (fragment_flags pattern more') kind corr payload m"
      using go(1,2) by (auto simp: fragment_def fragment_flags_def)
    ultimately show ?thesis using run main by (auto split: if_splits)
  qed
qed


text \<open>C20: sending is exact. A request or reply fragment fails with the error of the first condition it
  violates, in the order of the code, and then the shared memory is as it was; otherwise exactly one
  slot is appended to what the outbound ring holds, and it decodes to the frame of the fragment with
  the payload, byte for byte, right behind the header.\<close>

theorem fragment_exact:
  assumes "ring_ok (Outbound (qp c)) (qpMem m)" "slotSize (Outbound (qp c)) = clSlotSize c"
    "pattern \<in> {FRequest, FReply}" "fragment pattern c kind corr payload more' m = (e, m')"
  shows "e = fragment_error c corr payload more' m
    \<and> (if e = None then \<exists>slot. pending (Outbound (qp c)) (qpMem m') = pending (Outbound (qp c)) (qpMem m) @ [slot]
         \<and> ring_ok (Outbound (qp c)) (qpMem m') \<and> ctlMem m' = ctlMem m
         \<and> Decode slot zero_frame = (OK, emit_frame c (fragment_flags pattern more') kind corr payload)
         \<and> slice 64 (length payload) slot = payload
       else m' = m)"
  by (rule fragment_exact_aux [OF assms])

section \<open>What a poll takes off the ring\<close>

text \<open>The messages that are left when the event of the previous poll is released.\<close>

definition unread :: "Client \<Rightarrow> mapped \<Rightarrow> string list" where
  "unread c m = (let q = pending (Inbound (qp c)) (qpMem m) in if pendingRead c then tl q else q)"

text \<open>The inline reference of a frame, and when its end wraps around 64 bits back into the slot.\<close>

definition inline_end :: "Frame \<Rightarrow> nat" where
  "inline_end f = unat (PayloadRef f) + unat (PayloadLen f)"

definition wrapped_reference :: "Client \<Rightarrow> Frame \<Rightarrow> bool" where
  "wrapped_reference c f \<longleftrightarrow> has_flag f FInline \<and> PayloadLen f \<noteq> 0 \<and> 2 ^ 64 \<le> inline_end f
     \<and> inline_end f - 2 ^ 64 \<le> unat (clSlotSize c)"

lemma wrapped_sum:
  fixes x :: "64 word" and y :: "32 word"
  shows "unat (x + ucast y) = (if unat x + unat y < 2 ^ 64 then unat x + unat y else unat x + unat y - 2 ^ 64)"
proof -
  have "unat x < 2 ^ LENGTH(64)" "unat y < 2 ^ LENGTH(32)" by (rule unsigned_less)+
  moreover have "unat (x + ucast y) = (unat x + unat y) mod 2 ^ 64" by (simp add: unat_word_ariths)
  ultimately show ?thesis by (simp add: mod_if)
qed

lemma poll_payload_exact:
  assumes "off + unat (clSlotSize c) \<le> length mem"
  shows "poll_payload c f off mem =
    (if wrapped_reference c f then None
     else if has_flag f FInline \<and> PayloadLen f \<noteq> 0 \<and> inline_end f \<le> unat (clSlotSize c)
     then Some (slice (unat (PayloadRef f)) (unat (PayloadLen f)) (slice off (unat (clSlotSize c)) mem))
     else Some [])"
proof -
  let ?e = "PayloadRef f + ucast (PayloadLen f)"
  have small: "unat (clSlotSize c) < 2 ^ 32" using unsigned_less [of "clSlotSize c"] by simp
  have ref: "unat (PayloadRef f) < 2 ^ 64" using unsigned_less [of "PayloadRef f"] by simp
  have sum: "unat ?e = (if inline_end f < 2 ^ 64 then inline_end f else inline_end f - 2 ^ 64)"
    by (simp add: wrapped_sum inline_end_def)
  have pos: "PayloadLen f > 0 \<longleftrightarrow> PayloadLen f \<noteq> 0" by (simp add: word_neq_0_conv)
  have le: "?e \<le> ucast (clSlotSize c) \<longleftrightarrow> unat ?e \<le> unat (clSlotSize c)" by (simp add: word_le_nat_alt)
  have gt: "PayloadRef f > ?e \<longleftrightarrow> unat ?e < unat (PayloadRef f)" by (simp add: word_less_nat_alt)
  have inner: "slice a b (slice off n mem) = slice (off + a) b mem" if "a + b \<le> n" for a b n
    using that by (simp add: slice_def drop_take drop_drop add.commute min_def)
  show ?thesis
  proof (cases "inline_end f < 2 ^ 64")
    case True
    then have "unat ?e - unat (PayloadRef f) = unat (PayloadLen f)" "\<not> unat ?e < unat (PayloadRef f)"
      using sum by (auto simp: inline_end_def)
    then show ?thesis
      using True assms inner [of "unat (PayloadRef f)" "unat (PayloadLen f)" "unat (clSlotSize c)"]
      by (auto simp: poll_payload_def Let_def pos le gt sum wrapped_reference_def inline_end_def)
  next
    case False
    have "unat ?e < unat (PayloadRef f)" if "unat ?e \<le> unat (clSlotSize c)"
    proof -
      have "unat (PayloadLen f) < 2 ^ 32" using unsigned_less [of "PayloadLen f"] by simp
      then have "unat (PayloadRef f) \<ge> 2 ^ 64 - 2 ^ 32" using False by (simp add: inline_end_def)
      then show ?thesis using that small by simp
    qed
    then show ?thesis
      using False small by (auto simp: poll_payload_def Let_def pos le gt sum wrapped_reference_def)
  qed
qed


lemma Poll_exact_aux:
  assumes "hasControl c" "\<not> EpochChanged c m" and ok: "ring_ok (Inbound (qp c)) (qpMem m)"
    and size: "slotSize (Inbound (qp c)) = clSlotSize c"
    and held: "\<not> pendingRead c \<or> pending (Inbound (qp c)) (qpMem m) \<noteq> []"
  shows "case Poll c m of
      None \<Rightarrow> \<exists>slot rest f. unread c m = slot # rest \<and> Decode slot zero_frame = (OK, f) \<and> wrapped_reference c f
    | Some (r, c', m') \<Rightarrow>
        ring_ok (Inbound (qp c)) (qpMem m') \<and> qp c' = qp c \<and> ctlMem m' = ctlMem m
        \<and> (case r of
             PollError e \<Rightarrow> False
           | NoEvent \<Rightarrow> \<not> pendingRead c' \<and> unread c' m' = tl (unread c m)
               \<and> (case unread c m of [] \<Rightarrow> True | slot # rest \<Rightarrow> fst (Decode slot zero_frame) \<noteq> OK)
           | GotEvent ev \<Rightarrow> pendingRead c' \<and> (\<exists>slot. unread c m = slot # unread c' m' \<and> Decode slot zero_frame = (OK, evFrame ev)
               \<and> pending (Inbound (qp c)) (qpMem m') = unread c m \<and> \<not> wrapped_reference c (evFrame ev)
               \<and> evPayload ev = (if has_flag (evFrame ev) FInline \<and> PayloadLen (evFrame ev) \<noteq> 0
                      \<and> inline_end (evFrame ev) \<le> unat (clSlotSize c)
                    then slice (unat (PayloadRef (evFrame ev))) (unat (PayloadLen (evFrame ev))) slot else [])))"
proof -
  let ?r = "Inbound (qp c)"
  define m1 where "m1 = (if pendingRead c then m\<lparr> qpMem := ConsumeCommit ?r (qpMem m) \<rparr> else m)"
  have m1: "ring_ok ?r (qpMem m1)" "pending ?r (qpMem m1) = unread c m" "ctlMem m1 = ctlMem m"
    using ok ConsumeCommit_pending [OF ok] held by (auto simp: m1_def unread_def Let_def)
  let ?c1 = "c\<lparr> pendingRead := False \<rparr>"
  have run: "Poll c m =
      (case ConsumeBegin ?r (qpMem m1) of
         None \<Rightarrow> Some (NoEvent, ?c1, m1)
       | Some off \<Rightarrow>
           (case Decode (slice off (unat (slotSize ?r)) (qpMem m1)) zero_frame of
              (OK, f) \<Rightarrow> map_option (\<lambda>p. (GotEvent \<lparr> evFrame = f, evPayload = p \<rparr>, ?c1\<lparr> pendingRead := True \<rparr>, m1))
                  (poll_payload ?c1 f off (qpMem m1))
            | _ \<Rightarrow> Some (NoEvent, ?c1, m1\<lparr> qpMem := ConsumeCommit ?r (qpMem m1) \<rparr>)))"
    unfolding Poll_def Let_def m1_def [symmetric] using assms(1,2) by simp
  show ?thesis
  proof (cases "unread c m")
    case Nil
    then show ?thesis using run m1 by (simp add: ConsumeBegin_None [THEN iffD2] unread_def Let_def)
  next
    case (Cons slot rest)
    let ?off = "ring_slot ?r (load_tail ?r (qpMem m1))"
    have first: "ConsumeBegin ?r (qpMem m1) = Some ?off" using m1(2) Cons by (simp add: ConsumeBegin_Some)
    have slot: "slice ?off (unat (slotSize ?r)) (qpMem m1) = slot"
      using hd_pending [of ?r "qpMem m1"] m1(2) Cons by (simp add: slot_bytes_def)
    have bound: "?off + unat (clSlotSize ?c1) \<le> length (qpMem m1)"
      using slot_bounds(2) [of ?r "length (qpMem m1)"] m1(1) size by (simp add: ring_ok_def)
    note commit = ConsumeCommit_pending [OF m1(1)]
    obtain r f where d: "Decode slot zero_frame = (r, f)" by (cases "Decode slot zero_frame")
    show ?thesis
    proof (cases "r = OK")
      case True
      then show ?thesis
        using run first slot d m1 Cons poll_payload_exact [OF bound, of f] size
        by (auto simp: unread_def Let_def wrapped_reference_def)
    next
      case False
      then have "Poll c m = Some (NoEvent, ?c1, m1\<lparr> qpMem := ConsumeCommit ?r (qpMem m1) \<rparr>)"
        using run first slot d by (cases r) simp_all
      then show ?thesis using False d m1 Cons commit by (simp add: unread_def Let_def)
    qed
  qed
qed

text \<open>C19: polling is exact. With the memory attached and the epoch unchanged, a poll releases the event of
  the last one and then finds the ring empty, or drops a slot that does not decode, or returns the frame
  of the oldest slot and its inline payload, which are the bytes that the frame refers to inside that
  slot (nothing for a reference that leaves the slot); and it panics exactly when the reference of a
  decodable frame is so large that its end wraps around 64 bits to a place inside the slot.\<close>

theorem Poll_exact:
  assumes "hasControl c" "\<not> EpochChanged c m" "ring_ok (Inbound (qp c)) (qpMem m)"
    "slotSize (Inbound (qp c)) = clSlotSize c" "\<not> pendingRead c \<or> pending (Inbound (qp c)) (qpMem m) \<noteq> []"
  shows "case Poll c m of
      None \<Rightarrow> \<exists>slot rest f. unread c m = slot # rest \<and> Decode slot zero_frame = (OK, f) \<and> wrapped_reference c f
    | Some (r, c', m') \<Rightarrow>
        ring_ok (Inbound (qp c)) (qpMem m') \<and> qp c' = qp c \<and> ctlMem m' = ctlMem m
        \<and> (case r of
             PollError e \<Rightarrow> False
           | NoEvent \<Rightarrow> \<not> pendingRead c' \<and> unread c' m' = tl (unread c m)
               \<and> (case unread c m of [] \<Rightarrow> True | slot # rest \<Rightarrow> fst (Decode slot zero_frame) \<noteq> OK)
           | GotEvent ev \<Rightarrow> pendingRead c' \<and> (\<exists>slot. unread c m = slot # unread c' m' \<and> Decode slot zero_frame = (OK, evFrame ev)
               \<and> pending (Inbound (qp c)) (qpMem m') = unread c m \<and> \<not> wrapped_reference c (evFrame ev)
               \<and> evPayload ev = (if has_flag (evFrame ev) FInline \<and> PayloadLen (evFrame ev) \<noteq> 0
                      \<and> inline_end (evFrame ev) \<le> unat (clSlotSize c)
                    then slice (unat (PayloadRef (evFrame ev))) (unat (PayloadLen (evFrame ev))) slot else [])))"
  by (rule Poll_exact_aux [OF assms])

text \<open>The placement check of the wire, which the poll does not make, rules the panic out.\<close>

lemma CheckPlacement_not_wrapped: "CheckPlacement f slot arena = OK \<Longrightarrow> \<not> wrapped_reference c f"
proof
  assume "CheckPlacement f slot arena = OK" "wrapped_reference c f"
  then have "inline_end f \<le> unat slot" "2 ^ 64 \<le> inline_end f"
    using CheckPlacement_inline(2) [of f slot arena] by (auto simp: wrapped_reference_def inline_end_def)
  moreover have "unat slot < 2 ^ LENGTH(32)" by (rule unsigned_less)
  ultimately show False by simp
qed

section \<open>A frame that makes the poll panic\<close>

definition stray_frame :: Frame where
  "stray_frame = zero_frame\<lparr> HdrFlags := 9, hdrWireVersion := 3, EventKind := 256, CorrelationID := 1,
     PayloadRef := - 16, PayloadLen := 80 \<rparr>"

lemma le_value_zeros: "le_value (replicate n (CHR 0x00)) = 0"
  by (induction n) (simp_all add: byte_def)

definition one_slot_ring :: Ring where
  "one_slot_ring = \<lparr> ringBase = 0, slotSize = 64, capacity = 2, mask = 1, slotsOff = 192 \<rparr>"

text \<open>A ring of two 64-byte slots that holds one message, the slot \<open>s\<close>.\<close>

definition one_slot_mem :: "string \<Rightarrow> string" where
  "one_slot_mem s = le_bytes 4 (unat ringMagic) @ le_bytes 4 64 @ le_bytes 4 2 @ le_bytes 4 1 @ le_bytes 4 192
     @ replicate 44 (CHR 0x00) @ le_bytes 8 1 @ replicate 56 (CHR 0x00) @ le_bytes 8 0
     @ replicate 56 (CHR 0x00) @ s @ replicate 64 (CHR 0x00)"

lemma one_slot_fields:
  assumes "length s = 64"
  shows "length (one_slot_mem s) = 320" "AttachRing 0 (one_slot_mem s) = Some one_slot_ring"
    "pending one_slot_ring (one_slot_mem s) = [s]"
proof -
  have f: "length (one_slot_mem s) = 320" "Uint32 (one_slot_mem s) 0 = ringMagic" "Uint32 (one_slot_mem s) 4 = 64"
    "Uint32 (one_slot_mem s) 8 = 2" "Uint32 (one_slot_mem s) 12 = 1" "Uint32 (one_slot_mem s) 16 = 192"
    "Uint64 (one_slot_mem s) 64 = 1" "Uint64 (one_slot_mem s) 128 = 0" "slice 192 64 (one_slot_mem s) = s"
    using assms by (simp_all add: one_slot_mem_def Uint32_def Uint64_def slice_def unat_mod_width)
  then show "length (one_slot_mem s) = 320" by simp
  show "AttachRing 0 (one_slot_mem s) = Some one_slot_ring"
    by (simp add: AttachRing_def f load_head_def load_tail_def one_slot_ring_def Let_def)
  show "pending one_slot_ring (one_slot_mem s) = [s]"
    by (simp add: pending_def Ring_Count_def load_head_def load_tail_def f one_slot_ring_def slot_bytes_def ring_slot_def)
qed

definition reader :: Client where
  "reader = zero_client\<lparr> clSlotSize := 64, inlineBudget := 64, hasControl := True,
     qp := \<lparr> Inbound = one_slot_ring, Outbound = one_slot_ring \<rparr> \<rparr>"

definition stray_memory :: mapped where
  "stray_memory = \<lparr> ctlMem = replicate 96 (CHR 0x00), qpMem = one_slot_mem (frame_bytes stray_frame) \<rparr>"

theorem Poll_exact_witness:
  "Validate stray_frame = OK \<and> Poll reader stray_memory = None"
proof -
  have valid: "Validate stray_frame = OK"
    by (simp add: Validate_iff stray_frame_def zero_frame_def one_placement_def has_flag_def flag_defs
        WireVersion_def MaxPayload_def)
  have wrapped: "wrapped_reference reader stray_frame"
    by (simp add: wrapped_reference_def stray_frame_def zero_frame_def has_flag_def flag_defs inline_end_def reader_def)
  have epoch: "\<not> EpochChanged reader stray_memory"
    by (simp add: EpochChanged_def Epoch_def stray_memory_def reader_def zero_client_def Uint64_def slice_def le_value_zeros)
  have dec: "Decode (frame_bytes stray_frame) zero_frame = (OK, stray_frame)"
    using Decode_frame_bytes [OF valid, of "[]"] by simp
  have ring: "ring_ok (Inbound (qp reader)) (qpMem stray_memory)"
    using AttachRing_ok(1) [OF one_slot_fields(2)] by (simp add: reader_def stray_memory_def)
  have unread: "unread reader stray_memory = [frame_bytes stray_frame]"
    using one_slot_fields(3) by (simp add: unread_def reader_def stray_memory_def zero_client_def)
  note poll = Poll_exact [of reader stray_memory, OF _ epoch ring]
  have "Poll reader stray_memory = None"
  proof (rule ccontr)
    assume "Poll reader stray_memory \<noteq> None"
    then obtain r c' m' where "Poll reader stray_memory = Some (r, c', m')" by (cases "Poll reader stray_memory") auto
    then show False
      using poll unread dec wrapped by (cases r) (auto simp: reader_def zero_client_def one_slot_ring_def)
  qed
  with valid show ?thesis by simp
qed

theorem fragment_exact_witness:
  "\<exists>slot m'. fragment FRequest reader 256 1 [] False stray_memory = (None, m')
     \<and> pending one_slot_ring (qpMem m') = [frame_bytes stray_frame, slot]
     \<and> Decode slot zero_frame = (OK, emit_frame reader FRequest 256 1 [])"
proof -
  have epoch: "\<not> EpochChanged reader stray_memory"
    by (simp add: EpochChanged_def Epoch_def stray_memory_def reader_def zero_client_def Uint64_def slice_def le_value_zeros)
  have held: "pending one_slot_ring (qpMem stray_memory) = [frame_bytes stray_frame]"
    using one_slot_fields(3) by (simp add: stray_memory_def)
  have fields: "Outbound (qp reader) = one_slot_ring" "hasControl reader" "clSlotSize reader = 64" "capacity one_slot_ring = 2"
    by (simp_all add: reader_def one_slot_ring_def)
  with held have none: "fragment_error reader 1 [] False stray_memory = None"
    using epoch by (simp add: fragment_error_def Let_def fields del: length_pending)
  obtain e m' where run: "fragment FRequest reader 256 1 [] False stray_memory = (e, m')"
    by (cases "fragment FRequest reader 256 1 [] False stray_memory")
  have "ring_ok (Outbound (qp reader)) (qpMem stray_memory)"
    using AttachRing_ok(1) [OF one_slot_fields(2)] by (simp add: reader_def stray_memory_def)
  from fragment_exact [OF this _ _ run] none run held show ?thesis
    by (auto simp: reader_def one_slot_ring_def fragment_flags_def)
qed

end
