(* ===== verification/ModuleProtocol.thy ===== *)
theory ModuleProtocol
  imports Bytes
begin

text \<open>
  Model of \<open>module_protocol.go\<close>: the 40-byte header that opens the payload of every module event, its
  validity, its codec and the deadline test.
\<close>

definition ModuleMessageMagic :: "32 word" where "ModuleMessageMagic = 0x444f4d41"
definition ModuleMessageVersion :: "16 word" where "ModuleMessageVersion = 1"
definition ModuleMessageHeaderLen :: nat where "ModuleMessageHeaderLen = 40"
definition ModuleMessageMaxBody :: "32 word" where "ModuleMessageMaxBody = 16 * 1024 * 1024"

definition ModuleOpInvoke :: "16 word" where "ModuleOpInvoke = 1"
definition ModuleOpResult :: "16 word" where "ModuleOpResult = 2"

definition ModuleStatusOK :: "16 word" where "ModuleStatusOK = 0"
definition ModuleStatusCapabilityAbsent :: "16 word" where "ModuleStatusCapabilityAbsent = 1"
definition ModuleStatusCancelled :: "16 word" where "ModuleStatusCancelled = 2"
definition ModuleStatusDeadlineExceeded :: "16 word" where "ModuleStatusDeadlineExceeded = 3"
definition ModuleStatusInvalidRequest :: "16 word" where "ModuleStatusInvalidRequest = 4"
definition ModuleStatusInternal :: "16 word" where "ModuleStatusInternal = 5"

lemmas module_consts = ModuleOpInvoke_def ModuleOpResult_def ModuleStatusOK_def ModuleStatusCapabilityAbsent_def
  ModuleStatusCancelled_def ModuleStatusDeadlineExceeded_def ModuleStatusInvalidRequest_def ModuleStatusInternal_def

record ModuleMessage =
  Operation :: "16 word"
  Status :: "16 word"
  StageID :: "32 word"
  Flags :: "32 word"
  BodyLen :: "32 word"
  DeadlineNS :: "64 word"
  TraceID :: "64 word"

definition message_valid :: "ModuleMessage \<Rightarrow> bool" where
  "message_valid m =
     (if Operation m \<noteq> ModuleOpInvoke \<and> Operation m \<noteq> ModuleOpResult then False
      else if Status m > ModuleStatusInternal \<or> (Operation m = ModuleOpInvoke \<and> Status m \<noteq> ModuleStatusOK) then False
      else StageID m \<noteq> 0 \<and> Flags m = 0 \<and> BodyLen m \<le> ModuleMessageMaxBody)"

definition put_message :: "ModuleMessage \<Rightarrow> string \<Rightarrow> string" where
  "put_message m b =
     (let b = PutUint32 0 ModuleMessageMagic b;
          b = PutUint16 4 ModuleMessageVersion b;
          b = PutUint16 6 (of_nat ModuleMessageHeaderLen) b;
          b = PutUint16 8 (Operation m) b;
          b = PutUint16 10 (Status m) b;
          b = PutUint32 12 (StageID m) b;
          b = PutUint32 16 (Flags m) b;
          b = PutUint32 20 (BodyLen m) b;
          b = PutUint64 24 (DeadlineNS m) b
      in PutUint64 32 (TraceID m) b)"

text \<open>\<open>None\<close> is \<open>ErrModuleMessage\<close>; otherwise the buffer after the call, of which the first 40 bytes
  were written.\<close>

definition message_Encode :: "ModuleMessage \<Rightarrow> string \<Rightarrow> string option" where
  "message_Encode m out =
     (if length out < ModuleMessageHeaderLen \<or> \<not> message_valid m then None
      else Some (put_message m (store 0 (replicate ModuleMessageHeaderLen (CHR 0x00)) out)))"

definition get_message :: "string \<Rightarrow> ModuleMessage" where
  "get_message b =
     \<lparr> Operation = Uint16 b 8, Status = Uint16 b 10, StageID = Uint32 b 12, Flags = Uint32 b 16,
       BodyLen = Uint32 b 20, DeadlineNS = Uint64 b 24, TraceID = Uint64 b 32 \<rparr>"

definition DecodeModuleMessage :: "string \<Rightarrow> ModuleMessage option" where
  "DecodeModuleMessage b =
     (if length b < ModuleMessageHeaderLen \<or> Uint32 b 0 \<noteq> ModuleMessageMagic
         \<or> Uint16 b 4 \<noteq> ModuleMessageVersion \<or> Uint16 b 6 \<noteq> of_nat ModuleMessageHeaderLen then None
      else let m = get_message b
           in if \<not> message_valid m \<or> unat (BodyLen m) > length b - ModuleMessageHeaderLen then None
              else Some m)"

definition DeadlineExpired :: "ModuleMessage \<Rightarrow> 64 word \<Rightarrow> bool" where
  "DeadlineExpired m nowNS \<longleftrightarrow> DeadlineNS m \<noteq> 0 \<and> nowNS \<ge> DeadlineNS m"

section \<open>Laws\<close>

lemma HeaderLen_numeral [simp]: "ModuleMessageHeaderLen = 40" by (simp add: ModuleMessageHeaderLen_def)

definition message_bytes :: "ModuleMessage \<Rightarrow> string" where
  "message_bytes m = le_bytes 4 (unat ModuleMessageMagic) @ le_bytes 2 (unat ModuleMessageVersion)
     @ le_bytes 2 40 @ le_bytes 2 (unat (Operation m)) @ le_bytes 2 (unat (Status m))
     @ le_bytes 4 (unat (StageID m)) @ le_bytes 4 (unat (Flags m)) @ le_bytes 4 (unat (BodyLen m))
     @ le_bytes 8 (unat (DeadlineNS m)) @ le_bytes 8 (unat (TraceID m))"

lemma length_message_bytes [simp]: "length (message_bytes m) = 40"
  by (simp add: message_bytes_def)

lemma put_message_bytes: "40 \<le> length b \<Longrightarrow> put_message m b = message_bytes m @ drop 40 b"
  using Put_append(2) [of 0 "[]" _ b] unfolding put_message_def message_bytes_def Let_def
  by (simp add: Put_append append_assoc [symmetric] del: append_assoc)

lemma header_message_bytes [simp]:
  "Uint32 (message_bytes m @ r) 0 = ModuleMessageMagic"
  "Uint16 (message_bytes m @ r) 4 = ModuleMessageVersion"
  "Uint16 (message_bytes m @ r) 6 = 40"
  by (simp_all add: Uint32_def Uint16_def slice_def message_bytes_def unat_mod_width)

lemma get_message_bytes [simp]: "get_message (message_bytes m @ r) = m"
  by (simp add: get_message_def message_bytes_def Uint16_def Uint32_def Uint64_def slice_def unat_mod_width)

lemma message_bytes_get:
  assumes "40 \<le> length b" "Uint32 b 0 = ModuleMessageMagic" "Uint16 b 4 = ModuleMessageVersion" "Uint16 b 6 = 40"
  shows "message_bytes (get_message b) = take 40 b"
proof -
  have forty: "le_bytes 2 40 = le_bytes 2 (unat (Uint16 b 6))" by (simp add: assms(4))
  have "take 40 b = slice 0 (4 + (2 + (2 + (2 + (2 + (4 + (4 + (4 + (8 + 8))))))))) b"
    by (simp add: slice_0)
  also have "\<dots> = message_bytes (get_message b)"
    unfolding slice_append message_bytes_def forty using assms(1)
    by (simp add: get_message_def le_bytes_Uint assms(2,3) [symmetric])
  finally show ?thesis by simp
qed

lemma message_Encode_eq:
  "message_Encode m out =
     (if 40 \<le> length out \<and> message_valid m then Some (message_bytes m @ drop 40 out) else None)"
  by (auto simp: message_Encode_def put_message_bytes store_def)

lemma DecodeModuleMessage_Some:
  "DecodeModuleMessage b = Some m \<longleftrightarrow>
     40 \<le> length b \<and> Uint32 b 0 = ModuleMessageMagic \<and> Uint16 b 4 = ModuleMessageVersion \<and> Uint16 b 6 = 40
     \<and> m = get_message b \<and> message_valid m \<and> 40 + unat (BodyLen m) \<le> length b"
  by (auto simp: DecodeModuleMessage_def Let_def)

lemma Decode_message_bytes:
  "DecodeModuleMessage (message_bytes m @ r) =
     (if message_valid m \<and> unat (BodyLen m) \<le> length r then Some m else None)"
  by (simp add: DecodeModuleMessage_def)

interpretation message: wire_codec message_Encode DecodeModuleMessage message_valid ModuleMessageHeaderLen
  "\<lambda>m n. 40 + unat (BodyLen m) \<le> n"
proof (unfold_locales, goal_cases)
  case (3 m b b')
  then show ?case by (auto simp: message_Encode_eq Decode_message_bytes split: if_splits)
next
  case (4 b m c)
  then show ?case by (auto simp: DecodeModuleMessage_Some message_Encode_eq message_bytes_get)
qed (auto simp: message_Encode_eq DecodeModuleMessage_Some split: if_splits intro!: exI [of _ "message_bytes _"])

text \<open>C40: the message header and its body travel together. A header is encoded exactly when it is valid and
  the buffer has room for its 40 bytes, and nothing behind these is written. Followed by a body of the
  announced size (or more) the encoded header decodes to itself, with a shorter body it is refused. A header
  that decodes is valid, announces no more than is there, and re-encodes to the bytes that were read.\<close>

theorem message_codec_exact:
  "(case message_Encode m out of
      None \<Rightarrow> \<not> (40 \<le> length out \<and> message_valid m)
    | Some b \<Rightarrow> 40 \<le> length out \<and> message_valid m \<and> length b = length out \<and> drop 40 b = drop 40 out
        \<and> DecodeModuleMessage (take 40 b @ body) = (if unat (BodyLen m) \<le> length body then Some m else None))
   \<and> (case DecodeModuleMessage inb of
        None \<Rightarrow> True
      | Some h \<Rightarrow> message_valid h \<and> 40 + unat (BodyLen h) \<le> length inb \<and> message_Encode h inb = Some inb)"
  by (auto simp: message_Encode_eq Decode_message_bytes DecodeModuleMessage_Some message_bytes_get
      split: option.splits)

end
