(* ===== verification/ModuleCaller.thy ===== *)
theory ModuleCaller
  imports BusClient ModuleProtocol
begin

text \<open>
  Model of \<open>module_caller.go\<close>: calling a module stage over the bus. The bus a caller needs is a record
  of its operations on a world of any type, which the client of \<open>BusClient\<close> provides; the polls that
  the waiting loop makes are an explicit sequence of outcomes, so a call that is still waiting after
  all of them is a value too.
\<close>

section \<open>Fragments\<close>

text \<open>The parts of a body, none longer than the chunk, and one empty part for an empty body: the passes
  of the two fragmentation loops (\<open>send\<close> and \<open>replyModuleResult\<close>) over their offset.\<close>

function chunks :: "nat \<Rightarrow> string \<Rightarrow> string list" where
  "chunks n body = (if n = 0 \<or> length body \<le> n then [body] else take n body # chunks n (drop n body))"
  by auto
termination by (relation "measure (\<lambda>(n, body). length body)") auto

declare chunks.simps [simp del]

lemma chunks_nonempty [simp]: "chunks n body \<noteq> []"
  by (subst chunks.simps) simp

lemma concat_chunks [simp]: "concat (chunks n body) = body"
proof (induction n body rule: chunks.induct)
  case (1 n body)
  then show ?case by (subst chunks.simps) simp
qed

lemma length_chunks: "0 < n \<Longrightarrow> p \<in> set (chunks n body) \<Longrightarrow> length p \<le> n"
proof (induction n body rule: chunks.induct)
  case (1 n body)
  then show ?case by (cases "length body \<le> n") (auto simp: chunks.simps [of n body])
qed

text \<open>Every part but the last fills its chunk, so a part that is followed by another is not empty.\<close>

lemma butlast_chunks: "0 < n \<Longrightarrow> p \<in> set (butlast (chunks n body)) \<Longrightarrow> length p = n"
proof (induction n body rule: chunks.induct)
  case (1 n body)
  then show ?case by (cases "length body \<le> n") (auto simp: chunks.simps [of n body])
qed

section \<open>The caller\<close>

datatype call_error =
  CallBus bus_error | CallDeadline | CallCancelled | CallCapabilityAbsent | CallRejected | CallStatus "16 word"

record 'w caller_bus =
  bus_Request :: "32 word \<Rightarrow> 64 word \<Rightarrow> string \<Rightarrow> bool \<Rightarrow> 'w \<Rightarrow> bus_error option \<times> 'w"
  bus_Cancel :: "32 word \<Rightarrow> 64 word \<Rightarrow> 'w \<Rightarrow> bus_error option \<times> 'w"
  bus_budget :: "32 word"

text \<open>The bus of an attached client.\<close>

definition client_bus :: "Client \<Rightarrow> mapped caller_bus" where
  "client_bus c = \<lparr> bus_Request = RequestFragment c, bus_Cancel = Cancel c, bus_budget = moduleInlineBudget c \<rparr>"

record ModuleCaller =
  correlation :: "64 word"
  responseLimit :: "32 word"

definition newModuleCaller :: ModuleCaller where
  "newModuleCaller = \<lparr> correlation = 0, responseLimit = ModuleMessageMaxBody \<rparr>"

definition invoke_message :: "32 word \<Rightarrow> 64 word \<Rightarrow> 64 word \<Rightarrow> string \<Rightarrow> ModuleMessage" where
  "invoke_message stageID traceID deadlineNS part =
     \<lparr> Operation = ModuleOpInvoke, Status = ModuleStatusOK, StageID = stageID, Flags = 0,
       BodyLen = of_nat (length part), DeadlineNS = deadlineNS, TraceID = traceID \<rparr>"

text \<open>The loop of \<open>send\<close> over its parts; the frame buffer is reused from pass to pass.\<close>

fun send_parts ::
  "'w caller_bus \<Rightarrow> 32 word \<Rightarrow> 64 word \<Rightarrow> (string \<Rightarrow> ModuleMessage) \<Rightarrow> string \<Rightarrow> string list \<Rightarrow> 'w
    \<Rightarrow> bus_error option \<times> 'w" where
  "send_parts b kind corr message frame [] w = (None, w)"
| "send_parts b kind corr message frame (part # parts) w =
     (case message_Encode (message part) frame of
        None \<Rightarrow> (Some ErrModuleMessage, w)
      | Some frame \<Rightarrow>
          let frame = store ModuleMessageHeaderLen part frame
          in (case bus_Request b kind corr (take (ModuleMessageHeaderLen + length part) frame) (parts \<noteq> []) w of
                (Some e, w) \<Rightarrow> (Some e, w)
              | (None, w) \<Rightarrow> send_parts b kind corr message frame parts w))"

definition send ::
  "'w caller_bus \<Rightarrow> 32 word \<Rightarrow> 32 word \<Rightarrow> 64 word \<Rightarrow> 64 word \<Rightarrow> 64 word \<Rightarrow> string \<Rightarrow> 'w
    \<Rightarrow> bus_error option \<times> 'w" where
  "send b kind stageID traceID corr deadlineNS request w =
     (let budget = bus_budget b
      in if budget \<le> of_nat ModuleMessageHeaderLen then (Some ErrModuleRuntime, w)
         else let chunk = unat budget - ModuleMessageHeaderLen
              in send_parts b kind corr (invoke_message stageID traceID deadlineNS)
                   (replicate (unat budget) (CHR 0x00)) (chunks chunk request) w)"

section \<open>Waiting for the result\<close>

text \<open>One poll of the waiting loop: it failed; it found nothing, with the context ended or not and the
  deadline passed or not; or it delivered an event.\<close>

datatype poll_outcome = PollFailed bus_error | Idle bool bool | Delivered Event

text \<open>One pass: the call ends, or the loop goes on with a body.\<close>

definition await_event :: "ModuleCaller \<Rightarrow> 32 word \<Rightarrow> 64 word \<Rightarrow> string \<Rightarrow> Event \<Rightarrow> (call_error + string) + string" where
  "await_event m kind corr body ev =
     (let f = evFrame ev
      in if CorrelationID f = corr \<and> EventKind f = KindCapabilityAbsent then Inl (Inl CallCapabilityAbsent)
         else if CorrelationID f = corr \<and> EventKind f = KindError then Inl (Inl CallRejected)
         else if EventKind f \<noteq> kind \<or> CorrelationID f \<noteq> corr then Inr body
         else (case DecodeModuleMessage (evPayload ev) of
                 None \<Rightarrow> Inr body
               | Some message \<Rightarrow>
                   if Operation message \<noteq> ModuleOpResult then Inr body
                   else if Status message \<noteq> ModuleStatusOK then Inl (Inl (CallStatus (Status message)))
                   else let end = ModuleMessageHeaderLen + unat (BodyLen message)
                        in if end > length (evPayload ev) then Inl (Inl (CallBus ErrModuleRuntime))
                           else if of_nat (length body) + BodyLen message > responseLimit m
                             then Inl (Inl (CallBus ErrModuleRuntime))
                           else let body = body @ slice ModuleMessageHeaderLen (unat (BodyLen message)) (evPayload ev)
                                in if has_flag f FMore then Inr body else Inl (Inr body)))"

definition await_pass :: "ModuleCaller \<Rightarrow> 32 word \<Rightarrow> 64 word \<Rightarrow> string \<Rightarrow> poll_outcome \<Rightarrow> (call_error + string) + string" where
  "await_pass m kind corr body p =
     (case p of
        PollFailed e \<Rightarrow> Inl (Inl (CallBus e))
      | Idle ended expired \<Rightarrow>
          if ended then Inl (Inl CallCancelled) else if expired then Inl (Inl CallDeadline) else Inr body
      | Delivered ev \<Rightarrow> await_event m kind corr body ev)"

text \<open>\<open>None\<close>: still waiting after these polls.\<close>

fun awaitReply :: "ModuleCaller \<Rightarrow> 32 word \<Rightarrow> 64 word \<Rightarrow> string \<Rightarrow> poll_outcome list \<Rightarrow> (call_error + string) option" where
  "awaitReply m kind corr body [] = None"
| "awaitReply m kind corr body (p # ps) =
     (case await_pass m kind corr body p of
        Inl result \<Rightarrow> Some result
      | Inr body \<Rightarrow> awaitReply m kind corr body ps)"

text \<open>\<open>now\<close> is the monotonic clock when the call starts and \<open>ps\<close> what its polls will find. A negative
  deadline is none.\<close>

definition Call ::
  "'w caller_bus \<Rightarrow> ModuleCaller \<Rightarrow> 32 word \<Rightarrow> 32 word \<Rightarrow> 64 word \<Rightarrow> int \<Rightarrow> string \<Rightarrow> 64 word \<Rightarrow> poll_outcome list \<Rightarrow> 'w
    \<Rightarrow> (call_error + string) option \<times> ModuleCaller \<times> 'w" where
  "Call b m kind stageID traceID deadline request now ps w =
     (if (of_nat (length request) :: 32 word) > ModuleMessageMaxBody then (Some (Inl (CallBus ErrModuleConfig)), m, w)
      else let m = m\<lparr> correlation := correlation m + 1 \<rparr>;
               corr = correlation m;
               deadlineNS = (if deadline > 0 then now + word_of_int deadline else 0)
           in (case send b kind stageID traceID corr deadlineNS request w of
                 (Some e, w) \<Rightarrow> (Some (Inl (CallBus e)), m, w)
               | (None, w) \<Rightarrow>
                   (case awaitReply m kind corr [] ps of
                      Some (Inl e) \<Rightarrow> (Some (Inl e), m, snd (bus_Cancel b kind corr w))
                    | r \<Rightarrow> (r, m, w))))"

end
