(* ===== verification/ModuleRuntime.thy ===== *)
theory ModuleRuntime
  imports ModuleCaller
begin

text \<open>
  Model of \<open>module_runtime.go\<close>: serving module stages from the bus. The loop keeps two maps, the
  requests that are being assembled and the jobs that run; a worker reads the cancel flag of its job,
  so the flag lives in the job. The bus, the clock and the context are a record of operations on a
  world of any type; the handler is a parameter. Results wait in the channel \<open>finished\<close>.
\<close>

definition moduleMaxInFlight :: nat where "moduleMaxInFlight = 16"

record ModuleStage =
  stageEventKind :: "32 word"
  stageStageID :: "32 word"

record ModuleInvocation =
  invStageID :: "32 word"
  invDeadlineNS :: "64 word"
  invTraceID :: "64 word"

type_synonym ModuleHandler = "ModuleInvocation \<Rightarrow> string \<Rightarrow> string \<times> 16 word"

record ModuleProcessConfig =
  SocketPath :: string
  ModuleName :: string
  PrincipalClass :: "32 word"
  cfgPrincipalRef :: "32 word"
  Stages :: "ModuleStage list"
  Handler :: "ModuleHandler option"

record moduleAssembly =
  asmEventKind :: "32 word"
  asmMessage :: ModuleMessage
  asmBody :: string

record moduleWork =
  workEventKind :: "32 word"
  workCorrelation :: "64 word"
  workInvocation :: ModuleInvocation
  workBody :: string
  cancelled :: bool

record moduleResult =
  resWork :: moduleWork
  resBody :: string
  resStatus :: "16 word"

record run_state =
  assemblies :: "64 word \<rightharpoonup> moduleAssembly"
  jobs :: "64 word \<rightharpoonup> moduleWork"
  finished :: "moduleResult list"

section \<open>Configuration\<close>

fun collect_stages :: "ModuleStage list \<Rightarrow> (32 word \<rightharpoonup> 32 word) \<Rightarrow> (32 word \<rightharpoonup> 32 word) option" where
  "collect_stages [] stages = Some stages"
| "collect_stages (s # ss) stages =
     (if stageEventKind s = 0 \<or> stageStageID s = 0 then None
      else if stages (stageEventKind s) \<noteq> None then None
      else collect_stages ss (stages(stageEventKind s \<mapsto> stageStageID s)))"

definition validateModuleConfig :: "ModuleProcessConfig \<Rightarrow> (32 word \<rightharpoonup> 32 word) option" where
  "validateModuleConfig config =
     (if SocketPath config = [] \<or> ModuleName config = [] \<or> PrincipalClass config = 0
         \<or> cfgPrincipalRef config = 0 \<or> Stages config = [] then None
      else collect_stages (Stages config) Map.empty)"

text \<open>A lookup of an absent kind gives 0.\<close>

definition stage_of :: "(32 word \<rightharpoonup> 32 word) \<Rightarrow> 32 word \<Rightarrow> 32 word" where
  "stage_of stages kind = (case stages kind of None \<Rightarrow> 0 | Some s \<Rightarrow> s)"

section \<open>Replies\<close>

record 'w module_bus =
  mb_Poll :: "'w \<Rightarrow> polled \<times> 'w"
  mb_Reply :: "32 word \<Rightarrow> 64 word \<Rightarrow> string \<Rightarrow> bool \<Rightarrow> 'w \<Rightarrow> bus_error option \<times> 'w"
  mb_Heartbeat :: "64 word \<Rightarrow> 'w \<Rightarrow> 'w"
  mb_EpochChanged :: "'w \<Rightarrow> bool"
  mb_budget :: "32 word"
  mb_now :: "'w \<Rightarrow> 64 word"
  mb_wait :: "'w \<Rightarrow> bool \<times> 'w"
  mb_sleep :: "'w \<Rightarrow> 'w"
  mb_ctxDone :: "'w \<Rightarrow> bool"

definition heartbeat :: "'w module_bus \<Rightarrow> 'w \<Rightarrow> 'w" where
  "heartbeat b w = (if mb_now b w \<noteq> 0 then mb_Heartbeat b (mb_now b w) w else w)"

definition validModuleStatus :: "16 word \<Rightarrow> bool" where
  "validModuleStatus status \<longleftrightarrow> status \<le> ModuleStatusInternal"

text \<open>One fragment, retried while the ring is full: waiting says whether the context ended. \<open>None\<close> is a
  ring that never drains under a context that never ends.\<close>

partial_function (option) reply_part ::
  "'w module_bus \<Rightarrow> 32 word \<Rightarrow> 64 word \<Rightarrow> string \<Rightarrow> bool \<Rightarrow> 'w \<Rightarrow> (bus_error option \<times> 'w) option" where
  "reply_part b kind corr payload more' w =
     (case mb_Reply b kind corr payload more' w of
        (None, w) \<Rightarrow> Some (None, w)
      | (Some e, w) \<Rightarrow>
          if e \<noteq> ErrWouldBlock then Some (Some e, w)
          else (case mb_wait b w of
                  (ended, w) \<Rightarrow>
                    if ended then Some (Some ErrContext, w)
                    else if mb_EpochChanged b w then Some (Some ErrEpoch, w)
                    else reply_part b kind corr payload more' (heartbeat b w)))"

definition result_message :: "32 word \<Rightarrow> 64 word \<Rightarrow> 16 word \<Rightarrow> string \<Rightarrow> ModuleMessage" where
  "result_message stageID traceID status part =
     \<lparr> Operation = ModuleOpResult, Status = status, StageID = stageID, Flags = 0,
       BodyLen = of_nat (length part), DeadlineNS = 0, TraceID = traceID \<rparr>"

fun reply_parts ::
  "'w module_bus \<Rightarrow> 32 word \<Rightarrow> 64 word \<Rightarrow> (string \<Rightarrow> ModuleMessage) \<Rightarrow> string list \<Rightarrow> 'w
    \<Rightarrow> (bus_error option \<times> 'w) option" where
  "reply_parts b kind corr message [] w = Some (None, w)"
| "reply_parts b kind corr message (part # parts) w =
     (case message_Encode (message part) (replicate (ModuleMessageHeaderLen + length part) (CHR 0x00)) of
        None \<Rightarrow> Some (Some ErrModuleMessage, w)
      | Some payload \<Rightarrow>
          (case reply_part b kind corr (store ModuleMessageHeaderLen part payload) (parts \<noteq> []) w of
             None \<Rightarrow> None
           | Some (Some e, w) \<Rightarrow> Some (Some e, w)
           | Some (None, w) \<Rightarrow> reply_parts b kind corr message parts w))"

text \<open>The status and the body that go out for the status and the body of a handler.\<close>

definition reply_content :: "16 word \<Rightarrow> string \<Rightarrow> 16 word \<times> string" where
  "reply_content status body =
     (if \<not> validModuleStatus status \<or> length body > unat ModuleMessageMaxBody then (ModuleStatusInternal, [])
      else if status \<noteq> ModuleStatusOK then (status, []) else (status, body))"

definition replyModuleResult ::
  "'w module_bus \<Rightarrow> 32 word \<Rightarrow> 64 word \<Rightarrow> 32 word \<Rightarrow> 64 word \<Rightarrow> 16 word \<Rightarrow> string \<Rightarrow> 'w
    \<Rightarrow> (bus_error option \<times> 'w) option" where
  "replyModuleResult b kind corr stageID traceID status body w =
     (let (status, body) = reply_content status body; budget = mb_budget b
      in if budget \<le> of_nat ModuleMessageHeaderLen then Some (Some ErrModuleRuntime, w)
         else reply_parts b kind corr (result_message stageID traceID status)
                (chunks (unat budget - ModuleMessageHeaderLen) body) w)"

section \<open>Workers\<close>

text \<open>\<open>now\<close> is the clock after the handler returned, \<open>stopped\<close> the cancel flag then.\<close>

definition runHandler :: "ModuleHandler \<Rightarrow> ModuleInvocation \<Rightarrow> string \<Rightarrow> bool \<Rightarrow> 64 word \<Rightarrow> string \<times> 16 word" where
  "runHandler handler call body stopped now =
     (let (response, status) = handler call body;
          (status, response) = reply_content status response
      in if stopped then ([], ModuleStatusCancelled)
         else if invDeadlineNS call \<noteq> 0 \<and> now \<noteq> 0 \<and> now \<ge> invDeadlineNS call then ([], ModuleStatusDeadlineExceeded)
         else (response, status))"

section \<open>One event\<close>

text \<open>What the loop does about an event besides updating its maps: nothing, a reply without a body, or a
  worker.\<close>

datatype reaction = Ignored | Refused "32 word" "64 word" "16 word" | Launched moduleWork

definition same_request :: "moduleAssembly \<Rightarrow> 32 word \<Rightarrow> ModuleMessage \<Rightarrow> bool" where
  "same_request a kind message \<longleftrightarrow>
     asmEventKind a = kind \<and> StageID (asmMessage a) = StageID message
     \<and> DeadlineNS (asmMessage a) = DeadlineNS message \<and> TraceID (asmMessage a) = TraceID message"

text \<open>The last fragment arrived: the deadline, the handler and the number of jobs decide.\<close>

definition start_job :: "bool \<Rightarrow> 64 word \<Rightarrow> 32 word \<Rightarrow> 64 word \<Rightarrow> 32 word \<Rightarrow> ModuleMessage \<Rightarrow> string \<Rightarrow> run_state
    \<Rightarrow> run_state \<times> reaction" where
  "start_job has_handler now kind corr stage message body s =
     (if DeadlineExpired message now then (s, Refused stage (TraceID message) ModuleStatusDeadlineExceeded)
      else if \<not> has_handler then (s, Refused stage (TraceID message) ModuleStatusCapabilityAbsent)
      else if card (dom (jobs s)) \<ge> moduleMaxInFlight then (s, Refused stage (TraceID message) ModuleStatusInternal)
      else let work = \<lparr> workEventKind = kind, workCorrelation = corr,
                        workInvocation = \<lparr> invStageID = stage, invDeadlineNS = DeadlineNS message, invTraceID = TraceID message \<rparr>,
                        workBody = body, cancelled = False \<rparr>
           in (s\<lparr> jobs := (jobs s)(corr \<mapsto> work) \<rparr>, Launched work))"

definition drop_assembly :: "64 word \<Rightarrow> run_state \<Rightarrow> run_state" where
  "drop_assembly corr s = s\<lparr> assemblies := (assemblies s)(corr := None) \<rparr>"

text \<open>A valid fragment joins its assembly, which is opened if there is none.\<close>

definition add_fragment :: "bool \<Rightarrow> 64 word \<Rightarrow> Event \<Rightarrow> 32 word \<Rightarrow> ModuleMessage \<Rightarrow> run_state \<Rightarrow> run_state \<times> reaction" where
  "add_fragment has_handler now ev stage message s =
     (let corr = CorrelationID (evFrame ev); kind = EventKind (evFrame ev)
      in if assemblies s corr = None \<and> card (dom (assemblies s)) \<ge> moduleMaxInFlight
         then (s, Refused stage (TraceID message) ModuleStatusInternal)
         else let a = (case assemblies s corr of
                         None \<Rightarrow> \<lparr> asmEventKind = kind, asmMessage = message, asmBody = [] \<rparr> | Some a \<Rightarrow> a);
                  body = slice ModuleMessageHeaderLen (unat (BodyLen message)) (evPayload ev)
              in if length (asmBody a) + length body > unat ModuleMessageMaxBody
                 then (drop_assembly corr s, Refused stage (TraceID message) ModuleStatusInternal)
                 else let a = a\<lparr> asmBody := asmBody a @ body \<rparr>
                      in if has_flag (evFrame ev) FMore
                         then (s\<lparr> assemblies := (assemblies s)(corr \<mapsto> a) \<rparr>, Ignored)
                         else start_job has_handler now kind corr stage message (asmBody a) (drop_assembly corr s))"

definition serve :: "bool \<Rightarrow> (32 word \<rightharpoonup> 32 word) \<Rightarrow> 64 word \<Rightarrow> Event \<Rightarrow> run_state \<Rightarrow> run_state \<times> reaction" where
  "serve has_handler stages now ev s =
     (let f = evFrame ev; corr = CorrelationID f
      in if has_flag f FCancel then
           (drop_assembly corr (case jobs s corr of
               None \<Rightarrow> s | Some work \<Rightarrow> s\<lparr> jobs := (jobs s)(corr \<mapsto> work\<lparr> cancelled := True \<rparr>) \<rparr>), Ignored)
         else if \<not> has_flag f FRequest then (s, Ignored)
         else let expected = stage_of stages (EventKind f);
                  refuse = (drop_assembly corr s, Refused (if expected = 0 then 1 else expected) 0 ModuleStatusInvalidRequest)
              in (case DecodeModuleMessage (evPayload ev) of
                    None \<Rightarrow> refuse
                  | Some message \<Rightarrow>
                      if expected = 0 \<or> Operation message \<noteq> ModuleOpInvoke \<or> StageID message \<noteq> expected \<or> jobs s corr \<noteq> None
                      then refuse
                      else if (case assemblies s corr of None \<Rightarrow> False | Some a \<Rightarrow> \<not> same_request a (EventKind f) message)
                      then refuse
                      else add_fragment has_handler now ev expected message s))"

section \<open>The loop\<close>

definition finishModuleWork :: "'w module_bus \<Rightarrow> run_state \<Rightarrow> moduleResult \<Rightarrow> 'w \<Rightarrow> (bus_error option \<times> run_state \<times> 'w) option" where
  "finishModuleWork b s result w =
     (let work = resWork result;
          s = s\<lparr> jobs := (jobs s)(workCorrelation work := None) \<rparr>
      in (case replyModuleResult b (workEventKind work) (workCorrelation work) (invStageID (workInvocation work))
              (invTraceID (workInvocation work)) (resStatus result) (resBody result) w of
            None \<Rightarrow> None
          | Some (e, w) \<Rightarrow> Some (e, s, w)))"

text \<open>The inner loop: every result that is in the channel.\<close>

fun drain :: "'w module_bus \<Rightarrow> moduleResult list \<Rightarrow> run_state \<Rightarrow> 'w \<Rightarrow> (bus_error option \<times> run_state \<times> 'w) option" where
  "drain b [] s w = Some (None, s\<lparr> finished := [] \<rparr>, w)"
| "drain b (r # rs) s w =
     (case finishModuleWork b (s\<lparr> finished := rs \<rparr>) r w of
        None \<Rightarrow> None
      | Some (Some e, s, w) \<Rightarrow> Some (Some e, s, w)
      | Some (None, s, w) \<Rightarrow> drain b rs s w)"

datatype pass = Again | Return "bus_error option"

text \<open>The rest of a pass, after the channel was drained: at the end of the context every worker is told to
  stop and awaited; otherwise one poll and its event.\<close>

definition poll_once :: "'w module_bus \<Rightarrow> bool \<Rightarrow> (32 word \<rightharpoonup> 32 word) \<Rightarrow> run_state \<Rightarrow> 'w \<Rightarrow> (pass \<times> run_state \<times> 'w) option" where
  "poll_once b has_handler stages s w =
     (let now = mb_now b w; w = heartbeat b w
      in (case mb_Poll b w of
            (PollError e, w) \<Rightarrow> Some (Return (if e = ErrEpoch then None else Some e), s, w)
          | (NoEvent, w) \<Rightarrow> Some (Again, s, mb_sleep b w)
          | (GotEvent ev, w) \<Rightarrow>
              (case serve has_handler stages now ev s of
                 (s, Refused stage trace status) \<Rightarrow>
                   (case replyModuleResult b (EventKind (evFrame ev)) (CorrelationID (evFrame ev)) stage trace status [] w of
                      None \<Rightarrow> None
                    | Some (Some e, w) \<Rightarrow> Some (Return (Some e), s, w)
                    | Some (None, w) \<Rightarrow> Some (Again, s, w))
               | (s, _) \<Rightarrow> Some (Again, s, w))))"

definition loop_pass :: "'w module_bus \<Rightarrow> bool \<Rightarrow> (32 word \<rightharpoonup> 32 word) \<Rightarrow> run_state \<Rightarrow> 'w \<Rightarrow> (pass \<times> run_state \<times> 'w) option" where
  "loop_pass b has_handler stages s w =
     (case drain b (finished s) s w of
        None \<Rightarrow> None
      | Some (Some e, s, w) \<Rightarrow> Some (Return (Some e), s, w)
      | Some (None, s, w) \<Rightarrow>
          if mb_ctxDone b w then Some (Return None, s\<lparr> jobs := Map.empty \<rparr>, w)
          else if mb_EpochChanged b w then Some (Return None, s, w)
          else poll_once b has_handler stages s w)"

definition initial_run :: run_state where
  "initial_run = \<lparr> assemblies = Map.empty, jobs = Map.empty, finished = [] \<rparr>"

text \<open>The loop beside its workers: a worker ends at any moment between two passes and puts its result in
  the channel.\<close>

inductive run_step :: "'w module_bus \<Rightarrow> ModuleHandler \<Rightarrow> (32 word \<rightharpoonup> 32 word) \<Rightarrow> run_state \<times> 'w \<Rightarrow> run_state \<times> 'w \<Rightarrow> bool"
  for b handler stages where
  iteration: "loop_pass b True stages s w = Some (Again, s', w') \<Longrightarrow> run_step b handler stages (s, w) (s', w')"
| worker: "jobs s corr = Some work \<Longrightarrow> corr \<notin> (\<lambda>r. workCorrelation (resWork r)) ` set (finished s)
    \<Longrightarrow> runHandler handler (workInvocation work) (workBody work) (cancelled work) (mb_now b w) = (body, status)
    \<Longrightarrow> run_step b handler stages (s, w)
          (s\<lparr> finished := finished s @ [\<lparr> resWork = work, resBody = body, resStatus = status \<rparr>] \<rparr>, w)"

end
