(* ===== verification/RuntimeLaws.thy ===== *)
theory RuntimeLaws
  imports ModuleRuntime
begin

text \<open>
  Laws of the module runtime: the bounds that hold in every state the loop reaches, fragments that are
  put together to the body they were cut from on both ends of a call, and what happens to the rest of a
  request whose first fragment was refused.
\<close>

section \<open>The invariant of the loop\<close>

definition result_key :: "moduleResult \<Rightarrow> 64 word" where
  "result_key r = workCorrelation (resWork r)"

definition job_ok :: "(32 word \<rightharpoonup> 32 word) \<Rightarrow> 64 word \<Rightarrow> moduleWork \<Rightarrow> bool" where
  "job_ok stages corr work \<longleftrightarrow> workCorrelation work = corr \<and> length (workBody work) \<le> unat ModuleMessageMaxBody
     \<and> invStageID (workInvocation work) \<noteq> 0 \<and> stage_of stages (workEventKind work) = invStageID (workInvocation work)"

definition assembly_ok :: "(32 word \<rightharpoonup> 32 word) \<Rightarrow> moduleAssembly \<Rightarrow> bool" where
  "assembly_ok stages a \<longleftrightarrow> length (asmBody a) \<le> unat ModuleMessageMaxBody
     \<and> StageID (asmMessage a) \<noteq> 0 \<and> stage_of stages (asmEventKind a) = StageID (asmMessage a)"

definition run_inv :: "(32 word \<rightharpoonup> 32 word) \<Rightarrow> run_state \<Rightarrow> bool" where
  "run_inv stages s \<longleftrightarrow>
     finite (dom (assemblies s)) \<and> card (dom (assemblies s)) \<le> moduleMaxInFlight
     \<and> finite (dom (jobs s)) \<and> card (dom (jobs s)) \<le> moduleMaxInFlight
     \<and> dom (assemblies s) \<inter> dom (jobs s) = {}
     \<and> (\<forall>corr a. assemblies s corr = Some a \<longrightarrow> assembly_ok stages a)
     \<and> (\<forall>corr work. jobs s corr = Some work \<longrightarrow> job_ok stages corr work)
     \<and> distinct (map result_key (finished s)) \<and> result_key ` set (finished s) \<subseteq> dom (jobs s)"

lemma card_insert_room: "finite A \<Longrightarrow> card A < n \<Longrightarrow> card (insert x A) \<le> n"
  by (simp add: card_insert_if)

lemma card_Diff_le: "finite A \<Longrightarrow> card A \<le> n \<Longrightarrow> card (A - {x}) \<le> n"
  by (meson card_Diff1_le le_trans)

lemma drop_assembly_inv: "run_inv stages s \<Longrightarrow> run_inv stages (drop_assembly corr s)"
  by (auto simp: run_inv_def drop_assembly_def card_Diff_le split: if_splits)

lemma start_job_inv:
  assumes "run_inv stages s" "corr \<notin> dom (assemblies s)" "length body \<le> unat ModuleMessageMaxBody"
    "stage \<noteq> 0" "stage_of stages kind = stage"
  shows "run_inv stages (fst (start_job has now kind corr stage message body s))"
  using assms by (auto simp: run_inv_def start_job_def job_ok_def Let_def moduleMaxInFlight_def card_insert_if split: if_splits)

lemma add_fragment_inv:
  assumes inv: "run_inv stages s" and corr: "CorrelationID (evFrame ev) \<notin> dom (jobs s)"
    and stage: "stage \<noteq> 0" "stage_of stages (EventKind (evFrame ev)) = stage" "StageID message = stage"
  shows "run_inv stages (fst (add_fragment has now ev stage message s))"
proof -
  let ?corr = "CorrelationID (evFrame ev)" and ?kind = "EventKind (evFrame ev)"
  define a where "a = (case assemblies s ?corr of None \<Rightarrow> \<lparr> asmEventKind = ?kind, asmMessage = message, asmBody = [] \<rparr> | Some a \<Rightarrow> a)"
  define body where "body = slice ModuleMessageHeaderLen (unat (BodyLen message)) (evPayload ev)"
  have a: "assembly_ok stages a"
    using inv stage by (auto simp: a_def run_inv_def assembly_ok_def split: option.splits)
  have dropped: "run_inv stages (drop_assembly ?corr s)" "?corr \<notin> dom (assemblies (drop_assembly ?corr s))"
    using drop_assembly_inv [OF inv] by (simp_all add: drop_assembly_def)
  have run: "add_fragment has now ev stage message s =
      (if assemblies s ?corr = None \<and> card (dom (assemblies s)) \<ge> moduleMaxInFlight
       then (s, Refused stage (TraceID message) ModuleStatusInternal)
       else if length (asmBody a) + length body > unat ModuleMessageMaxBody
       then (drop_assembly ?corr s, Refused stage (TraceID message) ModuleStatusInternal)
       else if has_flag (evFrame ev) FMore
       then (s\<lparr> assemblies := (assemblies s)(?corr \<mapsto> a\<lparr> asmBody := asmBody a @ body \<rparr>) \<rparr>, Ignored)
       else start_job has now ?kind ?corr stage message (asmBody a @ body) (drop_assembly ?corr s))"
    by (simp add: add_fragment_def Let_def a_def body_def)
  have join: "run_inv stages (s\<lparr> assemblies := (assemblies s)(?corr \<mapsto> a\<lparr> asmBody := asmBody a @ body \<rparr>) \<rparr>)"
    if "\<not> (assemblies s ?corr = None \<and> card (dom (assemblies s)) \<ge> moduleMaxInFlight)"
      "\<not> length (asmBody a) + length body > unat ModuleMessageMaxBody"
    using inv corr a that by (auto simp: run_inv_def assembly_ok_def card_insert_if)
  show ?thesis
    unfolding run using inv dropped join start_job_inv [OF dropped, of "asmBody a @ body" stage ?kind] stage by auto
qed

lemma serve_inv:
  assumes "run_inv stages s"
  shows "run_inv stages (fst (serve has stages now ev s))"
proof -
  let ?corr = "CorrelationID (evFrame ev)" and ?expected = "stage_of stages (EventKind (evFrame ev))"
  have cancel: "run_inv stages (drop_assembly ?corr (s\<lparr> jobs := (jobs s)(?corr \<mapsto> work\<lparr> cancelled := True \<rparr>) \<rparr>))"
    if "jobs s ?corr = Some work" for work
    using that assms by (intro drop_assembly_inv) (auto simp: run_inv_def job_ok_def insert_absorb domI)
  show ?thesis
    using assms drop_assembly_inv [OF assms, of ?corr] cancel
      add_fragment_inv [OF assms, of ev ?expected]
    by (auto simp: serve_def Let_def split: option.splits)
qed

lemma finish_inv:
  assumes "run_inv stages s" "finished s = r # rs"
  shows "run_inv stages (s\<lparr> finished := rs, jobs := (jobs s)(result_key r := None) \<rparr>)"
proof -
  have "result_key ` set rs \<subseteq> dom (jobs s) - {result_key r}"
    using assms by (auto simp: run_inv_def) (metis image_eqI)
  then show ?thesis using assms by (auto simp: run_inv_def card_Diff_le split: if_splits)
qed

lemma drain_inv: "drain b rs s w = Some (e, s', w') \<Longrightarrow> finished s = rs \<Longrightarrow> run_inv stages s \<Longrightarrow> run_inv stages s'"
proof (induction b rs s w rule: drain.induct)
  case (2 b r rs s w)
  let ?s = "s\<lparr> finished := rs, jobs := (jobs s)(result_key r := None) \<rparr>"
  have "run_inv stages ?s" using finish_inv 2 by blast
  moreover obtain e1 w1 where "finishModuleWork b (s\<lparr> finished := rs \<rparr>) r w = Some (e1, ?s, w1)"
    using 2(2) by (auto simp: finishModuleWork_def result_key_def Let_def split: option.splits)
  ultimately show ?case using 2 by (cases e1) auto
next
  case (1 b s w)
  then have "s' = s\<lparr> finished := [] \<rparr>" by simp
  with 1(3) show ?case by (simp add: run_inv_def)
qed

lemma poll_once_inv:
  assumes pass: "poll_once b has stages s w = Some (Again, s', w')" and inv: "run_inv stages s"
  shows "run_inv stages s'"
proof -
  obtain q w2 where q: "mb_Poll b (heartbeat b w) = (q, w2)" by (cases "mb_Poll b (heartbeat b w)")
  show ?thesis
  proof (cases q)
    case (PollError e)
    then show ?thesis using pass q by (simp add: poll_once_def Let_def)
  next
    case NoEvent
    then show ?thesis using pass q inv by (simp add: poll_once_def Let_def)
  next
    case (GotEvent ev)
    obtain s2 r where served: "serve has stages (mb_now b w) ev s = (s2, r)"
      by (cases "serve has stages (mb_now b w) ev s")
    then have "run_inv stages s2" using serve_inv [OF inv, of has "mb_now b w" ev] by simp
    moreover have "s' = s2"
      using pass q GotEvent served by (cases r) (auto simp: poll_once_def Let_def split: option.splits)
    ultimately show ?thesis by simp
  qed
qed

lemma loop_pass_inv:
  assumes pass: "loop_pass b has stages s w = Some (Again, s', w')" and inv: "run_inv stages s"
  shows "run_inv stages s'"
proof -
  obtain s1 w1 where d: "drain b (finished s) s w = Some (None, s1, w1)"
    and rest: "poll_once b has stages s1 w1 = Some (Again, s', w')"
    using pass by (auto simp: loop_pass_def split: option.splits if_splits)
  have "run_inv stages s1" using drain_inv [OF d refl inv] .
  with rest show ?thesis by (rule poll_once_inv)
qed

lemma run_step_inv: "run_step b handler stages x y \<Longrightarrow> run_inv stages (fst x) \<Longrightarrow> run_inv stages (fst y)"
proof (induction rule: run_step.induct)
  case (iteration s w s' w')
  then show ?case using loop_pass_inv by simp
next
  case (worker s corr work w body status)
  then show ?case by (auto simp: run_inv_def job_ok_def result_key_def [abs_def])
qed

lemma run_inv_initial: "run_inv stages initial_run"
  by (simp add: run_inv_def initial_run_def)

lemma run_inv_reachable: "(run_step b handler stages)\<^sup>*\<^sup>* x y \<Longrightarrow> run_inv stages (fst x) \<Longrightarrow> run_inv stages (fst y)"
  by (induction rule: rtranclp_induct) (auto intro: run_step_inv)

text \<open>C11: the runtime is bounded and every job has one result. In every state that the loop and its
  workers reach, over any bus and for any handler, at most 16 requests are assembled and at most 16 jobs
  run, none of them under the same correlation, every body is within the 16 MiB of the protocol and goes
  to the stage that the configuration names for its event kind; and the results that wait are at most
  16, of different jobs that are still registered, so no worker blocks on the channel.\<close>

theorem runtime_bounded:
  assumes "(run_step b handler stages)\<^sup>*\<^sup>* (initial_run, w0) (s, w)"
  shows "card (dom (assemblies s)) \<le> 16 \<and> card (dom (jobs s)) \<le> 16 \<and> length (finished s) \<le> 16
    \<and> dom (assemblies s) \<inter> dom (jobs s) = {}
    \<and> distinct (map result_key (finished s)) \<and> result_key ` set (finished s) \<subseteq> dom (jobs s)
    \<and> (case assemblies s corr of None \<Rightarrow> True | Some a \<Rightarrow> assembly_ok stages a)
    \<and> (case jobs s corr of None \<Rightarrow> True | Some work \<Rightarrow> job_ok stages corr work)"
proof -
  have inv: "run_inv stages s" using run_inv_reachable [OF assms] run_inv_initial by simp
  have "length (finished s) = card (result_key ` set (finished s))"
    using inv distinct_card [of "map result_key (finished s)"] by (simp add: run_inv_def)
  also have "\<dots> \<le> card (dom (jobs s))" using inv by (intro card_mono) (simp_all add: run_inv_def)
  finally show ?thesis using inv by (auto simp: run_inv_def moduleMaxInFlight_def split: option.splits)
qed


section \<open>Fragments on the wire\<close>

text \<open>The event that the peer of a client polls for a fragment.\<close>

definition sent_event :: "Client \<Rightarrow> 16 word \<Rightarrow> 32 word \<Rightarrow> 64 word \<Rightarrow> string \<Rightarrow> bool \<Rightarrow> Event" where
  "sent_event c pattern kind corr payload more' =
     \<lparr> evFrame = emit_frame c (fragment_flags pattern more') kind corr payload, evPayload = payload \<rparr>"

lemma sent_event_simps [simp]:
  "EventKind (evFrame (sent_event c pattern kind corr payload more')) = kind"
  "CorrelationID (evFrame (sent_event c pattern kind corr payload more')) = corr"
  "evPayload (sent_event c pattern kind corr payload more') = payload"
  by (simp_all add: sent_event_def emit_frame_def Let_def)

lemma sent_event_flags [simp]:
  "has_flag (evFrame (sent_event c FRequest kind corr payload more')) FCancel = False"
  "has_flag (evFrame (sent_event c FRequest kind corr payload more')) FRequest = True"
  "has_flag (evFrame (sent_event c FRequest kind corr payload more')) FMore = more'"
  "has_flag (evFrame (sent_event c FReply kind corr payload more')) FMore = more'"
  by (cases more'; cases "payload = []";
      simp add: sent_event_def emit_frame_def fragment_flags_def has_flag_def flag_defs Let_def)+

text \<open>The events of the parts of a body, each behind its message header.\<close>

fun part_events :: "(string \<Rightarrow> bool \<Rightarrow> Event) \<Rightarrow> (string \<Rightarrow> ModuleMessage) \<Rightarrow> string list \<Rightarrow> Event list" where
  "part_events event message [] = []"
| "part_events event message (part # parts) =
     event (message_bytes (message part) @ part) (parts \<noteq> []) # part_events event message parts"

text \<open>A bus that records what is sent on it.\<close>

definition recorder :: "Client \<Rightarrow> Event list caller_bus" where
  "recorder c = \<lparr> bus_Request = (\<lambda>kind corr payload more' w. (None, w @ [sent_event c FRequest kind corr payload more'])),
     bus_Cancel = (\<lambda>kind corr w. (None, w)), bus_budget = inlineBudget c \<rparr>"

lemma send_parts_recorder:
  assumes "\<And>part. part \<in> set parts \<Longrightarrow> message_valid (message part) \<and> 40 + length part \<le> length frame"
  shows "send_parts (recorder c) kind corr message frame parts w =
    (None, w @ part_events (sent_event c FRequest kind corr) message parts)"
  using assms
proof (induction parts arbitrary: frame w)
  case (Cons part parts)
  let ?f = "store 40 part (message_bytes (message part) @ drop 40 frame)"
  have len: "40 \<le> length frame" "40 + length part \<le> length frame" and v: "message_valid (message part)"
    using Cons.prems [of part] by auto
  have "take (40 + length part) ?f = message_bytes (message part) @ part" using len by (simp add: store_def)
  moreover have "length ?f = length frame" using len by simp
  moreover have "message_Encode (message part) frame = Some (message_bytes (message part) @ drop 40 frame)"
    using len(1) v by (simp add: message_Encode_eq)
  ultimately show ?case
    using Cons.IH [of ?f] Cons.prems by (simp add: recorder_def Let_def)
qed simp

lemma invoke_valid:
  assumes "stageID \<noteq> 0" "length part \<le> unat ModuleMessageMaxBody"
  shows "message_valid (invoke_message stageID traceID deadline part)"
    "unat (BodyLen (invoke_message stageID traceID deadline part)) = length part"
proof -
  have "length part < 2 ^ 32" using assms(2) by (simp add: ModuleMessageMaxBody_def)
  then show "unat (BodyLen (invoke_message stageID traceID deadline part)) = length part"
    by (simp add: invoke_message_def unat_of_nat)
  then show "message_valid (invoke_message stageID traceID deadline part)"
    using assms by (simp add: message_valid_def invoke_message_def module_consts word_le_nat_alt)
qed

lemma result_valid:
  assumes "stageID \<noteq> 0" "length part \<le> unat ModuleMessageMaxBody" "validModuleStatus status"
  shows "message_valid (result_message stageID traceID status part)"
    "unat (BodyLen (result_message stageID traceID status part)) = length part"
proof -
  have "length part < 2 ^ 32" using assms(2) by (simp add: ModuleMessageMaxBody_def)
  then show "unat (BodyLen (result_message stageID traceID status part)) = length part"
    by (simp add: result_message_def unat_of_nat)
  then show "message_valid (result_message stageID traceID status part)"
    using assms leD [OF assms(3) [unfolded validModuleStatus_def]]
    by (simp add: message_valid_def result_message_def ModuleOpInvoke_def ModuleOpResult_def word_le_nat_alt)
qed

lemma length_chunk_total: "p \<in> set (chunks n body) \<Longrightarrow> length p \<le> length body"
proof -
  have "length p \<le> length (concat ps)" if "p \<in> set ps" for ps
    using that by (induction ps) auto
  then show "p \<in> set (chunks n body) \<Longrightarrow> length p \<le> length body" by (metis concat_chunks)
qed

lemma send_recorder:
  assumes "stageID \<noteq> 0" "length request \<le> unat ModuleMessageMaxBody" "40 < unat (inlineBudget c)"
  shows "send (recorder c) kind stageID traceID corr deadline request w =
    (None, w @ part_events (sent_event c FRequest kind corr) (invoke_message stageID traceID deadline)
       (chunks (unat (inlineBudget c) - 40) request))"
proof -
  have "\<not> inlineBudget c \<le> 40" using assms(3) by (simp add: word_le_nat_alt)
  moreover have "message_valid (invoke_message stageID traceID deadline part) \<and> 40 + length part \<le> unat (inlineBudget c)"
    if "part \<in> set (chunks (unat (inlineBudget c) - 40) request)" for part
    using length_chunks [OF _ that] length_chunk_total [OF that] assms invoke_valid(1) [OF assms(1)] by auto
  ultimately show ?thesis
    using send_parts_recorder [of "chunks (unat (inlineBudget c) - 40) request" "invoke_message stageID traceID deadline"
        "replicate (unat (inlineBudget c)) (CHR 0x00)" c kind corr w]
    by (simp add: send_def Let_def recorder_def)
qed

section \<open>Putting a request together\<close>

text \<open>The events of a run of polls, with what the loop did about each.\<close>

fun serve_all :: "bool \<Rightarrow> (32 word \<rightharpoonup> 32 word) \<Rightarrow> (64 word \<times> Event) list \<Rightarrow> run_state \<Rightarrow> run_state \<times> (64 word \<times> reaction) list" where
  "serve_all has stages [] s = (s, [])"
| "serve_all has stages ((now, ev) # evs) s =
     (let (s, r) = serve has stages now ev s; (s, rs) = serve_all has stages evs s
      in (s, (CorrelationID (evFrame ev), r) # rs))"

text \<open>An event of another correlation leaves an assembly and a job alone.\<close>

lemma serve_other:
  assumes "CorrelationID (evFrame ev) \<noteq> corr"
  shows "assemblies (fst (serve has stages now ev s)) corr = assemblies s corr"
    "jobs (fst (serve has stages now ev s)) corr = jobs s corr"
  using assms by (auto simp: serve_def Let_def drop_assembly_def add_fragment_def start_job_def split: option.splits)


definition open_body :: "64 word \<Rightarrow> run_state \<Rightarrow> string" where
  "open_body corr s = (case assemblies s corr of None \<Rightarrow> [] | Some a \<Rightarrow> asmBody a)"

definition joinable :: "32 word \<Rightarrow> 64 word \<Rightarrow> ModuleMessage \<Rightarrow> run_state \<Rightarrow> bool" where
  "joinable kind corr message s \<longleftrightarrow> (case assemblies s corr of
      None \<Rightarrow> card (dom (assemblies s)) < moduleMaxInFlight | Some a \<Rightarrow> same_request a kind message)"

lemma slice_message: "slice 40 (length part) (message_bytes m @ part) = part"
  by (simp add: slice_def)

lemma serve_fragment:
  assumes stage: "stage_of stages kind = stage" "stage \<noteq> 0" and job: "jobs s corr = None"
    and joins: "joinable kind corr (invoke_message stage trace deadline part) s"
    and room: "length (open_body corr s) + length part \<le> unat ModuleMessageMaxBody"
  shows "case serve has stages now (sent_event c FRequest kind corr
            (message_bytes (invoke_message stage trace deadline part) @ part) more') s of (s', r) \<Rightarrow>
      if more' then r = Ignored \<and> jobs s' corr = None \<and> assemblies s' corr \<noteq> None \<and> open_body corr s' = open_body corr s @ part
        \<and> joinable kind corr (invoke_message stage trace deadline after) s'
      else r = snd (start_job has now kind corr stage (invoke_message stage trace deadline part)
             (open_body corr s @ part) (drop_assembly corr s))"
proof -
  let ?m = "invoke_message stage trace deadline part"
  let ?ev = "sent_event c FRequest kind corr (message_bytes ?m @ part) more'"
  have len: "length part \<le> unat ModuleMessageMaxBody" using room by simp
  note v = invoke_valid [OF stage(2) len, of trace deadline]
  have d: "DecodeModuleMessage (message_bytes ?m @ part) = Some ?m" using v by (simp add: Decode_message_bytes)
  have "serve has stages now ?ev s = add_fragment has now ?ev stage ?m s"
    using stage job joins d
    by (auto simp: serve_def Let_def joinable_def invoke_message_def module_consts split: option.splits)
  moreover have "same_request a kind ?m \<Longrightarrow> same_request (a\<lparr> asmBody := b \<rparr>) kind (invoke_message stage trace deadline after)" for a b
    by (simp add: same_request_def invoke_message_def)
  moreover have "same_request \<lparr> asmEventKind = kind, asmMessage = ?m, asmBody = b \<rparr> kind (invoke_message stage trace deadline after)" for b
    by (simp add: same_request_def invoke_message_def)
  ultimately show ?thesis
    using joins room job v(2)
    by (cases "assemblies s corr")
       (auto simp: add_fragment_def Let_def joinable_def open_body_def slice_message split: if_splits)
qed

definition reactions_of :: "64 word \<Rightarrow> (64 word \<times> reaction) list \<Rightarrow> reaction list" where
  "reactions_of corr rs = map snd (filter (\<lambda>r. fst r = corr) rs)"

abbreviation events_of :: "64 word \<Rightarrow> (64 word \<times> Event) list \<Rightarrow> Event list" where
  "events_of corr evs \<equiv> filter (\<lambda>ev. CorrelationID (evFrame ev) = corr) (map snd evs)"

lemma serve_all_none: "events_of corr evs = [] \<Longrightarrow> reactions_of corr (snd (serve_all has stages evs s)) = []"
  by (induction has stages evs s rule: serve_all.induct)
     (auto simp: reactions_of_def split: prod.splits if_splits)

text \<open>What becomes of a complete request, in the state and at the time its last fragment is polled: a
  refusal for a deadline that has passed, then for a missing handler, then for sixteen jobs that run,
  and otherwise a job with its body.\<close>

definition request_outcome ::
  "bool \<Rightarrow> 32 word \<Rightarrow> 64 word \<Rightarrow> 32 word \<Rightarrow> 64 word \<Rightarrow> 64 word \<Rightarrow> string \<Rightarrow> 64 word \<Rightarrow> run_state \<Rightarrow> reaction" where
  "request_outcome has kind corr stage trace deadline request now s =
     (if deadline \<noteq> 0 \<and> deadline \<le> now then Refused stage trace ModuleStatusDeadlineExceeded
      else if \<not> has then Refused stage trace ModuleStatusCapabilityAbsent
      else if 16 \<le> card (dom (jobs s)) then Refused stage trace ModuleStatusInternal
      else Launched \<lparr> workEventKind = kind, workCorrelation = corr,
        workInvocation = \<lparr> invStageID = stage, invDeadlineNS = deadline, invTraceID = trace \<rparr>,
        workBody = request, cancelled = False \<rparr>)"

lemma start_job_outcome:
  "snd (start_job has now kind corr stage (invoke_message stage trace deadline m) request (drop_assembly corr s))
     = request_outcome has kind corr stage trace deadline request now s"
  by (auto simp: request_outcome_def start_job_def Let_def invoke_message_def DeadlineExpired_def drop_assembly_def
      moduleMaxInFlight_def)

lemma fst_serve_all_Cons: "fst (serve_all has stages ((now, ev) # evs) s) = fst (serve_all has stages evs (fst (serve has stages now ev s)))"
  by (simp split: prod.splits)

text \<open>The last event of a correlation in a run of polls, and the reactions to all of its events.\<close>

definition ends_with :: "bool \<Rightarrow> (32 word \<rightharpoonup> 32 word) \<Rightarrow> 64 word \<Rightarrow> (64 word \<times> Event) list \<Rightarrow> run_state
    \<Rightarrow> (64 word \<Rightarrow> run_state \<Rightarrow> reaction list) \<Rightarrow> bool" where
  "ends_with has stages corr evs s rs \<longleftrightarrow> (\<exists>pre t ev post. evs = pre @ (t, ev) # post \<and> CorrelationID (evFrame ev) = corr
     \<and> events_of corr post = []
     \<and> reactions_of corr (snd (serve_all has stages evs s)) = rs t (fst (serve_all has stages pre s)))"

lemma ends_now:
  assumes "CorrelationID (evFrame ev) = corr" "events_of corr evs = []" "serve has stages now ev s = (s1, r)" "rs now s = [r]"
  shows "ends_with has stages corr ((now, ev) # evs) s rs"
proof -
  have "reactions_of corr (snd (serve_all has stages ((now, ev) # evs) s)) = rs now (fst (serve_all has stages [] s))"
    using assms serve_all_none [OF assms(2), of has stages s1] by (simp add: reactions_of_def split_beta)
  moreover have "(now, ev) # evs = [] @ (now, ev) # evs" by simp
  ultimately show ?thesis unfolding ends_with_def using assms(1,2) by blast
qed

lemma ends_later:
  assumes "serve has stages now ev s = (s1, r)" "ends_with has stages corr evs s1 rs"
  shows "ends_with has stages corr ((now, ev) # evs) s
    (\<lambda>t s. if CorrelationID (evFrame ev) = corr then r # rs t s else rs t s)"
proof -
  obtain pre t ev' post where e: "evs = pre @ (t, ev') # post" "CorrelationID (evFrame ev') = corr" "events_of corr post = []"
    "reactions_of corr (snd (serve_all has stages evs s1)) = rs t (fst (serve_all has stages pre s1))"
    using assms(2) unfolding ends_with_def by blast
  have "fst (serve_all has stages ((now, ev) # pre) s) = fst (serve_all has stages pre s1)"
    by (simp only: fst_serve_all_Cons assms(1) fst_conv)
  moreover have "reactions_of corr (snd (serve_all has stages ((now, ev) # evs) s)) =
      (if CorrelationID (evFrame ev) = corr then r # reactions_of corr (snd (serve_all has stages evs s1))
       else reactions_of corr (snd (serve_all has stages evs s1)))"
    using assms(1) by (simp add: reactions_of_def split: prod.splits)
  moreover have "(now, ev) # evs = ((now, ev) # pre) @ (t, ev') # post" by (simp add: e(1))
  ultimately show ?thesis unfolding ends_with_def using e(2-4) by metis
qed

text \<open>From the first fragment on, whatever else is polled in between.\<close>

lemma reassemble:
  assumes stage: "stage_of stages kind = stage" "stage \<noteq> 0"
  shows "\<lbrakk> events_of corr evs = part_events (sent_event c FRequest kind corr) (invoke_message stage trace deadline) parts;
      parts \<noteq> []; jobs s corr = None; assemblies s corr \<noteq> None;
      joinable kind corr (invoke_message stage trace deadline []) s;
      length (open_body corr s) + length (concat parts) \<le> unat ModuleMessageMaxBody \<rbrakk>
    \<Longrightarrow> ends_with has stages corr evs s (\<lambda>t s'. replicate (length parts - 1) Ignored
          @ [request_outcome has kind corr stage trace deadline (open_body corr s @ concat parts) t s'])"
proof (induction evs arbitrary: s parts)
  case (Cons nev evs)
  obtain now ev where nev: "nev = (now, ev)" by (cases nev)
  obtain s1 r1 where s1: "serve has stages now ev s = (s1, r1)" by (cases "serve has stages now ev s")
  have all: "snd (serve_all has stages (nev # evs) s) = (CorrelationID (evFrame ev), r1) # snd (serve_all has stages evs s1)"
    by (simp add: nev s1 split: prod.splits)
  show ?case
  proof (cases "CorrelationID (evFrame ev) = corr")
    case False
    have other: "assemblies s1 corr = assemblies s corr" "jobs s1 corr = jobs s corr"
      using serve_other [OF False, of has stages now s] s1 by simp_all
    then have "joinable kind corr (invoke_message stage trace deadline []) s1" "open_body corr s1 = open_body corr s"
      using Cons.prems(4,5) by (auto simp: joinable_def open_body_def)
    moreover have "events_of corr evs = part_events (sent_event c FRequest kind corr) (invoke_message stage trace deadline) parts"
      using Cons.prems(1) False by (simp add: nev)
    ultimately have "ends_with has stages corr evs s1 (\<lambda>t s'. replicate (length parts - 1) Ignored
          @ [request_outcome has kind corr stage trace deadline (open_body corr s @ concat parts) t s'])"
      using Cons.IH [of parts s1] other Cons.prems(2-6) by simp
    from ends_later [OF s1 this] show ?thesis using False by (simp add: nev)
  next
    case True
    obtain part rest where parts: "parts = part # rest" using Cons.prems(2) by (cases parts) auto
    have cp: "concat parts = part @ concat rest" by (simp add: parts)
    let ?m = "invoke_message stage trace deadline part"
    have ev: "ev = sent_event c FRequest kind corr (message_bytes ?m @ part) (rest \<noteq> [])"
      and evs: "events_of corr evs = part_events (sent_event c FRequest kind corr) (invoke_message stage trace deadline) rest"
      using Cons.prems(1) True by (simp_all add: nev parts)
    have join: "joinable kind corr ?m s" "\<And>p. joinable kind corr (invoke_message stage trace deadline p) s1' = joinable kind corr ?m s1'" for s1'
      using Cons.prems(5) by (auto simp: joinable_def same_request_def invoke_message_def split: option.splits)
    have room: "length (open_body corr s) + length part \<le> unat ModuleMessageMaxBody" using Cons.prems(6) by (simp add: parts)
    note step = serve_fragment [OF stage Cons.prems(3) join(1) room, where has = has and now = now and c = c
        and more' = "rest \<noteq> []" and after = "[]", folded ev, unfolded s1, simplified]
    show ?thesis
    proof (cases "rest = []")
      case True
      then have none: "events_of corr evs = []" using evs by simp
      have "[r1] = replicate (length parts - 1) Ignored
          @ [request_outcome has kind corr stage trace deadline (open_body corr s @ concat parts) now s]"
        using True step by (simp add: parts start_job_outcome)
      from ends_now [OF \<open>CorrelationID (evFrame ev) = corr\<close> none s1, of
          "\<lambda>t s'. replicate (length parts - 1) Ignored
            @ [request_outcome has kind corr stage trace deadline (open_body corr s @ concat parts) t s']"] this
      show ?thesis by (simp only: nev)
    next
      case False
      then have s1': "r1 = Ignored" "jobs s1 corr = None" "open_body corr s1 = open_body corr s @ part"
        "joinable kind corr (invoke_message stage trace deadline []) s1" "assemblies s1 corr \<noteq> None" using step by auto
      have "length (open_body corr s1) + length (concat rest) \<le> unat ModuleMessageMaxBody"
        using Cons.prems(6) s1'(3) by (simp add: parts)
      then have "ends_with has stages corr evs s1 (\<lambda>t s'. replicate (length rest - 1) Ignored
          @ [request_outcome has kind corr stage trace deadline (open_body corr s1 @ concat rest) t s'])"
        using Cons.IH [OF evs False s1'(2) s1'(5) s1'(4)] by blast
      from ends_later [OF s1 this] have "ends_with has stages corr (nev # evs) s (\<lambda>t s'. Ignored # replicate (length rest - 1) Ignored
          @ [request_outcome has kind corr stage trace deadline (open_body corr s @ concat parts) t s'])"
        using True s1' cp by (simp add: nev)
      moreover have "replicate (length parts - 1) Ignored = Ignored # replicate (length rest - 1) Ignored"
        using False parts by (cases rest) auto
      ultimately show ?thesis by simp
    qed
  qed
next
  case Nil
  then show ?case by (cases parts) simp_all
qed


lemma length_part_events [simp]: "length (part_events event message parts) = length parts"
  by (induction parts) simp_all

text \<open>C10: a request arrives whole. Whatever a caller sends in fragments, and whatever else the loop polls
  in between, cancellations and requests of other calls included: when there is room for an assembly at
  its first fragment, every fragment but the last is silent, and the last one is refused for its
  deadline when that has passed at the time it is polled, refused for want of a handler when there is
  none, refused as an internal error when sixteen jobs run by then, and in every other case launches a
  job with exactly the request as its body, under the stage, trace and deadline of the call.\<close>

theorem request_reassembled:
  assumes sent: "send (recorder c) kind stage trace corr deadline request [] = (None, frags)"
    and stage: "stage_of stages kind = stage" "stage \<noteq> 0" and size: "length request \<le> 16 * 1024 * 1024"
    and budget: "40 < unat (inlineBudget c)"
    and polled: "events_of corr evs = tl frags"
    and fresh: "jobs s corr = None" "assemblies s corr = None" "card (dom (assemblies s)) < 16"
  shows "\<exists>pre t ev post. (now, hd frags) # evs = pre @ (t, ev) # post \<and> CorrelationID (evFrame ev) = corr
    \<and> events_of corr post = []
    \<and> reactions_of corr (snd (serve_all has stages ((now, hd frags) # evs) s)) = replicate (length frags - 1) Ignored
        @ [request_outcome has kind corr stage trace deadline request t (fst (serve_all has stages pre s))]"
proof -
  let ?ev = "sent_event c FRequest kind corr" and ?msg = "invoke_message stage trace deadline"
  have max: "unat ModuleMessageMaxBody = 16 * 1024 * 1024" by (simp add: ModuleMessageMaxBody_def)
  have frags: "frags = part_events ?ev ?msg (chunks (unat (inlineBudget c) - 40) request)"
    using send_recorder [OF stage(2) _ budget, of request kind trace corr deadline "[]"] sent size max by simp
  obtain part rest where parts: "chunks (unat (inlineBudget c) - 40) request = part # rest"
    by (cases "chunks (unat (inlineBudget c) - 40) request") auto
  have request: "request = part @ concat rest" using concat_chunks [of "unat (inlineBudget c) - 40" request] parts by simp
  have hd: "hd frags = ?ev (message_bytes (?msg part) @ part) (rest \<noteq> [])" and tl: "tl frags = part_events ?ev ?msg rest"
    by (simp_all add: frags parts)
  have len: "length frags = Suc (length rest)" by (simp add: frags parts)
  have empty: "open_body corr s = []" by (simp add: open_body_def fresh)
  have "joinable kind corr (?msg part) s" using fresh by (simp add: joinable_def moduleMaxInFlight_def)
  moreover have "length (open_body corr s) + length part \<le> unat ModuleMessageMaxBody" using size request max empty by simp
  moreover obtain s1 r1 where s1: "serve has stages now (hd frags) s = (s1, r1)" by (cases "serve has stages now (hd frags) s")
  ultimately have step: "if rest \<noteq> [] then r1 = Ignored \<and> jobs s1 corr = None \<and> assemblies s1 corr \<noteq> None
        \<and> open_body corr s1 = part \<and> joinable kind corr (?msg []) s1
      else r1 = snd (start_job has now kind corr stage (?msg part) part (drop_assembly corr s))"
    using serve_fragment [OF stage fresh(1), where has = has and now = now and c = c
        and more' = "rest \<noteq> []" and after = "[]"] hd empty by fastforce
  have all: "reactions_of corr (snd (serve_all has stages ((now, hd frags) # evs) s)) =
      r1 # reactions_of corr (snd (serve_all has stages evs s1))"
    using s1 hd by (simp add: reactions_of_def split: prod.splits)
  have corr: "CorrelationID (evFrame (hd frags)) = corr" by (simp add: hd)
  have "ends_with has stages corr ((now, hd frags) # evs) s (\<lambda>t s'. replicate (length frags - 1) Ignored
      @ [request_outcome has kind corr stage trace deadline request t s'])"
  proof (cases "rest = []")
    case True
    then have none: "events_of corr evs = []" using polled tl by simp
    have "[r1] = replicate (length frags - 1) Ignored @ [request_outcome has kind corr stage trace deadline request now s]"
      using True step by (simp add: len request start_job_outcome)
    from ends_now [OF corr none s1, of "\<lambda>t s'. replicate (length frags - 1) Ignored
        @ [request_outcome has kind corr stage trace deadline request t s']"] this
    show ?thesis by (simp only:)
  next
    case False
    then have "ends_with has stages corr evs s1 (\<lambda>t s'. replicate (length rest - 1) Ignored
        @ [request_outcome has kind corr stage trace deadline (part @ concat rest) t s'])"
      using reassemble [OF stage, of corr evs c trace deadline rest s1 has] polled tl step size request max by auto
    from ends_later [OF s1 this] have "ends_with has stages corr ((now, hd frags) # evs) s
        (\<lambda>t s'. r1 # replicate (length rest - 1) Ignored @ [request_outcome has kind corr stage trace deadline request t s'])"
      using corr by (simp add: request)
    moreover have "replicate (length frags - 1) Ignored = r1 # replicate (length rest - 1) Ignored"
      using False step by (cases rest) (simp_all add: frags parts)
    ultimately show ?thesis by simp
  qed
  then show ?thesis unfolding ends_with_def .
qed

section \<open>Putting a result together\<close>

text \<open>The bus of a module that records its replies and never blocks.\<close>

definition reply_recorder :: "Client \<Rightarrow> Event list module_bus" where
  "reply_recorder c = \<lparr> mb_Poll = (\<lambda>w. (NoEvent, w)),
     mb_Reply = (\<lambda>kind corr payload more' w. (None, w @ [sent_event c FReply kind corr payload more'])),
     mb_Heartbeat = (\<lambda>now w. w), mb_EpochChanged = (\<lambda>w. False), mb_budget = inlineBudget c, mb_now = (\<lambda>w. 0),
     mb_wait = (\<lambda>w. (False, w)), mb_sleep = (\<lambda>w. w), mb_ctxDone = (\<lambda>w. False) \<rparr>"

lemma reply_part_recorder:
  "reply_part (reply_recorder c) kind corr payload more' w = Some (None, w @ [sent_event c FReply kind corr payload more'])"
  by (subst reply_part.simps) (simp add: reply_recorder_def)

lemma reply_parts_recorder:
  assumes "\<And>part. part \<in> set parts \<Longrightarrow> message_valid (message part)"
  shows "reply_parts (reply_recorder c) kind corr message parts w =
    Some (None, w @ part_events (sent_event c FReply kind corr) message parts)"
  using assms
proof (induction parts arbitrary: w)
  case (Cons part parts)
  then show ?case by (simp add: message_Encode_eq reply_part_recorder store_def)
qed simp

lemma reply_content_valid:
  assumes "reply_content status body = (st, bd)"
  shows "validModuleStatus st" "length bd \<le> unat ModuleMessageMaxBody" "st \<noteq> ModuleStatusOK \<Longrightarrow> bd = []"
  using assms by (auto simp: reply_content_def validModuleStatus_def module_consts split: if_splits)

lemma reply_recorder_events:
  assumes "stage \<noteq> 0" "40 < unat (inlineBudget c)" "reply_content status body = (st, bd)"
  shows "replyModuleResult (reply_recorder c) kind corr stage trace status body w =
    Some (None, w @ part_events (sent_event c FReply kind corr) (result_message stage trace st)
        (chunks (unat (inlineBudget c) - 40) bd))"
proof -
  have "\<not> inlineBudget c \<le> 40" using assms(2) by (simp add: word_le_nat_alt)
  moreover have "message_valid (result_message stage trace st part)"
    if "part \<in> set (chunks (unat (inlineBudget c) - 40) bd)" for part
    using length_chunk_total [OF that] reply_content_valid [OF assms(3)] result_valid(1) [OF assms(1)] by auto
  moreover have "mb_budget (reply_recorder c) = inlineBudget c" by (simp add: reply_recorder_def)
  ultimately show ?thesis
    using reply_parts_recorder by (simp add: replyModuleResult_def assms(3))
qed

text \<open>The polls that matter to a call: failures, an ended context, a passed deadline, its own events.\<close>

definition concerns :: "64 word \<Rightarrow> poll_outcome \<Rightarrow> bool" where
  "concerns corr p \<longleftrightarrow> (case p of PollFailed e \<Rightarrow> True | Idle ended expired \<Rightarrow> ended \<or> expired
     | Delivered ev \<Rightarrow> CorrelationID (evFrame ev) = corr)"

lemma await_unconcerned: "\<not> concerns corr p \<Longrightarrow> await_pass m kind corr body p = Inr body"
  by (auto simp: concerns_def await_pass_def await_event_def split: poll_outcome.splits)

lemma await_filter: "awaitReply m kind corr body ps = awaitReply m kind corr body (filter (concerns corr) ps)"
  by (induction m kind corr body ps rule: awaitReply.induct)
     (auto simp: await_unconcerned split: sum.splits)

lemma await_fragment:
  assumes stage: "stage \<noteq> 0" and kind: "KindModuleBase \<le> kind" and limit: "responseLimit m = ModuleMessageMaxBody"
    and room: "length acc + length part \<le> unat ModuleMessageMaxBody" and st: "validModuleStatus st"
  shows "await_pass m kind corr acc (Delivered (sent_event c FReply kind corr (message_bytes (result_message stage trace st part) @ part) more')) =
    (if st \<noteq> ModuleStatusOK then Inl (Inl (CallStatus st)) else if more' then Inr (acc @ part) else Inl (Inr (acc @ part)))"
proof -
  let ?m = "result_message stage trace st part"
  have len: "length part \<le> unat ModuleMessageMaxBody" using room by simp
  note v = result_valid [OF stage len st, of trace]
  have d: "DecodeModuleMessage (message_bytes ?m @ part) = Some ?m" using v by (simp add: Decode_message_bytes)
  have fields: "Operation ?m = ModuleOpResult" "Status ?m = st" by (simp_all add: result_message_def)
  have kinds: "kind \<noteq> KindCapabilityAbsent" "kind \<noteq> KindError"
    using kind by (auto simp: KindModuleBase_def KindCapabilityAbsent_def KindError_def)
  have "unat (of_nat (length acc) + BodyLen ?m) = length acc + length part"
    using room v(2) by (simp add: unat_word_ariths unat_of_nat ModuleMessageMaxBody_def)
  then have "\<not> of_nat (length acc) + BodyLen ?m > responseLimit m" using room limit by (simp add: word_less_nat_alt)
  then show ?thesis
    using kinds d v(2) fields
    by (cases "st = ModuleStatusOK") (auto simp: await_pass_def await_event_def Let_def slice_message)
qed

lemma await_parts:
  assumes stage: "stage \<noteq> 0" and kind: "KindModuleBase \<le> kind" and limit: "responseLimit m = ModuleMessageMaxBody"
    and st: "validModuleStatus st"
  shows "parts \<noteq> [] \<Longrightarrow> length acc + length (concat parts) \<le> unat ModuleMessageMaxBody
    \<Longrightarrow> awaitReply m kind corr acc (map Delivered (part_events (sent_event c FReply kind corr) (result_message stage trace st) parts))
      = Some (if st \<noteq> ModuleStatusOK then Inl (CallStatus st) else Inr (acc @ concat parts))"
proof (induction parts arbitrary: acc)
  case (Cons part parts)
  have room: "length acc + length part \<le> unat ModuleMessageMaxBody" using Cons.prems(2) by simp
  show ?case
    using await_fragment [OF stage kind limit room st, of corr c trace "parts \<noteq> []"] Cons.IH [of "acc @ part"] Cons.prems(2)
    by (cases "parts = []"; cases "st = ModuleStatusOK") auto
qed simp

text \<open>C9: a result arrives whole. Whatever a handler returned, the fragments that go out for it give the
  waiting caller exactly that body, whatever else it polls in between, or the status when it is not OK;
  an invalid status and a body over 16 MiB arrive as the internal error, and no body comes with an error.\<close>

theorem result_reassembled:
  assumes sent: "replyModuleResult (reply_recorder c) kind corr stage trace status body [] = Some (None, frags)"
    and stage: "stage \<noteq> 0" and kind: "256 \<le> kind" and budget: "40 < unat (inlineBudget c)"
    and polled: "filter (concerns corr) ps = map Delivered frags"
  shows "awaitReply newModuleCaller kind corr [] ps = Some
    (if \<not> validModuleStatus status \<or> length body > 16 * 1024 * 1024 then Inl (CallStatus ModuleStatusInternal)
     else if status \<noteq> ModuleStatusOK then Inl (CallStatus status) else Inr body)"
proof -
  obtain st bd where content: "reply_content status body = (st, bd)" by (cases "reply_content status body")
  note valid = reply_content_valid [OF content]
  have frags: "frags = part_events (sent_event c FReply kind corr) (result_message stage trace st)
      (chunks (unat (inlineBudget c) - 40) bd)"
    using reply_recorder_events [OF stage budget content, of kind corr trace "[]"] sent by simp
  have "awaitReply newModuleCaller kind corr [] (filter (concerns corr) ps) =
      Some (if st \<noteq> ModuleStatusOK then Inl (CallStatus st) else Inr bd)"
    using await_parts [OF stage _ _ valid(1), of kind newModuleCaller "chunks (unat (inlineBudget c) - 40) bd" "[]"] valid(2) kind
    by (simp add: polled frags KindModuleBase_def newModuleCaller_def)
  then have "awaitReply newModuleCaller kind corr [] ps = Some (if st \<noteq> ModuleStatusOK then Inl (CallStatus st) else Inr bd)"
    by (simp only: await_filter [of newModuleCaller kind corr "[]" ps])
  then show ?thesis
    using content by (auto simp: reply_content_def ModuleMessageMaxBody_def module_consts split: if_splits)
qed

section \<open>The rest of a refused request\<close>

text \<open>A refusal does not stop the rest of the request. When the first fragment of a request is refused
  because 16 requests are being assembled, and one of those ends before the next fragment arrives, the
  loop takes that fragment for the beginning of a new request: if it is the last, the handler runs, and
  it runs on the tail of the body alone.\<close>

theorem refused_tail_runs:
  assumes stage: "stage_of stages kind = stage" "stage \<noteq> 0"
    and full: "finite (dom (assemblies s))" "card (dom (assemblies s)) = 16" "assemblies s corr = None" "jobs s corr = None"
    and other: "assemblies s other = Some a" "jobs s other = None" and jobs: "card (dom (jobs s)) < 16"
    and size: "length head \<le> 16 * 1024 * 1024" "length tail \<le> 16 * 1024 * 1024"
    and cancel: "has_flag (evFrame cancel) FCancel" "CorrelationID (evFrame cancel) = other"
  shows "map snd (snd (serve_all True stages
      [(t1, sent_event c FRequest kind corr (message_bytes (invoke_message stage trace 0 head) @ head) True),
       (t2, cancel),
       (t3, sent_event c FRequest kind corr (message_bytes (invoke_message stage trace 0 tail) @ tail) False)] s)) =
    [Refused stage trace ModuleStatusInternal, Ignored,
     Launched \<lparr> workEventKind = kind, workCorrelation = corr,
       workInvocation = \<lparr> invStageID = stage, invDeadlineNS = 0, invTraceID = trace \<rparr>, workBody = tail, cancelled = False \<rparr>]"
proof -
  let ?e1 = "sent_event c FRequest kind corr (message_bytes (invoke_message stage trace 0 head) @ head) True"
  let ?e3 = "sent_event c FRequest kind corr (message_bytes (invoke_message stage trace 0 tail) @ tail) False"
  have max: "unat ModuleMessageMaxBody = 16 * 1024 * 1024" by (simp add: ModuleMessageMaxBody_def)
  have "DecodeModuleMessage (message_bytes (invoke_message stage trace 0 head) @ head) = Some (invoke_message stage trace 0 head)"
    using invoke_valid [OF stage(2), of head trace 0] size max by (simp add: Decode_message_bytes)
  then have first: "serve True stages t1 ?e1 s = (s, Refused stage trace ModuleStatusInternal)"
    using stage full by (simp add: serve_def Let_def invoke_message_def add_fragment_def moduleMaxInFlight_def)
  have second: "serve True stages t2 cancel s = (drop_assembly other s, Ignored)"
    using cancel other by (simp add: serve_def Let_def)
  let ?s = "drop_assembly other s"
  have "dom (assemblies ?s) = dom (assemblies s) - {other}" by (simp add: drop_assembly_def)
  then have "card (dom (assemblies ?s)) = 15" using full other by (simp add: domI)
  then have fresh: "joinable kind corr (invoke_message stage trace 0 tail) ?s" "open_body corr ?s = []" "jobs ?s corr = None"
    "assemblies ?s corr = None"
    using full by (auto simp: joinable_def open_body_def drop_assembly_def moduleMaxInFlight_def)
  have "snd (serve True stages t3 ?e3 ?s) =
      snd (start_job True t3 kind corr stage (invoke_message stage trace 0 tail) tail (drop_assembly corr ?s))"
    using serve_fragment [OF stage fresh(3,1), where has = True and now = t3 and c = c and more' = False and after = "[]"]
      fresh(2) size max by (auto split: prod.splits)
  also have "\<dots> = Launched \<lparr> workEventKind = kind, workCorrelation = corr,
       workInvocation = \<lparr> invStageID = stage, invDeadlineNS = 0, invTraceID = trace \<rparr>, workBody = tail, cancelled = False \<rparr>"
    using jobs by (simp add: start_job_def Let_def DeadlineExpired_def invoke_message_def drop_assembly_def moduleMaxInFlight_def)
  finally show ?thesis by (simp add: first second split: prod.splits) (metis snd_conv)
qed


section \<open>The laws at work\<close>

lemma invoke_fields [simp]:
  "Operation (invoke_message stage trace deadline part) = ModuleOpInvoke"
  "StageID (invoke_message stage trace deadline part) = stage"
  "BodyLen (invoke_message stage trace deadline part) = of_nat (length part)"
  "DeadlineNS (invoke_message stage trace deadline part) = deadline"
  "TraceID (invoke_message stage trace deadline part) = trace"
  by (simp_all add: invoke_message_def)

text \<open>A client with room for two bytes of body per fragment.\<close>

definition tiny :: Client where "tiny = zero_client\<lparr> inlineBudget := 42 \<rparr>"

lemma tiny_budget [simp]: "inlineBudget tiny = 42"
  by (simp add: tiny_def)

lemma abc_chunks: "chunks 2 ''abc'' = [''ab'', ''c'']"
  by (simp add: chunks.simps [of 2 "''abc''"] chunks.simps [of 2 "''c''"])

lemma serve_jobs: "card (dom (jobs (fst (serve has stages now ev s)))) \<le> Suc (card (dom (jobs s)))"
proof -
  have "card (insert x A) \<le> Suc (card A)" for x :: "64 word" and A
    by (cases "finite A") (simp_all add: card_insert_if)
  then show ?thesis
    by (auto simp: serve_def Let_def drop_assembly_def add_fragment_def start_job_def insert_absorb domI split: option.splits)
qed

lemma serve_all_jobs: "card (dom (jobs (fst (serve_all has stages evs s)))) \<le> card (dom (jobs s)) + length evs"
proof (induction evs arbitrary: s)
  case (Cons nev evs)
  obtain now ev where nev: "nev = (now, ev)" by (cases nev)
  show ?case
    using Cons.IH [of "fst (serve has stages now ev s)"] serve_jobs [of has stages now ev s]
    unfolding nev fst_serve_all_Cons by simp
qed simp

theorem request_reassembled_witness:
  "\<exists>frags. send (recorder tiny) 256 7 0 1 0 ''abc'' [] = (None, frags) \<and> length frags = 2
    \<and> reactions_of 1 (snd (serve_all True [256 \<mapsto> 7]
         ((0, hd frags) # (0, sent_event tiny FRequest 256 2 [] False) # map (Pair 0) (tl frags)) initial_run)) =
      [Ignored, Launched \<lparr> workEventKind = 256, workCorrelation = 1,
         workInvocation = \<lparr> invStageID = 7, invDeadlineNS = 0, invTraceID = 0 \<rparr>, workBody = ''abc'', cancelled = False \<rparr>]"
proof -
  let ?frags = "part_events (sent_event tiny FRequest 256 1) (invoke_message 7 0 0) [''ab'', ''c'']"
  let ?evs = "(0, sent_event tiny FRequest 256 2 [] False) # map (Pair 0) (tl ?frags)"
  have sent: "send (recorder tiny) 256 7 0 1 0 ''abc'' [] = (None, ?frags)"
    using send_recorder [of 7 "''abc''" tiny 256 0 1 0 "[]"] by (simp add: ModuleMessageMaxBody_def abc_chunks)
  have "\<exists>pre t ev post. (0, hd ?frags) # ?evs = pre @ (t, ev) # post \<and> CorrelationID (evFrame ev) = 1
      \<and> events_of 1 post = []
      \<and> reactions_of 1 (snd (serve_all True [256 \<mapsto> 7] ((0, hd ?frags) # ?evs) initial_run)) =
          replicate (length ?frags - 1) Ignored
          @ [request_outcome True 256 1 7 0 0 ''abc'' t (fst (serve_all True [256 \<mapsto> 7] pre initial_run))]"
    by (rule request_reassembled [OF sent]) (simp_all add: stage_of_def initial_run_def)
  then obtain pre t ev post where p: "(0, hd ?frags) # ?evs = pre @ (t, ev) # post"
    and react: "reactions_of 1 (snd (serve_all True [256 \<mapsto> 7] ((0, hd ?frags) # ?evs) initial_run)) =
      replicate (length ?frags - 1) Ignored
        @ [request_outcome True 256 1 7 0 0 ''abc'' t (fst (serve_all True [256 \<mapsto> 7] pre initial_run))]"
    by (elim exE conjE)
  have "length ((0 :: 64 word, hd ?frags) # ?evs) = length (pre @ (t, ev) # post)" by (simp only: p)
  then have "length pre \<le> 2" by simp
  then have "\<not> 16 \<le> card (dom (jobs (fst (serve_all True [256 \<mapsto> 7] pre initial_run))))"
    using serve_all_jobs [of True "[256 \<mapsto> 7]" pre initial_run] by (simp add: initial_run_def)
  with react sent show ?thesis by (intro exI [of _ ?frags]) (simp add: request_outcome_def)
qed

theorem result_reassembled_witness:
  "\<exists>frags. replyModuleResult (reply_recorder tiny) 256 1 7 0 0 ''abc'' [] = Some (None, frags) \<and> length frags = 2
    \<and> awaitReply newModuleCaller 256 1 [] (Idle False False # map Delivered frags) = Some (Inr ''abc'')"
proof -
  let ?frags = "part_events (sent_event tiny FReply 256 1) (result_message 7 0 0) [''ab'', ''c'']"
  have "replyModuleResult (reply_recorder tiny) 256 1 7 0 0 ''abc'' [] = Some (None, ?frags)"
    using reply_recorder_events [of 7 tiny 0 "''abc''" 0 "''abc''" 256 1 0 "[]"]
    by (simp add: reply_content_def validModuleStatus_def module_consts ModuleMessageMaxBody_def abc_chunks)
  moreover from result_reassembled [OF this, of "Idle False False # map Delivered ?frags"]
  have "awaitReply newModuleCaller 256 1 [] (Idle False False # map Delivered ?frags) = Some (Inr ''abc'')"
    by (simp add: concerns_def validModuleStatus_def module_consts)
  moreover have "length ?frags = 2" by simp
  ultimately show ?thesis by blast
qed

text \<open>Sixteen requests in assembly.\<close>

definition crowded :: run_state where
  "crowded = initial_run\<lparr> assemblies := map_of (map (\<lambda>i. (word_of_nat i,
     \<lparr> asmEventKind = 256, asmMessage = invoke_message 7 0 0 [], asmBody = [] \<rparr>)) [2..<18]) \<rparr>"

theorem refused_tail_runs_witness:
  "map snd (snd (serve_all True [256 \<mapsto> 7]
      [(0, sent_event tiny FRequest 256 1 (message_bytes (invoke_message 7 0 0 ''rm -r /tmp'') @ ''rm -r /tmp'') True),
       (0, \<lparr> evFrame = zero_frame\<lparr> HdrFlags := FCancel, CorrelationID := 2 \<rparr>, evPayload = [] \<rparr>),
       (0, sent_event tiny FRequest 256 1 (message_bytes (invoke_message 7 0 0 ''/x'') @ ''/x'') False)] crowded)) =
    [Refused 7 0 ModuleStatusInternal, Ignored,
     Launched \<lparr> workEventKind = 256, workCorrelation = 1,
       workInvocation = \<lparr> invStageID = 7, invDeadlineNS = 0, invTraceID = 0 \<rparr>, workBody = ''/x'', cancelled = False \<rparr>]"
proof -
  let ?a = "\<lparr> asmEventKind = 256, asmMessage = invoke_message 7 0 0 [], asmBody = [] \<rparr>"
  have dom: "dom (assemblies crowded) = {2, 3, 4, 5, 6, 7, 8, 9, 10, 11, 12, 13, 14, 15, 16, 17}"
    by (simp add: crowded_def dom_map_of_conv_image_fst upt_rec insert_commute)
  then have card: "card (dom (assemblies crowded)) = 16" by simp
  have one: "assemblies crowded 1 = None" proof -
    have "1 \<notin> dom (assemblies crowded)" unfolding dom by simp
    then show ?thesis by auto
  qed
  have two: "assemblies crowded 2 = Some ?a" by (simp add: crowded_def upt_rec)
  show ?thesis
    by (rule refused_tail_runs [where other = 2 and a = ?a])
       (use dom card one two in \<open>simp_all add: stage_of_def crowded_def initial_run_def has_flag_def FCancel_def\<close>)
qed

text \<open>A bus that delivers a list of events.\<close>

definition script_bus :: "Event list module_bus" where
  "script_bus = (reply_recorder tiny)\<lparr> mb_Poll := (\<lambda>w. case w of [] \<Rightarrow> (NoEvent, []) | ev # evs \<Rightarrow> (GotEvent ev, evs)) \<rparr>"

theorem runtime_bounded_witness:
  "\<exists>s. (run_step script_bus (\<lambda>call body. (body, 0)) [256 \<mapsto> 7])\<^sup>*\<^sup>*
      (initial_run, [sent_event tiny FRequest 256 1 (message_bytes (invoke_message 7 0 0 ''x'') @ ''x'') False]) (s, [])
    \<and> map resBody (finished s) = [''x''] \<and> result_key ` set (finished s) \<subseteq> dom (jobs s)"
proof -
  let ?ev = "sent_event tiny FRequest 256 1 (message_bytes (invoke_message 7 0 0 ''x'') @ ''x'') False"
  let ?work = "\<lparr> workEventKind = 256, workCorrelation = 1,
       workInvocation = \<lparr> invStageID = 7, invDeadlineNS = 0, invTraceID = 0 \<rparr>, workBody = ''x'', cancelled = False \<rparr>"
  let ?h = "\<lambda>(call :: ModuleInvocation) (body :: string). (body, 0 :: 16 word)"
  let ?s = "initial_run\<lparr> jobs := [1 \<mapsto> ?work] \<rparr>"
  have d: "DecodeModuleMessage (message_bytes (invoke_message 7 0 0 ''x'') @ ''x'') = Some (invoke_message 7 0 0 ''x'')"
    using invoke_valid [of 7 "''x''" 0 0] by (simp add: Decode_message_bytes ModuleMessageMaxBody_def)
  have serve: "serve True [256 \<mapsto> 7] 0 ?ev initial_run = (?s, Launched ?work)"
    using slice_message [of "''x''"]
    by (simp add: serve_def Let_def d stage_of_def initial_run_def add_fragment_def moduleMaxInFlight_def
        start_job_def DeadlineExpired_def drop_assembly_def ModuleMessageMaxBody_def fun_upd_def
        cong: if_cong)
  have empty: "finished initial_run = []" "initial_run\<lparr> finished := [] \<rparr> = initial_run"
    by (simp_all add: initial_run_def)
  have "loop_pass script_bus True [256 \<mapsto> 7] initial_run [?ev] = Some (Again, ?s, [])"
    by (simp add: loop_pass_def empty poll_once_def script_bus_def reply_recorder_def heartbeat_def serve Let_def)
  then have "run_step script_bus ?h [256 \<mapsto> 7] (initial_run, [?ev]) (?s, [])" by (rule iteration)
  moreover have "run_step script_bus ?h [256 \<mapsto> 7] (?s, [])
      (?s\<lparr> finished := finished ?s @ [\<lparr> resWork = ?work, resBody = ''x'', resStatus = 0 \<rparr>] \<rparr>, [])"
    by (rule worker [of _ 1])
       (simp_all add: initial_run_def runHandler_def reply_content_def validModuleStatus_def module_consts ModuleMessageMaxBody_def)
  ultimately have run: "(run_step script_bus ?h [256 \<mapsto> 7])\<^sup>*\<^sup>* (initial_run, [?ev])
      (?s\<lparr> finished := finished ?s @ [\<lparr> resWork = ?work, resBody = ''x'', resStatus = 0 \<rparr>] \<rparr>, [])"
    by (meson rtranclp.rtrancl_into_rtrancl rtranclp.rtrancl_refl)
  show ?thesis
  proof (intro exI conjI)
    show "(run_step script_bus ?h [256 \<mapsto> 7])\<^sup>*\<^sup>* (initial_run, [?ev])
      (?s\<lparr> finished := finished ?s @ [\<lparr> resWork = ?work, resBody = ''x'', resStatus = 0 \<rparr>] \<rparr>, [])" by (rule run)
    show "map resBody (finished (?s\<lparr> finished := finished ?s @ [\<lparr> resWork = ?work, resBody = ''x'', resStatus = 0 \<rparr>] \<rparr>)) = [''x'']"
      by (simp add: empty)
  qed (rule runtime_bounded [OF run, of 0, THEN conjunct2, THEN conjunct2, THEN conjunct2, THEN conjunct2,
      THEN conjunct2, THEN conjunct1])
qed


end
