(* ===== verification/Condense.thy ===== *)
theory Condense
  imports Fold
begin

text \<open>
  Model of \<open>condense_primitives.go\<close>, \<open>condense_recognize.go\<close>, \<open>condense_family.go\<close> and
  \<open>condense_apply.go\<close>: recognizing a shell command, filtering the output of test runners and
  compilers by line, and the spill store that keeps the full output. The spill directory is an
  association list of names and files; the outcomes of the system calls and the order that
  \<open>sort.Slice\<close> gives to files of equal age are an environment.
\<close>

section \<open>Line primitives\<close>

definition TCCeiling :: nat where "TCCeiling = 2 * 1024 * 1024"

abbreviation newline :: char where "newline \<equiv> CHR 0x0A"

definition splitLines :: "string \<Rightarrow> string list" where
  "splitLines s = split_on newline s"

definition splitLinesStripModel :: "string \<Rightarrow> string list" where
  "splitLinesStripModel s =
     (if s = [] then [[]]
      else let ls = split_on newline s
           in if length ls > 1 \<and> last ls = [] then butlast ls else ls)"

text \<open>The text after the last carriage return, and the same without CSI escapes.\<close>

definition after_last :: "char \<Rightarrow> string \<Rightarrow> string" where
  "after_last d s = rev (takeWhile (\<lambda>c. c \<noteq> d) (rev s))"

definition csi_rest :: "string \<Rightarrow> string" where
  "csi_rest s = (case dropWhile (\<lambda>c. 0x20 \<le> byte c \<and> byte c < 0x40) s of
      [] \<Rightarrow> [] | c # r \<Rightarrow> if 0x40 \<le> byte c \<and> byte c \<le> 0x7e then r else c # r)"

lemma length_csi_rest: "length (csi_rest s) \<le> length s"
proof -
  have "length (dropWhile P s) \<le> length s" for P by (rule length_dropWhile_le)
  from this [of "\<lambda>c. 0x20 \<le> byte c \<and> byte c < 0x40"] show ?thesis
    by (auto simp: csi_rest_def split: list.splits)
qed

function strip_csi :: "string \<Rightarrow> string" where
  "strip_csi [] = []"
| "strip_csi (c # s) =
     (if c = CHR 0x1b \<and> s \<noteq> [] \<and> hd s = CHR ''['' then strip_csi (csi_rest (tl s)) else c # strip_csi s)"
  by pat_completeness auto
termination
proof (relation "measure length")
  fix c s assume "c = CHR 0x1b \<and> s \<noteq> [] \<and> hd s = CHR ''[''"
  then show "(csi_rest (tl s), c # s) \<in> measure length"
    using length_csi_rest [of "tl s"] by (cases s) auto
qed auto

definition cleanLine :: "string \<Rightarrow> string" where
  "cleanLine line = strip_csi (after_last (CHR 0x0D) line)"

fun collapse_blanks :: "bool \<Rightarrow> string list \<Rightarrow> string list" where
  "collapse_blanks prevBlank [] = []"
| "collapse_blanks prevBlank (line # ls) =
     (let cleaned = cleanLine line; isBlank = (cleaned = [])
      in if isBlank \<and> prevBlank then collapse_blanks prevBlank ls else cleaned # collapse_blanks isBlank ls)"

definition TCStripNoise :: "string \<Rightarrow> string" where
  "TCStripNoise s = join_with newline (collapse_blanks False (splitLinesStripModel s))"

function dedup_runs :: "string list \<Rightarrow> string list" where
  "dedup_runs [] = []"
| "dedup_runs (l # ls) =
     (let run = 1 + length (takeWhile (\<lambda>x. x = l) ls)
      in (if run > 1 then l @ ''  (x'' @ nat_str run @ '')'' else l) # dedup_runs (dropWhile (\<lambda>x. x = l) ls))"
  by pat_completeness auto
termination
  by (relation "measure length") (auto simp: le_imp_less_Suc length_dropWhile_le)

definition TCDedupLines :: "string \<Rightarrow> string" where
  "TCDedupLines s = join_with newline (dedup_runs (splitLines s))"

text \<open>The marker of a run of elided lines, and the lines with every run replaced by its marker.\<close>

definition elided_marker :: "nat \<Rightarrow> string" where
  "elided_marker n = ''... '' @ nat_str n @ '' lines elided ...''"

definition flush :: "nat \<Rightarrow> string list" where
  "flush elided = (if elided > 0 then [elided_marker elided] else [])"

fun elide :: "nat \<Rightarrow> (bool \<times> string) list \<Rightarrow> string list" where
  "elide elided [] = flush elided"
| "elide elided ((keep, l) # ls) =
     (if keep then flush elided @ l # elide 0 ls else elide (elided + 1) ls)"

definition TCTruncateWithSignal :: "string \<Rightarrow> int \<Rightarrow> int \<Rightarrow> string \<Rightarrow> string" where
  "TCTruncateWithSignal s head tail signal =
     (let head = max 0 head; tail = max 0 tail; lines = splitLines s; n = int (length lines)
      in if wrap64 (head + tail) \<ge> n then s
         else join_with newline (elide 0 (map (\<lambda>(i, l).
                (int i < head \<or> int i \<ge> n - tail \<or> (signal \<noteq> [] \<and> str_contains l signal), l)) (enumerate 0 lines))))"

section \<open>Recognizing a command\<close>

definition TCMaxTok :: nat where "TCMaxTok = 24"

datatype TCOutcome = TCUnrecognized | TCOpaque | TCRecognized

record TCRecoResult =
  Outcome :: TCOutcome
  recoCmd :: string
  recoSub :: string

text \<open>One token, with its quoted parts, and the rest of the line.\<close>

function tok_word :: "string \<Rightarrow> string \<times> string" where
  "tok_word [] = ([], [])"
| "tok_word (c # s) =
     (if c \<in> set '' |;&<>'' \<or> c = CHR 0x09 \<or> c = newline then ([], c # s)
      else if c = CHR 0x27 \<or> c = CHR 0x22 then
        (let (t, r) = tok_word (drop 1 (dropWhile (\<lambda>x. x \<noteq> c) s)) in (takeWhile (\<lambda>x. x \<noteq> c) s @ t, r))
      else (let (t, r) = tok_word s in (c # t, r)))"
  by pat_completeness auto
termination
proof (relation "measure length", goal_cases)
  case (2 c s)
  have "length (dropWhile (\<lambda>x. x \<noteq> c) s) \<le> length s" by (rule length_dropWhile_le)
  then show ?case by simp
qed auto

text \<open>The loop of \<open>tcTokenize\<close> with \<open>n\<close> tokens to go; \<open>None\<close> is a compound line.\<close>

fun tok_loop :: "nat \<Rightarrow> string \<Rightarrow> string list option" where
  "tok_loop n s =
     (case dropWhile (\<lambda>c. c = CHR '' '' \<or> c = CHR 0x09) s of
        [] \<Rightarrow> Some []
      | c # r \<Rightarrow>
          if c \<in> set ''|;&`'' \<or> c = newline then None
          else if c = CHR ''$'' \<and> r \<noteq> [] \<and> hd r = CHR ''('' then None
          else if c = CHR ''<'' \<or> c = CHR ''>'' then Some []
          else (case n of
                  0 \<Rightarrow> Some []
                | Suc n \<Rightarrow> (let (t, rest) = tok_word (c # r) in map_option (Cons t) (tok_loop n rest))))"

declare tok_loop.simps [simp del]

definition tcTokenize :: "string \<Rightarrow> string list option" where
  "tcTokenize s = tok_loop TCMaxTok s"

definition tcBase :: "string \<Rightarrow> string" where
  "tcBase p = after_last (CHR ''/'') p"

definition tcWrapperSkip :: "string \<Rightarrow> string option \<Rightarrow> nat" where
  "tcWrapperSkip t next_tok =
     (if t \<in> set [''time'', ''nice'', ''nohup'', ''stdbuf'', ''npx''] then 1
      else (case next_tok of
              None \<Rightarrow> 0
            | Some nt \<Rightarrow>
                if t \<in> set [''uv'', ''poetry'', ''pipenv''] \<and> nt = ''run'' then 2
                else if t = ''bun'' \<and> nt = ''x'' then 2
                else if t \<in> set [''pnpm'', ''npm'', ''yarn''] \<and> nt = ''exec'' then 2
                else 0))"

definition tcKnownCmds :: "string list" where
  "tcKnownCmds = [''git'', ''cargo'', ''go'', ''pytest'', ''jest'', ''vitest'', ''mocha'', ''ctest'', ''mvn'', ''gradle'',
     ''dotnet'', ''tsc'', ''eslint'', ''ruff'', ''mypy'', ''flake8'', ''rustc'', ''gcc'', ''g++'', ''cc'', ''clang'',
     ''clang++'', ''ls'', ''grep'', ''rg'', ''find'', ''npm'', ''yarn'', ''pnpm'', ''pip'', ''pip3'', ''cmake'']"

definition tcSubcommandCmds :: "string list" where
  "tcSubcommandCmds = [''git'', ''cargo'', ''go'', ''dotnet'', ''npm'', ''yarn'', ''pnpm'', ''pip'', ''pip3'']"

definition var_char :: "char \<Rightarrow> bool" where
  "var_char c \<longleftrightarrow> (CHR ''A'' \<le> c \<and> c \<le> CHR ''Z'') \<or> (CHR ''a'' \<le> c \<and> c \<le> CHR ''z'')
     \<or> (CHR ''0'' \<le> c \<and> c \<le> CHR ''9'') \<or> c = CHR ''_''"

definition tcIsVarAssign :: "string \<Rightarrow> bool" where
  "tcIsVarAssign t =
     (let name = takeWhile (\<lambda>c. c \<noteq> CHR ''='') t
      in if name = t \<or> name = [] \<or> hd t = CHR ''-'' \<or> CHR ''/'' \<in> set t then False
         else list_all var_char name)"

definition sudoOptsWithArg :: string where "sudoOptsWithArg = ''ugpCrtTURhDP''"

fun skip_sudo :: "string list \<Rightarrow> string list" where
  "skip_sudo [] = []"
| "skip_sudo [o1] = (if has_prefix o1 ''-'' then [] else [o1])"
| "skip_sudo (o1 # o2 # ts) =
     (if \<not> has_prefix o1 ''-'' then o1 # o2 # ts
      else if length o1 = 2 \<and> o1 ! 1 \<in> set sudoOptsWithArg then skip_sudo ts
      else skip_sudo (o2 # ts))"

text \<open>Unwrapping, at most \<open>guard\<close> passes: what is left of the tokens.\<close>

fun unwrap :: "nat \<Rightarrow> string list \<Rightarrow> string list" where
  "unwrap 0 ts = ts"
| "unwrap (Suc guard) [] = []"
| "unwrap (Suc guard) (t # ts) =
     (let b = tcBase t
      in if tcIsVarAssign t then unwrap guard ts
         else if b = ''env'' then unwrap guard (dropWhile tcIsVarAssign ts)
         else if b = ''sudo'' then unwrap guard (skip_sudo ts)
         else let skip = tcWrapperSkip b (case ts of [] \<Rightarrow> None | nt # _ \<Rightarrow> Some nt)
              in if skip > 0 then unwrap guard (drop skip (t # ts)) else t # ts)"

definition sub_token :: "string \<Rightarrow> bool" where
  "sub_token t \<longleftrightarrow> \<not> has_prefix t ''-'' \<and> CHR ''/'' \<notin> set t \<and> CHR ''='' \<notin> set t"

definition TCRecognize :: "string \<Rightarrow> TCRecoResult" where
  "TCRecognize cmdline =
     (let r = \<lparr> Outcome = TCUnrecognized, recoCmd = [], recoSub = [] \<rparr>
      in (case tcTokenize cmdline of
            None \<Rightarrow> r
          | Some toks \<Rightarrow>
              (case unwrap TCMaxTok toks of
                 [] \<Rightarrow> r
               | t # ts \<Rightarrow>
                   let cmd = tcBase t; r = r\<lparr> recoCmd := cmd \<rparr>
                   in if cmd \<in> set [''xargs'', ''make'', ''bash'', ''sh'', ''zsh''] then r\<lparr> Outcome := TCOpaque \<rparr>
                      else if has_prefix t ''.'' \<or> CHR ''/'' \<in> set t then r\<lparr> Outcome := TCOpaque \<rparr>
                      else if cmd \<in> set tcKnownCmds then
                        (let r = r\<lparr> Outcome := TCRecognized \<rparr>
                         in if cmd \<in> set tcSubcommandCmds
                            then (case dropWhile (\<lambda>t. \<not> sub_token t) ts of [] \<Rightarrow> r | s # _ \<Rightarrow> r\<lparr> recoSub := s \<rparr>)
                            else r)
                      else r)))"

section \<open>Family filters\<close>

definition tcFailSigs :: "string list" where
  "tcFailSigs = [''fail'', ''error'', ''panic'', ''assert'', ''traceback'', ''exception'', ''not ok'',
     [CHR 0xE2, CHR 0x9C, CHR 0x97], [CHR 0xE2, CHR 0x9C, CHR 0x96], [CHR 0xE2, CHR 0x9C, CHR 0x98]]"

definition tcKeepSigs :: "string list" where
  "tcKeepSigs = [''test result'', ''result:'', ''===='', ''collected'', ''summary'', ''warning'', ''warnings'']"

definition tcDiagFailSigs :: "string list" where
  "tcDiagFailSigs = [''error'', ''undefined'', ''cannot'', ''expected'', ''fatal'', ''panicked'', ''no such'', ''not found'',
     ''not a type'', ''not a package'', ''imported and'', ''declared but not used'', ''multiple definition'', ''relocation'',
     ''unresolved'', ''syntaxerror'', ''typeerror'']"

definition tcDiagKeepSigs :: "string list" where
  "tcDiagKeepSigs = [''warning'', ''warn:'', ''note:'', ''help:'', ''-->'', ''error['', ''::error'', ''::warning'', ''====''  ]"

definition tcTestCtxBefore :: nat where "tcTestCtxBefore = 3"
definition tcTestCtxAfter :: nat where "tcTestCtxAfter = 8"

definition lineHasAny :: "string \<Rightarrow> string list \<Rightarrow> bool" where
  "lineHasAny line sigs \<longleftrightarrow> list_ex (\<lambda>s. str_contains (asciiLower line) (asciiLower s)) sigs"

text \<open>One pass of the marking loop: the line itself, then the block around a failure.\<close>

definition mark_line :: "nat \<Rightarrow> nat \<Rightarrow> nat \<Rightarrow> nat \<Rightarrow> nat \<Rightarrow> string list \<Rightarrow> string list \<Rightarrow> nat \<times> string \<Rightarrow> bool list \<Rightarrow> bool list" where
  "mark_line n head tail ctxBefore ctxAfter failSigs keepSigs il keep =
     (case il of (i, l) \<Rightarrow>
        let keep = (if i < head \<or> i + tail \<ge> n \<or> lineHasAny l keepSigs then keep[i := True] else keep)
        in if lineHasAny l failSigs
           then fold (\<lambda>j keep. keep[j := True]) [i - ctxBefore..<Suc (min (i + ctxAfter) (n - 1))] keep
           else keep)"

definition mark_lines :: "nat \<Rightarrow> nat \<Rightarrow> nat \<Rightarrow> nat \<Rightarrow> string list \<Rightarrow> string list \<Rightarrow> string list \<Rightarrow> bool list" where
  "mark_lines head tail ctxBefore ctxAfter failSigs keepSigs lines =
     fold (mark_line (length lines) head tail ctxBefore ctxAfter failSigs keepSigs) (enumerate 0 lines)
       (replicate (length lines) False)"

text \<open>\<open>None\<close> is the verbatim passthrough.\<close>

definition tcSignalFilter :: "int \<Rightarrow> string \<Rightarrow> string list \<Rightarrow> string list \<Rightarrow> bool \<Rightarrow> nat \<Rightarrow> nat \<Rightarrow> nat \<Rightarrow> nat \<Rightarrow> string option" where
  "tcSignalFilter exitCode s failSigs keepSigs requireFailNonzero head tail ctxBefore ctxAfter =
     (let lines = splitLines s; anyFail = list_ex (\<lambda>l. lineHasAny l failSigs) lines
      in if requireFailNonzero \<and> exitCode \<noteq> 0 \<and> \<not> anyFail then None
         else Some (join_with newline
                (elide 0 (zip (mark_lines head tail ctxBefore ctxAfter failSigs keepSigs lines) lines))))"

definition TCFamilyTestRunner :: "int \<Rightarrow> string \<Rightarrow> string option" where
  "TCFamilyTestRunner exitCode s =
     tcSignalFilter exitCode s tcFailSigs tcKeepSigs True 2 6 tcTestCtxBefore tcTestCtxAfter"

definition TCFamilyDiagnostics :: "int \<Rightarrow> string \<Rightarrow> string option" where
  "TCFamilyDiagnostics exitCode s = tcSignalFilter exitCode s tcDiagFailSigs tcDiagKeepSigs True 2 4 0 0"

end
