(* ===== verification/CondenseApply.thy ===== *)
theory CondenseApply
  imports Condense "HOL-Library.AList"
begin

text \<open>
  Model of \<open>condense_apply.go\<close>: the spill store, the gates of the condensation and the recall.
\<close>

definition TCSpillMaxBytes :: nat where "TCSpillMaxBytes = 64 * 1024 * 1024"

record TCStats =
  RawBytes :: nat
  FinalBytes :: nat
  Recognized :: bool
  Spilled :: bool
  Family :: string
  SpillRef :: string

text \<open>The process-wide counters, which wrap at 64 bits, and the snapshot read from them.\<close>

record TCCounters =
  tcRecognized :: int
  tcApplied :: int
  tcAppliedRaw :: int
  tcAppliedFinal :: int
  tcFamilyTest :: int
  tcFamilyDiag :: int
  tcRecovered :: int
  tcRecoveredBytes :: int

record TCTotals = TCCounters +
  SavedBytes :: int
  NetSavedBytes :: int

definition TCStatsSnapshot :: "TCCounters \<Rightarrow> TCTotals" where
  "TCStatsSnapshot c =
     (let saved = wrap64 (tcAppliedRaw c - tcAppliedFinal c)
      in TCCounters.extend c \<lparr> SavedBytes = saved, NetSavedBytes = wrap64 (saved - tcRecoveredBytes c) \<rparr>)"

definition zero_counters :: TCCounters where
  "zero_counters = \<lparr> tcRecognized = 0, tcApplied = 0, tcAppliedRaw = 0, tcAppliedFinal = 0, tcFamilyTest = 0,
     tcFamilyDiag = 0, tcRecovered = 0, tcRecoveredBytes = 0 \<rparr>"

definition TCStatsReset :: "TCCounters \<Rightarrow> TCCounters" where
  "TCStatsReset c = zero_counters"

section \<open>References\<close>

text \<open>Sixteen hexadecimal digits, padded with zeros.\<close>

definition hex16 :: "64 word \<Rightarrow> string" where
  "hex16 h = (let s = hex_str (unat h) in replicate (16 - length s) (CHR ''0'') @ s)"

definition tcHashRef :: "string \<Rightarrow> string \<Rightarrow> string" where
  "tcHashRef seed content =
     (let mix = (\<lambda>s h. fold (\<lambda>c h. fnv_byte h c) s h);
          h = mix seed 1469598103934665603;
          h = fnv_byte h (CHR 0x00);
          h = mix content h
      in ''tc-'' @ hex16 h)"

definition ref_char :: "char \<Rightarrow> bool" where
  "ref_char c \<longleftrightarrow> (CHR ''0'' \<le> c \<and> c \<le> CHR ''9'') \<or> (CHR ''a'' \<le> c \<and> c \<le> CHR ''f'')"

definition TCRefValid :: "string \<Rightarrow> bool" where
  "TCRefValid ref \<longleftrightarrow>
     (if \<not> has_prefix ref ''tc-'' then False
      else let h = drop 3 ref in length h = 16 \<and> list_all ref_char h)"

section \<open>The spill directory\<close>

record spill_file =
  fileContent :: string
  fileTime :: int
  fileRegular :: bool

type_synonym spill_dir = "(string \<times> spill_file) list"

text \<open>What the system does: the outcome of each call, the clock, the process id, and the order in which
  \<open>sort.Slice\<close> returns the entries (by age; it does not say which of two equals comes first).\<close>

record spill_env =
  readDirOK :: bool
  removeOK :: "string \<Rightarrow> bool"
  by_mtime :: "spill_dir \<Rightarrow> spill_dir"
  openOK :: bool
  writeOK :: bool
  syncOK :: bool
  closeOK :: bool
  renameOK :: bool
  readOK :: bool
  clock :: int
  getpid :: nat

definition has_suffix :: "string \<Rightarrow> string \<Rightarrow> bool" where
  "has_suffix s p \<longleftrightarrow> suffix p s"

fun evict_files :: "spill_env \<Rightarrow> nat \<Rightarrow> nat \<Rightarrow> spill_dir \<Rightarrow> spill_dir \<Rightarrow> spill_dir" where
  "evict_files env budget used [] dir = dir"
| "evict_files env budget used ((name, f) # files) dir =
     (if used \<le> budget then dir
      else if removeOK env name then evict_files env budget (used - length (fileContent f)) files (AList.delete name dir)
      else evict_files env budget used files dir)"

definition tcSpillEvict :: "spill_env \<Rightarrow> nat \<Rightarrow> spill_dir \<Rightarrow> spill_dir" where
  "tcSpillEvict env budget dir =
     (if \<not> readDirOK env then dir
      else let files = filter (\<lambda>(name, f). has_suffix name ''.out'' \<and> fileRegular f) dir;
               used = sum_list (map (\<lambda>(name, f). length (fileContent f)) files)
           in if used \<le> budget then dir else evict_files env budget used (by_mtime env files) dir)"

definition spill_name :: "string \<Rightarrow> string" where
  "spill_name ref = ref @ ''.out''"

definition temp_name :: "spill_env \<Rightarrow> string \<Rightarrow> string" where
  "temp_name env ref = ref @ ''.'' @ nat_str (getpid env) @ ''.tmp''"

text \<open>The directory after the call and whether the rename landed.\<close>

definition tcSpillWrite :: "spill_env \<Rightarrow> string \<Rightarrow> string \<Rightarrow> spill_dir \<Rightarrow> spill_dir \<times> bool" where
  "tcSpillWrite env ref content dir =
     (let tmp = temp_name env ref
      in if \<not> openOK env \<or> (case map_of dir tmp of None \<Rightarrow> False | Some f \<Rightarrow> \<not> fileRegular f) then (dir, False)
         else if \<not> writeOK env \<or> \<not> syncOK env \<or> \<not> closeOK env \<or> \<not> renameOK env then (AList.delete tmp dir, False)
         else (AList.update (spill_name ref) \<lparr> fileContent = content, fileTime = clock env, fileRegular = True \<rparr>
                 (AList.delete tmp dir), True))"

section \<open>Condensation\<close>

definition tcIsTestInvocation :: "TCRecoResult \<Rightarrow> bool" where
  "tcIsTestInvocation r \<longleftrightarrow>
     recoCmd r \<in> set [''pytest'', ''jest'', ''vitest'', ''mocha'', ''ctest'']
     \<or> (recoCmd r \<in> set [''cargo'', ''go'', ''npm'', ''yarn'', ''pnpm'', ''mvn'', ''gradle'', ''dotnet''] \<and> recoSub r = ''test'')"

definition tcIsDiagnosticsInvocation :: "TCRecoResult \<Rightarrow> bool" where
  "tcIsDiagnosticsInvocation r \<longleftrightarrow>
     (let cmd = recoCmd r; sub = recoSub r
      in if cmd \<in> set [''tsc'', ''eslint'', ''ruff'', ''mypy'', ''flake8'', ''gcc'', ''g++'', ''cc'', ''clang'', ''clang++'', ''rustc'', ''cmake'']
         then True
         else if cmd = ''cargo'' then sub \<in> set [''build'', ''check'', ''clippy'']
         else if cmd = ''go'' then sub \<in> set [''build'', ''vet'']
         else if cmd = ''dotnet'' then sub = ''build''
         else if cmd \<in> set [''npm'', ''yarn'', ''pnpm''] then sub \<in> set [''build'', ''lint'']
         else False)"

text \<open>The filter and the family of a recognized command.\<close>

definition condense_family :: "TCRecoResult \<Rightarrow> int \<Rightarrow> string \<Rightarrow> (string option \<times> string) option" where
  "condense_family reco exitCode raw =
     (if tcIsTestInvocation reco then Some (TCFamilyTestRunner exitCode raw, ''test'')
      else if tcIsDiagnosticsInvocation reco then Some (TCFamilyDiagnostics exitCode raw, ''diag'')
      else None)"

definition recovery_note :: "nat \<Rightarrow> string \<Rightarrow> string" where
  "recovery_note rawLen ref =
     newline # ''[output condensed by aimee '' @ [CHR 0xE2, CHR 0x80, CHR 0x94] @ '' '' @ nat_str rawLen
     @ '' bytes total; retrieve the full, unfiltered output with the tool_output_get tool, ref ''
     @ [CHR 0x22] @ ref @ [CHR 0x22] @ '', if you need a passing case or elided detail]''"

record cond_world =
  spills :: spill_dir
  totals :: TCCounters

definition applied_totals :: "string \<Rightarrow> nat \<Rightarrow> nat \<Rightarrow> TCCounters \<Rightarrow> TCCounters" where
  "applied_totals family rawLen finalLen c =
     c\<lparr> tcApplied := wrap64 (tcApplied c + 1), tcAppliedRaw := wrap64 (tcAppliedRaw c + int rawLen),
        tcAppliedFinal := wrap64 (tcAppliedFinal c + int finalLen),
        tcFamilyTest := (if family = ''test'' then wrap64 (tcFamilyTest c + 1) else tcFamilyTest c),
        tcFamilyDiag := (if family = ''diag'' then wrap64 (tcFamilyDiag c + 1) else tcFamilyDiag c) \<rparr>"

text \<open>From the filtered output on: the gain, the store, and the note. \<open>None\<close> is the passthrough.\<close>

definition condense_spill ::
  "spill_env \<Rightarrow> string \<Rightarrow> string \<Rightarrow> string \<Rightarrow> string \<Rightarrow> string \<Rightarrow> TCStats \<Rightarrow> cond_world \<Rightarrow> string option \<times> TCStats \<times> cond_world" where
  "condense_spill env cmdline raw cond family spillDir stats w =
     (let rawLen = length raw; condLen = length cond
      in if int rawLen - int condLen < 200 \<or> condLen * 100 > rawLen * 85 then (None, stats, w)
         else if spillDir = [] then (None, stats, w)
         else let ref = tcHashRef cmdline raw;
                  dir = tcSpillEvict env TCSpillMaxBytes (spills w);
                  (dir, ok) = tcSpillWrite env ref raw dir
              in if \<not> ok then (None, stats, w\<lparr> spills := dir \<rparr>)
                 else let final = cond @ recovery_note rawLen ref
                      in (Some final,
                          stats\<lparr> FinalBytes := length final, Spilled := True, Family := family, SpillRef := ref \<rparr>,
                          w\<lparr> spills := dir, totals := applied_totals family rawLen (length final) (totals w) \<rparr>))"

definition TCApply ::
  "spill_env \<Rightarrow> string \<Rightarrow> int \<Rightarrow> string \<Rightarrow> string \<Rightarrow> cond_world \<Rightarrow> string option \<times> TCStats \<times> cond_world" where
  "TCApply env cmdline exitCode raw spillDir w =
     (let stats = \<lparr> RawBytes = length raw, FinalBytes = length raw, Recognized = False, Spilled = False,
                    Family = [], SpillRef = [] \<rparr>
      in if raw = [] \<or> length raw > TCCeiling then (None, stats, w)
         else let reco = TCRecognize cmdline;
                  stats = stats\<lparr> Recognized := (Outcome reco = TCRecognized) \<rparr>
              in if Outcome reco \<noteq> TCRecognized then (None, stats, w)
                 else let w = w\<lparr> totals := (totals w)\<lparr> tcRecognized := wrap64 (tcRecognized (totals w) + 1) \<rparr> \<rparr>
                      in (case condense_family reco exitCode raw of
                            None \<Rightarrow> (None, stats, w)
                          | Some (None, _) \<Rightarrow> (None, stats, w)
                          | Some (Some cond, family) \<Rightarrow> condense_spill env cmdline raw cond family spillDir stats w))"

text \<open>\<open>None\<close> is an error: an invalid reference or an expired spill.\<close>

definition TCRecall :: "spill_env \<Rightarrow> string \<Rightarrow> string \<Rightarrow> cond_world \<Rightarrow> string option \<times> cond_world" where
  "TCRecall env spillDir ref w =
     (if spillDir = [] \<or> \<not> TCRefValid ref then (None, w)
      else (case map_of (spills w) (spill_name ref) of
              None \<Rightarrow> (None, w)
            | Some f \<Rightarrow>
                if \<not> fileRegular f \<or> \<not> openOK env \<or> \<not> readOK env \<or> length (fileContent f) > TCCeiling then (None, w)
                else (Some (fileContent f),
                      w\<lparr> totals := (totals w)\<lparr> tcRecovered := wrap64 (tcRecovered (totals w) + 1),
                           tcRecoveredBytes := wrap64 (tcRecoveredBytes (totals w) + int (length (fileContent f))) \<rparr> \<rparr>)))"

end
