(* ===== verification/CondenseLaws.thy ===== *)
theory CondenseLaws
  imports CondenseApply
begin

text \<open>
  Laws of the condensation: what the line filters keep and how they account for what they drop, that a
  condensed output can be recalled in full, and what the recognizer does not look at.
\<close>

section \<open>What a filter keeps\<close>

text \<open>A line that must stay: at the head or the tail, with a keep signal, or in the block of a failure.\<close>

definition must_stay :: "nat \<Rightarrow> nat \<Rightarrow> nat \<Rightarrow> nat \<Rightarrow> string list \<Rightarrow> string list \<Rightarrow> string list \<Rightarrow> nat \<Rightarrow> bool" where
  "must_stay head tail ctxBefore ctxAfter failSigs keepSigs lines i \<longleftrightarrow>
     i < head \<or> length lines \<le> i + tail \<or> lineHasAny (lines ! i) keepSigs
     \<or> (\<exists>j < length lines. lineHasAny (lines ! j) failSigs \<and> j \<le> i + ctxBefore \<and> i \<le> j + ctxAfter)"

text \<open>The output accounts for the lines: each is there, or lies in a run that a marker counts and that
  holds no line that must stay.\<close>

inductive accounts :: "(nat \<Rightarrow> bool) \<Rightarrow> string list \<Rightarrow> (nat \<times> string) list \<Rightarrow> bool" for stays where
  nothing: "accounts stays [] []"
| kept: "accounts stays out ls \<Longrightarrow> accounts stays (l # out) ((i, l) # ls)"
| elided: "run \<noteq> [] \<Longrightarrow> list_all (\<lambda>(i, l). \<not> stays i) run \<Longrightarrow> accounts stays out ls
    \<Longrightarrow> accounts stays (elided_marker (length run) # out) (run @ ls)"

lemma length_fold_update [simp]: "length (fold (\<lambda>j keep. keep[j := True]) js keep) = length keep"
  by (induction js arbitrary: keep) simp_all

lemma nth_fold_update:
  "i < length keep \<Longrightarrow> fold (\<lambda>j keep. keep[j := True]) js keep ! i \<longleftrightarrow> i \<in> set js \<or> keep ! i"
proof (induction js arbitrary: keep)
  case (Cons a js)
  have "keep[a := True] ! i \<longleftrightarrow> i = a \<or> keep ! i" using Cons.prems by (cases "a = i") auto
  then show ?case using Cons by auto
qed simp

definition marks :: "nat \<Rightarrow> nat \<Rightarrow> nat \<Rightarrow> nat \<Rightarrow> nat \<Rightarrow> string list \<Rightarrow> string list \<Rightarrow> nat \<times> string \<Rightarrow> nat \<Rightarrow> bool" where
  "marks n head tail ctxBefore ctxAfter failSigs keepSigs il j \<longleftrightarrow> (case il of (i, l) \<Rightarrow>
     (j = i \<and> (i < head \<or> n \<le> i + tail \<or> lineHasAny l keepSigs))
     \<or> (lineHasAny l failSigs \<and> i \<le> j + ctxBefore \<and> j \<le> i + ctxAfter))"

lemma mark_line_nth:
  assumes "length keep = n" "j < n"
  shows "length (mark_line n head tail b a failSigs keepSigs il keep) = n"
    "mark_line n head tail b a failSigs keepSigs il keep ! j \<longleftrightarrow>
       marks n head tail b a failSigs keepSigs il j \<or> keep ! j"
proof -
  obtain i l where il: "il = (i, l)" by (cases il)
  show "length (mark_line n head tail b a failSigs keepSigs il keep) = n"
    using assms by (simp add: mark_line_def il Let_def)
  have "j \<in> set [i - b..<Suc (min (i + a) (n - 1))] \<longleftrightarrow> i \<le> j + b \<and> j \<le> i + a"
    using assms(2) by auto
  then show "mark_line n head tail b a failSigs keepSigs il keep ! j \<longleftrightarrow>
       marks n head tail b a failSigs keepSigs il j \<or> keep ! j"
    using assms by (cases "i = j") (auto simp: mark_line_def marks_def il Let_def nth_fold_update)
qed

lemma fold_mark_nth:
  assumes "length keep = n" "j < n"
  shows "length (fold (mark_line n head tail b a failSigs keepSigs) ils keep) = n
    \<and> (fold (mark_line n head tail b a failSigs keepSigs) ils keep ! j \<longleftrightarrow>
        (\<exists>il \<in> set ils. marks n head tail b a failSigs keepSigs il j) \<or> keep ! j)"
  using assms
proof (induction ils arbitrary: keep)
  case (Cons il ils)
  let ?k = "mark_line n head tail b a failSigs keepSigs il keep"
  note step = mark_line_nth [OF Cons.prems, of head tail b a failSigs keepSigs il]
  show ?case using Cons.IH [OF step(1) Cons.prems(2)] step(2) by (simp only: fold_simps list.set) blast
qed simp

lemma mark_lines_nth:
  assumes "i < length lines"
  shows "mark_lines head tail b a failSigs keepSigs lines ! i \<longleftrightarrow> must_stay head tail b a failSigs keepSigs lines i"
proof -
  have "mark_lines head tail b a failSigs keepSigs lines ! i \<longleftrightarrow>
      (\<exists>il \<in> set (enumerate 0 lines). marks (length lines) head tail b a failSigs keepSigs il i)"
    using fold_mark_nth [of "replicate (length lines) False" "length lines" i] assms
    by (simp add: mark_lines_def)
  also have "\<dots> \<longleftrightarrow> (\<exists>j < length lines. marks (length lines) head tail b a failSigs keepSigs (j, lines ! j) i)"
    by (force simp: in_set_enumerate_eq)
  also have "\<dots> \<longleftrightarrow> must_stay head tail b a failSigs keepSigs lines i"
    using assms by (auto simp: marks_def must_stay_def)
  finally show ?thesis .
qed

lemma length_mark_lines [simp]: "length (mark_lines head tail b a failSigs keepSigs lines) = length lines"
proof (cases lines)
  case (Cons l ls)
  then show ?thesis
    unfolding mark_lines_def by (intro fold_mark_nth [where j = 0, THEN conjunct1]) simp_all
qed (simp add: mark_lines_def)

text \<open>The elision of a run that was begun.\<close>

lemma elide_accounts:
  assumes "list_all (\<lambda>(i, l). \<not> stays i) run" "map fst ks = map (stays \<circ> fst) ils" "map snd ks = map snd ils"
  shows "accounts stays (elide (length run) ks) (run @ ils)"
  using assms
proof (induction "length run" ks arbitrary: run ils rule: elide.induct)
  case 1
  then show ?case
    using elided [of run stays "[]" "[]"] by (cases "run = []") (auto simp: flush_def intro: accounts.intros)
next
  case (2 keep l ks)
  obtain i ils' where ils: "ils = (i, l) # ils'" "keep = stays i" using 2 by (cases ils) auto
  show ?case
  proof (cases keep)
    case True
    have "accounts stays (elide (length []) ks) ([] @ ils')"
      using 2(1) [OF True, of "[]" ils'] 2(4,5) ils by simp
    then have "accounts stays (l # elide 0 ks) ils" using ils by (auto intro: kept)
    then show ?thesis
      using elided [of run stays "l # elide 0 ks" ils] 2 True by (cases "run = []") (auto simp: flush_def)
  next
    case False
    have "accounts stays (elide (length (run @ [(i, l)])) ks) ((run @ [(i, l)]) @ ils')"
      using 2(2) [OF False, of "run @ [(i, l)]" ils'] 2(3-5) ils False by simp
    then show ?thesis using False ils by simp
  qed
qed


lemma split_on_no_delim: "l \<in> set (split_on d s) \<Longrightarrow> d \<notin> set l"
proof (induction d s arbitrary: l rule: split_on.induct)
  case (2 d c s)
  then show ?case by (auto split: list.splits if_splits)
qed simp

lemma split_on_free: "d \<notin> set l \<Longrightarrow> split_on d l = [l]"
  by (induction l) auto

lemma split_on_append: "d \<notin> set l \<Longrightarrow> split_on d (l @ d # s) = l # split_on d s"
  by (induction l) auto

lemma split_join: "outs \<noteq> [] \<Longrightarrow> (\<And>l. l \<in> set outs \<Longrightarrow> d \<notin> set l) \<Longrightarrow> split_on d (join_with d outs) = outs"
proof (induction d outs rule: join_with.induct)
  case (2 d l)
  then show ?case using split_on_free by simp
next
  case (3 d l l' ls)
  then show ?case using split_on_append [of d l "join_with d (l' # ls)"] by simp
qed simp

lemma marker_no_newline: "newline \<notin> set (elided_marker n)"
proof
  assume "newline \<in> set (elided_marker n)"
  then have "newline \<in> set (nat_str n)" by (auto simp: elided_marker_def)
  then show False using nat_str_digits [of newline n] by (simp add: byte_def)
qed

lemma elide_set: "l \<in> set (elide e ks) \<Longrightarrow> (\<exists>n. l = elided_marker n) \<or> l \<in> snd ` set ks"
  by (induction e ks rule: elide.induct) (auto simp: flush_def split: if_splits)

lemma elide_nonempty: "e > 0 \<or> ks \<noteq> [] \<Longrightarrow> elide e ks \<noteq> []"
  by (induction e ks rule: elide.induct) (auto simp: flush_def)

lemma kept_in_elide: "(True, l) \<in> set ks \<Longrightarrow> l \<in> set (elide e ks)"
  by (induction e ks rule: elide.induct) auto

lemma splitLines_filtered:
  assumes "length ks = length (splitLines s)"
  shows "splitLines (join_with newline (elide 0 (zip ks (splitLines s)))) = elide 0 (zip ks (splitLines s))"
proof -
  have "zip ks (splitLines s) \<noteq> []" using assms by (cases ks; cases "splitLines s") (auto simp: splitLines_def)
  then have "elide 0 (zip ks (splitLines s)) \<noteq> []" using elide_nonempty by blast
  moreover have "newline \<notin> set l" if "l \<in> set (elide 0 (zip ks (splitLines s)))" for l
    using elide_set [OF that] marker_no_newline split_on_no_delim [of l newline s]
    by (auto simp: splitLines_def dest: set_zip_rightD)
  ultimately show ?thesis using split_join unfolding splitLines_def by blast
qed

text \<open>C15: the filter hides nothing that matters. It declines exactly when the command failed and no line
  shows a failure (and that is asked for); otherwise its output accounts for the input line by line, in
  order: every line is there or lies in a run that a marker counts, and no run holds a line of the head
  or the tail, a line with a keep signal, or a line of the block around a failure; in particular a
  failed command keeps a line that shows the failure.\<close>

theorem tcSignalFilter_accounts:
  "case tcSignalFilter exitCode s failSigs keepSigs required head tail b a of
     None \<Rightarrow> required \<and> exitCode \<noteq> 0 \<and> filter (\<lambda>l. lineHasAny l failSigs) (splitLines s) = []
   | Some out \<Rightarrow> accounts (must_stay head tail b a failSigs keepSigs (splitLines s)) (splitLines out) (enumerate 0 (splitLines s))
       \<and> (if required \<and> exitCode \<noteq> 0 then filter (\<lambda>l. lineHasAny l failSigs) (splitLines out) \<noteq> [] else True)"
proof -
  let ?lines = "splitLines s" and ?marks = "mark_lines head tail b a failSigs keepSigs (splitLines s)"
  let ?stays = "must_stay head tail b a failSigs keepSigs ?lines"
  let ?out = "elide 0 (zip ?marks ?lines)"
  have marks: "?marks = map ?stays [0..<length ?lines]"
    by (rule nth_equalityI) (simp_all add: mark_lines_nth)
  have "map fst (zip ?marks ?lines) = map (?stays \<circ> fst) (enumerate 0 ?lines)"
    by (simp add: marks enumerate_eq_zip flip: map_map)
  then have acc: "accounts ?stays ?out (enumerate 0 ?lines)"
    using elide_accounts [of ?stays "[]" "zip ?marks ?lines" "enumerate 0 ?lines"] by simp
  have split: "splitLines (join_with newline ?out) = ?out" by (rule splitLines_filtered) simp
  have "filter (\<lambda>l. lineHasAny l failSigs) ?out \<noteq> []" if fail: "list_ex (\<lambda>l. lineHasAny l failSigs) ?lines"
  proof -
    obtain i where i: "i < length ?lines" "lineHasAny (?lines ! i) failSigs"
      using fail by (auto simp: list_ex_length)
    then have "?stays i" by (auto simp: must_stay_def)
    then have "(True, ?lines ! i) \<in> set (zip ?marks ?lines)"
      using i(1) by (force simp: set_zip marks)
    then show ?thesis using kept_in_elide i(2) by (force simp: filter_empty_conv)
  qed
  then show ?thesis
    using acc split by (auto simp: tcSignalFilter_def Let_def filter_empty_conv list_ex_iff split: if_splits)
qed


section \<open>The full output comes back\<close>

lemma hex16_shape: "length (hex16 h) = 16" "list_all ref_char (hex16 h)"
proof -
  have "unat h < 2 ^ LENGTH(64)" by (rule unsigned_less)
  then have "length (hex_str (unat h)) \<le> 16" using length_to_base [of 16 "unat h" 15] by (simp add: hex_str_def)
  then show "length (hex16 h) = 16" by (simp add: hex16_def Let_def)
  have "ref_char c" if c: "c \<in> set (hex_str n)" for c n
  proof -
    obtain d where d: "d < 16" "c = digit_char d"
      using c to_base_digits [of 16 _ n] by (auto simp: hex_str_def)
    then show ?thesis
      by (auto simp: ref_char_def char_le_byte byte_digit_char) (auto simp: byte_def)
  qed
  then show "list_all ref_char (hex16 h)"
    by (auto simp: hex16_def Let_def list_all_iff ref_char_def)
qed

lemma TCRefValid_hash: "TCRefValid (tcHashRef seed content)"
  by (simp add: TCRefValid_def tcHashRef_def Let_def hex16_shape has_prefix_def)

lemma length_recovery_note:
  assumes "length ref = 19" "n \<le> TCCeiling"
  shows "length (recovery_note n ref) \<le> 193"
proof -
  have "length (nat_str n) \<le> 7" using length_to_base [of 10 n 6] assms(2) by (simp add: nat_str_def TCCeiling_def)
  then show ?thesis using assms(1) by (simp add: recovery_note_def)
qed

lemma evict_subset: "map_of (evict_files env budget used files dir) name \<in> {None, map_of dir name}"
proof (induction env budget used files dir rule: evict_files.induct)
  case (2 env budget used n f files dir)
  have "map_of (AList.delete n dir) name \<in> {None, map_of dir name}" by (simp add: delete_conv')
  with 2 show ?case by auto
qed simp

lemma tcSpillEvict_subset: "map_of (tcSpillEvict env budget dir) name \<in> {None, map_of dir name}"
  using evict_subset [of env budget _ _ dir name] by (auto simp: tcSpillEvict_def Let_def)

lemma tcSpillWrite_ok:
  assumes "tcSpillWrite env ref content dir = (dir', True)"
  shows "map_of dir' (spill_name ref) = Some \<lparr> fileContent = content, fileTime = clock env, fileRegular = True \<rparr>"
    "name \<noteq> spill_name ref \<Longrightarrow> map_of dir' name \<in> {None, map_of dir name}"
  using assms by (auto simp: tcSpillWrite_def Let_def update_conv' delete_conv' split: if_splits)

text \<open>A condensed output: what the filter kept, the note, and the raw output in the store.\<close>

lemma TCApply_SomeE:
  assumes "TCApply env cmdline exitCode raw spillDir w = (Some final, stats, w')"
  obtains cond where
    "condense_family (TCRecognize cmdline) exitCode raw = Some (Some cond, Family stats)"
    "int (length raw) - int (length cond) \<ge> 200" "length cond * 100 \<le> length raw * 85"
    "spillDir \<noteq> []" "length raw \<le> TCCeiling"
    "tcSpillWrite env (SpillRef stats) raw (tcSpillEvict env TCSpillMaxBytes (spills w)) = (spills w', True)"
    "final = cond @ recovery_note (length raw) (SpillRef stats)" "SpillRef stats = tcHashRef cmdline raw"
    "FinalBytes stats = length final" "RawBytes stats = length raw"
proof -
  obtain cond family stats0 w0 where fam: "condense_family (TCRecognize cmdline) exitCode raw = Some (Some cond, family)"
    and spill: "condense_spill env cmdline raw cond family spillDir stats0 w0 = (Some final, stats, w')"
    and rest: "RawBytes stats0 = length raw" "spills w0 = spills w" "length raw \<le> TCCeiling"
    using assms by (auto simp: TCApply_def Let_def split: if_splits option.splits prod.splits)
  show ?thesis
    by (rule that [of cond]) (use fam spill rest in \<open>auto simp: condense_spill_def Let_def split: if_splits prod.splits\<close>)
qed

lemma TCApply_recall:
  assumes "TCApply env cmdline exitCode raw spillDir w = (Some final, stats, w')" "openOK env'" "readOK env'"
    "dir \<noteq> []" "spills w'' = spills w'"
  shows "TCRefValid (SpillRef stats)" "fst (TCRecall env' dir (SpillRef stats) w'') = Some raw"
  using assms(1)
proof (atomize (full), elim TCApply_SomeE)
  fix cond assume "tcSpillWrite env (SpillRef stats) raw (tcSpillEvict env TCSpillMaxBytes (spills w)) = (spills w', True)"
    "SpillRef stats = tcHashRef cmdline raw" "length raw \<le> TCCeiling"
  then show "TCRefValid (SpillRef stats) \<and> fst (TCRecall env' dir (SpillRef stats) w'') = Some raw"
    using tcSpillWrite_ok(1) assms(2-5) by (fastforce simp: TCRecall_def TCRefValid_hash)
qed

text \<open>C16: nothing is dropped without a way back. A condensed output is shorter than the raw one, counts what
  it says, and consists of what the filter of its family kept and the note with the reference, where
  the gate holds: what was kept is at least 200 bytes shorter than the raw output and at most 85 percent
  of it; and recalling that reference from the store gives the raw output, byte for byte,
  while no other file of the store has changed except by eviction. A declined condensation says that
  the raw output is final.\<close>

theorem TCApply_lossless:
  assumes "TCApply env cmdline exitCode raw spillDir w = (r, stats, w')" "openOK env'" "readOK env'"
  shows "case r of
      None \<Rightarrow> FinalBytes stats = length raw \<and> \<not> Spilled stats
    | Some final \<Rightarrow> length final < length raw \<and> FinalBytes stats = length final \<and> RawBytes stats = length raw
        \<and> fst (TCRecall env' spillDir (SpillRef stats) w') = Some raw
        \<and> (\<exists>cond. condense_family (TCRecognize cmdline) exitCode raw = Some (Some cond, Family stats)
              \<and> final = cond @ recovery_note (length raw) (SpillRef stats)
              \<and> length raw \<ge> length cond + 200 \<and> length cond * 100 \<le> length raw * 85)
        \<and> (if name = spill_name (SpillRef stats) then True else map_of (spills w') name \<in> {None, map_of (spills w) name})"
proof (cases r)
  case None
  then show ?thesis
    using assms(1) by (auto simp: TCApply_def condense_spill_def Let_def split: if_splits option.splits prod.splits)
next
  case (Some final)
  have run: "TCApply env cmdline exitCode raw spillDir w = (Some final, stats, w')" using assms(1) Some by simp
  then obtain cond where fam: "condense_family (TCRecognize cmdline) exitCode raw = Some (Some cond, Family stats)"
    and gain: "int (length raw) - int (length cond) \<ge> 200" "spillDir \<noteq> []" "length raw \<le> TCCeiling"
      "length cond * 100 \<le> length raw * 85"
    and wr: "tcSpillWrite env (SpillRef stats) raw (tcSpillEvict env TCSpillMaxBytes (spills w)) = (spills w', True)"
    and out: "final = cond @ recovery_note (length raw) (SpillRef stats)" "SpillRef stats = tcHashRef cmdline raw"
      "FinalBytes stats = length final" "RawBytes stats = length raw"
    by (elim TCApply_SomeE)
  have "length (SpillRef stats) = 19" using out(2) by (simp add: tcHashRef_def Let_def hex16_shape)
  from length_recovery_note [OF this gain(3)] have "length final < length raw" using gain(1) out(1) by simp
  moreover have "fst (TCRecall env' spillDir (SpillRef stats) w') = Some raw"
    using TCApply_recall(2) [OF run assms(2,3) gain(2)] by simp
  moreover have "map_of (spills w') name \<in> {None, map_of (spills w) name}" if "name \<noteq> spill_name (SpillRef stats)"
    using tcSpillWrite_ok(2) [OF wr that] tcSpillEvict_subset [of env TCSpillMaxBytes "spills w" name] by auto
  moreover have "length raw \<ge> length cond + 200" using gain(1) by linarith
  ultimately show ?thesis using Some fam out gain(4) by auto
qed

section \<open>What follows a redirect\<close>

lemma tok_word_redirect:
  "CHR 0x22 \<notin> set s \<Longrightarrow> CHR 0x27 \<notin> set s
    \<Longrightarrow> tok_word (s @ CHR ''>'' # rest) = (fst (tok_word s), snd (tok_word s) @ CHR ''>'' # rest)"
  by (induction s rule: tok_word.induct) (auto simp: split_beta)

lemma tok_word_rest: "set (snd (tok_word s)) \<subseteq> set s"
proof (induction s rule: tok_word.induct)
  case (2 c s)
  then show ?case by (auto simp: split_beta dest!: in_set_dropD set_dropWhileD)
qed simp

lemma dropWhile_Cons_append: "dropWhile P s = c # r \<Longrightarrow> dropWhile P (s @ x) = c # r @ x"
  by (induction s) (auto split: if_splits)

lemma tok_loop_redirect_step:
  assumes "CHR 0x22 \<notin> set s" "CHR 0x27 \<notin> set s" and c: "dropWhile (\<lambda>c. c = CHR '' '' \<or> c = CHR 0x09) s = c # r"
  shows "tok_loop n (s @ CHR ''>'' # x) =
    (if c \<in> set ''|;&`'' \<or> c = newline then None
     else if c = CHR ''$'' \<and> r \<noteq> [] \<and> hd r = CHR ''('' then None
     else if c = CHR ''<'' \<or> c = CHR ''>'' then Some []
     else (case n of 0 \<Rightarrow> Some []
           | Suc n \<Rightarrow> map_option (Cons (fst (tok_word (c # r)))) (tok_loop n (snd (tok_word (c # r)) @ CHR ''>'' # x))))"
proof -
  have "set (c # r) \<subseteq> set s" using c set_dropWhileD by (metis subsetI)
  then have "tok_word ((c # r) @ CHR ''>'' # x) = (fst (tok_word (c # r)), snd (tok_word (c # r)) @ CHR ''>'' # x)"
    using assms by (intro tok_word_redirect) auto
  then have t: "tok_word (c # r @ CHR ''>'' # x) = (fst (tok_word (c # r)), snd (tok_word (c # r)) @ CHR ''>'' # x)"
    by (simp only: append_Cons)
  have h: "(r @ CHR ''>'' # x \<noteq> [] \<and> hd (r @ CHR ''>'' # x) = CHR ''('') \<longleftrightarrow> (r \<noteq> [] \<and> hd r = CHR ''('')"
    by (cases r) auto
  show ?thesis
    unfolding tok_loop.simps [of n "s @ CHR ''>'' # x"] dropWhile_Cons_append [OF c] list.case t h Let_def prod.case ..
qed

lemma tok_loop_redirect:
  "CHR 0x22 \<notin> set s \<Longrightarrow> CHR 0x27 \<notin> set s
    \<Longrightarrow> tok_loop n (s @ CHR ''>'' # rest) = tok_loop n (s @ ''>'')"
proof (induction n arbitrary: s)
  case 0
  show ?case
  proof (cases "dropWhile (\<lambda>c. c = CHR '' '' \<or> c = CHR 0x09) s")
    case Nil
    then show ?thesis by (simp add: tok_loop.simps [of 0] dropWhile_append)
  next
    case (Cons c r)
    show ?thesis unfolding tok_loop_redirect_step [OF 0 Cons] by simp
  qed
next
  case (Suc n)
  show ?case
  proof (cases "dropWhile (\<lambda>c. c = CHR '' '' \<or> c = CHR 0x09) s")
    case Nil
    then show ?thesis by (simp add: tok_loop.simps [of "Suc n"] dropWhile_append)
  next
    case (Cons c r)
    have "set (c # r) \<subseteq> set s" using Cons set_dropWhileD by (metis subsetI)
    then have "tok_loop n (snd (tok_word (c # r)) @ CHR ''>'' # rest) = tok_loop n (snd (tok_word (c # r)) @ ''>'')"
      using Suc.prems tok_word_rest [of "c # r"] by (intro Suc.IH) auto
    then show ?thesis unfolding tok_loop_redirect_step [OF Suc.prems Cons] nat.case by (simp only:)
  qed
qed

text \<open>Nothing behind a redirect is looked at. For a command line without quotes up to its first
  redirect, the verdict is the same whatever follows it, a pipe or a second command included, although
  such a line is compound and its output cannot be attributed to the first command.\<close>

theorem redirect_hides_rest:
  assumes "CHR 0x22 \<notin> set s" "CHR 0x27 \<notin> set s"
  shows "TCRecognize (s @ CHR ''>'' # rest) = TCRecognize (s @ ''>'')"
  by (simp add: TCRecognize_def tcTokenize_def tok_loop_redirect [OF assms, of TCMaxTok rest])

theorem redirect_hides_rest_witness:
  "Outcome (TCRecognize ''go test ./... 2>&1 | sort; cat log'') = TCRecognized
   \<and> Outcome (TCRecognize ''go test ./... | sort; cat log'') = TCUnrecognized"
proof -
  have "TCRecognize ''go test ./... 2>&1 | sort; cat log'' = TCRecognize ''go test ./... 2>''"
    using redirect_hides_rest [of "''go test ./... 2''" "''&1 | sort; cat log''"] by simp
  moreover have "Outcome (TCRecognize ''go test ./... 2>'') = TCRecognized" by code_simp
  moreover have "Outcome (TCRecognize ''go test ./... | sort; cat log'') = TCUnrecognized" by code_simp
  ultimately show ?thesis by simp
qed

section \<open>A condensation\<close>

definition quiet_env :: spill_env where
  "quiet_env = \<lparr> readDirOK = True, removeOK = (\<lambda>name. True), by_mtime = (\<lambda>files. sort_key (\<lambda>(name, f). fileTime f) files),
     openOK = True, writeOK = True, syncOK = True, closeOK = True, renameOK = True, readOK = True, clock = 0, getpid = 1 \<rparr>"

definition quiet_world :: cond_world where
  "quiet_world = \<lparr> spills = [], totals = zero_counters \<rparr>"

text \<open>Forty lines of a test runner that passed.\<close>

definition long_output :: string where
  "long_output = concat (replicate 40 (''aaaaaaaaaa'' @ [newline]))"

lemma long_output_condensed:
  "map_option length (TCFamilyTestRunner 0 long_output) = Some 101" "length long_output = 440"
  by code_simp+

lemma sample_apply: "\<exists>final stats w'. TCApply quiet_env ''pytest'' 0 long_output ''/spill'' quiet_world = (Some final, stats, w')"
proof -
  obtain cond where cond: "TCFamilyTestRunner 0 long_output = Some cond" "length cond = 101"
    using long_output_condensed(1) by auto
  have reco: "TCRecognize ''pytest'' = \<lparr> Outcome = TCRecognized, recoCmd = ''pytest'', recoSub = [] \<rparr>" by code_simp
  then have fam: "condense_family (TCRecognize ''pytest'') 0 long_output = Some (Some cond, ''test'')"
    using cond by (simp add: condense_family_def tcIsTestInvocation_def)
  obtain r stats w' where run: "TCApply quiet_env ''pytest'' 0 long_output ''/spill'' quiet_world = (r, stats, w')"
    by (cases "TCApply quiet_env ''pytest'' 0 long_output ''/spill'' quiet_world")
  have "long_output \<noteq> []" using long_output_condensed(2) by auto
  then have "r \<noteq> None"
    using run reco fam cond long_output_condensed(2)
    by (auto simp: TCApply_def Let_def condense_spill_def quiet_env_def quiet_world_def tcSpillWrite_def tcSpillEvict_def
        TCCeiling_def)
  with run show ?thesis by auto
qed

theorem TCApply_lossless_witness:
  "\<exists>final stats w'. TCApply quiet_env ''pytest'' 0 long_output ''/spill'' quiet_world = (Some final, stats, w')
     \<and> length final < 440 \<and> fst (TCRecall quiet_env ''/spill'' (SpillRef stats) w') = Some long_output"
proof -
  obtain final stats w' where run: "TCApply quiet_env ''pytest'' 0 long_output ''/spill'' quiet_world = (Some final, stats, w')"
    using sample_apply by blast
  with TCApply_lossless [OF run, of quiet_env] long_output_condensed(2) show ?thesis
    by (auto simp: quiet_env_def)
qed

end
