(* ===== verification/CostProof.thy ===== *)
theory CostProof
  imports Prelude "HOL-Library.Word"
begin

text \<open>
  \<open>proof.go\<close>: when a request transform may be applied. A transform is authorized only when it is
  provably and strictly cheaper in an exhaustive set of scenarios, against a verified registry; all
  that is not proven is indeterminate. \<open>Money\<close> and the identifiers keep their machine width, so the
  overflow checks of the code are the ones of the model. A nil \<open>*Proof\<close> is \<open>None\<close>.
\<close>

section \<open>Fixed-width money\<close>

type_synonym Money = "64 word"

definition MaxInt64 :: Money where "MaxInt64 = 0x7FFFFFFFFFFFFFFF"
definition MinInt64 :: Money where "MinInt64 = 0x8000000000000000"

lemma sint_limits [simp]: "sint MaxInt64 = 2 ^ 63 - 1" "sint MinInt64 = - (2 ^ 63)"
  by (simp_all add: MaxInt64_def MinInt64_def)

lemma sint64_range: "- (2 ^ 63) \<le> sint (a :: 64 word)" "sint (a :: 64 word) < 2 ^ 63"
  using sint_greater_eq [of a] sint_less [of a] by simp_all

lemma sint64_is_i64 [simp]: "is_i64 (sint (a :: 64 word))"
  using sint64_range [of a] by (simp add: is_i64_def)

lemma sint_of_int64 [simp]: "is_i64 z \<Longrightarrow> sint (word_of_int z :: 64 word) = z"
  by (simp add: is_i64_def signed_of_int signed_take_bit_int_eq_self)

lemma sint_add64: "is_i64 (sint a + sint b) \<Longrightarrow> sint (a + b :: 64 word) = sint a + sint b"
  using sint_of_int64 [of "sint a + sint b"] by simp

lemma sint_sub64: "is_i64 (sint a - sint b) \<Longrightarrow> sint (a - b :: 64 word) = sint a - sint b"
  using sint_of_int64 [of "sint a - sint b"] by simp

lemma sint_mult64: "is_i64 (sint a * sint b) \<Longrightarrow> sint (a * b :: 64 word) = sint a * sint b"
  using sint_of_int64 [of "sint a * sint b"] by simp

lemma sint_nonneg_uint: "0 \<le> sint (a :: 64 word) \<Longrightarrow> uint a = sint a"
  using sint64_range [of a] by (simp add: uint_sint take_bit_int_eq_self)

definition moneyAdd :: "Money \<Rightarrow> Money \<Rightarrow> Money option" where
  "moneyAdd a b =
     (if 0 <s b \<and> MaxInt64 - b <s a then None
      else if b <s 0 \<and> a <s MinInt64 - b then None
      else Some (a + b))"

lemma moneyAdd_exact:
  "moneyAdd a b = (if is_i64 (sint a + sint b) then Some (a + b) else None)"
proof -
  have "0 <s b \<Longrightarrow> sint (MaxInt64 - b) = 2 ^ 63 - 1 - sint b"
    using sint64_range [of b] by (subst sint_sub64) (auto simp: is_i64_def word_sless_alt)
  moreover have "b <s 0 \<Longrightarrow> sint (MinInt64 - b) = - (2 ^ 63) - sint b"
    using sint64_range [of b] by (subst sint_sub64) (auto simp: is_i64_def word_sless_alt)
  ultimately show ?thesis
    using sint64_range [of a] sint64_range [of b]
    by (auto simp: moneyAdd_def is_i64_def word_sless_alt)
qed

section \<open>Vocabulary\<close>

datatype Decision = PassThrough | Intervene | Indeterminate

fun Decision_String :: "Decision \<Rightarrow> string" where
  "Decision_String PassThrough = ''pass_through''"
| "Decision_String Intervene = ''intervene''"
| "Decision_String Indeterminate = ''indeterminate''"

datatype Reason =
    ReasonNone | ReasonInvalidArgument | ReasonInvalidIdentity | ReasonInvalidScenarioCount
  | ReasonInvalidScenarioCoverage | ReasonInvalidMoneyBound | ReasonMoneyOverflow
  | ReasonRegistryUnverified | ReasonRegistryStale | ReasonRegistryAbsent | ReasonNotStrictlyCheaper
  | ReasonUnsupportedEndpoint | ReasonModelNotPinned | ReasonTokenizerNotLocalExact
  | ReasonRemoteTokenCount | ReasonRemoteTokenCountUnpriced | ReasonInvalidRequestShape
  | ReasonUnsupportedCacheLayout | ReasonInvalidCacheControl | ReasonProtectedPrefixUnproven
  | ReasonTokenGuardBand | ReasonOutputBoundUnavailable | ReasonPricingUnavailable
  | ReasonProofAccepted

fun reasonNames :: "Reason \<Rightarrow> string" where
  "reasonNames ReasonNone = ''none''"
| "reasonNames ReasonInvalidArgument = ''invalid_argument''"
| "reasonNames ReasonInvalidIdentity = ''invalid_identity''"
| "reasonNames ReasonInvalidScenarioCount = ''invalid_scenario_count''"
| "reasonNames ReasonInvalidScenarioCoverage = ''invalid_scenario_coverage''"
| "reasonNames ReasonInvalidMoneyBound = ''invalid_money_bound''"
| "reasonNames ReasonMoneyOverflow = ''money_overflow''"
| "reasonNames ReasonRegistryUnverified = ''registry_unverified''"
| "reasonNames ReasonRegistryStale = ''registry_stale''"
| "reasonNames ReasonRegistryAbsent = ''registry_absent''"
| "reasonNames ReasonNotStrictlyCheaper = ''not_strictly_cheaper''"
| "reasonNames ReasonUnsupportedEndpoint = ''unsupported_endpoint''"
| "reasonNames ReasonModelNotPinned = ''model_not_pinned''"
| "reasonNames ReasonTokenizerNotLocalExact = ''tokenizer_not_local_exact''"
| "reasonNames ReasonRemoteTokenCount = ''remote_token_count''"
| "reasonNames ReasonRemoteTokenCountUnpriced = ''remote_token_count_unpriced''"
| "reasonNames ReasonInvalidRequestShape = ''invalid_request_shape''"
| "reasonNames ReasonUnsupportedCacheLayout = ''unsupported_cache_layout''"
| "reasonNames ReasonInvalidCacheControl = ''invalid_cache_control''"
| "reasonNames ReasonProtectedPrefixUnproven = ''protected_prefix_unproven''"
| "reasonNames ReasonTokenGuardBand = ''token_guard_band''"
| "reasonNames ReasonOutputBoundUnavailable = ''output_bound_unavailable''"
| "reasonNames ReasonPricingUnavailable = ''pricing_unavailable''"
| "reasonNames ReasonProofAccepted = ''proof_accepted''"

text \<open>\<open>Provider\<close> and \<open>TokenSource\<close> are open integers in the code: a caller may pass any value.\<close>

type_synonym Provider = int

definition ProviderOpenAI :: Provider where "ProviderOpenAI = 1"
definition ProviderAnthropic :: Provider where "ProviderAnthropic = 2"

type_synonym TokenSource = int

definition TokenSourceNone :: TokenSource where "TokenSourceNone = 0"
definition TokenSourceLocalExact :: TokenSource where "TokenSourceLocalExact = 1"
definition TokenSourceRemoteEstimate :: TokenSource where "TokenSourceRemoteEstimate = 2"
definition TokenSourceRemoteExactUnpriced :: TokenSource where "TokenSourceRemoteExactUnpriced = 3"

definition MaxScenarios :: nat where "MaxScenarios = 16"

record RegistryKey =
  KeyProvider :: Provider
  KeyEndpointID :: "32 word"
  KeyModelSnapshotID :: "64 word"
  KeyTokenizerID :: "64 word"
  KeyPricingTableID :: "64 word"
  KeyContractVersions :: "64 word"
  TransformID :: "64 word"
  TransformVersion :: "64 word"
  ScenarioSetID :: "64 word"
  ScenarioCoverage :: "64 word"

record Scenario =
  ScenarioID :: "32 word"
  BaselineLower :: Money
  BaselineUpper :: Money
  CandidateLower :: Money
  CandidateUpper :: Money

record Proof =
  TenantID :: "64 word"
  AccountID :: "64 word"
  CallID :: "64 word"
  RegistryGeneration :: "64 word"
  Transform :: RegistryKey
  Scenarios :: "Scenario list"
  SafetyMargin :: Money

type_synonym ProofResult = "Decision \<times> Reason"

text \<open>Cost evidence is a type of its own without an authorizing value.\<close>

datatype CostVerdict = CostRejected | CostProven | CostIndeterminate

type_synonym CostResult = "CostVerdict \<times> Reason"

section \<open>Validation\<close>

definition key_valid :: "RegistryKey \<Rightarrow> bool" where
  "key_valid k \<longleftrightarrow>
     (KeyProvider k = ProviderOpenAI \<or> KeyProvider k = ProviderAnthropic)
     \<and> KeyEndpointID k \<noteq> 0 \<and> KeyModelSnapshotID k \<noteq> 0 \<and> KeyTokenizerID k \<noteq> 0
     \<and> KeyPricingTableID k \<noteq> 0 \<and> KeyContractVersions k \<noteq> 0 \<and> TransformID k \<noteq> 0
     \<and> TransformVersion k \<noteq> 0 \<and> ScenarioSetID k \<noteq> 0 \<and> ScenarioCoverage k \<noteq> 0"

definition OnesCount64 :: "64 word \<Rightarrow> nat" where
  "OnesCount64 w = length (filter (bit w) [0..<64])"

definition scenario_bit :: "Scenario \<Rightarrow> 64 word" where
  "scenario_bit s = push_bit (unat (ScenarioID s)) 1"

text \<open>The loop over the scenarios with its mask of identifiers seen; \<open>None\<close> is the early return.\<close>

fun seen_mask :: "64 word \<Rightarrow> Scenario list \<Rightarrow> 64 word option" where
  "seen_mask seen [] = Some seen"
| "seen_mask seen (s # ss) =
     (if ScenarioID s \<ge> of_nat MaxScenarios \<or> seen AND scenario_bit s \<noteq> 0 then None
      else seen_mask (seen OR scenario_bit s) ss)"

definition validateProof :: "Proof option \<Rightarrow> ProofResult" where
  "validateProof pr =
     (case pr of
        None \<Rightarrow> (Indeterminate, ReasonInvalidArgument)
      | Some p \<Rightarrow>
          if TenantID p = 0 \<or> AccountID p = 0 \<or> CallID p = 0 \<or> \<not> key_valid (Transform p)
          then (Indeterminate, ReasonInvalidIdentity)
          else if length (Scenarios p) = 0 \<or> length (Scenarios p) > MaxScenarios
          then (Indeterminate, ReasonInvalidScenarioCount)
          else if OnesCount64 (ScenarioCoverage (Transform p)) \<noteq> length (Scenarios p)
          then (Indeterminate, ReasonInvalidScenarioCoverage)
          else (case seen_mask 0 (Scenarios p) of
                  None \<Rightarrow> (Indeterminate, ReasonInvalidScenarioCoverage)
                | Some seen \<Rightarrow>
                    if seen \<noteq> ScenarioCoverage (Transform p)
                    then (Indeterminate, ReasonInvalidScenarioCoverage)
                    else if SafetyMargin p <s 0 then (Indeterminate, ReasonInvalidMoneyBound)
                    else (Intervene, ReasonProofAccepted)))"

section \<open>Cost evidence\<close>

definition bad_bound :: "Scenario \<Rightarrow> bool" where
  "bad_bound s \<longleftrightarrow>
     BaselineLower s <s 0 \<or> BaselineUpper s <s 0 \<or> CandidateLower s <s 0 \<or> CandidateUpper s <s 0
     \<or> BaselineUpper s <s BaselineLower s \<or> CandidateUpper s <s CandidateLower s"

text \<open>The loop: the least baseline and the greatest candidate so far, or the early return.\<close>

fun cost_scan :: "Money \<Rightarrow> Money \<Rightarrow> Money \<Rightarrow> Scenario list \<Rightarrow> CostResult + Money \<times> Money" where
  "cost_scan margin baseline candidate [] = Inr (baseline, candidate)"
| "cost_scan margin baseline candidate (s # ss) =
     (if bad_bound s then Inl (CostIndeterminate, ReasonInvalidMoneyBound)
      else case moneyAdd (CandidateUpper s) margin of
             None \<Rightarrow> Inl (CostIndeterminate, ReasonMoneyOverflow)
           | Some withMargin \<Rightarrow>
               if BaselineLower s \<le>s withMargin then Inl (CostRejected, ReasonNotStrictlyCheaper)
               else cost_scan margin
                      (if BaselineLower s <s baseline then BaselineLower s else baseline)
                      (if candidate <s CandidateUpper s then CandidateUpper s else candidate) ss)"

definition cost_of :: "Proof \<Rightarrow> CostResult" where
  "cost_of p =
     (case cost_scan (SafetyMargin p) MaxInt64 0 (Scenarios p) of
        Inl r \<Rightarrow> r
      | Inr (baseline, candidate) \<Rightarrow>
          (case moneyAdd candidate (SafetyMargin p) of
             None \<Rightarrow> (CostIndeterminate, ReasonMoneyOverflow)
           | Some withMargin \<Rightarrow>
               if baseline \<le>s withMargin then (CostRejected, ReasonNotStrictlyCheaper)
               else (CostProven, ReasonProofAccepted)))"

definition ProofCostEvaluate :: "Proof option \<Rightarrow> CostResult" where
  "ProofCostEvaluate pr =
     (case pr of
        Some p \<Rightarrow>
          if fst (validateProof pr) \<noteq> Intervene then (CostIndeterminate, snd (validateProof pr))
          else cost_of p
      | None \<Rightarrow> (CostIndeterminate, snd (validateProof pr)))"

section \<open>The registry\<close>

record Registry =
  Generation :: "64 word"
  RegistryKeys :: "RegistryKey list"

definition productionRegistry :: Registry where
  "productionRegistry = \<lparr> Generation = 1, RegistryKeys = [] \<rparr>"

definition registrySignatureValid :: bool where
  "registrySignatureValid \<longleftrightarrow> True"

definition registry_generation :: "64 word" where
  "registry_generation = Generation productionRegistry"

definition RegistryEntryCount :: nat where
  "RegistryEntryCount = length (RegistryKeys productionRegistry)"

definition registryContains :: "Registry \<Rightarrow> RegistryKey \<Rightarrow> bool" where
  "registryContains r k \<longleftrightarrow> key_valid k \<and> List.member (RegistryKeys r) k"

text \<open>The evaluation over a registry and the outcome of its signature check; the code runs it on the two
  constants of the release.\<close>

definition evaluate_in :: "bool \<Rightarrow> Registry \<Rightarrow> Proof option \<Rightarrow> ProofResult" where
  "evaluate_in verified r pr =
     (case pr of
        None \<Rightarrow> validateProof pr
      | Some p \<Rightarrow>
          if fst (validateProof pr) \<noteq> Intervene then validateProof pr
          else if \<not> verified then (Indeterminate, ReasonRegistryUnverified)
          else if RegistryGeneration p \<noteq> Generation r then (PassThrough, ReasonRegistryStale)
          else if \<not> registryContains r (Transform p) then (PassThrough, ReasonRegistryAbsent)
          else (case ProofCostEvaluate pr of
                  (CostProven, reason) \<Rightarrow> (Intervene, reason)
                | (CostRejected, reason) \<Rightarrow> (PassThrough, reason)
                | (CostIndeterminate, reason) \<Rightarrow> (Indeterminate, reason)))"

definition ProofEvaluate :: "Proof option \<Rightarrow> ProofResult" where
  "ProofEvaluate pr = evaluate_in registrySignatureValid productionRegistry pr"

section \<open>What validation establishes\<close>

text \<open>The identifiers of an accepted proof are the bits of the coverage mask, each once.\<close>

definition covers :: "Proof \<Rightarrow> bool" where
  "covers p \<longleftrightarrow>
     distinct (map ScenarioID (Scenarios p))
     \<and> (\<lambda>s. unat (ScenarioID s)) ` set (Scenarios p) = {i. bit (ScenarioCoverage (Transform p)) i}"

definition identified :: "Proof \<Rightarrow> bool" where
  "identified p \<longleftrightarrow> TenantID p \<noteq> 0 \<and> AccountID p \<noteq> 0 \<and> CallID p \<noteq> 0 \<and> key_valid (Transform p)"

lemma bit_scenario_bit:
  "unat (ScenarioID s) < 64 \<Longrightarrow> bit (scenario_bit s) i \<longleftrightarrow> i = unat (ScenarioID s)"
  by (auto simp: scenario_bit_def bit_simps)

lemma seen_disjoint:
  assumes "unat (ScenarioID s) < 64"
  shows "seen AND scenario_bit s = 0 \<longleftrightarrow> \<not> bit seen (unat (ScenarioID s))"
  using assms by (auto simp: bit_eq_iff [of "seen AND scenario_bit s"] bit_and_iff bit_scenario_bit)

lemma small_id: "\<not> ScenarioID s \<ge> of_nat MaxScenarios \<longleftrightarrow> unat (ScenarioID s) < 16"
  by (auto simp: MaxScenarios_def word_le_nat_alt)

lemma seen_mask_Some:
  "seen_mask seen ss = Some m \<longleftrightarrow>
     (\<forall>s \<in> set ss. unat (ScenarioID s) < 16 \<and> \<not> bit seen (unat (ScenarioID s)))
     \<and> distinct (map ScenarioID ss)
     \<and> (\<forall>i. bit m i \<longleftrightarrow> bit seen i \<or> i \<in> (\<lambda>s. unat (ScenarioID s)) ` set ss)"
proof (induction ss arbitrary: seen)
  case Nil
  have "seen = m \<longleftrightarrow> (\<forall>i. bit m i \<longleftrightarrow> bit seen i)"
    by (metis bit_eq_iff)
  then show ?case by simp
next
  case (Cons s ss)
  let ?id = "\<lambda>s. unat (ScenarioID s)"
  show ?case
  proof (cases "?id s < 16 \<and> \<not> bit seen (?id s)")
    case False
    then have "ScenarioID s \<ge> of_nat MaxScenarios \<or> seen AND scenario_bit s \<noteq> 0"
      using small_id [of s] seen_disjoint [of s seen] by fastforce
    with False show ?thesis by auto
  next
    case True
    then have step: "seen_mask seen (s # ss) = seen_mask (seen OR scenario_bit s) ss"
      using small_id [of s] seen_disjoint [of s seen] by simp
    have b: "bit (seen OR scenario_bit s) i \<longleftrightarrow> bit seen i \<or> i = ?id s" for i
      using True by (simp add: bit_or_iff bit_scenario_bit)
    show ?thesis unfolding step Cons.IH b using True
      by (auto simp: word_unat_eq_iff image_iff)
  qed
qed

lemma OnesCount64_card: "OnesCount64 w = card {i. bit w i}"
proof -
  have "{i. bit w i} = set (filter (bit w) [0..<64])"
    using bit_imp_le_length [of w] by auto
  moreover have "card (set (filter (bit w) [0..<64])) = length (filter (bit w) [0..<64])"
    by (rule distinct_card) simp
  ultimately show ?thesis by (simp only: OnesCount64_def)
qed

lemma scenario_ids_card:
  "distinct (map ScenarioID ss) \<Longrightarrow> card ((\<lambda>s. unat (ScenarioID s)) ` set ss) = length ss"
proof -
  assume "distinct (map ScenarioID ss)"
  then have "distinct (map (unat \<circ> ScenarioID) ss)"
    by (simp add: distinct_map inj_on_def word_unat_eq_iff)
  then show ?thesis using distinct_card by (fastforce simp: comp_def)
qed

lemma validateProof_ok:
  "fst (validateProof (Some p)) = Intervene \<longleftrightarrow>
     identified p \<and> Scenarios p \<noteq> [] \<and> length (Scenarios p) \<le> 16
     \<and> (\<forall>s \<in> set (Scenarios p). unat (ScenarioID s) < 16) \<and> covers p \<and> 0 \<le> sint (SafetyMargin p)"
  (is "?L \<longleftrightarrow> ?R")
proof -
  let ?c = "ScenarioCoverage (Transform p)" and ?ids = "(\<lambda>s. unat (ScenarioID s)) ` set (Scenarios p)"
  have "?L \<longleftrightarrow> identified p \<and> Scenarios p \<noteq> [] \<and> length (Scenarios p) \<le> 16
      \<and> OnesCount64 ?c = length (Scenarios p) \<and> seen_mask 0 (Scenarios p) = Some ?c
      \<and> 0 \<le> sint (SafetyMargin p)"
    by (auto simp: validateProof_def identified_def MaxScenarios_def word_sless_alt split: option.splits if_splits)
  moreover have "seen_mask 0 (Scenarios p) = Some ?c \<longleftrightarrow>
      (\<forall>s \<in> set (Scenarios p). unat (ScenarioID s) < 16) \<and> covers p"
    unfolding seen_mask_Some covers_def by auto
  moreover have "covers p \<Longrightarrow> OnesCount64 ?c = length (Scenarios p)"
    by (simp add: OnesCount64_card covers_def flip: scenario_ids_card)
  ultimately show ?thesis by auto
qed

section \<open>What the evidence establishes\<close>

text \<open>Strictly cheaper, over the integers: bounds that are amounts, and the worst candidate of any scenario
  with the margin below the best baseline of any scenario.\<close>

definition amounts :: "Scenario \<Rightarrow> bool" where
  "amounts s \<longleftrightarrow>
     0 \<le> sint (BaselineLower s) \<and> sint (BaselineLower s) \<le> sint (BaselineUpper s)
     \<and> 0 \<le> sint (CandidateLower s) \<and> sint (CandidateLower s) \<le> sint (CandidateUpper s)"

definition strictly_cheaper :: "Proof \<Rightarrow> bool" where
  "strictly_cheaper p \<longleftrightarrow>
     (\<forall>s \<in> set (Scenarios p). amounts s)
     \<and> (\<forall>s \<in> set (Scenarios p). \<forall>t \<in> set (Scenarios p).
          sint (CandidateUpper s) + sint (SafetyMargin p) < sint (BaselineLower t))"

lemma bad_bound_iff: "\<not> bad_bound s \<longleftrightarrow> amounts s"
  by (auto simp: bad_bound_def amounts_def word_sless_alt)

lemma below_margin:
  assumes "0 \<le> sint c" "0 \<le> sint m"
  shows "(case moneyAdd c m of None \<Rightarrow> False | Some w \<Rightarrow> \<not> b \<le>s w) \<longleftrightarrow> sint c + sint m < sint b"
  using assms sint64_range [of b] sint64_range [of c] sint64_range [of m]
  by (auto simp: moneyAdd_exact is_i64_def word_sle_eq sint_add64 split: option.splits)

lemma cost_scan_ok:
  assumes "0 \<le> sint m"
  shows "cost_scan m b c ss = Inr (b', c') \<longleftrightarrow>
     (\<forall>s \<in> set ss. amounts s \<and> sint (CandidateUpper s) + sint m < sint (BaselineLower s))
     \<and> b' = fold (\<lambda>s b. if BaselineLower s <s b then BaselineLower s else b) ss b
     \<and> c' = fold (\<lambda>s c. if c <s CandidateUpper s then CandidateUpper s else c) ss c"
proof (induction ss arbitrary: b c)
  case (Cons s ss)
  show ?case
  proof (cases "amounts s")
    case True
    have "cost_scan m b c (s # ss) = Inr (b', c') \<longleftrightarrow>
       (case moneyAdd (CandidateUpper s) m of None \<Rightarrow> False | Some w \<Rightarrow> \<not> BaselineLower s \<le>s w)
       \<and> cost_scan m (if BaselineLower s <s b then BaselineLower s else b)
           (if c <s CandidateUpper s then CandidateUpper s else c) ss = Inr (b', c')"
      using True by (auto simp: bad_bound_iff [symmetric] split: option.splits)
    also have "(case moneyAdd (CandidateUpper s) m of None \<Rightarrow> False | Some w \<Rightarrow> \<not> BaselineLower s \<le>s w)
       \<longleftrightarrow> sint (CandidateUpper s) + sint m < sint (BaselineLower s)"
      by (rule below_margin) (use True assms in \<open>auto simp: amounts_def\<close>)
    finally show ?thesis using True by (simp only: Cons.IH) auto
  qed (auto simp: bad_bound_iff [symmetric])
qed auto

lemma fold_least:
  "x < sint (fold (\<lambda>s b. if f s <s b then f s else b) ss b) \<longleftrightarrow>
     x < sint b \<and> (\<forall>s \<in> set ss. x < sint (f s))"
  by (induction ss arbitrary: b) (auto simp: word_sless_alt)

lemma fold_greatest:
  "sint (fold (\<lambda>s c. if c <s f s then f s else c) ss c) < x \<longleftrightarrow>
     sint c < x \<and> (\<forall>s \<in> set ss. sint (f s) < x)"
  by (induction ss arbitrary: c) (auto simp: word_sless_alt)

lemma fold_nonneg: "0 \<le> sint c \<Longrightarrow> 0 \<le> sint (fold (\<lambda>s c. if c <s f s then f s else c) ss c)"
  by (induction ss arbitrary: c) (auto simp: word_sless_alt)

lemma cost_scan_Inl: "cost_scan m b c ss = Inl r \<Longrightarrow> fst r \<noteq> CostProven"
  by (induction ss arbitrary: b c) (auto split: if_splits option.splits)

lemma cost_of_proven:
  assumes m: "0 \<le> sint (SafetyMargin p)" and "Scenarios p \<noteq> []"
  shows "fst (cost_of p) = CostProven \<longleftrightarrow> strictly_cheaper p"
proof -
  let ?ss = "Scenarios p" and ?m = "SafetyMargin p"
  let ?b = "fold (\<lambda>s b. if BaselineLower s <s b then BaselineLower s else b) ?ss MaxInt64"
  let ?c = "fold (\<lambda>s c. if c <s CandidateUpper s then CandidateUpper s else c) ?ss 0"
  let ?each = "\<forall>s \<in> set ?ss. amounts s \<and> sint (CandidateUpper s) + sint ?m < sint (BaselineLower s)"
  have "fst (cost_of p) = CostProven \<longleftrightarrow>
      cost_scan ?m MaxInt64 0 ?ss = Inr (?b, ?c)
      \<and> (case moneyAdd ?c ?m of None \<Rightarrow> False | Some w \<Rightarrow> \<not> ?b \<le>s w)"
  proof (cases "cost_scan ?m MaxInt64 0 ?ss")
    case (Inl r)
    then show ?thesis using cost_scan_Inl by (simp add: cost_of_def)
  next
    case (Inr bc)
    then have "bc = (?b, ?c)" using cost_scan_ok [OF m, of MaxInt64 0 ?ss "fst bc" "snd bc"] by (simp add: prod_eq_iff)
    with Inr show ?thesis by (simp add: cost_of_def split: option.split)
  qed
  also have "\<dots> \<longleftrightarrow> ?each \<and> sint ?c + sint ?m < sint ?b"
    by (simp only: cost_scan_ok [OF m] below_margin [OF fold_nonneg m] simp_thms signed_0 order_refl)
  also have "?each \<and> sint ?c + sint ?m < sint ?b \<longleftrightarrow> strictly_cheaper p"
  proof (cases ?each)
    case True
    then have room: "s \<in> set ?ss \<Longrightarrow> sint (CandidateUpper s) + sint ?m < 2 ^ 63 - 1 \<and> 0 \<le> sint (CandidateUpper s)" for s
      using sint64_range(2) [of "BaselineLower s"] by (fastforce simp: amounts_def)
    have least: "sint (CandidateUpper s) < sint ?b - sint ?m \<longleftrightarrow>
        (\<forall>t \<in> set ?ss. sint (CandidateUpper s) + sint ?m < sint (BaselineLower t))" if "s \<in> set ?ss" for s
      using room [OF that] fold_least [of "sint (CandidateUpper s) + sint ?m" BaselineLower ?ss MaxInt64]
      by (simp add: less_diff_eq)
    obtain t where t: "t \<in> set ?ss" using assms(2) by (cases ?ss) auto
    have "sint ?c + sint ?m < sint ?b \<longleftrightarrow>
        0 < sint ?b - sint ?m \<and> (\<forall>s \<in> set ?ss. sint (CandidateUpper s) < sint ?b - sint ?m)"
      using fold_greatest [of CandidateUpper ?ss 0 "sint ?b - sint ?m"] by (simp add: less_diff_eq)
    also have "\<dots> \<longleftrightarrow> (\<forall>s \<in> set ?ss. sint (CandidateUpper s) < sint ?b - sint ?m)"
      using room [OF t] t by fastforce
    finally show ?thesis using True least by (auto simp: strictly_cheaper_def)
  qed (auto simp: strictly_cheaper_def)
  finally show ?thesis .
qed

definition sound_proof :: "Proof \<Rightarrow> bool" where
  "sound_proof p \<longleftrightarrow>
     identified p \<and> Scenarios p \<noteq> [] \<and> length (Scenarios p) \<le> 16
     \<and> (\<forall>s \<in> set (Scenarios p). unat (ScenarioID s) < 16) \<and> covers p \<and> 0 \<le> sint (SafetyMargin p)"

lemma cost_evidence:
  "fst (ProofCostEvaluate pr) = CostProven
     \<longleftrightarrow> (case pr of None \<Rightarrow> False | Some p \<Rightarrow> sound_proof p \<and> strictly_cheaper p)"
proof (cases pr)
  case (Some p)
  then show ?thesis
    using validateProof_ok [of p] cost_of_proven [of p]
    by (auto simp: ProofCostEvaluate_def sound_proof_def)
qed (simp add: ProofCostEvaluate_def)

section \<open>Properties\<close>

text \<open>C26: what cost evidence means. The evidence is \<open>CostProven\<close> exactly when the proof carries full
  identity and a set of scenarios that is, each once, the set its key announces, and the worst candidate of
  any scenario plus the safety margin is below the best baseline of any scenario: over the exact integers,
  for all scenarios at once, so no overflow and no average stands in for the comparison.\<close>

theorem cost_proven_iff:
  "fst (ProofCostEvaluate pr) = CostProven
     \<longleftrightarrow> (case pr of None \<Rightarrow> False | Some p \<Rightarrow> sound_proof p \<and> strictly_cheaper p)"
  by (rule cost_evidence)

lemma evaluate_in_iff:
  "fst (evaluate_in verified r pr) = Intervene
     \<longleftrightarrow> (case pr of
            None \<Rightarrow> False
          | Some p \<Rightarrow> verified \<and> RegistryGeneration p = Generation r \<and> Transform p \<in> set (RegistryKeys r)
              \<and> sound_proof p \<and> strictly_cheaper p)"
proof (cases pr)
  case (Some p)
  have "identified p \<Longrightarrow> registryContains r (Transform p) \<longleftrightarrow> Transform p \<in> set (RegistryKeys r)"
    by (simp add: registryContains_def identified_def)
  moreover have "fst (ProofCostEvaluate pr) = CostProven \<longleftrightarrow> sound_proof p \<and> strictly_cheaper p"
    using Some by (simp add: cost_evidence)
  moreover have "sound_proof p \<longleftrightarrow> fst (validateProof pr) = Intervene"
    using validateProof_ok [of p] Some by (simp add: sound_proof_def)
  ultimately show ?thesis using Some
    by (auto simp: evaluate_in_def sound_proof_def split: prod.split CostVerdict.split)
qed (simp add: evaluate_in_def validateProof_def)

text \<open>C23: who may be intervened on. Over any registry the evaluation authorizes exactly a proof whose
  registry is verified and of the proof's generation, whose transform key is in it, and whose evidence is sound
  and strictly cheaper; the release, whose registry is empty, authorizes nothing at all.\<close>

theorem intervene_iff:
  "(fst (evaluate_in verified r pr) = Intervene
     \<longleftrightarrow> (case pr of
            None \<Rightarrow> False
          | Some p \<Rightarrow> verified \<and> RegistryGeneration p = Generation r \<and> Transform p \<in> set (RegistryKeys r)
              \<and> sound_proof p \<and> strictly_cheaper p))
   \<and> fst (ProofEvaluate pr) \<noteq> Intervene"
  by (simp add: evaluate_in_iff ProofEvaluate_def productionRegistry_def split: option.split)

end
