(* ===== verification/Planners.thy ===== *)
theory Planners
  imports CostProof JsonRoundTrip
begin

text \<open>
  \<open>planner_openai.go\<close>: the local accounting of one baseline and candidate request pair for the
  OpenAI contract, and the helpers the Anthropic planner shares with it. A planner returns cost evidence and a
  reason, never an authorization. A nil pointer is \<open>None\<close>; \<open>length\<close> of a text is its byte length.
\<close>

definition LongContextThreshold :: "64 word" where "LongContextThreshold = 272000"
definition ScenarioCount :: nat where "ScenarioCount = 1"

type_synonym OpenAIEndpoint = "32 word"

definition OpenAIResponses :: OpenAIEndpoint where "OpenAIResponses = 1"
definition OpenAIChatCompletions :: OpenAIEndpoint where "OpenAIChatCompletions = 2"

record OpenAIPrices =
  InputPerToken :: Money
  CachedReadPerToken :: Money
  CacheWritePerToken :: Money
  OutputPerToken :: Money

record OpenAIContext =
  PinnedModel :: string
  ModelSnapshotID :: "64 word"
  TokenizerID :: "64 word"
  PricingTableID :: "64 word"
  ContractVersions :: "64 word"
  TokenizerGuardTokens :: "64 word"
  CtxSafetyMargin :: Money
  Prices :: OpenAIPrices

record TokenEvidence =
  EvProvider :: Provider
  EvEndpointID :: "32 word"
  EvModelSnapshotID :: "64 word"
  EvTokenizerID :: "64 word"
  SerializedSize :: int
  InputTokens :: "64 word"
  Source :: TokenSource

record OpenAIPlanInput =
  BaselineJSON :: string
  CandidateJSON :: string
  Context :: "OpenAIContext option"
  BaselineTokens :: "TokenEvidence option"
  CandidateTokens :: "TokenEvidence option"
  Endpoint :: OpenAIEndpoint

record OpenAIPlan =
  PlanVerdict :: CostVerdict
  PlanReason :: Reason
  BaselineBreakpoints :: nat
  CandidateBreakpoints :: nat
  PlanScenario :: Scenario

definition zero_scenario :: Scenario where
  "zero_scenario = \<lparr> ScenarioID = 0, BaselineLower = 0, BaselineUpper = 0, CandidateLower = 0,
     CandidateUpper = 0 \<rparr>"

definition openAIPlanResult :: "Reason \<Rightarrow> OpenAIPlan" where
  "openAIPlanResult r =
     \<lparr> PlanVerdict = CostIndeterminate, PlanReason = r, BaselineBreakpoints = 0,
       CandidateBreakpoints = 0, PlanScenario = zero_scenario \<rparr>"

section \<open>Arithmetic\<close>

text \<open>The quotient of unsigned words is Go's quotient of \<open>uint64\<close>; \<open>sdiv64\<close> and \<open>smod64\<close> are those
  of \<open>int64\<close>, truncated toward zero.\<close>

definition sdiv64 :: "Money \<Rightarrow> Money \<Rightarrow> Money" where
  "sdiv64 a b = word_of_int (sint a sdiv sint b)"

definition smod64 :: "Money \<Rightarrow> Money \<Rightarrow> Money" where
  "smod64 a b = word_of_int (sint a smod sint b)"

definition mulMoney :: "64 word \<Rightarrow> Money \<Rightarrow> Money option" where
  "mulMoney tokens rate =
     (if rate <s 0 then None
      else if rate \<noteq> 0 \<and> tokens > MaxInt64 div rate then None
      else Some (tokens * rate))"

definition withinGuard :: "64 word \<Rightarrow> 64 word \<Rightarrow> bool" where
  "withinGuard tokens guard =
     (if tokens \<ge> LongContextThreshold then tokens - LongContextThreshold \<le> guard
      else LongContextThreshold - tokens \<le> guard)"

definition inputCost :: "64 word \<Rightarrow> Money \<Rightarrow> Money option" where
  "inputCost tokens rate =
     (case mulMoney tokens rate of
        None \<Rightarrow> None
      | Some base \<Rightarrow> if tokens > LongContextThreshold then moneyAdd base base else Some base)"

definition outputCost :: "64 word \<Rightarrow> Money \<Rightarrow> bool \<Rightarrow> Money option" where
  "outputCost tokens rate longContext =
     (if longContext then
        if smod64 rate 2 \<noteq> 0 then None
        else (case moneyAdd rate (sdiv64 rate 2) of None \<Rightarrow> None | Some r \<Rightarrow> mulMoney tokens r)
      else mulMoney tokens rate)"

definition pricesValid :: "OpenAIPrices \<Rightarrow> bool" where
  "pricesValid p =
     (if InputPerToken p \<le>s 0 \<or> CachedReadPerToken p \<le>s 0 \<or> CacheWritePerToken p \<le>s 0
         \<or> OutputPerToken p \<le>s 0 then False
      else if smod64 (InputPerToken p) 10 \<noteq> 0 \<or> CachedReadPerToken p \<noteq> sdiv64 (InputPerToken p) 10 then False
      else if smod64 (InputPerToken p) 4 \<noteq> 0 \<or> sdiv64 MaxInt64 5 <s sdiv64 (InputPerToken p) 4 then False
      else if CacheWritePerToken p \<noteq> sdiv64 (InputPerToken p) 4 * 5 then False
      else smod64 (OutputPerToken p) 2 = 0)"

section \<open>Evidence and layout\<close>

definition evidenceReason ::
    "TokenEvidence option \<Rightarrow> OpenAIContext option \<Rightarrow> string \<Rightarrow> OpenAIEndpoint \<Rightarrow> Reason" where
  "evidenceReason e ctx json endpoint =
     (case (e, ctx) of
        (Some ev, Some c) \<Rightarrow>
          if EvProvider ev \<noteq> ProviderOpenAI \<or> EvEndpointID ev \<noteq> endpoint
             \<or> EvModelSnapshotID ev \<noteq> ModelSnapshotID c \<or> EvTokenizerID ev \<noteq> TokenizerID c
             \<or> SerializedSize ev \<noteq> int (length json)
          then ReasonTokenizerNotLocalExact
          else if Source ev = TokenSourceRemoteExactUnpriced then ReasonRemoteTokenCountUnpriced
          else if Source ev = TokenSourceRemoteEstimate then ReasonRemoteTokenCount
          else if Source ev = TokenSourceLocalExact then ReasonNone
          else ReasonTokenizerNotLocalExact
      | _ \<Rightarrow> ReasonTokenizerNotLocalExact)"

record openAICacheLayout =
  explicitMode :: bool
  ttlPresent :: bool
  cacheKeyPresent :: bool
  cacheKey :: string
  breakpoints :: nat
  maxOutputTokens :: "64 word"

primrec countBreakpoints :: "json \<Rightarrow> nat" where
  "countBreakpoints JSONNull = 0"
| "countBreakpoints JSONFalse = 0"
| "countBreakpoints JSONTrue = 0"
| "countBreakpoints (JSONNumber n) = 0"
| "countBreakpoints (JSONString s) = 0"
| "countBreakpoints (JSONArray xs) = sum_list (map countBreakpoints xs)"
| "countBreakpoints (JSONObject kvs) =
     sum_list (map (\<lambda>(k, n). (if k = ''cache_control'' then 1 else 0) + n)
       (map (map_prod id countBreakpoints) kvs))"

text \<open>The loop over the members: the names seen, and whether each value is refused. True is the error.\<close>

fun repeated_name :: "string list \<Rightarrow> (string \<times> bool) list \<Rightarrow> bool" where
  "repeated_name seen [] = False"
| "repeated_name seen ((k, bad) # ms) = (List.member seen k \<or> bad \<or> repeated_name (k # seen) ms)"

primrec rejectDuplicateKeys :: "json \<Rightarrow> bool" where
  "rejectDuplicateKeys JSONNull = False"
| "rejectDuplicateKeys JSONFalse = False"
| "rejectDuplicateKeys JSONTrue = False"
| "rejectDuplicateKeys (JSONNumber n) = False"
| "rejectDuplicateKeys (JSONString s) = False"
| "rejectDuplicateKeys (JSONArray xs) = list_ex id (map rejectDuplicateKeys xs)"
| "rejectDuplicateKeys (JSONObject kvs) = repeated_name [] (map (map_prod id rejectDuplicateKeys) kvs)"

text \<open>A number member as \<open>uint64\<close>, if there is one.\<close>

definition number_member :: "json \<Rightarrow> string \<Rightarrow> 64 word option" where
  "number_member doc key =
     (case Get (Some doc) key of
        Some (JSONNumber n) \<Rightarrow> Some (word_of_int (uint_of_float n))
      | _ \<Rightarrow> None)"

definition output_bound :: "json \<Rightarrow> OpenAIEndpoint \<Rightarrow> 64 word" where
  "output_bound doc endpoint =
     (if endpoint = OpenAIResponses then
        (case number_member doc ''max_output_tokens'' of Some n \<Rightarrow> n | None \<Rightarrow> 0)
      else if endpoint = OpenAIChatCompletions then
        (case number_member doc ''max_completion_tokens'' of
           Some n \<Rightarrow> n
         | None \<Rightarrow> (case number_member doc ''max_tokens'' of Some n \<Rightarrow> n | None \<Rightarrow> 0))
      else 0)"

definition cache_layout :: "json \<Rightarrow> openAICacheLayout" where
  "cache_layout doc =
     (let out = \<lparr> explicitMode = False, ttlPresent = False, cacheKeyPresent = False, cacheKey = [],
                  breakpoints = 0, maxOutputTokens = 0 \<rparr>
      in case Get (Some doc) ''prompt_cache'' of
           Some (JSONObject kvs) \<Rightarrow>
             let cc = Some (JSONObject kvs);
                 out = out\<lparr> explicitMode := GetString cc ''mode'' = ''explicit'',
                            ttlPresent := Get cc ''ttl'' \<noteq> None \<rparr>
             in (case Get cc ''key'' of
                   Some (JSONString k) \<Rightarrow> out\<lparr> cacheKeyPresent := True, cacheKey := k \<rparr>
                 | _ \<Rightarrow> out)
         | _ \<Rightarrow> out)"

definition parseOpenAILayout :: "string \<Rightarrow> string \<Rightarrow> OpenAIEndpoint \<Rightarrow> openAICacheLayout option" where
  "parseOpenAILayout jsonText pinnedModel endpoint =
     (case ParseJSON jsonText of
        Some (JSONObject kvs) \<Rightarrow>
          let doc = JSONObject kvs
          in if GetString (Some doc) ''model'' \<noteq> pinnedModel then None
             else if rejectDuplicateKeys doc then None
             else Some ((cache_layout doc)\<lparr> breakpoints := countBreakpoints doc,
                          maxOutputTokens := output_bound doc endpoint \<rparr>)
      | _ \<Rightarrow> None)"

section \<open>The plan\<close>

text \<open>The checks before anything is parsed, in order; \<open>ReasonNone\<close> goes on.\<close>

definition openai_admit :: "OpenAIPlanInput \<Rightarrow> OpenAIContext \<Rightarrow> Reason" where
  "openai_admit inp ctx =
     (if PinnedModel ctx = [] \<or> ModelSnapshotID ctx = 0 \<or> TokenizerID ctx = 0 \<or> PricingTableID ctx = 0
         \<or> ContractVersions ctx = 0 then ReasonInvalidIdentity
      else if Endpoint inp \<noteq> OpenAIResponses \<and> Endpoint inp \<noteq> OpenAIChatCompletions
      then ReasonUnsupportedEndpoint
      else let r = evidenceReason (BaselineTokens inp) (Some ctx) (BaselineJSON inp) (Endpoint inp)
           in if r \<noteq> ReasonNone then r
              else let r = evidenceReason (CandidateTokens inp) (Some ctx) (CandidateJSON inp) (Endpoint inp)
                   in if r \<noteq> ReasonNone then r
                      else if \<not> pricesValid (Prices ctx) \<or> CtxSafetyMargin ctx <s 0 then ReasonPricingUnavailable
                      else ReasonNone)"

text \<open>The comparison of the two layouts and the guard band.\<close>

definition openai_comparable :: "openAICacheLayout \<Rightarrow> openAICacheLayout \<Rightarrow> Reason" where
  "openai_comparable b c =
     (if \<not> explicitMode b \<or> \<not> explicitMode c then ReasonUnsupportedCacheLayout
      else if ttlPresent b \<noteq> ttlPresent c \<or> cacheKeyPresent b \<noteq> cacheKeyPresent c
              \<or> cacheKeyPresent b \<and> cacheKey b \<noteq> cacheKey c then ReasonUnsupportedCacheLayout
      else if maxOutputTokens b \<noteq> maxOutputTokens c then ReasonOutputBoundUnavailable
      else if breakpoints b \<noteq> breakpoints c then ReasonUnsupportedCacheLayout
      else if breakpoints b \<noteq> 0 then ReasonProtectedPrefixUnproven
      else ReasonNone)"

text \<open>The one scenario; \<open>None\<close> is an overflow.\<close>

definition openai_scenario :: "OpenAIContext \<Rightarrow> 64 word \<Rightarrow> 64 word \<Rightarrow> 64 word \<Rightarrow> Scenario option" where
  "openai_scenario ctx baselineTokens candidateTokens maxOutput =
     (case inputCost baselineTokens (InputPerToken (Prices ctx)) of
        None \<Rightarrow> None
      | Some baselineInput \<Rightarrow>
        (case inputCost candidateTokens (InputPerToken (Prices ctx)) of
           None \<Rightarrow> None
         | Some candidateInput \<Rightarrow>
           (case outputCost maxOutput (OutputPerToken (Prices ctx))
                   (candidateTokens > LongContextThreshold) of
              None \<Rightarrow> None
            | Some candidateOutput \<Rightarrow>
              (case moneyAdd candidateInput candidateOutput of
                 None \<Rightarrow> None
               | Some candidateUpper \<Rightarrow>
                   Some \<lparr> ScenarioID = 0, BaselineLower = baselineInput, BaselineUpper = baselineInput,
                          CandidateLower = candidateInput, CandidateUpper = candidateUpper \<rparr>))))"

text \<open>The proof a planner costs through the shared helper: one scenario and an identity of its own.\<close>

definition local_proof :: "Provider \<Rightarrow> 32 word \<Rightarrow> 64 word \<Rightarrow> 64 word \<Rightarrow> 64 word \<Rightarrow> 64 word \<Rightarrow> Money \<Rightarrow> Scenario \<Rightarrow> Proof" where
  "local_proof provider endpoint model tokenizer pricing contract margin s =
     \<lparr> TenantID = 1, AccountID = 1, CallID = 1, RegistryGeneration = 0,
       Transform = \<lparr> KeyProvider = provider, KeyEndpointID = endpoint, KeyModelSnapshotID = model,
         KeyTokenizerID = tokenizer, KeyPricingTableID = pricing, KeyContractVersions = contract,
         TransformID = 1, TransformVersion = 1, ScenarioSetID = 1, ScenarioCoverage = 1 \<rparr>,
       Scenarios = [s], SafetyMargin = margin \<rparr>"

definition openai_cost :: "OpenAIPlanInput \<Rightarrow> OpenAIContext \<Rightarrow> TokenEvidence \<Rightarrow> TokenEvidence \<Rightarrow> 64 word \<Rightarrow> OpenAIPlan \<Rightarrow> OpenAIPlan" where
  "openai_cost inp ctx be ce maxOutput out =
     (if withinGuard (InputTokens be) (TokenizerGuardTokens ctx)
         \<or> withinGuard (InputTokens ce) (TokenizerGuardTokens ctx)
      then out\<lparr> PlanReason := ReasonTokenGuardBand \<rparr>
      else case openai_scenario ctx (InputTokens be) (InputTokens ce) maxOutput of
             None \<Rightarrow> out\<lparr> PlanReason := ReasonMoneyOverflow \<rparr>
           | Some s \<Rightarrow>
               let cost = ProofCostEvaluate (Some (local_proof ProviderOpenAI (Endpoint inp)
                     (ModelSnapshotID ctx) (TokenizerID ctx) (PricingTableID ctx) (ContractVersions ctx)
                     (CtxSafetyMargin ctx) s))
               in out\<lparr> PlanScenario := s, PlanVerdict := fst cost, PlanReason := snd cost \<rparr>)"

definition OpenAIGPT56Plan :: "OpenAIPlanInput option \<Rightarrow> OpenAIPlan" where
  "OpenAIGPT56Plan input =
     (case input of
        None \<Rightarrow> openAIPlanResult ReasonInvalidArgument
      | Some inp \<Rightarrow>
        (case Context inp of
           None \<Rightarrow> openAIPlanResult ReasonInvalidArgument
         | Some ctx \<Rightarrow>
             if BaselineJSON inp = [] \<or> CandidateJSON inp = [] then openAIPlanResult ReasonInvalidArgument
             else if openai_admit inp ctx \<noteq> ReasonNone then openAIPlanResult (openai_admit inp ctx)
             else
               (case (parseOpenAILayout (BaselineJSON inp) (PinnedModel ctx) (Endpoint inp),
                      parseOpenAILayout (CandidateJSON inp) (PinnedModel ctx) (Endpoint inp)) of
                  (Some b, Some c) \<Rightarrow>
                    let out = (openAIPlanResult ReasonNone)\<lparr> BaselineBreakpoints := breakpoints b,
                                CandidateBreakpoints := breakpoints c \<rparr>
                    in if openai_comparable b c \<noteq> ReasonNone
                       then out\<lparr> PlanReason := openai_comparable b c \<rparr>
                       else (case (BaselineTokens inp, CandidateTokens inp) of
                               (Some be, Some ce) \<Rightarrow> openai_cost inp ctx be ce (maxOutputTokens c) out
                             | _ \<Rightarrow> out)
                | _ \<Rightarrow> openAIPlanResult ReasonInvalidRequestShape)))"

end
