(* ===== verification/PlannerAnthropic.thy ===== *)
theory PlannerAnthropic
  imports Planners
begin

text \<open>
  \<open>planner_anthropic.go\<close>: the same accounting for the Anthropic contract. Fields that repeat a name of
  the OpenAI planner carry the prefix \<open>A\<close>.
\<close>

record AnthropicPrices =
  AInputPerToken :: Money
  ACachedReadPerToken :: Money
  CacheWrite5mPerToken :: Money
  CacheWrite1hPerToken :: Money
  AOutputPerToken :: Money
  LongInputPerToken :: Money
  LongOutputPerToken :: Money
  ALongContextThreshold :: "64 word"

record AnthropicContext =
  APinnedModel :: string
  AModelSnapshotID :: "64 word"
  ATokenizerID :: "64 word"
  APricingTableID :: "64 word"
  AContractVersions :: "64 word"
  HasBetaHeaders :: bool
  ASafetyMargin :: Money
  APrices :: AnthropicPrices

record AnthropicPlanInput =
  ABaselineJSON :: string
  ACandidateJSON :: string
  AContext :: "AnthropicContext option"
  ABaselineTokens :: "TokenEvidence option"
  ACandidateTokens :: "TokenEvidence option"

record AnthropicPlan =
  APlanVerdict :: CostVerdict
  APlanReason :: Reason
  BaselineBreakpoints5m :: nat
  BaselineBreakpoints1h :: nat
  CandidateBreakpoints5m :: nat
  CandidateBreakpoints1h :: nat
  APlanScenario :: Scenario

definition anthropicPlanResult :: "Reason \<Rightarrow> AnthropicPlan" where
  "anthropicPlanResult r =
     \<lparr> APlanVerdict = CostIndeterminate, APlanReason = r, BaselineBreakpoints5m = 0,
       BaselineBreakpoints1h = 0, CandidateBreakpoints5m = 0, CandidateBreakpoints1h = 0,
       APlanScenario = zero_scenario \<rparr>"

section \<open>Layout\<close>

record anthropicLayout =
  markers5m :: nat
  markers1h :: nat
  saw5m :: bool
  automaticCache :: bool
  hasTools :: bool
  AmaxOutputTokens :: "64 word"

text \<open>One marker; \<open>None\<close> is a refusal.\<close>

definition recordControl :: "json \<Rightarrow> anthropicLayout \<Rightarrow> anthropicLayout option" where
  "recordControl control layout =
     (if \<not> IsObject (Some control) then None
      else if GetString (Some control) ''type'' \<noteq> ''ephemeral'' then None
      else let ttl = Get (Some control) ''ttl''
           in if ttl = None \<or> ttl = Some (JSONString ''5m'')
              then Some (layout\<lparr> markers5m := markers5m layout + 1, saw5m := True \<rparr>)
              else if ttl \<noteq> Some (JSONString ''1h'') \<or> saw5m layout then None
              else Some (layout\<lparr> markers1h := markers1h layout + 1 \<rparr>))"

function scanControls :: "json \<Rightarrow> anthropicLayout \<Rightarrow> anthropicLayout option"
  and scan_members :: "(string \<times> json) list \<Rightarrow> anthropicLayout \<Rightarrow> anthropicLayout option"
  and scan_items :: "json list \<Rightarrow> anthropicLayout \<Rightarrow> anthropicLayout option"
where
  "scanControls node layout =
     (case node of
        JSONObject kvs \<Rightarrow> scan_members kvs layout
      | JSONArray xs \<Rightarrow> scan_items xs layout
      | _ \<Rightarrow> Some layout)"
| "scan_members kvs layout =
     (case kvs of
        [] \<Rightarrow> Some layout
      | (key, val) # rest \<Rightarrow>
          (case (if key = ''cache_control'' then recordControl val layout else scanControls val layout) of
             None \<Rightarrow> None
           | Some layout' \<Rightarrow> scan_members rest layout'))"
| "scan_items xs layout =
     (case xs of
        [] \<Rightarrow> Some layout
      | x # rest \<Rightarrow>
          (case scanControls x layout of
             None \<Rightarrow> None
           | Some layout' \<Rightarrow> scan_items rest layout'))"
  by pat_completeness auto
termination
  by (relation "measure (case_sum (\<lambda>(n, l). 2 * size n)
      (case_sum (\<lambda>(kvs, l). 2 * size_list (size_prod (\<lambda>_. 0) size) kvs + 1) (\<lambda>(xs, l). 2 * size_list size xs + 1)))")
    auto

declare scanControls.simps [simp del] scan_members.simps [simp del] scan_items.simps [simp del]

definition parseAnthropicLayout :: "string \<Rightarrow> string \<Rightarrow> anthropicLayout option" where
  "parseAnthropicLayout jsonText pinnedModel =
     (case ParseJSON jsonText of
        Some (JSONObject kvs) \<Rightarrow>
          let doc = JSONObject kvs
          in if GetString (Some doc) ''model'' \<noteq> pinnedModel then None
             else if rejectDuplicateKeys doc then None
             else scanControls doc
                    \<lparr> markers5m = 0, markers1h = 0, saw5m = False,
                      automaticCache = IsObject (Get (Some doc) ''cache''),
                      hasTools = (Get (Some doc) ''tools'' \<noteq> None),
                      AmaxOutputTokens = (case number_member doc ''max_tokens'' of Some n \<Rightarrow> n | None \<Rightarrow> 0) \<rparr>
      | _ \<Rightarrow> None)"

section \<open>Evidence and prices\<close>

definition anthropicEvidenceReason ::
    "TokenEvidence option \<Rightarrow> AnthropicContext option \<Rightarrow> string \<Rightarrow> Reason" where
  "anthropicEvidenceReason e ctx json =
     (case (e, ctx) of
        (Some ev, Some c) \<Rightarrow>
          if EvProvider ev \<noteq> ProviderAnthropic
             \<or> EvModelSnapshotID ev \<noteq> AModelSnapshotID c \<or> EvTokenizerID ev \<noteq> ATokenizerID c
             \<or> SerializedSize ev \<noteq> int (length json)
          then ReasonTokenizerNotLocalExact
          else if Source ev = TokenSourceRemoteExactUnpriced then ReasonRemoteTokenCountUnpriced
          else if Source ev = TokenSourceRemoteEstimate then ReasonRemoteTokenCount
          else if Source ev = TokenSourceLocalExact then ReasonNone
          else ReasonTokenizerNotLocalExact
      | _ \<Rightarrow> ReasonTokenizerNotLocalExact)"

definition anthropicPricesValid :: "AnthropicPrices \<Rightarrow> bool" where
  "anthropicPricesValid p =
     (if AInputPerToken p \<le>s 0 \<or> ACachedReadPerToken p \<le>s 0 \<or> CacheWrite5mPerToken p \<le>s 0
         \<or> CacheWrite1hPerToken p \<le>s 0 \<or> AOutputPerToken p \<le>s 0 then False
      else if ALongContextThreshold p \<noteq> 0 \<and> (LongInputPerToken p \<le>s 0 \<or> LongOutputPerToken p \<le>s 0) then False
      else if smod64 (AInputPerToken p) 10 \<noteq> 0 \<or> ACachedReadPerToken p \<noteq> sdiv64 (AInputPerToken p) 10 then False
      else if smod64 (AInputPerToken p) 4 \<noteq> 0 \<or> sdiv64 MaxInt64 5 <s sdiv64 (AInputPerToken p) 4 then False
      else if CacheWrite5mPerToken p \<noteq> sdiv64 (AInputPerToken p) 4 * 5 then False
      else if sdiv64 MaxInt64 2 <s AInputPerToken p \<or> CacheWrite1hPerToken p \<noteq> AInputPerToken p * 2 then False
      else True)"

definition anthropicRequestCost :: "64 word \<Rightarrow> 64 word \<Rightarrow> AnthropicPrices \<Rightarrow> (Money \<times> Money) option" where
  "anthropicRequestCost inputTokens outputTokens p =
     (let longContext = ALongContextThreshold p \<noteq> 0 \<and> inputTokens > ALongContextThreshold p;
          inputRate = (if longContext then LongInputPerToken p else AInputPerToken p);
          outputRate = (if longContext then LongOutputPerToken p else AOutputPerToken p)
      in case (mulMoney inputTokens inputRate, mulMoney outputTokens outputRate) of
           (Some i, Some u) \<Rightarrow> Some (i, u)
         | _ \<Rightarrow> None)"

section \<open>The plan\<close>

definition anthropic_admit :: "AnthropicPlanInput \<Rightarrow> AnthropicContext \<Rightarrow> Reason" where
  "anthropic_admit inp ctx =
     (if APinnedModel ctx = [] \<or> AModelSnapshotID ctx = 0 \<or> ATokenizerID ctx = 0 \<or> APricingTableID ctx = 0
         \<or> AContractVersions ctx = 0 then ReasonInvalidIdentity
      else let r = anthropicEvidenceReason (ABaselineTokens inp) (Some ctx) (ABaselineJSON inp)
           in if r \<noteq> ReasonNone then r
              else let r = anthropicEvidenceReason (ACandidateTokens inp) (Some ctx) (ACandidateJSON inp)
                   in if r \<noteq> ReasonNone then r
                      else if HasBetaHeaders ctx then ReasonInvalidRequestShape
                      else if \<not> anthropicPricesValid (APrices ctx) \<or> ASafetyMargin ctx <s 0 then ReasonPricingUnavailable
                      else ReasonNone)"

definition anthropic_comparable :: "anthropicLayout \<Rightarrow> anthropicLayout \<Rightarrow> Reason" where
  "anthropic_comparable b c =
     (if AmaxOutputTokens b \<noteq> AmaxOutputTokens c then ReasonOutputBoundUnavailable
      else if automaticCache b \<or> automaticCache c \<or> hasTools b \<or> hasTools c then ReasonUnsupportedCacheLayout
      else if markers5m b \<noteq> markers5m c \<or> markers1h b \<noteq> markers1h c then ReasonUnsupportedCacheLayout
      else if markers5m b \<noteq> 0 \<or> markers1h b \<noteq> 0 then ReasonProtectedPrefixUnproven
      else ReasonNone)"

definition anthropic_scenario :: "AnthropicContext \<Rightarrow> 64 word \<Rightarrow> 64 word \<Rightarrow> 64 word \<Rightarrow> Scenario option" where
  "anthropic_scenario ctx baselineTokens candidateTokens maxOutput =
     (case anthropicRequestCost baselineTokens 0 (APrices ctx) of
        None \<Rightarrow> None
      | Some (baselineInput, _) \<Rightarrow>
        (case anthropicRequestCost candidateTokens maxOutput (APrices ctx) of
           None \<Rightarrow> None
         | Some (candidateInput, candidateOutput) \<Rightarrow>
           (case moneyAdd candidateInput candidateOutput of
              None \<Rightarrow> None
            | Some candidateUpper \<Rightarrow>
                Some \<lparr> ScenarioID = 0, BaselineLower = baselineInput, BaselineUpper = baselineInput,
                       CandidateLower = candidateInput, CandidateUpper = candidateUpper \<rparr>)))"

definition anthropic_cost :: "AnthropicContext \<Rightarrow> TokenEvidence \<Rightarrow> TokenEvidence \<Rightarrow> 64 word \<Rightarrow> AnthropicPlan \<Rightarrow> AnthropicPlan" where
  "anthropic_cost ctx be ce maxOutput out =
     (case anthropic_scenario ctx (InputTokens be) (InputTokens ce) maxOutput of
        None \<Rightarrow> out\<lparr> APlanReason := ReasonMoneyOverflow \<rparr>
      | Some s \<Rightarrow>
          let cost = ProofCostEvaluate (Some (local_proof ProviderAnthropic 1
                (AModelSnapshotID ctx) (ATokenizerID ctx) (APricingTableID ctx) (AContractVersions ctx)
                (ASafetyMargin ctx) s))
          in out\<lparr> APlanScenario := s, APlanVerdict := fst cost, APlanReason := snd cost \<rparr>)"

definition AnthropicPlanFor :: "AnthropicPlanInput option \<Rightarrow> AnthropicPlan" where
  "AnthropicPlanFor input =
     (case input of
        None \<Rightarrow> anthropicPlanResult ReasonInvalidArgument
      | Some inp \<Rightarrow>
        (case AContext inp of
           None \<Rightarrow> anthropicPlanResult ReasonInvalidArgument
         | Some ctx \<Rightarrow>
             if ABaselineJSON inp = [] \<or> ACandidateJSON inp = [] then anthropicPlanResult ReasonInvalidArgument
             else if anthropic_admit inp ctx \<noteq> ReasonNone then anthropicPlanResult (anthropic_admit inp ctx)
             else
               (case (parseAnthropicLayout (ABaselineJSON inp) (APinnedModel ctx),
                      parseAnthropicLayout (ACandidateJSON inp) (APinnedModel ctx)) of
                  (Some b, Some c) \<Rightarrow>
                    let out = (anthropicPlanResult ReasonNone)\<lparr>
                                BaselineBreakpoints5m := markers5m b, BaselineBreakpoints1h := markers1h b,
                                CandidateBreakpoints5m := markers5m c, CandidateBreakpoints1h := markers1h c \<rparr>
                    in if anthropic_comparable b c \<noteq> ReasonNone
                       then out\<lparr> APlanReason := anthropic_comparable b c \<rparr>
                       else (case (ABaselineTokens inp, ACandidateTokens inp) of
                               (Some be, Some ce) \<Rightarrow> anthropic_cost ctx be ce (AmaxOutputTokens c) out
                             | _ \<Rightarrow> out)
                | _ \<Rightarrow> anthropicPlanResult ReasonInvalidCacheControl)))"

end
