(* ===== verification/MoneyLaws.thy ===== *)
theory MoneyLaws
  imports PlannerAnthropic
begin

text \<open>
  The planners' fixed-width arithmetic and guards over the integers: every amount that is returned is the exact
  product or sum, every overflow is a refusal, and the rate and evidence checks say what they are meant to.
\<close>

section \<open>Exact amounts\<close>

lemma div_less_mult: "0 < (q :: int) \<Longrightarrow> a div q < b \<longleftrightarrow> a < b * q"
  by (smt (verit) nonzero_mult_div_cancel_right pos_mod_sign mult_right_mono zdiv_mono1 div_mult_mod_eq)

lemma moneyAdd_int:
  "map_option sint (moneyAdd a b) = (if is_i64 (sint a + sint b) then Some (sint a + sint b) else None)"
  by (simp add: moneyAdd_exact sint_add64)

lemma mulMoney_int:
  "map_option sint (mulMoney t r) =
     (if 0 \<le> sint r \<and> uint t * sint r < 2 ^ 63 then Some (uint t * sint r) else None)"
proof (cases "0 < sint r")
  case False
  then consider "r <s 0" | "r = 0"
    by (metis linorder_neqE_linordered_idom signed_0 signed_eq_0_iff word_sless_alt)
  then show ?thesis by cases (auto simp: mulMoney_def word_sless_alt)
next
  case True
  then have r: "uint r = sint r" "\<not> r <s 0" "r \<noteq> 0" by (auto simp: sint_nonneg_uint word_sless_alt)
  have "uint MaxInt64 = 2 ^ 63 - 1" by (simp add: MaxInt64_def)
  then have "t > MaxInt64 div r \<longleftrightarrow> (2 ^ 63 - 1) div uint r < uint t"
    by (simp add: word_less_def uint_div)
  also have "\<dots> \<longleftrightarrow> 2 ^ 63 - 1 < uint t * uint r"
    using div_less_mult [of "uint r"] True r(1) by simp
  finally have "t > MaxInt64 div r \<longleftrightarrow> \<not> uint t * sint r < 2 ^ 63" using r(1) by auto
  moreover have "sint (t * r) = uint t * sint r" if "uint t * sint r < 2 ^ 63"
  proof -
    have "t * r = word_of_int (uint t * sint r)" by (simp flip: r(1))
    moreover have "0 \<le> uint t * sint r" using True by simp
    with that have "is_i64 (uint t * sint r)" unfolding is_i64_def by linarith
    ultimately show ?thesis by (metis sint_of_int64)
  qed
  ultimately show ?thesis using True r(2,3) by (simp add: mulMoney_def)
qed

definition price_in :: "64 word \<Rightarrow> Money \<Rightarrow> int" where
  "price_in t r = uint t * sint r * (if uint t > 272000 then 2 else 1)"

lemma over_threshold: "t > LongContextThreshold \<longleftrightarrow> uint t > 272000"
  by (simp add: LongContextThreshold_def word_less_def)

lemma inputCost_int:
  "map_option sint (inputCost t r) = (if 0 \<le> sint r \<and> price_in t r < 2 ^ 63 then Some (price_in t r) else None)"
proof -
  define m where "m = uint t * sint r"
  have m: "0 \<le> sint r \<Longrightarrow> 0 \<le> m" by (simp add: m_def)
  have mul: "map_option sint (mulMoney t r) = (if 0 \<le> sint r \<and> m < 2 ^ 63 then Some m else None)"
    unfolding m_def by (rule mulMoney_int)
  have twice: "map_option sint (moneyAdd b b) = (if sint b < 2 ^ 62 then Some (2 * sint b) else None)"
    if "0 \<le> sint b" for b
    using that by (simp add: moneyAdd_int is_i64_def)
  have "inputCost t r = (case mulMoney t r of None \<Rightarrow> None
      | Some base \<Rightarrow> if uint t > 272000 then moneyAdd base base else Some base)"
    by (simp add: inputCost_def over_threshold split: option.split)
  moreover have "price_in t r = (if uint t > 272000 then 2 * m else m)"
    by (simp add: price_in_def m_def)
  ultimately show ?thesis
    using mul m twice [of "the (mulMoney t r)"] by (cases "mulMoney t r") (auto split: if_splits)
qed

lemma small_quotient:
  assumes "0 < sint r" "0 < sint d"
  shows "smod64 r d = 0 \<longleftrightarrow> sint d dvd sint r" "sint (sdiv64 r d) = sint r div sint d"
    "sint (smod64 r d) = sint r mod sint d"
proof -
  have "0 \<le> sint r div sint d" "sint r div sint d \<le> sint r" "0 \<le> sint r mod sint d" "sint r mod sint d < sint d"
    using assms zdiv_mono2 [of "sint r" 1 "sint d"] by (simp_all add: pos_imp_zdiv_nonneg_iff)
  then have i: "is_i64 (sint r div sint d)" "is_i64 (sint r mod sint d)"
    using sint64_range [of r] sint64_range [of d] by (simp_all add: is_i64_def)
  have q: "sdiv64 r d = word_of_int (sint r div sint d)" "smod64 r d = word_of_int (sint r mod sint d)"
    using assms by (simp_all add: sdiv64_def smod64_def signed_divide_int_eq_divide_int signed_modulo_int_eq_modulo_int)
  show s: "sint (sdiv64 r d) = sint r div sint d" "sint (smod64 r d) = sint r mod sint d"
    unfolding q using i by simp_all
  have "smod64 r d = 0 \<longleftrightarrow> sint (smod64 r d) = 0" by (simp only: signed_eq_0_iff)
  then show "smod64 r d = 0 \<longleftrightarrow> sint d dvd sint r" unfolding s(2) by (simp add: dvd_eq_mod_eq_0)
qed

lemma half_rate:
  assumes "0 < sint r"
  shows "smod64 r 2 = 0 \<longleftrightarrow> even (sint r)" "sint (sdiv64 r 2) = sint r div 2"
  using small_quotient [of r 2] assms by auto

definition price_out :: "64 word \<Rightarrow> Money \<Rightarrow> bool \<Rightarrow> int" where
  "price_out n r long = uint n * (if long then sint r * 3 div 2 else sint r)"

lemma outputCost_int:
  assumes "0 < sint r" "even (sint r)"
  shows "map_option sint (outputCost n r long) =
     (if price_out n r long < 2 ^ 63 \<and> (if long then sint r * 3 div 2 < 2 ^ 63 else True)
      then Some (price_out n r long) else None)"
proof (cases long)
  case True
  have "sint r + sint r div 2 = sint r * 3 div 2" using assms(2) by auto
  then show ?thesis
    using half_rate [OF assms(1)] assms True moneyAdd_int [of r "sdiv64 r 2"] mulMoney_int [of n]
    by (cases "moneyAdd r (sdiv64 r 2)") (auto simp: outputCost_def price_out_def is_i64_def split: if_splits)
qed (use mulMoney_int [of n r] assms in \<open>auto simp: outputCost_def price_out_def\<close>)

section \<open>The checks, over the integers\<close>

definition published_rates :: "OpenAIPrices \<Rightarrow> bool" where
  "published_rates p \<longleftrightarrow>
     0 < sint (InputPerToken p) \<and> 0 < sint (OutputPerToken p)
     \<and> 10 * sint (CachedReadPerToken p) = sint (InputPerToken p)
     \<and> 4 * sint (CacheWritePerToken p) = 5 * sint (InputPerToken p)
     \<and> even (sint (OutputPerToken p))"

lemma rates_arith:
  assumes "w < (2 ^ 63 :: int)"
  shows "10 dvd i \<and> r = i div 10 \<and> 4 dvd i \<and> i div 4 \<le> (2 ^ 63 - 1) div 5 \<and> w = i div 4 * 5
    \<longleftrightarrow> 10 * r = i \<and> 4 * w = 5 * i"
proof
  assume R: "10 * r = i \<and> 4 * w = 5 * i"
  define k where "k = w - i"
  have k: "i = 4 * k" "w = 5 * k" using R by (simp_all add: k_def)
  have "k = 5 * k div 5" by simp
  also have "\<dots> \<le> (2 ^ 63 - 1) div 5" by (rule zdiv_mono1) (use assms k in auto)
  finally show "10 dvd i \<and> r = i div 10 \<and> 4 dvd i \<and> i div 4 \<le> (2 ^ 63 - 1) div 5 \<and> w = i div 4 * 5"
    using R k by (metis dvd_triv_left mult.commute nonzero_mult_div_cancel_left zero_neq_numeral)
qed auto

lemma pricesValid_iff: "pricesValid p \<longleftrightarrow> published_rates p"
proof (cases "0 < sint (InputPerToken p) \<and> 0 < sint (CachedReadPerToken p) \<and> 0 < sint (CacheWritePerToken p)
      \<and> 0 < sint (OutputPerToken p)")
  case False
  then show ?thesis by (auto simp: pricesValid_def published_rates_def word_sle_eq)
next
  case True
  let ?i = "InputPerToken p" and ?r = "CachedReadPerToken p" and ?w = "CacheWritePerToken p" and ?o = "OutputPerToken p"
  have i: "0 < sint ?i" and o: "0 < sint ?o" using True by auto
  have five: "sint (5 :: 64 word) = 5" "sint (4 :: 64 word) = 4" "sint (10 :: 64 word) = 10" "sint (2 :: 64 word) = 2"
    by simp_all
  have q: "smod64 ?i 10 = 0 \<longleftrightarrow> 10 dvd sint ?i" "smod64 ?i 4 = 0 \<longleftrightarrow> 4 dvd sint ?i" "smod64 ?o 2 = 0 \<longleftrightarrow> 2 dvd sint ?o"
    "sint (sdiv64 ?i 10) = sint ?i div 10" "sint (sdiv64 ?i 4) = sint ?i div 4"
    using small_quotient [OF i, of 10] small_quotient [OF i, of 4] small_quotient [OF o, of 2] by simp_all
  have max5: "sint (sdiv64 MaxInt64 5) = (2 ^ 63 - 1) div 5"
    using small_quotient [of MaxInt64 5] by simp
  have wr: "sint (sdiv64 ?i 4 * 5) = sint ?i div 4 * 5" if "sint ?i div 4 \<le> (2 ^ 63 - 1) div 5"
    using that i by (subst sint_mult64) (auto simp: q is_i64_def)
  have eq: "a = b \<longleftrightarrow> sint a = sint b" for a b :: Money by (auto intro: signed_word_eqI)
  have "pricesValid p \<longleftrightarrow>
      10 dvd sint ?i \<and> sint ?r = sint ?i div 10 \<and> 4 dvd sint ?i \<and> sint ?i div 4 \<le> (2 ^ 63 - 1) div 5
      \<and> sint ?w = sint ?i div 4 * 5 \<and> even (sint ?o)"
    using True wr
    by (auto simp: pricesValid_def word_sle_eq word_sless_alt eq [of ?r] eq [of ?w] q max5 not_less)
  also have "\<dots> \<longleftrightarrow> published_rates p"
    using rates_arith [OF sint64_range(2) [of ?w], of "sint ?i" "sint ?r"] i o
    unfolding published_rates_def by argo
  finally show ?thesis .
qed

lemma withinGuard_iff:
  "withinGuard t g \<longleftrightarrow> \<bar>uint t - 272000\<bar> \<le> uint g"
proof -
  have b: "uint LongContextThreshold = 272000" by (simp add: LongContextThreshold_def)
  have "t \<ge> LongContextThreshold \<Longrightarrow> uint (t - LongContextThreshold) = uint t - 272000"
    "t < LongContextThreshold \<Longrightarrow> uint (LongContextThreshold - t) = 272000 - uint t"
    using uint_sub_lem [of LongContextThreshold t] uint_sub_lem [of t LongContextThreshold]
    by (simp_all add: b word_le_def word_less_def)
  then show ?thesis by (auto simp: withinGuard_def word_le_def word_less_def b)
qed

definition evidence_for :: "TokenEvidence option \<Rightarrow> OpenAIContext \<Rightarrow> string \<Rightarrow> OpenAIEndpoint \<Rightarrow> bool" where
  "evidence_for e ctx json endpoint \<longleftrightarrow>
     (case e of
        None \<Rightarrow> False
      | Some ev \<Rightarrow> Source ev = TokenSourceLocalExact \<and> SerializedSize ev = int (length json)
          \<and> EvProvider ev = ProviderOpenAI \<and> EvEndpointID ev = endpoint
          \<and> EvModelSnapshotID ev = ModelSnapshotID ctx \<and> EvTokenizerID ev = TokenizerID ctx)"

lemma evidenceReason_ok:
  "evidenceReason e (Some ctx) json endpoint = ReasonNone \<longleftrightarrow> evidence_for e ctx json endpoint"
  by (auto simp: evidenceReason_def evidence_for_def TokenSourceRemoteExactUnpriced_def
      TokenSourceRemoteEstimate_def TokenSourceLocalExact_def split: option.split)

definition same_cache :: "openAICacheLayout \<Rightarrow> openAICacheLayout \<Rightarrow> bool" where
  "same_cache b c \<longleftrightarrow>
     explicitMode b \<and> explicitMode c \<and> ttlPresent b = ttlPresent c \<and> cacheKeyPresent b = cacheKeyPresent c
     \<and> (if cacheKeyPresent b then cacheKey b = cacheKey c else True)
     \<and> maxOutputTokens b = maxOutputTokens c \<and> breakpoints b = 0 \<and> breakpoints c = 0"

lemma openai_comparable_ok: "openai_comparable b c = ReasonNone \<longleftrightarrow> same_cache b c"
  by (auto simp: openai_comparable_def same_cache_def)

lemma covers_one: "Scenarios p = [s] \<Longrightarrow> ScenarioID s = 0 \<Longrightarrow> ScenarioCoverage (Transform p) = 1 \<Longrightarrow> covers p"
  by (auto simp: covers_def bit_1_iff)

lemma local_proof_proven:
  assumes "provider = ProviderOpenAI \<or> provider = ProviderAnthropic" "endpoint \<noteq> 0" "model \<noteq> 0" "tokenizer \<noteq> 0"
    "pricing \<noteq> 0" "contract \<noteq> 0" "0 \<le> sint margin" "ScenarioID s = 0"
  shows "fst (ProofCostEvaluate (Some (local_proof provider endpoint model tokenizer pricing contract margin s))) = CostProven
     \<longleftrightarrow> amounts s \<and> sint (CandidateUpper s) + sint margin < sint (BaselineLower s)"
proof -
  let ?p = "local_proof provider endpoint model tokenizer pricing contract margin s"
  have "covers ?p" by (rule covers_one [of _ s]) (simp_all add: local_proof_def assms)
  then have "sound_proof ?p"
    using assms by (simp add: sound_proof_def identified_def key_valid_def local_proof_def)
  then show ?thesis by (simp add: cost_evidence strictly_cheaper_def local_proof_def)
qed

end
