(* ===== verification/PlannerLaws.thy ===== *)
theory PlannerLaws
  imports MoneyLaws
begin

text \<open>What a proven verdict of the OpenAI planner rests on, and what it does not look at.\<close>

section \<open>The scenario\<close>

definition openai_cheaper :: "OpenAIContext \<Rightarrow> 64 word \<Rightarrow> 64 word \<Rightarrow> 64 word \<Rightarrow> bool" where
  "openai_cheaper ctx baseline candidate maxOutput \<longleftrightarrow>
     (let i = InputPerToken (Prices ctx); o' = OutputPerToken (Prices ctx); long = uint candidate > 272000
      in price_in candidate i + price_out maxOutput o' long + sint (CtxSafetyMargin ctx) < price_in baseline i
         \<and> price_in baseline i < 2 ^ 63 \<and> (if long then sint o' * 3 div 2 < 2 ^ 63 else True))"

lemma prices_nonneg:
  "0 \<le> sint r \<Longrightarrow> 0 \<le> price_in t r" "0 \<le> sint r \<Longrightarrow> 0 \<le> price_out n r long"
  by (simp_all add: price_in_def price_out_def)

lemma openai_scenario_cheaper:
  assumes "published_rates (Prices ctx)" "0 \<le> sint (CtxSafetyMargin ctx)"
  shows "(case openai_scenario ctx b c n of None \<Rightarrow> False
      | Some s \<Rightarrow> amounts s \<and> sint (CandidateUpper s) + sint (CtxSafetyMargin ctx) < sint (BaselineLower s))
    \<longleftrightarrow> openai_cheaper ctx b c n"
proof -
  let ?i = "InputPerToken (Prices ctx)" and ?o = "OutputPerToken (Prices ctx)" and ?long = "uint c > 272000"
  define pb pc po m where ps: "pb = price_in b ?i" "pc = price_in c ?i" "po = price_out n ?o ?long"
    "m = sint (CtxSafetyMargin ctx)"
  have rates: "0 < sint ?i" "0 < sint ?o" "even (sint ?o)" using assms(1) by (simp_all add: published_rates_def)
  have nonneg: "0 \<le> pb" "0 \<le> pc" "0 \<le> po" "0 \<le> m" using rates assms(2) by (simp_all add: ps prices_nonneg)
  have b: "map_option sint (inputCost b ?i) = (if pb < 2 ^ 63 then Some pb else None)"
    and c: "map_option sint (inputCost c ?i) = (if pc < 2 ^ 63 then Some pc else None)"
    and o: "map_option sint (outputCost n ?o ?long) =
      (if po < 2 ^ 63 \<and> (if ?long then sint ?o * 3 div 2 < 2 ^ 63 else True) then Some po else None)"
    using rates by (simp_all add: inputCost_int outputCost_int ps)
  have sum: "map_option sint (moneyAdd u v) = (if pc + po < 2 ^ 63 then Some (pc + po) else None)"
    if "sint u = pc" "sint v = po" for u v
    using that nonneg by (simp add: moneyAdd_int is_i64_def)
  show ?thesis
    unfolding openai_scenario_def over_threshold openai_cheaper_def Let_def ps(4) [symmetric] ps(1-3) [symmetric]
    using b c o sum [of "the (inputCost c ?i)" "the (outputCost n ?o ?long)"] nonneg
    by (auto simp: amounts_def split: option.splits if_splits)
qed

text \<open>What the planner must have been given: pinned identity, the two texts measured by a local exact count
  over exactly their bytes, the published rates, a supported endpoint and two layouts that cache alike and
  carry no breakpoint, and counts outside the guard band around the price tier.\<close>

definition openai_grounded ::
    "OpenAIPlanInput \<Rightarrow> OpenAIContext \<Rightarrow> TokenEvidence \<Rightarrow> TokenEvidence \<Rightarrow> openAICacheLayout \<Rightarrow> openAICacheLayout \<Rightarrow> bool" where
  "openai_grounded inp ctx be ce b c \<longleftrightarrow>
     BaselineJSON inp \<noteq> [] \<and> CandidateJSON inp \<noteq> []
     \<and> PinnedModel ctx \<noteq> [] \<and> ModelSnapshotID ctx \<noteq> 0 \<and> TokenizerID ctx \<noteq> 0 \<and> PricingTableID ctx \<noteq> 0
     \<and> ContractVersions ctx \<noteq> 0 \<and> Endpoint inp \<in> {OpenAIResponses, OpenAIChatCompletions}
     \<and> evidence_for (Some be) ctx (BaselineJSON inp) (Endpoint inp)
     \<and> evidence_for (Some ce) ctx (CandidateJSON inp) (Endpoint inp)
     \<and> published_rates (Prices ctx) \<and> 0 \<le> sint (CtxSafetyMargin ctx) \<and> same_cache b c
     \<and> uint (TokenizerGuardTokens ctx) < \<bar>uint (InputTokens be) - 272000\<bar>
     \<and> uint (TokenizerGuardTokens ctx) < \<bar>uint (InputTokens ce) - 272000\<bar>"

lemma openai_admit_ok:
  "openai_admit inp ctx = ReasonNone \<longleftrightarrow>
     PinnedModel ctx \<noteq> [] \<and> ModelSnapshotID ctx \<noteq> 0 \<and> TokenizerID ctx \<noteq> 0 \<and> PricingTableID ctx \<noteq> 0
     \<and> ContractVersions ctx \<noteq> 0 \<and> Endpoint inp \<in> {OpenAIResponses, OpenAIChatCompletions}
     \<and> evidence_for (BaselineTokens inp) ctx (BaselineJSON inp) (Endpoint inp)
     \<and> evidence_for (CandidateTokens inp) ctx (CandidateJSON inp) (Endpoint inp)
     \<and> published_rates (Prices ctx) \<and> 0 \<le> sint (CtxSafetyMargin ctx)"
  by (auto simp: openai_admit_def Let_def evidenceReason_ok [symmetric] pricesValid_iff word_sless_alt)

lemma scenario_id: "openai_scenario ctx b c n = Some s \<Longrightarrow> ScenarioID s = 0"
  by (auto simp: openai_scenario_def split: option.splits)

lemma verdict_result [simp]: "PlanVerdict (openAIPlanResult r) = CostIndeterminate"
  by (simp add: openAIPlanResult_def)

lemma openai_cost_proven:
  assumes "openai_admit inp ctx = ReasonNone" "PlanVerdict out = CostIndeterminate"
  shows "PlanVerdict (openai_cost inp ctx be ce n out) = CostProven \<longleftrightarrow>
      uint (TokenizerGuardTokens ctx) < \<bar>uint (InputTokens be) - 272000\<bar>
      \<and> uint (TokenizerGuardTokens ctx) < \<bar>uint (InputTokens ce) - 272000\<bar>
      \<and> openai_cheaper ctx (InputTokens be) (InputTokens ce) n"
proof -
  let ?sc = "openai_scenario ctx (InputTokens be) (InputTokens ce) n"
  have ok: "published_rates (Prices ctx)" "0 \<le> sint (CtxSafetyMargin ctx)"
    using assms by (simp_all add: openai_admit_ok)
  have "Endpoint inp \<noteq> 0"
    using assms by (auto simp: openai_admit_ok OpenAIResponses_def OpenAIChatCompletions_def)
  then have "?sc = Some s \<Longrightarrow> fst (ProofCostEvaluate (Some (local_proof ProviderOpenAI (Endpoint inp)
        (ModelSnapshotID ctx) (TokenizerID ctx) (PricingTableID ctx) (ContractVersions ctx) (CtxSafetyMargin ctx) s)))
      = CostProven \<longleftrightarrow> amounts s \<and> sint (CandidateUpper s) + sint (CtxSafetyMargin ctx) < sint (BaselineLower s)" for s
    using assms scenario_id [of ctx _ _ _ s] by (subst local_proof_proven) (auto simp: openai_admit_ok)
  then show ?thesis
    using openai_scenario_cheaper [OF ok, of "InputTokens be" "InputTokens ce" n]
    by (auto simp: openai_cost_def withinGuard_iff Let_def not_le assms(2) split: option.splits)
qed

lemma openai_plan_iff:
  "PlanVerdict (OpenAIGPT56Plan input) = CostProven \<longleftrightarrow>
     (case input of
        None \<Rightarrow> False
      | Some inp \<Rightarrow>
        (case (Context inp, BaselineTokens inp, CandidateTokens inp) of
           (Some ctx, Some be, Some ce) \<Rightarrow>
             (case (parseOpenAILayout (BaselineJSON inp) (PinnedModel ctx) (Endpoint inp),
                    parseOpenAILayout (CandidateJSON inp) (PinnedModel ctx) (Endpoint inp)) of
                (Some b, Some c) \<Rightarrow>
                  openai_grounded inp ctx be ce b c
                  \<and> openai_cheaper ctx (InputTokens be) (InputTokens ce) (maxOutputTokens c)
              | _ \<Rightarrow> False)
         | _ \<Rightarrow> False))"
proof (cases input)
  case (Some inp)
  show ?thesis
  proof (cases "Context inp")
    case (Some ctx)
    show ?thesis
    proof (cases "openai_admit inp ctx = ReasonNone")
      case True
      then obtain be ce where ev: "BaselineTokens inp = Some be" "CandidateTokens inp = Some ce"
        by (auto simp: openai_admit_ok evidence_for_def split: option.splits)
      show ?thesis
        using \<open>input = Some inp\<close> Some True ev openai_admit_ok [of inp ctx]
        by (auto simp: OpenAIGPT56Plan_def openai_grounded_def Let_def openai_comparable_ok
            openai_cost_proven split: option.splits)
    next
      case False
      then show ?thesis
        using \<open>input = Some inp\<close> Some openai_admit_ok [of inp ctx]
        by (auto simp: OpenAIGPT56Plan_def openai_grounded_def Let_def split: option.splits)
    qed
  qed (simp add: OpenAIGPT56Plan_def Some)
qed (simp add: OpenAIGPT56Plan_def)

lemma openai_plan_scenario:
  assumes "PlanVerdict (OpenAIGPT56Plan (Some inp)) = CostProven"
    and "parseOpenAILayout (CandidateJSON inp) (PinnedModel (the (Context inp))) (Endpoint inp) = Some c"
  shows "openai_scenario (the (Context inp)) (InputTokens (the (BaselineTokens inp)))
      (InputTokens (the (CandidateTokens inp))) (maxOutputTokens c) = Some (PlanScenario (OpenAIGPT56Plan (Some inp)))"
proof -
  from assms obtain ctx be ce b where ev: "Context inp = Some ctx" "BaselineTokens inp = Some be" "CandidateTokens inp = Some ce"
      "parseOpenAILayout (BaselineJSON inp) (PinnedModel ctx) (Endpoint inp) = Some b"
      "parseOpenAILayout (CandidateJSON inp) (PinnedModel ctx) (Endpoint inp) = Some c"
    and g: "openai_grounded inp ctx be ce b c"
    unfolding openai_plan_iff by (auto split: option.splits)
  let ?out = "(openAIPlanResult ReasonNone)\<lparr> BaselineBreakpoints := breakpoints b, CandidateBreakpoints := breakpoints c \<rparr>"
  have "openai_admit inp ctx = ReasonNone" "openai_comparable b c = ReasonNone" "BaselineJSON inp \<noteq> []" "CandidateJSON inp \<noteq> []"
    using g ev by (simp_all add: openai_admit_ok openai_comparable_ok openai_grounded_def)
  with ev have plan: "OpenAIGPT56Plan (Some inp) = openai_cost inp ctx be ce (maxOutputTokens c) ?out"
    by (simp add: OpenAIGPT56Plan_def Let_def)
  show ?thesis using assms(1) unfolding plan ev
    by (auto simp: openai_cost_def Let_def split: if_splits option.splits)
qed

lemma parse_layout_doc:
  "parseOpenAILayout text model endpoint = Some l \<Longrightarrow>
     \<exists>kvs. ParseJSON text = Some (JSONObject kvs) \<and> maxOutputTokens l = output_bound (JSONObject kvs) endpoint"
  by (auto simp: parseOpenAILayout_def Let_def split: option.splits json.splits if_splits)

section \<open>Properties\<close>

text \<open>C24: what the OpenAI evidence means. The verdict is \<open>CostProven\<close> exactly for a pinned context, a
  supported endpoint, exact local counts over exactly the two texts and outside the guard band, the published
  rates, two layouts that cache alike without breakpoints and with one output bound, and a candidate whose
  input and full output, priced over the integers in its tier, with the margin stay below the baseline's input
  alone.\<close>

theorem openai_plan_proven:
  "PlanVerdict (OpenAIGPT56Plan input) = CostProven \<longleftrightarrow>
     (case input of
        None \<Rightarrow> False
      | Some inp \<Rightarrow>
        (case (Context inp, BaselineTokens inp, CandidateTokens inp) of
           (Some ctx, Some be, Some ce) \<Rightarrow>
             (case (parseOpenAILayout (BaselineJSON inp) (PinnedModel ctx) (Endpoint inp),
                    parseOpenAILayout (CandidateJSON inp) (PinnedModel ctx) (Endpoint inp)) of
                (Some b, Some c) \<Rightarrow>
                  openai_grounded inp ctx be ce b c
                  \<and> openai_cheaper ctx (InputTokens be) (InputTokens ce) (maxOutputTokens c)
              | _ \<Rightarrow> False)
         | _ \<Rightarrow> False))"
  by (rule openai_plan_iff)

text \<open>A request without an output bound is costed as if it had no output. The verdict can be
  \<open>CostProven\<close> for a candidate that names no \<open>max_output_tokens\<close>, and its upper bound then is its
  input cost alone, although nothing bounds what the provider may bill for output.\<close>

theorem absent_output_bound:
  assumes "PlanVerdict (OpenAIGPT56Plan (Some inp)) = CostProven" "Endpoint inp = OpenAIResponses"
    and "Get (ParseJSON (CandidateJSON inp)) ''max_output_tokens'' = None"
  shows "CandidateUpper (PlanScenario (OpenAIGPT56Plan (Some inp))) = CandidateLower (PlanScenario (OpenAIGPT56Plan (Some inp)))"
proof -
  obtain c where c: "parseOpenAILayout (CandidateJSON inp) (PinnedModel (the (Context inp))) (Endpoint inp) = Some c"
    using assms(1) unfolding openai_plan_iff by (auto split: option.splits)
  then have "maxOutputTokens c = 0"
    using parse_layout_doc [OF c] assms(2,3) by (auto simp: output_bound_def number_member_def)
  with openai_plan_scenario [OF assms(1) c] have s: "openai_scenario (the (Context inp)) (InputTokens (the (BaselineTokens inp)))
      (InputTokens (the (CandidateTokens inp))) 0 = Some (PlanScenario (OpenAIGPT56Plan (Some inp)))" by simp
  have zero: "outputCost 0 r long = Some u \<Longrightarrow> u = 0" for r long u
    by (auto simp: outputCost_def mulMoney_def split: if_splits option.splits)
  have "openai_scenario ctx b c 0 = Some s \<Longrightarrow> CandidateUpper s = CandidateLower s" for ctx b c s
    by (auto simp: openai_scenario_def moneyAdd_def dest!: zero split: option.splits if_splits)
  then show ?thesis using s .
qed

definition unbounded_request :: "string \<Rightarrow> string" where
  "unbounded_request prompt =
     PrintJSONUnformatted (JSONObject [(''model'', JSONString ''m''), (''input'', JSONString prompt),
       (''prompt_cache'', JSONObject [(''mode'', JSONString ''explicit'')])])"

definition unbounded_plan :: OpenAIPlanInput where
  "unbounded_plan =
     (let ev = (\<lambda>text tokens. Some \<lparr> EvProvider = ProviderOpenAI, EvEndpointID = OpenAIResponses,
         EvModelSnapshotID = 1, EvTokenizerID = 1, SerializedSize = int (length text), InputTokens = tokens,
         Source = TokenSourceLocalExact \<rparr>)
      in \<lparr> BaselineJSON = unbounded_request ''aaaa'', CandidateJSON = unbounded_request ''a'',
           Context = Some \<lparr> PinnedModel = ''m'', ModelSnapshotID = 1, TokenizerID = 1, PricingTableID = 1,
             ContractVersions = 1, TokenizerGuardTokens = 100, CtxSafetyMargin = 1,
             Prices = \<lparr> InputPerToken = 20, CachedReadPerToken = 2, CacheWritePerToken = 25, OutputPerToken = 60 \<rparr> \<rparr>,
           BaselineTokens = ev (unbounded_request ''aaaa'') 20, CandidateTokens = ev (unbounded_request ''a'') 10,
           Endpoint = OpenAIResponses \<rparr>)"

lemma unbounded_request_parsed:
  assumes "utf8_valid prompt"
  shows "ParseJSON (unbounded_request prompt) = Some (JSONObject [(''model'', JSONString ''m''), (''input'', JSONString prompt),
       (''prompt_cache'', JSONObject [(''mode'', JSONString ''explicit'')])])"
    and "unbounded_request prompt \<noteq> []"
proof -
  have "utf8_valid ''m'' \<and> utf8_valid ''model'' \<and> utf8_valid ''input'' \<and> utf8_valid ''prompt_cache''
      \<and> utf8_valid ''mode'' \<and> utf8_valid ''explicit''" by code_simp
  with assms show p: "ParseJSON (unbounded_request prompt) = Some (JSONObject [(''model'', JSONString ''m''), (''input'', JSONString prompt),
       (''prompt_cache'', JSONObject [(''mode'', JSONString ''explicit'')])])"
    unfolding unbounded_request_def by (intro parse_printed) simp
  show "unbounded_request prompt \<noteq> []"
    by (simp add: unbounded_request_def)
qed

lemma unbounded_layout:
  assumes "utf8_valid prompt"
  shows "parseOpenAILayout (unbounded_request prompt) ''m'' OpenAIResponses =
    Some \<lparr> explicitMode = True, ttlPresent = False, cacheKeyPresent = False, cacheKey = [], breakpoints = 0, maxOutputTokens = 0 \<rparr>"
  unfolding parseOpenAILayout_def unbounded_request_parsed [OF assms] option.case json.case Let_def
  by code_simp

lemma unbounded_plan_proven: "PlanVerdict (OpenAIGPT56Plan (Some unbounded_plan)) = CostProven"
proof -
  have u: "utf8_valid ''aaaa''" "utf8_valid ''a''" by code_simp+
  have c: "openai_cheaper (the (Context unbounded_plan)) 20 10 0"
    by (simp add: openai_cheaper_def unbounded_plan_def price_in_def price_out_def Let_def)
  have "published_rates (Prices (the (Context unbounded_plan)))"
    by (simp add: published_rates_def unbounded_plan_def Let_def)
  with u c show ?thesis
    by (simp add: openai_plan_iff unbounded_plan_def unbounded_layout Let_def openai_grounded_def
        unbounded_request_parsed(2) evidence_for_def same_cache_def)
qed

theorem absent_output_bound_witness:
  "PlanVerdict (OpenAIGPT56Plan (Some unbounded_plan)) = CostProven
   \<and> CandidateUpper (PlanScenario (OpenAIGPT56Plan (Some unbounded_plan)))
     = CandidateLower (PlanScenario (OpenAIGPT56Plan (Some unbounded_plan)))"
proof -
  have "utf8_valid ''a''" by code_simp
  then have "Get (ParseJSON (CandidateJSON unbounded_plan)) ''max_output_tokens'' = None"
    "Endpoint unbounded_plan = OpenAIResponses"
    using unbounded_request_parsed(1) [of "''a''"] by (simp_all add: unbounded_plan_def Let_def) 
  then show ?thesis using absent_output_bound [OF unbounded_plan_proven] unbounded_plan_proven by simp
qed

end
