(* ===== verification/AnthropicLaws.thy ===== *)
theory AnthropicLaws
  imports PlannerLaws
begin

text \<open>Which cache markers the Anthropic planner understands, and what a proven verdict of it rests on.\<close>

section \<open>Cache markers\<close>

text \<open>The markers of a document in the order of its text, and the two lifetimes.\<close>

primrec controls :: "json \<Rightarrow> json list" where
  "controls JSONNull = []"
| "controls JSONFalse = []"
| "controls JSONTrue = []"
| "controls (JSONNumber n) = []"
| "controls (JSONString s) = []"
| "controls (JSONArray xs) = concat (map controls xs)"
| "controls (JSONObject kvs) =
     concat (map (\<lambda>(k, v, cs). if k = ''cache_control'' then [v] else cs)
       (map (map_prod id (\<lambda>v. (v, controls v))) kvs))"

definition marker5m :: "json \<Rightarrow> bool" where
  "marker5m c \<longleftrightarrow> IsObject (Some c) \<and> GetString (Some c) ''type'' = ''ephemeral''
     \<and> Get (Some c) ''ttl'' \<in> {None, Some (JSONString ''5m'')}"

definition marker1h :: "json \<Rightarrow> bool" where
  "marker1h c \<longleftrightarrow> IsObject (Some c) \<and> GetString (Some c) ''type'' = ''ephemeral''
     \<and> Get (Some c) ''ttl'' = Some (JSONString ''1h'')"

fun record_all :: "json list \<Rightarrow> anthropicLayout \<Rightarrow> anthropicLayout option" where
  "record_all [] l = Some l"
| "record_all (c # cs) l = (case recordControl c l of None \<Rightarrow> None | Some l' \<Rightarrow> record_all cs l')"

lemma record_all_append:
  "record_all (xs @ ys) l = (case record_all xs l of None \<Rightarrow> None | Some l' \<Rightarrow> record_all ys l')"
  by (induction xs arbitrary: l) (auto split: option.split)

lemma scanControls_record:
  "scanControls v l = record_all (controls v) l"
  "scan_members kvs l = record_all (concat (map (\<lambda>(k, v). if k = ''cache_control'' then [v] else controls v) kvs)) l"
  "scan_items xs l = record_all (concat (map controls xs)) l"
proof (induction v l and kvs l and xs l rule: scanControls_scan_members_scan_items.induct)
  case (1 v l)
  have eq: "(\<lambda>(k, v, cs). if k = ''cache_control'' then [v] else cs) \<circ> map_prod id (\<lambda>v. (v, controls v))
     = (\<lambda>(k, v). if k = ''cache_control'' then [v] else controls v)"
    by (auto simp: fun_eq_iff)
  show ?case using 1 by (subst scanControls.simps) (auto simp: eq split: json.splits)
next
  case (2 kvs l)
  then show ?case
    by (subst scan_members.simps) (auto simp: record_all_append split: list.splits option.splits)
next
  case (3 xs l)
  then show ?case
    by (subst scan_items.simps) (auto simp: record_all_append split: list.splits option.splits)
qed

lemma recordControl_cases:
  "recordControl c l =
     (if marker5m c then Some (l\<lparr> markers5m := markers5m l + 1, saw5m := True \<rparr>)
      else if marker1h c \<and> \<not> saw5m l then Some (l\<lparr> markers1h := markers1h l + 1 \<rparr>)
      else None)"
  by (auto simp: recordControl_def marker5m_def marker1h_def Let_def)

lemma markers_disjoint: "marker5m c \<Longrightarrow> \<not> marker1h c"
  by (auto simp: marker5m_def marker1h_def)

lemma record_all_after:
  "saw5m l \<Longrightarrow> record_all cs l =
     (if list_all marker5m cs then Some (l\<lparr> markers5m := markers5m l + length cs \<rparr>) else None)"
  by (induction cs arbitrary: l) (auto simp: recordControl_cases)

lemma record_all_exact:
  "\<not> saw5m l \<Longrightarrow> record_all cs l =
     (let long = takeWhile marker1h cs; short = dropWhile marker1h cs
      in if list_all marker5m short
         then Some (l\<lparr> markers1h := markers1h l + length long, markers5m := markers5m l + length short, saw5m := (short \<noteq> []) \<rparr>)
         else None)"
  by (induction cs arbitrary: l) (auto simp: recordControl_cases record_all_after Let_def dest: markers_disjoint)

text \<open>Which cache markers are understood. The scan of a document accepts exactly when its markers, in
  the order of the text, are first ephemeral ones of one hour and then ephemeral ones of five minutes, the
  order in which lifetimes nest, and it counts both.\<close>

theorem scanControls_exact:
  "scanControls doc (l\<lparr> saw5m := False \<rparr>) =
     (let long = takeWhile marker1h (controls doc); short = dropWhile marker1h (controls doc)
      in if list_all marker5m short
         then Some (l\<lparr> markers1h := markers1h l + length long, markers5m := markers5m l + length short, saw5m := (short \<noteq> []) \<rparr>)
         else None)"
  using record_all_exact [of "l\<lparr> saw5m := False \<rparr>" "controls doc"] by (simp add: scanControls_record Let_def)

section \<open>The Anthropic plan\<close>

definition published_anthropic :: "AnthropicPrices \<Rightarrow> bool" where
  "published_anthropic p \<longleftrightarrow>
     0 < sint (AInputPerToken p) \<and> 0 < sint (AOutputPerToken p)
     \<and> 10 * sint (ACachedReadPerToken p) = sint (AInputPerToken p)
     \<and> 4 * sint (CacheWrite5mPerToken p) = 5 * sint (AInputPerToken p)
     \<and> sint (CacheWrite1hPerToken p) = 2 * sint (AInputPerToken p)
     \<and> (if ALongContextThreshold p = 0 then True
        else 0 < sint (LongInputPerToken p) \<and> 0 < sint (LongOutputPerToken p))"

lemma anthropicPricesValid_iff: "anthropicPricesValid p \<longleftrightarrow> published_anthropic p"
proof -
  let ?i = "AInputPerToken p" and ?h = "CacheWrite1hPerToken p"
  let ?q = "\<lparr> InputPerToken = ?i, CachedReadPerToken = ACachedReadPerToken p,
      CacheWritePerToken = CacheWrite5mPerToken p, OutputPerToken = 2 \<rparr>"
  have q: "pricesValid ?q \<longleftrightarrow> 0 < sint ?i \<and> 10 * sint (ACachedReadPerToken p) = sint ?i
      \<and> 4 * sint (CacheWrite5mPerToken p) = 5 * sint ?i"
    by (auto simp: pricesValid_iff published_rates_def)
  have two: "smod64 2 2 = 0" by (simp add: smod64_def)
  have max2: "sint (sdiv64 MaxInt64 2) = (2 ^ 63 - 1) div 2"
    using small_quotient [of MaxInt64 2] by simp
  have hour: "(\<not> sdiv64 MaxInt64 2 <s ?i \<and> ?h = ?i * 2) \<longleftrightarrow> sint ?h = 2 * sint ?i" if "0 < sint ?i"
  proof (cases "sint ?i \<le> (2 ^ 63 - 1) div 2")
    case True
    then have "sint (?i * 2) = 2 * sint ?i"
      using that by (subst sint_mult64) (auto simp: is_i64_def)
    moreover have "?h = ?i * 2 \<longleftrightarrow> sint ?h = sint (?i * 2)" by (auto intro: signed_word_eqI)
    ultimately show ?thesis using True by (simp add: word_sless_alt max2)
  next
    case False
    then show ?thesis using sint64_range(2) [of ?h] by (simp add: word_sless_alt max2)
  qed
  show ?thesis
  proof (cases "0 < sint ?i \<and> 0 < sint (AOutputPerToken p)")
    case False
    then show ?thesis by (auto simp: anthropicPricesValid_def published_anthropic_def word_sle_eq)
  next
    case True
    have "anthropicPricesValid p \<longleftrightarrow> pricesValid ?q
        \<and> (\<not> sdiv64 MaxInt64 2 <s ?i \<and> ?h = ?i * 2) \<and> 0 < sint ?h
        \<and> (if ALongContextThreshold p = 0 then True
           else 0 < sint (LongInputPerToken p) \<and> 0 < sint (LongOutputPerToken p))"
      using True by (auto simp: anthropicPricesValid_def pricesValid_def two word_sle_eq)
    then show ?thesis using True hour q by (auto simp: published_anthropic_def)
  qed
qed

definition long_tier :: "AnthropicPrices \<Rightarrow> 64 word \<Rightarrow> bool" where
  "long_tier p t \<longleftrightarrow> ALongContextThreshold p \<noteq> 0 \<and> uint t > uint (ALongContextThreshold p)"

definition tier_in :: "AnthropicPrices \<Rightarrow> 64 word \<Rightarrow> int" where
  "tier_in p t = uint t * (if long_tier p t then sint (LongInputPerToken p) else sint (AInputPerToken p))"

definition tier_out :: "AnthropicPrices \<Rightarrow> 64 word \<Rightarrow> 64 word \<Rightarrow> int" where
  "tier_out p t n = uint n * (if long_tier p t then sint (LongOutputPerToken p) else sint (AOutputPerToken p))"

lemma anthropicRequestCost_int:
  assumes "published_anthropic p"
  shows "map_option (map_prod sint sint) (anthropicRequestCost t n p) =
    (if tier_in p t < 2 ^ 63 \<and> tier_out p t n < 2 ^ 63 then Some (tier_in p t, tier_out p t n) else None)"
proof -
  let ?i = "if long_tier p t then LongInputPerToken p else AInputPerToken p"
  let ?o = "if long_tier p t then LongOutputPerToken p else AOutputPerToken p"
  have "0 \<le> sint ?i" "0 \<le> sint ?o" using assms by (auto simp: published_anthropic_def long_tier_def)
  then have "map_option sint (mulMoney t ?i) = (if tier_in p t < 2 ^ 63 then Some (tier_in p t) else None)"
    "map_option sint (mulMoney n ?o) = (if tier_out p t n < 2 ^ 63 then Some (tier_out p t n) else None)"
    unfolding mulMoney_int tier_in_def tier_out_def by auto
  moreover have "anthropicRequestCost t n p =
      (case (mulMoney t ?i, mulMoney n ?o) of (Some i, Some u) \<Rightarrow> Some (i, u) | _ \<Rightarrow> None)"
    by (simp add: anthropicRequestCost_def long_tier_def word_less_def Let_def)
  ultimately show ?thesis by (auto split: option.splits if_splits)
qed

definition anthropic_cheaper :: "AnthropicContext \<Rightarrow> 64 word \<Rightarrow> 64 word \<Rightarrow> 64 word \<Rightarrow> bool" where
  "anthropic_cheaper ctx baseline candidate maxOutput \<longleftrightarrow>
     (let p = APrices ctx
      in tier_in p candidate + tier_out p candidate maxOutput + sint (ASafetyMargin ctx) < tier_in p baseline
         \<and> tier_in p baseline < 2 ^ 63)"

lemma anthropic_scenario_cheaper:
  assumes "published_anthropic (APrices ctx)" "0 \<le> sint (ASafetyMargin ctx)"
  shows "(case anthropic_scenario ctx b c n of None \<Rightarrow> False
      | Some s \<Rightarrow> amounts s \<and> sint (CandidateUpper s) + sint (ASafetyMargin ctx) < sint (BaselineLower s))
    \<longleftrightarrow> anthropic_cheaper ctx b c n"
proof -
  let ?p = "APrices ctx"
  define pb pc po m where ps: "pb = tier_in ?p b" "pc = tier_in ?p c" "po = tier_out ?p c n" "m = sint (ASafetyMargin ctx)"
  have nonneg: "0 \<le> pb" "0 \<le> pc" "0 \<le> po" "0 \<le> m"
    using assms by (auto simp: ps tier_in_def tier_out_def published_anthropic_def long_tier_def)
  have b: "map_option (map_prod sint sint) (anthropicRequestCost b 0 ?p) = (if pb < 2 ^ 63 then Some (pb, 0) else None)"
    and c: "map_option (map_prod sint sint) (anthropicRequestCost c n ?p) =
      (if pc < 2 ^ 63 \<and> po < 2 ^ 63 then Some (pc, po) else None)"
    unfolding anthropicRequestCost_int [OF assms(1)] ps by (auto simp: tier_out_def)
  have sum: "map_option sint (moneyAdd u v) = (if pc + po < 2 ^ 63 then Some (pc + po) else None)"
    if "sint u = pc" "sint v = po" for u v
    using that nonneg by (simp add: moneyAdd_int is_i64_def)
  show ?thesis
    unfolding anthropic_scenario_def anthropic_cheaper_def Let_def ps(4) [symmetric] ps(1-3) [symmetric]
    using b c sum [of "fst (the (anthropicRequestCost c n ?p))" "snd (the (anthropicRequestCost c n ?p))"] nonneg
    by (auto simp: amounts_def split: option.splits if_splits)
qed

definition anthropic_evidence_for :: "TokenEvidence option \<Rightarrow> AnthropicContext \<Rightarrow> string \<Rightarrow> bool" where
  "anthropic_evidence_for e ctx json \<longleftrightarrow>
     (case e of
        None \<Rightarrow> False
      | Some ev \<Rightarrow> Source ev = TokenSourceLocalExact \<and> SerializedSize ev = int (length json)
          \<and> EvProvider ev = ProviderAnthropic
          \<and> EvModelSnapshotID ev = AModelSnapshotID ctx \<and> EvTokenizerID ev = ATokenizerID ctx)"

lemma anthropicEvidenceReason_ok:
  "anthropicEvidenceReason e (Some ctx) json = ReasonNone \<longleftrightarrow> anthropic_evidence_for e ctx json"
  by (auto simp: anthropicEvidenceReason_def anthropic_evidence_for_def TokenSourceRemoteExactUnpriced_def
      TokenSourceRemoteEstimate_def TokenSourceLocalExact_def split: option.split)

definition same_markers :: "anthropicLayout \<Rightarrow> anthropicLayout \<Rightarrow> bool" where
  "same_markers b c \<longleftrightarrow>
     AmaxOutputTokens b = AmaxOutputTokens c \<and> \<not> automaticCache b \<and> \<not> automaticCache c
     \<and> \<not> hasTools b \<and> \<not> hasTools c
     \<and> markers5m b = 0 \<and> markers5m c = 0 \<and> markers1h b = 0 \<and> markers1h c = 0"

lemma anthropic_comparable_ok: "anthropic_comparable b c = ReasonNone \<longleftrightarrow> same_markers b c"
  by (auto simp: anthropic_comparable_def same_markers_def)

definition anthropic_grounded ::
    "AnthropicPlanInput \<Rightarrow> AnthropicContext \<Rightarrow> TokenEvidence \<Rightarrow> TokenEvidence \<Rightarrow> anthropicLayout \<Rightarrow> anthropicLayout \<Rightarrow> bool" where
  "anthropic_grounded inp ctx be ce b c \<longleftrightarrow>
     ABaselineJSON inp \<noteq> [] \<and> ACandidateJSON inp \<noteq> []
     \<and> APinnedModel ctx \<noteq> [] \<and> AModelSnapshotID ctx \<noteq> 0 \<and> ATokenizerID ctx \<noteq> 0 \<and> APricingTableID ctx \<noteq> 0
     \<and> AContractVersions ctx \<noteq> 0 \<and> \<not> HasBetaHeaders ctx
     \<and> anthropic_evidence_for (Some be) ctx (ABaselineJSON inp)
     \<and> anthropic_evidence_for (Some ce) ctx (ACandidateJSON inp)
     \<and> published_anthropic (APrices ctx) \<and> 0 \<le> sint (ASafetyMargin ctx) \<and> same_markers b c"

lemma anthropic_admit_ok:
  "anthropic_admit inp ctx = ReasonNone \<longleftrightarrow>
     APinnedModel ctx \<noteq> [] \<and> AModelSnapshotID ctx \<noteq> 0 \<and> ATokenizerID ctx \<noteq> 0 \<and> APricingTableID ctx \<noteq> 0
     \<and> AContractVersions ctx \<noteq> 0 \<and> \<not> HasBetaHeaders ctx
     \<and> anthropic_evidence_for (ABaselineTokens inp) ctx (ABaselineJSON inp)
     \<and> anthropic_evidence_for (ACandidateTokens inp) ctx (ACandidateJSON inp)
     \<and> published_anthropic (APrices ctx) \<and> 0 \<le> sint (ASafetyMargin ctx)"
  by (auto simp: anthropic_admit_def Let_def anthropicEvidenceReason_ok [symmetric] anthropicPricesValid_iff
      word_sless_alt)

lemma averdict_result [simp]: "APlanVerdict (anthropicPlanResult r) = CostIndeterminate"
  by (simp add: anthropicPlanResult_def)

lemma anthropic_cost_proven:
  assumes "anthropic_admit inp ctx = ReasonNone" "APlanVerdict out = CostIndeterminate"
  shows "APlanVerdict (anthropic_cost ctx be ce n out) = CostProven \<longleftrightarrow>
      anthropic_cheaper ctx (InputTokens be) (InputTokens ce) n"
proof -
  let ?sc = "anthropic_scenario ctx (InputTokens be) (InputTokens ce) n"
  have ok: "published_anthropic (APrices ctx)" "0 \<le> sint (ASafetyMargin ctx)"
    using assms by (simp_all add: anthropic_admit_ok)
  have "?sc = Some s \<Longrightarrow> ScenarioID s = 0" for s
    by (auto simp: anthropic_scenario_def split: option.splits)
  then have "?sc = Some s \<Longrightarrow> fst (ProofCostEvaluate (Some (local_proof ProviderAnthropic 1
        (AModelSnapshotID ctx) (ATokenizerID ctx) (APricingTableID ctx) (AContractVersions ctx) (ASafetyMargin ctx) s)))
      = CostProven \<longleftrightarrow> amounts s \<and> sint (CandidateUpper s) + sint (ASafetyMargin ctx) < sint (BaselineLower s)" for s
    using assms by (subst local_proof_proven) (auto simp: anthropic_admit_ok)
  then show ?thesis
    using anthropic_scenario_cheaper [OF ok, of "InputTokens be" "InputTokens ce" n]
    by (auto simp: anthropic_cost_def Let_def assms(2) split: option.splits)
qed

text \<open>C25: what the Anthropic evidence means. The verdict is \<open>CostProven\<close> exactly for a pinned context
  without beta headers, exact local counts over exactly the two texts, the published rates, two documents
  without cache markers, tools or automatic caching and with one output bound, and a candidate whose
  input and full output, priced over the integers in the tier its size falls in, with the margin stay below
  the baseline's input alone.\<close>

theorem anthropic_plan_proven:
  "APlanVerdict (AnthropicPlanFor input) = CostProven \<longleftrightarrow>
     (case input of
        None \<Rightarrow> False
      | Some inp \<Rightarrow>
        (case (AContext inp, ABaselineTokens inp, ACandidateTokens inp) of
           (Some ctx, Some be, Some ce) \<Rightarrow>
             (case (parseAnthropicLayout (ABaselineJSON inp) (APinnedModel ctx),
                    parseAnthropicLayout (ACandidateJSON inp) (APinnedModel ctx)) of
                (Some b, Some c) \<Rightarrow>
                  anthropic_grounded inp ctx be ce b c
                  \<and> anthropic_cheaper ctx (InputTokens be) (InputTokens ce) (AmaxOutputTokens c)
              | _ \<Rightarrow> False)
         | _ \<Rightarrow> False))"
proof (cases input)
  case (Some inp)
  show ?thesis
  proof (cases "AContext inp")
    case (Some ctx)
    show ?thesis
    proof (cases "anthropic_admit inp ctx = ReasonNone")
      case True
      then obtain be ce where ev: "ABaselineTokens inp = Some be" "ACandidateTokens inp = Some ce"
        by (auto simp: anthropic_admit_ok anthropic_evidence_for_def split: option.splits)
      show ?thesis
        using \<open>input = Some inp\<close> Some True ev anthropic_admit_ok [of inp ctx]
        by (auto simp: AnthropicPlanFor_def anthropic_grounded_def Let_def anthropic_comparable_ok
            anthropic_cost_proven split: option.splits)
    next
      case False
      then show ?thesis
        using \<open>input = Some inp\<close> Some anthropic_admit_ok [of inp ctx]
        by (auto simp: AnthropicPlanFor_def anthropic_grounded_def Let_def split: option.splits)
    qed
  qed (simp add: AnthropicPlanFor_def Some)
qed (simp add: AnthropicPlanFor_def)

end
