(* ===== verification/RecognizeLaws.thy ===== *)
theory RecognizeLaws
  imports Condense
begin

text \<open>The unwrapping loop of \<open>TCRecognize\<close>: that it ends by itself, and what its guard against
  path-prefixed names covers.\<close>

lemma tok_loop_length: "tok_loop n s = Some toks \<Longrightarrow> length toks \<le> n"
proof (induction n arbitrary: s toks)
  case 0
  then show ?case by (subst (asm) tok_loop.simps) (auto split: list.splits if_splits)
next
  case (Suc n)
  from Suc.prems show ?case
    by (subst (asm) tok_loop.simps)
      (auto split: list.splits if_splits prod.splits simp del: tok_word.simps dest: Suc.IH)
qed

lemma skip_sudo_length: "length (skip_sudo ts) \<le> length ts"
  by (induction ts rule: skip_sudo.induct) auto

text \<open>One pass: the tokens it leaves, which are fewer or the same.\<close>

definition unwrap_pass :: "string list \<Rightarrow> string list" where
  "unwrap_pass ts = unwrap (Suc 0) ts"

lemma unwrap_Suc: "unwrap (Suc n) ts = (if unwrap_pass ts = ts then ts else unwrap n (unwrap_pass ts))"
proof (cases ts)
  case (Cons t r)
  have shorter: "length u < length (t # r) \<Longrightarrow> u \<noteq> t # r" for u by auto
  have "r \<noteq> t # r" "dropWhile tcIsVarAssign r \<noteq> t # r" "skip_sudo r \<noteq> t # r"
    using skip_sudo_length [of r] length_dropWhile_le [of tcIsVarAssign r] by (auto intro!: shorter)
  moreover have "0 < k \<Longrightarrow> drop k (t # r) \<noteq> t # r" for k by (rule shorter) simp
  ultimately show ?thesis
    unfolding Cons unwrap_pass_def unwrap.simps Let_def by (simp del: drop_eq_Nil)
qed (simp add: unwrap_pass_def)

lemma unwrap_pass_length: "unwrap_pass ts = ts \<or> length (unwrap_pass ts) < length ts"
proof (cases ts)
  case (Cons t r)
  have "length r < Suc (length r)" "length (dropWhile tcIsVarAssign r) < Suc (length r)" "length (skip_sudo r) < Suc (length r)"
    using skip_sudo_length [of r] length_dropWhile_le [of tcIsVarAssign r] by auto
  then show ?thesis unfolding Cons unwrap_pass_def by (simp add: Let_def)
qed (simp add: unwrap_pass_def)

lemma unwrap_fixed: "unwrap_pass ts = ts \<Longrightarrow> unwrap n ts = ts"
  by (cases n) (simp_all add: unwrap_Suc)

lemma unwrap_ends:
  "length ts \<le> n \<Longrightarrow> unwrap (n + extra) ts = unwrap n ts \<and> unwrap_pass (unwrap n ts) = unwrap n ts"
proof (induction n arbitrary: ts)
  case 0
  then show ?case by (simp add: unwrap_fixed unwrap_pass_def)
next
  case (Suc n)
  then show ?case
    using unwrap_pass_length [of ts] Suc.IH [of "unwrap_pass ts"]
    by (auto simp: unwrap_Suc)
qed

text \<open>Tokens that start with the command itself: no assignment, \<open>env\<close>, \<open>sudo\<close> or wrapper.\<close>

definition bare_head :: "string list \<Rightarrow> bool" where
  "bare_head ts \<longleftrightarrow> (case ts of [] \<Rightarrow> True
     | t # r \<Rightarrow> \<not> tcIsVarAssign t \<and> tcBase t \<noteq> ''env'' \<and> tcBase t \<noteq> ''sudo''
         \<and> tcWrapperSkip (tcBase t) (case r of [] \<Rightarrow> None | nt # _ \<Rightarrow> Some nt) = 0)"

lemma unwrap_pass_step: "if bare_head ts then unwrap_pass ts = ts else length (unwrap_pass ts) < length ts"
proof (cases ts)
  case (Cons t r)
  have "length r < Suc (length r)" "length (dropWhile tcIsVarAssign r) < Suc (length r)" "length (skip_sudo r) < Suc (length r)"
    using skip_sudo_length [of r] length_dropWhile_le [of tcIsVarAssign r] by auto
  then show ?thesis unfolding Cons unwrap_pass_def by (simp add: bare_head_def Let_def)
qed (simp add: unwrap_pass_def bare_head_def)

lemma unwrap_pass_bare: "unwrap_pass ts = ts \<Longrightarrow> bare_head ts"
  using unwrap_pass_step [of ts] by (auto split: if_splits)

lemma suffix_skip_sudo: "suffix (skip_sudo ts) ts"
  by (induction ts rule: skip_sudo.induct) (auto intro: suffix_ConsI)

lemma suffix_unwrap: "suffix (unwrap n ts) ts"
proof (induction n arbitrary: ts)
  case (Suc n)
  have "suffix (unwrap_pass ts) ts"
  proof (cases ts)
    case (Cons t r)
    have "suffix (dropWhile tcIsVarAssign r) (t # r)" "suffix (skip_sudo r) (t # r)"
      by (rule suffix_ConsI, rule suffix_dropWhile, rule suffix_ConsI, rule suffix_skip_sudo)
    then show ?thesis
      unfolding Cons unwrap_pass_def by (simp add: Let_def suffix_ConsI suffix_drop del: drop_Suc_Cons)
  qed (simp add: unwrap_pass_def)
  with Suc.IH [of "unwrap_pass ts"] show ?case by (auto simp: unwrap_Suc)
qed simp

text \<open>C17: unwrapping comes to an end on its own. The tokenizer returns at most \<open>TCMaxTok\<close> tokens; a pass of
  the unwrapping loop consumes at least one token, or finds that the tokens start with the command
  itself and leaves them; and so the guard never cuts the loop short: any larger number of passes
  leaves the same tokens, they are the end of the command line, and they start with no assignment,
  \<open>env\<close>, \<open>sudo\<close> or wrapper.\<close>

theorem unwrap_terminates:
  "(if bare_head ts then unwrap_pass ts = ts else length (unwrap_pass ts) < length ts)
   \<and> (case tcTokenize cmdline of
        None \<Rightarrow> True
      | Some toks \<Rightarrow> length toks \<le> TCMaxTok \<and> unwrap (TCMaxTok + extra) toks = unwrap TCMaxTok toks
          \<and> suffix (unwrap TCMaxTok toks) toks \<and> bare_head (unwrap TCMaxTok toks))"
  using tok_loop_length [of TCMaxTok cmdline] unwrap_ends [of _ TCMaxTok extra] unwrap_pass_step [of ts]
    unwrap_pass_bare suffix_unwrap
  by (auto simp: tcTokenize_def split: option.split simp del: unwrap.simps)

text \<open>The path of a wrapper is not looked at: the guard against path-prefixed names sees the inner command
  only.\<close>

lemma wrapper_path_unguarded:
  "TCRecognize ''./time go test'' = TCRecognize ''go test'' \<and> Outcome (TCRecognize ''./time go test'') = TCRecognized
   \<and> Outcome (TCRecognize ''./go test'') = TCOpaque"
  by code_simp

end
