(* ===== verification/Sha256.thy ===== *)
theory Sha256
  imports Prelude "HOL-Library.Word"
begin

text \<open>
  \<open>crypto/sha256.Sum256\<close> of the Go library, as FIPS 180-4 states it: padding to blocks of 64 bytes, the
  message schedule of 64 words, 64 rounds, and the big-endian digest of 32 bytes.
\<close>

unbundle bit_operations_syntax

definition be32 :: "string \<Rightarrow> 32 word" where
  "be32 bs = fold (\<lambda>c w. push_bit 8 w OR of_nat (byte c)) bs 0"

definition be_bytes :: "nat \<Rightarrow> nat \<Rightarrow> string" where
  "be_bytes n v = map (\<lambda>i. char_of (v div 256 ^ (n - 1 - i))) [0..<n]"

fun split_every :: "nat \<Rightarrow> string \<Rightarrow> string list" where
  "split_every n [] = []"
| "split_every n (x # xs) = take (Suc n) (x # xs) # split_every n (drop n xs)"

text \<open>The constants of the rounds are the first 32 bits of the fractional parts of the cube roots of the first
  64 primes: the integer root is built bit by bit.\<close>

definition first_primes :: "int list" where
  "first_primes = filter (\<lambda>p. list_all (\<lambda>d. p mod d \<noteq> 0) [2..p - 1]) [2..311]"

definition cube_root :: "int \<Rightarrow> int" where
  "cube_root n = fold (\<lambda>i r. let r' = r + 2 ^ i in if r' * r' * r' \<le> n then r' else r) (rev [0..<36]) 0"

definition sha_constants :: "32 word list" where
  "sha_constants = map (\<lambda>p. word_of_int (cube_root (p * 2 ^ 96))) first_primes"

definition sha_initial :: "32 word list" where
  "sha_initial = [0x6a09e667, 0xbb67ae85, 0x3c6ef372, 0xa54ff53a, 0x510e527f, 0x9b05688c, 0x1f83d9ab, 0x5be0cd19]"

definition small_sigma0 :: "32 word \<Rightarrow> 32 word" where
  "small_sigma0 x = word_rotr 7 x XOR word_rotr 18 x XOR drop_bit 3 x"

definition small_sigma1 :: "32 word \<Rightarrow> 32 word" where
  "small_sigma1 x = word_rotr 17 x XOR word_rotr 19 x XOR drop_bit 10 x"

definition big_sigma0 :: "32 word \<Rightarrow> 32 word" where
  "big_sigma0 x = word_rotr 2 x XOR word_rotr 13 x XOR word_rotr 22 x"

definition big_sigma1 :: "32 word \<Rightarrow> 32 word" where
  "big_sigma1 x = word_rotr 6 x XOR word_rotr 11 x XOR word_rotr 25 x"

definition extend_schedule :: "32 word list \<Rightarrow> 32 word list" where
  "extend_schedule w =
     (let n = length w
      in w @ [small_sigma1 (w ! (n - 2)) + w ! (n - 7) + small_sigma0 (w ! (n - 15)) + w ! (n - 16)])"

definition sha_schedule :: "string \<Rightarrow> 32 word list" where
  "sha_schedule block = (extend_schedule ^^ 48) (map be32 (split_every 3 block))"

fun sha_round :: "32 word \<times> 32 word \<Rightarrow> 32 word list \<Rightarrow> 32 word list" where
  "sha_round (k, w) [a, b, c, d, e, f, g, h] =
     (let t1 = h + big_sigma1 e + ((e AND f) XOR (NOT e AND g)) + k + w;
          t2 = big_sigma0 a + ((a AND b) XOR (a AND c) XOR (b AND c))
      in [t1 + t2, a, b, c, d + t1, e, f, g])"
| "sha_round _ s = s"

definition sha_block :: "string \<Rightarrow> 32 word list \<Rightarrow> 32 word list" where
  "sha_block block s = map2 (+) s (fold sha_round (zip sha_constants (sha_schedule block)) s)"

definition sha_pad :: "string \<Rightarrow> string" where
  "sha_pad s =
     s @ [CHR 0x80] @ replicate ((119 - length s mod 64) mod 64) (CHR 0x00) @ be_bytes 8 (8 * length s)"

definition Sum256 :: "string \<Rightarrow> string" where
  "Sum256 s =
     concat (map (\<lambda>w. be_bytes 4 (unat w)) (fold sha_block (split_every 63 (sha_pad s)) sha_initial))"

end
