(* ===== verification/ProvenanceCap.thy ===== *)
theory ProvenanceCap
  imports Sha256
begin

text \<open>
  \<open>provenance.go\<close>: the single-use capability over a payload. \<open>None\<close> is a nil pointer, a returned
  error is \<open>False\<close> (the code has one error for every rejection). Consumers that race are the threads
  of a step relation: each checks the capability and then swaps its flag, with other steps between.
\<close>

definition ProvenanceMaxSource :: nat where "ProvenanceMaxSource = 16 * 1024 * 1024"

record ProvenanceBinding =
  ProvTenantID :: "64 word"
  ProvTaskID :: "64 word"
  ProvCallID :: "64 word"
  SemanticContractID :: "64 word"
  ProvTransformID :: "64 word"
  ProvTransformVersion :: "64 word"

definition binding_valid :: "ProvenanceBinding \<Rightarrow> bool" where
  "binding_valid b \<longleftrightarrow>
     ProvTenantID b \<noteq> 0 \<and> ProvTaskID b \<noteq> 0 \<and> ProvCallID b \<noteq> 0
     \<and> SemanticContractID b \<noteq> 0 \<and> ProvTransformID b \<noteq> 0 \<and> ProvTransformVersion b \<noteq> 0"

definition zero_binding :: ProvenanceBinding where
  "zero_binding = \<lparr> ProvTenantID = 0, ProvTaskID = 0, ProvCallID = 0, SemanticContractID = 0,
     ProvTransformID = 0, ProvTransformVersion = 0 \<rparr>"

record ProvenanceCapability =
  binding :: ProvenanceBinding
  digest :: string
  sourceLen :: nat
  consumed :: bool

definition IssueProvenanceLocal :: "ProvenanceBinding \<Rightarrow> string \<Rightarrow> ProvenanceCapability option" where
  "IssueProvenanceLocal b source =
     (if \<not> binding_valid b \<or> length source > ProvenanceMaxSource then None
      else Some \<lparr> binding = b, digest = Sum256 source, sourceLen = length source, consumed = False \<rparr>)"

text \<open>\<open>subtle.ConstantTimeCompare\<close>: it looks at every byte whatever the first ones were.\<close>

definition ConstantTimeCompare :: "string \<Rightarrow> string \<Rightarrow> int" where
  "ConstantTimeCompare x y =
     (if length x \<noteq> length y then 0
      else if fold (\<lambda>(a, b) v. v OR (of_nat (byte a) XOR of_nat (byte b))) (zip x y) (0 :: 8 word) = 0 then 1 else 0)"

text \<open>The checks of \<open>Consume\<close>, and its compare-and-swap.\<close>

definition verify :: "ProvenanceCapability \<Rightarrow> ProvenanceBinding \<Rightarrow> string \<Rightarrow> bool" where
  "verify c expected source =
     (if \<not> binding_valid expected \<or> length source > ProvenanceMaxSource then False
      else if binding c \<noteq> expected \<or> sourceLen c \<noteq> length source then False
      else ConstantTimeCompare (digest c) (Sum256 source) = 1)"

definition swap_consumed :: "ProvenanceCapability \<Rightarrow> ProvenanceCapability \<times> bool" where
  "swap_consumed c = (if consumed c then (c, False) else (c\<lparr> consumed := True \<rparr>, True))"

definition Consume ::
    "ProvenanceCapability option \<Rightarrow> ProvenanceBinding \<Rightarrow> string \<Rightarrow> ProvenanceCapability option \<times> bool" where
  "Consume cap expected source =
     (case cap of
        None \<Rightarrow> (None, False)
      | Some c \<Rightarrow>
          if \<not> verify c expected source then (Some c, False)
          else map_prod Some id (swap_consumed c))"

text \<open>\<open>Destroy\<close> clears the fields and then stores the flag.\<close>

definition clear_fields :: "ProvenanceCapability \<Rightarrow> ProvenanceCapability" where
  "clear_fields c =
     c\<lparr> digest := replicate (length (digest c)) (CHR 0x00), binding := zero_binding, sourceLen := 0 \<rparr>"

definition Destroy :: "ProvenanceCapability option \<Rightarrow> ProvenanceCapability option" where
  "Destroy cap =
     (case cap of None \<Rightarrow> None | Some c \<Rightarrow> Some ((clear_fields c)\<lparr> consumed := True \<rparr>))"

section \<open>Racing consumers\<close>

datatype phase = Waiting | Verified | Returned bool

record consumer =
  Expected :: ProvenanceBinding
  Bytes :: string
  Phase :: phase

record race =
  shared :: ProvenanceCapability
  consumers :: "consumer list"

text \<open>A consumer's checks and its swap are separate steps, and so are the two halves of a \<open>Destroy\<close>. The
  fields are cleared in one step and read in one step: a consumer that sees them half cleared passes only
  with bytes whose digest is that of the source with its first bytes set to zero, and \<open>Destroy\<close> has no
  lock that would keep a collision of that kind out.\<close>

definition set_phase :: "nat \<Rightarrow> phase \<Rightarrow> race \<Rightarrow> race" where
  "set_phase i p r = r\<lparr> consumers := (consumers r)[i := (consumers r ! i)\<lparr> Phase := p \<rparr>] \<rparr>"

inductive race_step :: "race \<Rightarrow> race \<Rightarrow> bool" where
  check: "i < length (consumers r) \<Longrightarrow> Phase (consumers r ! i) = Waiting \<Longrightarrow>
    race_step r (set_phase i
      (if verify (shared r) (Expected (consumers r ! i)) (Bytes (consumers r ! i)) then Verified else Returned False) r)"
| swap: "i < length (consumers r) \<Longrightarrow> Phase (consumers r ! i) = Verified \<Longrightarrow>
    swap_consumed (shared r) = (c, won) \<Longrightarrow>
    race_step r (set_phase i (Returned won) (r\<lparr> shared := c \<rparr>))"
| clear: "race_step r (r\<lparr> shared := clear_fields (shared r) \<rparr>)"
| flag: "binding (shared r) = zero_binding \<Longrightarrow> race_step r (r\<lparr> shared := (shared r)\<lparr> consumed := True \<rparr> \<rparr>)"

text \<open>What a consumer must present for a capability issued over \<open>source\<close>.\<close>

definition matches :: "ProvenanceBinding \<Rightarrow> string \<Rightarrow> consumer \<Rightarrow> bool" where
  "matches b source c \<longleftrightarrow> Expected c = b \<and> length (Bytes c) = length source \<and> Sum256 (Bytes c) = Sum256 source"

definition phase_of :: "race \<Rightarrow> nat \<Rightarrow> phase option" where
  "phase_of r i = (if i < length (consumers r) then Some (Phase (consumers r ! i)) else None)"

lemma fold_or_zero:
  "fold (\<lambda>(a, b) v. v OR (f a XOR f b)) zs w = (0 :: 8 word) \<longleftrightarrow> w = 0 \<and> (\<forall>(a, b) \<in> set zs. f a = f b)"
proof -
  have "u XOR v = 0 \<longleftrightarrow> u = v" for u v :: "8 word"
    by (metis xor.assoc xor.left_neutral xor.right_neutral xor_self_eq)
  then show ?thesis by (induction zs arbitrary: w) (auto simp: or_eq_0_iff)
qed

lemma byte_word_inject: "(of_nat (byte a) :: 8 word) = of_nat (byte b) \<longleftrightarrow> a = b"
proof
  assume "(of_nat (byte a) :: 8 word) = of_nat (byte b)"
  then have "byte a mod 256 = byte b mod 256" by (simp add: of_nat_eq_iff unat_of_nat word_unat_eq_iff take_bit_eq_mod)
  then show "a = b" by simp
qed simp

lemma ConstantTimeCompare_iff: "ConstantTimeCompare x y = 1 \<longleftrightarrow> x = y"
  using list_eq_iff_zip_eq [of x y] by (auto simp: ConstantTimeCompare_def fold_or_zero byte_word_inject)

section \<open>The race keeps its invariant\<close>

definition issued_over :: "ProvenanceBinding \<Rightarrow> string \<Rightarrow> ProvenanceCapability \<Rightarrow> bool" where
  "issued_over b source c \<longleftrightarrow> binding c = b \<and> digest c = Sum256 source \<and> sourceLen c = length source"

lemma verify_issued:
  "issued_over b source c \<Longrightarrow> binding_valid b \<Longrightarrow> length source \<le> ProvenanceMaxSource \<Longrightarrow>
     verify c e s \<longleftrightarrow> e = b \<and> length s = length source \<and> Sum256 s = Sum256 source"
  by (auto simp: verify_def issued_over_def ConstantTimeCompare_iff)

lemma verify_cleared: "binding c = zero_binding \<Longrightarrow> \<not> verify c e s"
  by (auto simp: verify_def binding_valid_def zero_binding_def)

definition race_ok :: "ProvenanceBinding \<Rightarrow> string \<Rightarrow> race \<Rightarrow> bool" where
  "race_ok b source r \<longleftrightarrow>
     (issued_over b source (shared r) \<or> binding (shared r) = zero_binding)
     \<and> (\<forall>i. phase_of r i = Some Verified \<or> phase_of r i = Some (Returned True) \<longrightarrow> matches b source (consumers r ! i))
     \<and> (\<forall>i j. phase_of r i = Some (Returned True) \<longrightarrow> phase_of r j = Some (Returned True) \<longrightarrow> i = j)
     \<and> ((\<exists>i. phase_of r i = Some (Returned True)) \<longrightarrow> consumed (shared r))
     \<and> (binding (shared r) = b \<longrightarrow> consumed (shared r) \<longrightarrow> (\<exists>i. phase_of r i = Some (Returned True)))
     \<and> (\<forall>i. phase_of r i = Some (Returned False) \<longrightarrow> matches b source (consumers r ! i) \<longrightarrow>
          binding (shared r) = b \<longrightarrow> consumed (shared r))"

lemma shared_set_phase [simp]: "shared (set_phase i p r) = shared r"
  by (simp add: set_phase_def)

lemma matches_set_phase [simp]:
  "matches b source (consumers (set_phase i p r) ! j) = matches b source (consumers r ! j)"
proof (cases "j = i \<and> i < length (consumers r)")
  case True
  then show ?thesis by (simp add: set_phase_def matches_def)
next
  case False
  then have "consumers (set_phase i p r) ! j = consumers r ! j"
    by (cases "j = i") (auto simp: set_phase_def list_update_beyond)
  then show ?thesis by simp
qed

lemma phase_of_set_phase:
  "i < length (consumers r) \<Longrightarrow> phase_of (set_phase i p r) j = (if j = i then Some p else phase_of r j)"
  by (simp add: phase_of_def set_phase_def nth_list_update)

lemma phase_shared [simp]:
  "phase_of (r\<lparr> shared := c \<rparr>) i = phase_of r i" "consumers (r\<lparr> shared := c \<rparr>) = consumers r"
  by (simp_all add: phase_of_def)

lemma phase_of_Some: "i < length (consumers r) \<Longrightarrow> phase_of r i = Some (Phase (consumers r ! i))"
  by (simp add: phase_of_def)

lemma race_okD:
  assumes "race_ok b source r"
  shows "issued_over b source (shared r) \<or> binding (shared r) = zero_binding"
    "phase_of r i = Some Verified \<Longrightarrow> matches b source (consumers r ! i)"
    "phase_of r i = Some (Returned True) \<Longrightarrow> matches b source (consumers r ! i)"
    "phase_of r i = Some (Returned True) \<Longrightarrow> phase_of r j = Some (Returned True) \<Longrightarrow> i = j"
    "phase_of r i = Some (Returned True) \<Longrightarrow> consumed (shared r)"
    "binding (shared r) = b \<Longrightarrow> consumed (shared r) \<Longrightarrow> \<exists>i. phase_of r i = Some (Returned True)"
    "phase_of r i = Some (Returned False) \<Longrightarrow> matches b source (consumers r ! i) \<Longrightarrow>
       binding (shared r) = b \<Longrightarrow> consumed (shared r)"
  using assms unfolding race_ok_def by blast+

lemma race_okI:
  assumes "issued_over b source (shared r) \<or> binding (shared r) = zero_binding"
    "\<And>i. phase_of r i = Some Verified \<Longrightarrow> matches b source (consumers r ! i)"
    "\<And>i. phase_of r i = Some (Returned True) \<Longrightarrow> matches b source (consumers r ! i)"
    "\<And>i j. phase_of r i = Some (Returned True) \<Longrightarrow> phase_of r j = Some (Returned True) \<Longrightarrow> i = j"
    "\<And>i. phase_of r i = Some (Returned True) \<Longrightarrow> consumed (shared r)"
    "binding (shared r) = b \<Longrightarrow> consumed (shared r) \<Longrightarrow> \<exists>i. phase_of r i = Some (Returned True)"
    "\<And>i. phase_of r i = Some (Returned False) \<Longrightarrow> matches b source (consumers r ! i) \<Longrightarrow>
       binding (shared r) = b \<Longrightarrow> consumed (shared r)"
  shows "race_ok b source r"
  using assms unfolding race_ok_def by blast

lemma race_step_ok:
  assumes "race_step r r'" "race_ok b source r" "binding_valid b" "length source \<le> ProvenanceMaxSource"
  shows "race_ok b source r'"
  using assms
proof (induction rule: race_step.induct)
  case (check i r)
  let ?v = "verify (shared r) (Expected (consumers r ! i)) (Bytes (consumers r ! i))"
  have nz: "b \<noteq> zero_binding" using check.prems(2) by (auto simp: binding_valid_def zero_binding_def)
  have w: "phase_of r i = Some Waiting" using check.hyps by (simp add: phase_of_Some)
  have v: "?v \<Longrightarrow> matches b source (consumers r ! i)"
    "matches b source (consumers r ! i) \<Longrightarrow> binding (shared r) = b \<Longrightarrow> ?v"
    using check.prems(2,3) nz race_okD(1) [OF check.prems(1)] verify_issued [of b source "shared r"]
      verify_cleared [of "shared r"]
    by (auto simp: matches_def)
  note ok = race_okD [OF check.prems(1)]
  define r' where "r' = set_phase i (if ?v then Verified else Returned False) r"
  have ph: "phase_of r' j = (if j = i then Some (if ?v then Verified else Returned False) else phase_of r j)"
    "shared r' = shared r" "matches b source (consumers r' ! j) = matches b source (consumers r ! j)" for j
    using check.hyps(1) by (simp_all add: r'_def phase_of_set_phase)
  have won: "phase_of r' j = Some (Returned True) \<longleftrightarrow> phase_of r j = Some (Returned True)" for j
    using w by (simp add: ph)
  have "race_ok b source r'"
  proof (rule race_okI)
    fix j
    show "matches b source (consumers r' ! j)" if "phase_of r' j = Some Verified"
      using that v(1) ok(2) [of j] by (auto simp: ph split: if_splits)
    show "consumed (shared r')"
      if "phase_of r' j = Some (Returned False)" "matches b source (consumers r' ! j)" "binding (shared r') = b"
      using that v(2) ok(7) [of j] by (auto simp: ph split: if_splits)
  qed (use ok in \<open>unfold won ph(2,3), blast+\<close>)
  then show ?case by (simp add: r'_def)
next
  case (swap i r c won)
  have nz: "b \<noteq> zero_binding" using swap.prems(2) by (auto simp: binding_valid_def zero_binding_def)
  have w: "phase_of r i = Some Verified" using swap.hyps by (simp add: phase_of_Some)
  note ok = race_okD [OF swap.prems(1)]
  have c: "binding c = binding (shared r)" "issued_over b source c = issued_over b source (shared r)" "consumed c"
    "won \<longleftrightarrow> \<not> consumed (shared r)"
    using swap.hyps(3) by (auto simp: swap_consumed_def issued_over_def split: if_splits)
  define r' where "r' = set_phase i (Returned won) (r\<lparr> shared := c \<rparr>)"
  have ph: "phase_of r' j = (if j = i then Some (Returned won) else phase_of r j)"
    "shared r' = c" "matches b source (consumers r' ! j) = matches b source (consumers r ! j)" for j
    using swap.hyps(1) by (simp_all add: r'_def phase_of_set_phase)
  have "race_ok b source r'"
  proof (rule race_okI)
    fix j k
    show "issued_over b source (shared r') \<or> binding (shared r') = zero_binding" using ok(1) c by (simp add: ph)
    show "matches b source (consumers r' ! j)" if "phase_of r' j = Some Verified"
      using that ok(2) [of j] by (auto simp: ph split: if_splits)
    show "matches b source (consumers r' ! j)" if "phase_of r' j = Some (Returned True)"
      using that ok(2) [OF w] ok(3) [of j] by (auto simp: ph split: if_splits)
    show "j = k" if "phase_of r' j = Some (Returned True)" "phase_of r' k = Some (Returned True)"
      using that c(4) ok(4) [of j k] ok(5) [of j] ok(5) [of k] by (auto simp: ph split: if_splits)
    show "\<exists>i. phase_of r' i = Some (Returned True)" if bound: "binding (shared r') = b" "consumed (shared r')"
    proof (cases won)
      case True
      then show ?thesis by (intro exI [of _ i]) (simp add: ph)
    next
      case False
      then obtain j where "phase_of r j = Some (Returned True)" using c bound ok(6) by (auto simp: ph)
      then show ?thesis using w by (intro exI [of _ j]) (auto simp: ph)
    qed
  qed (simp_all add: ph c)
  then show ?case by (simp add: r'_def)
next
  case (clear r)
  have nz: "b \<noteq> zero_binding" using clear.prems(2) by (auto simp: binding_valid_def zero_binding_def)
  note ok = race_okD [OF clear.prems(1)]
  have "binding (clear_fields (shared r)) = zero_binding" "consumed (clear_fields (shared r)) = consumed (shared r)"
    by (simp_all add: clear_fields_def)
  then show ?case using nz by (intro race_okI) (auto dest: ok(2-7))
next
  case (flag r)
  have nz: "b \<noteq> zero_binding" using flag.prems(2) by (auto simp: binding_valid_def zero_binding_def)
  note ok = race_okD [OF flag.prems(1)]
  show ?case using nz flag.hyps by (intro race_okI) (auto dest: ok(2-7))
qed

text \<open>A call of \<open>Consume\<close> that nothing interrupts is a check followed by its swap.\<close>

lemma Consume_run:
  assumes "i < length (consumers r)" "Phase (consumers r ! i) = Waiting"
    and "Consume (Some (shared r)) (Expected (consumers r ! i)) (Bytes (consumers r ! i)) = (Some c', won)"
  shows "race_step\<^sup>*\<^sup>* r (set_phase i (Returned won) (r\<lparr> shared := c' \<rparr>))"
proof (cases "verify (shared r) (Expected (consumers r ! i)) (Bytes (consumers r ! i))")
  case True
  let ?m = "set_phase i Verified r"
  have "race_step r ?m" using race_step.check [OF assms(1,2)] True by simp
  moreover have "swap_consumed (shared ?m) = (c', won)"
    using assms(3) True by (auto simp: Consume_def map_prod_def split: prod.splits)
  then have "race_step ?m (set_phase i (Returned won) (?m\<lparr> shared := c' \<rparr>))"
    using assms(1) by (intro race_step.swap) (simp_all add: set_phase_def)
  moreover have "set_phase i (Returned won) (?m\<lparr> shared := c' \<rparr>) = set_phase i (Returned won) (r\<lparr> shared := c' \<rparr>)"
    using assms(1) by (simp add: set_phase_def)
  ultimately show ?thesis by (metis converse_rtranclp_into_rtranclp r_into_rtranclp)
next
  case False
  then have "c' = shared r" "won = False" using assms(3) by (simp_all add: Consume_def)
  then show ?thesis using race_step.check [OF assms(1,2)] False by auto
qed

definition race_start :: "ProvenanceCapability \<Rightarrow> (ProvenanceBinding \<times> string) list \<Rightarrow> race" where
  "race_start c presented =
     \<lparr> shared = c, consumers = map (\<lambda>(e, s). \<lparr> Expected = e, Bytes = s, Phase = Waiting \<rparr>) presented \<rparr>"

lemma issued_facts:
  assumes "IssueProvenanceLocal b source = Some c"
  shows "issued_over b source c" "\<not> consumed c" "binding_valid b" "length source \<le> ProvenanceMaxSource"
  using assms by (auto simp: IssueProvenanceLocal_def issued_over_def split: if_splits)

lemma race_reachable_ok:
  assumes "race_step\<^sup>*\<^sup>* (race_start c presented) r" "IssueProvenanceLocal b source = Some c"
  shows "race_ok b source r"
  using assms(1)
proof (induction rule: rtranclp_induct)
  case base
  have "phase_of (race_start c presented) i \<noteq> Some Verified" "phase_of (race_start c presented) i \<noteq> Some (Returned w)" for i w
    by (auto simp: phase_of_def race_start_def split: prod.split)
  moreover have "shared (race_start c presented) = c" by (simp add: race_start_def)
  ultimately show ?case
    using issued_facts [OF assms(2)] by (intro race_okI) simp_all
next
  case (step r r')
  then show ?case using race_step_ok issued_facts [OF assms(2)] by blast
qed

text \<open>C8: a capability is used at most once, and only for what it was issued for. However the checks and
  swaps of any number of consumers and a \<open>Destroy\<close> are interleaved, at most one consumer is told it won; it
  presented the binding of the issue and bytes of the same length and digest; and when every consumer has
  returned, the capability was not destroyed and some consumer presented exactly that, one has won.\<close>

theorem capability_single_use:
  assumes "IssueProvenanceLocal b source = Some c" "race_step\<^sup>*\<^sup>* (race_start c presented) r"
  shows "(\<forall>i j. phase_of r i = Some (Returned True) \<and> phase_of r j = Some (Returned True) \<longrightarrow> i = j)
    \<and> (\<forall>i. phase_of r i = Some (Returned True) \<longrightarrow> matches b source (consumers r ! i))
    \<and> (binding (shared r) = b \<and> (\<forall>i < length (consumers r). \<exists>won. Phase (consumers r ! i) = Returned won)
         \<and> (\<exists>i < length (consumers r). matches b source (consumers r ! i))
       \<longrightarrow> (\<exists>i. phase_of r i = Some (Returned True)))"
proof (intro conjI allI impI)
  note ok = race_okD [OF race_reachable_ok [OF assms(2,1)]]
  show "i = j" if "phase_of r i = Some (Returned True) \<and> phase_of r j = Some (Returned True)" for i j
    using that ok(4) by blast
  show "matches b source (consumers r ! i)" if "phase_of r i = Some (Returned True)" for i
    using that by (rule ok(3))
  assume all: "binding (shared r) = b \<and> (\<forall>i < length (consumers r). \<exists>won. Phase (consumers r ! i) = Returned won)
         \<and> (\<exists>i < length (consumers r). matches b source (consumers r ! i))"
  then obtain i won where i: "i < length (consumers r)" "matches b source (consumers r ! i)" "Phase (consumers r ! i) = Returned won"
    by blast
  show "\<exists>i. phase_of r i = Some (Returned True)"
  proof (cases won)
    case True
    then show ?thesis using i by (intro exI [of _ i]) (simp add: phase_of_Some)
  next
    case False
    then have "consumed (shared r)" using i all ok(7) [of i] by (simp add: phase_of_Some)
    then show ?thesis using all ok(6) by blast
  qed
qed

definition some_binding :: ProvenanceBinding where
  "some_binding = \<lparr> ProvTenantID = 1, ProvTaskID = 2, ProvCallID = 3, SemanticContractID = 4,
     ProvTransformID = 5, ProvTransformVersion = 6 \<rparr>"

text \<open>Two consumers present the right bytes, both pass the checks, the second swaps first.\<close>

theorem capability_single_use_witness:
  "\<exists>c r. IssueProvenanceLocal some_binding ''payload'' = Some c
     \<and> race_step\<^sup>*\<^sup>* (race_start c [(some_binding, ''payload''), (some_binding, ''payload'')]) r
     \<and> phase_of r 0 = Some (Returned False) \<and> phase_of r 1 = Some (Returned True)
     \<and> (\<forall>i. phase_of r i = Some (Returned True) \<longrightarrow> i = 1)"
proof -
  obtain c where c: "IssueProvenanceLocal some_binding ''payload'' = Some c"
    by (simp add: IssueProvenanceLocal_def some_binding_def binding_valid_def ProvenanceMaxSource_def)
  note facts = issued_facts [OF c]
  let ?r0 = "race_start c [(some_binding, ''payload''), (some_binding, ''payload'')]"
  let ?c' = "c\<lparr> consumed := True \<rparr>"
  have v: "verify c some_binding ''payload''" using facts verify_issued by blast
  define r where "r = (\<lambda>p q d. \<lparr> shared = d, consumers =
     [\<lparr> Expected = some_binding, Bytes = ''payload'', Phase = p \<rparr>, \<lparr> Expected = some_binding, Bytes = ''payload'', Phase = q \<rparr>] \<rparr>)"
  have r0: "?r0 = r Waiting Waiting c" by (simp add: r_def race_start_def)
  have "race_step (r Waiting Waiting c) (r Verified Waiting c)"
    using race_step.check [of 0 "r Waiting Waiting c"] v by (simp add: r_def set_phase_def)
  moreover have "race_step (r Verified Waiting c) (r Verified Verified c)"
    using race_step.check [of 1 "r Verified Waiting c"] v by (simp add: r_def set_phase_def)
  moreover have "race_step (r Verified Verified c) (r Verified (Returned True) ?c')"
    using race_step.swap [of 1 "r Verified Verified c" ?c' True] facts(2)
    by (simp add: r_def set_phase_def swap_consumed_def)
  moreover have "race_step (r Verified (Returned True) ?c') (r (Returned False) (Returned True) ?c')"
    using race_step.swap [of 0 "r Verified (Returned True) ?c'" ?c' False]
    by (simp add: r_def set_phase_def swap_consumed_def)
  ultimately have run: "race_step\<^sup>*\<^sup>* ?r0 (r (Returned False) (Returned True) ?c')"
    unfolding r0 by (meson converse_rtranclp_into_rtranclp rtranclp.rtrancl_refl)
  have "phase_of (r (Returned False) (Returned True) ?c') 1 = Some (Returned True)"
    "phase_of (r (Returned False) (Returned True) ?c') 0 = Some (Returned False)"
    by (simp_all add: phase_of_def r_def)
  with c run capability_single_use [OF c run] show ?thesis by blast
qed

end
