(* ===== verification/Eager.thy ===== *)
theory Eager
  imports Compact ClosetRender
begin

text \<open>
  \<open>eager.go\<close>: the eager tool-result seam over the shared shrink and the closet, and its hard cap.
  \<open>None\<close> is the panic of the shrink.
\<close>

definition AgentToolOutputMax :: int where "AgentToolOutputMax = 32 * 1024"
definition AgentToolOutputRawMax :: int where "AgentToolOutputRawMax = 32 * 1024"

definition ToolOutputCapClamp :: "int \<Rightarrow> int" where
  "ToolOutputCapClamp configured =
     (if configured \<le> 0 then AgentToolOutputMax
      else if configured > AgentToolOutputRawMax then AgentToolOutputRawMax
      else configured)"

record EagerConfig =
  EagerCompact :: CompactConfig
  ToolOutputCap :: int
  EagerCloset :: ClosetConfig

record EagerResult =
  EagerBody :: string
  Compacted :: bool
  EagerEvict :: EvictResult

definition eager_budget :: "ClosetConfig \<Rightarrow> int \<Rightarrow> int" where
  "eager_budget closet cap =
     (let hardRoom = (if cap - 256 < 0 then 0 else cap - 256)
      in if BudgetBytes closet > hardRoom then hardRoom else BudgetBytes closet)"

definition eager_closet :: "string \<Rightarrow> ClosetConfig \<Rightarrow> int \<Rightarrow> string \<times> EvictResult" where
  "eager_closet raw closet cap =
     RenderCloset
       (fst (NominateInto raw (Some \<lparr> Lane = LaneAgent, TurnID = -1, ToolCallID = -1, ResultIndex = -1 \<rparr>)
          (Some empty_CoordSet)))
       \<lparr> Enabled = True, BudgetBytes = eager_budget closet cap, MaxRatioPct = MaxRatioPct closet,
         Denylist = Denylist closet \<rparr>
       (int (length raw))"

definition eager_join :: "string \<Rightarrow> string \<Rightarrow> int \<Rightarrow> string" where
  "eager_join out closet cap =
     (let bodyCap = (if length closet > 0 \<and> int (length closet) + 1 < cap then cap - int (length closet) - 1 else cap);
          body = (if int (length out) > bodyCap then take (nat bodyCap) out else out)
      in if length closet > 0 then body @ [CHR 0x0A] @ closet else body)"

definition CompressToolResult :: "string \<Rightarrow> string \<Rightarrow> EagerConfig \<Rightarrow> EagerResult option" where
  "CompressToolResult raw toolName cfg =
     (if raw = [] then Some \<lparr> EagerBody = [], Compacted = False, EagerEvict = EvictNone \<rparr>
      else let cap = ToolOutputCapClamp (ToolOutputCap cfg)
           in case CompactBody raw toolName (Some (EagerCompact cfg)) of
                None \<Rightarrow> None
              | Some out \<Rightarrow>
                  let compacted = length out < length raw;
                      (closet, evict) = (if Enabled (EagerCloset cfg) \<and> compacted
                        then eager_closet raw (EagerCloset cfg) cap else ([], EvictNone))
                  in Some \<lparr> EagerBody = eager_join out closet cap, Compacted = compacted, EagerEvict = evict \<rparr>)"

section \<open>The cap\<close>

lemma cap_positive: "0 < ToolOutputCapClamp n" "ToolOutputCapClamp n \<le> 32 * 1024"
  by (simp_all add: ToolOutputCapClamp_def AgentToolOutputMax_def AgentToolOutputRawMax_def)

lemma RenderCloset_length:
  assumes "RenderCloset cs cfg rawLen = (ctext, v)" "ctext \<noteq> []"
  shows "int (length ctext) < closet_cap cfg rawLen"
proof -
  from assms obtain c where c: "cs = Some c" by (cases cs) (auto simp: RenderCloset_def)
  define es where "es = SliceStable entryLess (CoordItems c)"
  obtain fit failed where f: "fit_pass (Denylist cfg) (closet_cap cfg rawLen)
      (int (length closetHeaderPartial)) False es = (fit, failed)" by fastforce
  have "length closetHeader \<le> length closetHeaderPartial"
    by (simp add: closetHeader_def closetHeaderPartial_def em_dash_def)
  then show ?thesis using assms fit_pass_spec [OF f] f
    by (auto simp: RenderCloset_def c es_def Let_def split: if_splits)
qed

lemma eager_join_length:
  assumes "0 < cap"
  shows "int (length (eager_join out closet cap)) \<le>
      (if int (length closet) + 1 < cap then cap else if closet = [] then cap else cap + 1 + int (length closet))"
  using assms by (auto simp: eager_join_def Let_def)

lemma eager_closet_length:
  assumes "eager_closet raw closet cap = (ctext, v)" "ctext \<noteq> []"
  shows "int (length ctext) < (if eager_budget closet cap \<le> 0 then 2048 else eager_budget closet cap)"
  using RenderCloset_length [OF assms(1) [unfolded eager_closet_def] assms(2)]
  by (auto simp: closet_cap_def ClosetDefaultBudgetBytes_def Let_def split: if_splits)

lemma CompressToolResult_cases:
  assumes "CompressToolResult raw toolName cfg = Some r" "raw \<noteq> []"
  obtains out where "CompactBody raw toolName (Some (EagerCompact cfg)) = Some out"
    "EagerBody r = eager_join out (if Enabled (EagerCloset cfg) \<and> length out < length raw
       then fst (eager_closet raw (EagerCloset cfg) (ToolOutputCapClamp (ToolOutputCap cfg))) else [])
      (ToolOutputCapClamp (ToolOutputCap cfg))"
  using assms by (auto simp: CompressToolResult_def Let_def split: option.splits prod.splits if_splits)

text \<open>The hard cap of a tool result. As long as the closet is off, or it has a positive budget and
  the cap is above its 256 bytes of body room, or the cap is above the default budget, the body with its
  closet never exceeds the resolved cap, whatever the shrink produced.\<close>

theorem eager_bounded:
  assumes "CompressToolResult raw toolName cfg = Some r"
    and "\<not> Enabled (EagerCloset cfg)
      \<or> 0 < BudgetBytes (EagerCloset cfg) \<and> 256 < ToolOutputCapClamp (ToolOutputCap cfg)
      \<or> 2048 < ToolOutputCapClamp (ToolOutputCap cfg)"
  shows "int (length (EagerBody r)) \<le> ToolOutputCapClamp (ToolOutputCap cfg)"
proof (cases "raw = []")
  case True
  then show ?thesis using assms(1) cap_positive [of "ToolOutputCap cfg"]
    by (auto simp: CompressToolResult_def)
next
  case False
  let ?cap = "ToolOutputCapClamp (ToolOutputCap cfg)"
  from assms(1) False obtain out where out: "EagerBody r = eager_join out
      (if Enabled (EagerCloset cfg) \<and> length out < length raw then fst (eager_closet raw (EagerCloset cfg) ?cap) else []) ?cap"
    by (rule CompressToolResult_cases)
  define closet where "closet = (if Enabled (EagerCloset cfg) \<and> length out < length raw
      then fst (eager_closet raw (EagerCloset cfg) ?cap) else [])"
  have "closet = [] \<or> int (length closet) + 1 < ?cap"
  proof (cases "closet = []")
    case False
    then have on: "Enabled (EagerCloset cfg)" "closet = fst (eager_closet raw (EagerCloset cfg) ?cap)"
      by (auto simp: closet_def split: if_splits)
    then have "int (length closet) < (if eager_budget (EagerCloset cfg) ?cap \<le> 0 then 2048 else eager_budget (EagerCloset cfg) ?cap)"
      using eager_closet_length [of raw "EagerCloset cfg" ?cap closet] False by (cases "eager_closet raw (EagerCloset cfg) ?cap") simp
    then show ?thesis using assms(2) on(1)
      by (auto simp: eager_budget_def Let_def split: if_splits)
  qed simp
  then show ?thesis
    using eager_join_length [OF cap_positive(1) [of "ToolOutputCap cfg"], of out closet] out
    by (auto simp: closet_def [symmetric] split: if_splits)
qed

text \<open>Below that the cap does not hold. A cap of at most 256 bytes leaves the closet a budget of 0, which
  means the default of 2048; a closet that does not fit is appended to the capped body all the same, and
  the result is longer than the cap.\<close>

theorem eager_cap_exceeded:
  assumes "CompressToolResult raw toolName cfg = Some r" "raw \<noteq> []"
    and "CompactBody raw toolName (Some (EagerCompact cfg)) = Some out" "out \<noteq> []" "length out < length raw"
    and "Enabled (EagerCloset cfg)"
    and "eager_closet raw (EagerCloset cfg) (ToolOutputCapClamp (ToolOutputCap cfg)) = (ctext, v)"
    and "ctext \<noteq> []" "ToolOutputCapClamp (ToolOutputCap cfg) \<le> int (length ctext) + 1"
  shows "int (length (EagerBody r)) > ToolOutputCapClamp (ToolOutputCap cfg)"
proof -
  have "EagerBody r = eager_join out ctext (ToolOutputCapClamp (ToolOutputCap cfg))"
    by (rule CompressToolResult_cases [OF assms(1,2)]) (use assms(3,5-7) in simp)
  then show ?thesis using assms(4,8,9) cap_positive(1) [of "ToolOutputCap cfg"]
    by (cases out) (auto simp: eager_join_def Let_def)
qed

definition tiny_raw :: string where
  "tiny_raw = ''#7 '' @ replicate 197 (CHR ''x'')"

definition tiny_cfg :: EagerConfig where
  "tiny_cfg = \<lparr> EagerCompact = \<lparr> CompactEnabled = True, Threshold = 64, HeadBytes = 16, TailBytes = 16, PerTool = [] \<rparr>,
     ToolOutputCap = 60, EagerCloset = \<lparr> Enabled = True, BudgetBytes = 512, MaxRatioPct = 100, Denylist = [] \<rparr> \<rparr>"

lemma tiny_cap: "ToolOutputCapClamp (ToolOutputCap tiny_cfg) = 60" "Enabled (EagerCloset tiny_cfg)"
  by (simp_all add: tiny_cfg_def ToolOutputCapClamp_def AgentToolOutputRawMax_def)

lemma tiny_raw_length: "length tiny_raw = 200"
  by (simp add: tiny_raw_def)

lemma tiny_out: "map_option length (CompactBody tiny_raw [] (Some (EagerCompact tiny_cfg))) = Some 61"
  by code_simp

text \<open>The scan finds the reference at the start and nothing in the run of letters behind it.\<close>

lemma nominate_skip:
  "0 < i \<Longrightarrow> (\<forall>j \<ge> i - 1. j < length raw \<longrightarrow> \<not> isIdentBoundary (raw ! j)) \<Longrightarrow> nominate_loop raw pv i cs = cs"
proof (induction "length raw - i" arbitrary: i)
  case 0
  then show ?case by (subst nominate_loop.simps) simp
next
  case (Suc n)
  then show ?case by (subst nominate_loop.simps) auto
qed

lemma tiny_nominate:
  "nominate_loop tiny_raw pv 0 cs = coord_add ''#7'' ''ref'' CoordKindRef pv 0 cs"
proof -
  have m: "match_at tiny_raw = Some (2, ''#7'', ''ref'', CoordKindRef)" "match_at (drop 3 tiny_raw) = None"
    "isIdentBoundary (tiny_raw ! 2)" "\<not> isIdentBoundary (tiny_raw ! 1)" "\<not> isIdentBoundary (CHR ''x'')"
    unfolding tiny_raw_def by code_simp+
  have x: "\<not> isIdentBoundary (tiny_raw ! j)" if "3 \<le> j" "j < length tiny_raw" for j
    using that m(5) by (simp add: tiny_raw_def nth_append nth_Cons' split: if_splits)
  have "nominate_loop tiny_raw pv 4 cs = cs" for cs by (rule nominate_skip) (use x in auto)
  then have "nominate_loop tiny_raw pv 3 cs = cs" for cs
    using m(2,3) by (subst nominate_loop.simps) simp
  then have "nominate_loop tiny_raw pv 2 cs = cs" for cs
    using m(4) by (subst nominate_loop.simps) (simp add: tiny_raw_length)
  then show ?thesis using m(1) by (subst nominate_loop.simps) (simp add: tiny_raw_length)
qed

lemma tiny_closet: "length (fst (eager_closet tiny_raw (EagerCloset tiny_cfg) 60)) = 64"
proof -
  let ?pv = "\<lparr> Lane = LaneAgent, TurnID = -1, ToolCallID = -1, ResultIndex = -1 \<rparr>"
  have "fst (NominateInto tiny_raw (Some ?pv) (Some empty_CoordSet))
      = Some (coord_add ''#7'' ''ref'' CoordKindRef ?pv 0 empty_CoordSet)"
    by (simp add: NominateInto_def tiny_nominate Let_def) (simp add: tiny_raw_def)
  moreover have "length (fst (RenderCloset (Some (coord_add ''#7'' ''ref'' CoordKindRef ?pv 0 empty_CoordSet))
      \<lparr> Enabled = True, BudgetBytes = eager_budget (EagerCloset tiny_cfg) 60, MaxRatioPct = MaxRatioPct (EagerCloset tiny_cfg),
        Denylist = Denylist (EagerCloset tiny_cfg) \<rparr> 200)) = 64" by code_simp
  ultimately show ?thesis by (simp add: eager_closet_def tiny_raw_length)
qed

lemma CompressToolResult_total:
  "CompactBody raw t (Some (EagerCompact cfg)) \<noteq> None \<Longrightarrow> \<exists>r. CompressToolResult raw t cfg = Some r"
  by (auto simp: CompressToolResult_def Let_def split: prod.split)

theorem eager_bounded_witness:
  "\<exists>r. CompressToolResult tiny_raw [] (tiny_cfg\<lparr> ToolOutputCap := 300 \<rparr>) = Some r \<and> int (length (EagerBody r)) \<le> 300"
proof -
  have "CompactBody tiny_raw [] (Some (EagerCompact tiny_cfg)) \<noteq> None" using tiny_out by auto
  then obtain r where "CompressToolResult tiny_raw [] (tiny_cfg\<lparr> ToolOutputCap := 300 \<rparr>) = Some r"
    using CompressToolResult_total [of tiny_raw "[]" "tiny_cfg\<lparr> ToolOutputCap := 300 \<rparr>"] by auto
  then show ?thesis using eager_bounded [of tiny_raw "[]" "tiny_cfg\<lparr> ToolOutputCap := 300 \<rparr>" r]
    by (simp add: tiny_cfg_def ToolOutputCapClamp_def AgentToolOutputRawMax_def)
qed

theorem eager_cap_exceeded_witness:
  "\<exists>r. CompressToolResult tiny_raw [] tiny_cfg = Some r \<and> int (length (EagerBody r)) > 60"
proof -
  obtain out where out: "CompactBody tiny_raw [] (Some (EagerCompact tiny_cfg)) = Some out" "length out = 61"
    using tiny_out by auto
  obtain ctext v where closet: "eager_closet tiny_raw (EagerCloset tiny_cfg) 60 = (ctext, v)" "length ctext = 64"
    using tiny_closet by (cases "eager_closet tiny_raw (EagerCloset tiny_cfg) 60") simp
  obtain r where r: "CompressToolResult tiny_raw [] tiny_cfg = Some r"
    using out CompressToolResult_total [of tiny_raw "[]" tiny_cfg] by auto
  have "tiny_raw \<noteq> []" "out \<noteq> []" "ctext \<noteq> []" using tiny_raw_length out closet by auto
  then show ?thesis
    using eager_cap_exceeded [OF r _ out(1) _ _ tiny_cap(2), of ctext v] r out closet tiny_cap(1) tiny_raw_length by auto
qed

end
