(* ===== verification/ModuleAux.thy ===== *)
theory ModuleAux
  imports JsonCompact CondenseApply ModuleRuntime
begin

text \<open>
  \<open>module_aux.go\<close>: the three binary stages of the module, fresh-result compaction, recall of a spilled
  output and the counters. A handler gives the body and the status of its reply; the answer of the
  second poll of \<open>Cancelled\<close>, at the end of the work, is an argument. \<open>mod_world\<close> is what the process
  keeps and sees outside its memory: the spill directories by path, and the counters.
\<close>

definition auxWireVersion :: "16 word" where "auxWireVersion = 1"
definition compactMagic :: "32 word" where "compactMagic = 0x504d434a"
definition recallMagic :: "32 word" where "recallMagic = 0x4c435254"
definition statsMagic :: "32 word" where "statsMagic = 0x41545354"
definition auxHeaderLen :: nat where "auxHeaderLen = 12"
definition recallRequestLen :: nat where "recallRequestLen = 16"
definition statsResponseLen :: nat where "statsResponseLen = 72"
definition maxSpillDirLen :: nat where "maxSpillDirLen = 4096"
definition maxSpillRefLen :: nat where "maxSpillRefLen = 64"

definition recallOK :: "16 word" where "recallOK = 0"
definition recallInvalidRef :: "16 word" where "recallInvalidRef = 1"
definition recallExpired :: "16 word" where "recallExpired = 2"

text \<open>A reply: the body, nil or not, and the status. An error carries no body.\<close>

type_synonym reply = "string \<times> 16 word"

definition auxResponse :: "32 word \<Rightarrow> 16 word \<Rightarrow> string \<Rightarrow> string" where
  "auxResponse magic result payload =
     (let out = replicate (auxHeaderLen + length payload) (CHR 0x00);
          out = PutUint32 0 magic out;
          out = PutUint16 4 auxWireVersion out;
          out = PutUint16 6 result out;
          out = PutUint32 8 (of_nat (length payload)) out
      in store auxHeaderLen payload out)"

section \<open>Compaction\<close>

fun json_result :: "JSONResult \<Rightarrow> 16 word" where
  "json_result JSONOK = 0"
| "json_result JSONInvalidArgument = 1"
| "json_result JSONTooLarge = 2"
| "json_result JSONTooDeep = 3"
| "json_result JSONInvalidUTF8 = 4"
| "json_result JSONInvalidSyntax = 5"
| "json_result JSONDuplicateKey = 6"
| "json_result JSONNotShorter = 7"

definition handleJSONCompact :: "bool \<Rightarrow> string \<Rightarrow> reply" where
  "handleJSONCompact stopped request =
     (if length request > JSONMaxInput then (auxResponse compactMagic (json_result JSONTooLarge) [], ModuleStatusOK)
      else let (out, result) = (case JSONCompact request of Inl r \<Rightarrow> ([], r) | Inr out \<Rightarrow> (out, JSONOK))
           in if stopped then ([], ModuleStatusCancelled)
              else (auxResponse compactMagic (json_result result) out, ModuleStatusOK))"

section \<open>Recall\<close>

text \<open>\<open>filepath.IsAbs\<close> on Unix, and \<open>filepath.Clean\<close> of a rooted path: empty and dot elements go, a
  double dot removes the element before it, at the root nothing.\<close>

definition IsAbs :: "string \<Rightarrow> bool" where
  "IsAbs p \<longleftrightarrow> has_prefix p ''/''"

definition clean_elem :: "string \<Rightarrow> string list \<Rightarrow> string list" where
  "clean_elem e st = (if e = [] \<or> e = ''.'' then st else if e = ''..'' then butlast st else st @ [e])"

definition Clean_rooted :: "string \<Rightarrow> string" where
  "Clean_rooted p =
     (let st = fold clean_elem (split_on (CHR ''/'') p) []
      in if st = [] then ''/'' else concat (map (\<lambda>e. CHR ''/'' # e) st))"

record mod_world =
  dirs :: "string \<Rightarrow> spill_dir"
  counters :: TCCounters

text \<open>The recall against one directory of the world.\<close>

definition recall_in :: "spill_env \<Rightarrow> string \<Rightarrow> string \<Rightarrow> mod_world \<Rightarrow> string option \<times> mod_world" where
  "recall_in env dir ref w =
     (case TCRecall env dir ref \<lparr> spills = dirs w dir, totals = counters w \<rparr> of
        (out, c) \<Rightarrow> (out, w\<lparr> counters := totals c \<rparr>))"

definition recall_header_ok :: "string \<Rightarrow> bool" where
  "recall_header_ok request \<longleftrightarrow>
     \<not> (length request < recallRequestLen \<or> Uint32 request 0 \<noteq> recallMagic \<or> Uint16 request 4 \<noteq> auxWireVersion)"

definition recall_lengths_ok :: "string \<Rightarrow> nat \<Rightarrow> nat \<Rightarrow> bool" where
  "recall_lengths_ok request dirLen refLen \<longleftrightarrow>
     \<not> (dirLen = 0 \<or> dirLen > maxSpillDirLen \<or> refLen = 0 \<or> refLen > maxSpillRefLen
        \<or> dirLen > length request - recallRequestLen \<or> refLen \<noteq> length request - recallRequestLen - dirLen)"

definition recall_path_ok :: "string \<Rightarrow> string \<Rightarrow> bool" where
  "recall_path_ok dir ref \<longleftrightarrow>
     IsAbs dir \<and> Clean_rooted dir = dir \<and> CHR 0x00 \<notin> set dir \<and> CHR 0x00 \<notin> set ref"

definition handleToolRecall :: "spill_env \<Rightarrow> bool \<Rightarrow> string \<Rightarrow> mod_world \<Rightarrow> reply \<times> mod_world" where
  "handleToolRecall env stopped request w =
     (if \<not> recall_header_ok request then (([], ModuleStatusInvalidRequest), w)
      else let dirLen = unat (Uint32 request 8); refLen = unat (Uint32 request 12)
           in if \<not> recall_lengths_ok request dirLen refLen then (([], ModuleStatusInvalidRequest), w)
              else let dir = slice recallRequestLen dirLen request;
                       ref = drop (recallRequestLen + dirLen) request
                   in if \<not> recall_path_ok dir ref then (([], ModuleStatusInvalidRequest), w)
                      else if \<not> TCRefValid ref
                      then ((auxResponse recallMagic recallInvalidRef [], ModuleStatusOK), w)
                      else (case recall_in env dir ref w of
                              (None, w) \<Rightarrow> ((auxResponse recallMagic recallExpired [], ModuleStatusOK), w)
                            | (Some out, w) \<Rightarrow>
                                if stopped then (([], ModuleStatusCancelled), w)
                                else ((auxResponse recallMagic recallOK out, ModuleStatusOK), w)))"

section \<open>Counters\<close>

definition stats_values :: "TCCounters \<Rightarrow> int list" where
  "stats_values c =
     (let totals = TCStatsSnapshot c
      in [tcRecognized totals, tcApplied totals, tcAppliedRaw totals, tcAppliedFinal totals,
          tcFamilyTest totals, tcFamilyDiag totals, tcRecovered totals, tcRecoveredBytes totals])"

definition stats_body :: "int list \<Rightarrow> string" where
  "stats_body values =
     (let out = replicate statsResponseLen (CHR 0x00);
          out = PutUint32 0 statsMagic out;
          out = PutUint16 4 auxWireVersion out
      in fold (\<lambda>(i, v). PutUint64 (8 + i * 8) (word_of_int v)) (enumerate 0 values) out)"

definition handleToolStats :: "bool \<Rightarrow> string \<Rightarrow> mod_world \<Rightarrow> reply" where
  "handleToolStats stopped request w =
     (if length request \<noteq> 0 then ([], ModuleStatusInvalidRequest)
      else let out = stats_body (stats_values (counters w))
           in if stopped then ([], ModuleStatusCancelled) else (out, ModuleStatusOK))"

end
