(* ===== verification/GoJson.thy ===== *)
theory GoJson
  imports JsonParse
begin

text \<open>
  What \<open>module.go\<close> and \<open>module_record.go\<close> use of Go's \<open>encoding/json\<close>: \<open>Unmarshal\<close> into a struct
  (the whole input must be one value, nested at most 10000 deep; a member is matched by its exact
  name, then without regard to case; null leaves a field alone; a value of the wrong kind is an error;
  a \<open>RawMessage\<close> receives the text of the value) and \<open>Marshal\<close> of one (strings escaped for HTML, a
  \<open>RawMessage\<close> checked, stripped of white space and escaped for HTML too).

  The loops of the reader consume their input; as in \<open>JsonParse\<close> the test on a length states that
  progress for the termination proof.
\<close>

section \<open>Values\<close>

text \<open>A member keeps its name and the text of its value. The elements of an array are only checked:
  no struct of the module has a slice to fill.\<close>

datatype gval = GNull | GBool bool | GNumber string | GString string | GArray
  | GObject "(string \<times> string \<times> gval) list"

definition maxNestingDepth :: nat where "maxNestingDepth = 10000"

text \<open>The text between an input and what is left of it.\<close>

definition consumed :: "string \<Rightarrow> string \<Rightarrow> string" where
  "consumed s t = take (length s - length t) s"

function go_value :: "nat \<Rightarrow> string \<Rightarrow> (gval \<times> string) option"
  and go_items :: "nat \<Rightarrow> string \<Rightarrow> string option"
  and go_members :: "nat \<Rightarrow> string \<Rightarrow> ((string \<times> string \<times> gval) list \<times> string) option"
where
  "go_value d s =
     (case s of
        [] \<Rightarrow> None
      | c # r \<Rightarrow>
          if c = CHR ''{'' then
            (if d = 0 then None
             else if skipWS r \<noteq> [] \<and> hd (skipWS r) = CHR ''}'' then Some (GObject [], tl (skipWS r))
             else map_option (apfst GObject) (go_members (d - 1) (skipWS r)))
          else if c = CHR ''['' then
            (if d = 0 then None
             else if skipWS r \<noteq> [] \<and> hd (skipWS r) = CHR '']'' then Some (GArray, tl (skipWS r))
             else map_option (Pair GArray) (go_items (d - 1) (skipWS r)))
          else if c = CHR 0x22 then map_option (apfst GString) (unquote r)
          else if c = CHR ''t'' then
            (case lit ''true'' s of Inl e \<Rightarrow> None | Inr t \<Rightarrow> Some (GBool True, t))
          else if c = CHR ''f'' then
            (case lit ''false'' s of Inl e \<Rightarrow> None | Inr t \<Rightarrow> Some (GBool False, t))
          else if c = CHR ''n'' then
            (case lit ''null'' s of Inl e \<Rightarrow> None | Inr t \<Rightarrow> Some (GNull, t))
          else (case parseNumber s of Inl e \<Rightarrow> None | Inr t \<Rightarrow> Some (GNumber (consumed s t), t)))"
| "go_items d s =
     (case go_value d s of
        None \<Rightarrow> None
      | Some (v, t) \<Rightarrow>
          if length t < length s then
            (case skipWS t of
               [] \<Rightarrow> None
             | e # u \<Rightarrow>
                 if e = CHR '']'' then Some u
                 else if e = CHR '','' then go_items d (skipWS u)
                 else None)
          else None)"
| "go_members d s =
     (case s of
        [] \<Rightarrow> None
      | q # r \<Rightarrow>
          if q \<noteq> CHR 0x22 then None
          else
            (case unquote r of
               None \<Rightarrow> None
             | Some (k, t) \<Rightarrow>
                 (case skipWS t of
                    [] \<Rightarrow> None
                  | e # u \<Rightarrow>
                      if e \<noteq> CHR '':'' then None
                      else
                        (case go_value d (skipWS u) of
                           None \<Rightarrow> None
                         | Some (v, w) \<Rightarrow>
                             if length w < length s then
                               (case skipWS w of
                                  [] \<Rightarrow> None
                                | e' # x \<Rightarrow>
                                    if e' = CHR ''}'' then Some ([(k, consumed (skipWS u) w, v)], x)
                                    else if e' = CHR '','' then
                                      map_option (apfst ((#) (k, consumed (skipWS u) w, v))) (go_members d (skipWS x))
                                    else None)
                             else None))))"
  by pat_completeness auto

termination
proof (relation "measure (case_sum (\<lambda>(d, s). 2 * length s)
    (case_sum (\<lambda>(d, s). 2 * length s + 1) (\<lambda>(d, s). 2 * length s + 1)))", goal_cases)
  case (2 d s c r)
  then show ?case using length_skipWS [of r] by simp
next
  case (3 d s c r)
  then show ?case using length_skipWS [of r] by simp
next
  case (5 d s x v t e u)
  then show ?case using length_skipWS [of u] skipWS_less [of t e u] by simp
next
  case (6 d s q r x k t e u)
  then show ?case
    using length_skipWS [of u] skipWS_less [of t e u] unquote_length [of r k t] by simp
next
  case (7 d s q r x k t e u xa v w e' xb)
  then show ?case using length_skipWS [of xb] skipWS_less [of w e' xb] by simp
qed simp_all

declare go_value.simps [simp del] go_items.simps [simp del] go_members.simps [simp del]

definition go_document :: "string \<Rightarrow> gval option" where
  "go_document s =
     (case go_value maxNestingDepth (skipWS s) of
        Some (v, t) \<Rightarrow> if skipWS t = [] then Some v else None
      | None \<Rightarrow> None)"

section \<open>Decoding a struct\<close>

text \<open>A name without regard to case: the long s and the Kelvin sign are the only runes beyond ASCII that
  fold into it.\<close>

fun fold_name :: "string \<Rightarrow> string" where
  "fold_name [] = []"
| "fold_name (c # s) =
     (if c = CHR 0xC5 \<and> take 1 s = [CHR 0xBF] then CHR ''s'' # fold_name (drop 1 s)
      else if c = CHR 0xE2 \<and> take 2 s = [CHR 0x84, CHR 0xAA] then CHR ''k'' # fold_name (drop 2 s)
      else aLower c # fold_name s)"

text \<open>A field sets its part of the struct from the text and the value of the member; \<open>None\<close> is an
  error.\<close>

type_synonym 'r field = "string \<times> (string \<Rightarrow> gval \<Rightarrow> 'r \<Rightarrow> 'r option)"

definition find_field :: "'r field list \<Rightarrow> string \<Rightarrow> (string \<Rightarrow> gval \<Rightarrow> 'r \<Rightarrow> 'r option) option" where
  "find_field fields key =
     (case map_of fields key of
        Some f \<Rightarrow> Some f
      | None \<Rightarrow> map_of (map (\<lambda>(n, f). (fold_name n, f)) fields) (fold_name key))"

fun decode_members :: "'r field list \<Rightarrow> (string \<times> string \<times> gval) list \<Rightarrow> 'r \<Rightarrow> 'r option" where
  "decode_members fields [] r = Some r"
| "decode_members fields ((k, raw, v) # ms) r =
     (case find_field fields k of
        None \<Rightarrow> decode_members fields ms r
      | Some f \<Rightarrow> (case f raw v r of None \<Rightarrow> None | Some r' \<Rightarrow> decode_members fields ms r'))"

definition decode_struct :: "'r field list \<Rightarrow> gval \<Rightarrow> 'r \<Rightarrow> 'r option" where
  "decode_struct fields v r =
     (case v of GNull \<Rightarrow> Some r | GObject ms \<Rightarrow> decode_members fields ms r | _ \<Rightarrow> None)"

definition Unmarshal :: "'r field list \<Rightarrow> 'r \<Rightarrow> string \<Rightarrow> 'r option" where
  "Unmarshal fields zero s = (case go_document s of None \<Rightarrow> None | Some v \<Rightarrow> decode_struct fields v zero)"

definition ParseInt :: "string \<Rightarrow> int option" where
  "ParseInt s =
     (let neg = (s \<noteq> [] \<and> hd s = CHR ''-''); ds = (if neg then tl s else s);
          n = (if neg then - int (digits_val ds) else int (digits_val ds))
      in if ds = [] \<or> \<not> list_all is_digit ds \<or> \<not> is_i64 n then None else Some n)"

definition raw_field :: "string \<Rightarrow> ((string \<Rightarrow> string) \<Rightarrow> 'r \<Rightarrow> 'r) \<Rightarrow> 'r field" where
  "raw_field name upd = (name, \<lambda>raw v r. Some (upd (\<lambda>_. raw) r))"

definition string_field :: "string \<Rightarrow> ((string \<Rightarrow> string) \<Rightarrow> 'r \<Rightarrow> 'r) \<Rightarrow> 'r field" where
  "string_field name upd = (name, \<lambda>raw v r.
     case v of GNull \<Rightarrow> Some r | GString s \<Rightarrow> Some (upd (\<lambda>_. s) r) | _ \<Rightarrow> None)"

definition bool_field :: "string \<Rightarrow> ((bool \<Rightarrow> bool) \<Rightarrow> 'r \<Rightarrow> 'r) \<Rightarrow> 'r field" where
  "bool_field name upd = (name, \<lambda>raw v r.
     case v of GNull \<Rightarrow> Some r | GBool b \<Rightarrow> Some (upd (\<lambda>_. b) r) | _ \<Rightarrow> None)"

definition int_field :: "string \<Rightarrow> ((int \<Rightarrow> int) \<Rightarrow> 'r \<Rightarrow> 'r) \<Rightarrow> 'r field" where
  "int_field name upd = (name, \<lambda>raw v r.
     case v of GNull \<Rightarrow> Some r | GNumber t \<Rightarrow> map_option (\<lambda>i. upd (\<lambda>_. i) r) (ParseInt t) | _ \<Rightarrow> None)"

definition float_field :: "string \<Rightarrow> ((float64 \<Rightarrow> float64) \<Rightarrow> 'r \<Rightarrow> 'r) \<Rightarrow> 'r field" where
  "float_field name upd = (name, \<lambda>raw v r.
     case v of GNull \<Rightarrow> Some r | GNumber t \<Rightarrow> map_option (\<lambda>x. upd (\<lambda>_. x) r) (ParseFloat t) | _ \<Rightarrow> None)"

section \<open>Encoding a struct\<close>

definition html_char :: "char \<Rightarrow> bool" where
  "html_char c \<longleftrightarrow> c = CHR ''<'' \<or> c = CHR ''>'' \<or> c = CHR ''&''"

definition u00 :: "char \<Rightarrow> string" where
  "u00 c = CHR 0x5C # ''u00'' @ [digit_char (byte c div 16), digit_char (byte c mod 16)]"

text \<open>The two separators U+2028 and U+2029.\<close>

definition line_sep :: "string \<Rightarrow> bool" where
  "line_sep s \<longleftrightarrow> take 3 s = [CHR 0xE2, CHR 0x80, CHR 0xA8] \<or> take 3 s = [CHR 0xE2, CHR 0x80, CHR 0xA9]"

definition u202 :: "char \<Rightarrow> string" where
  "u202 c = CHR 0x5C # ''u202'' @ [digit_char (byte c mod 16)]"

definition escape_byte :: "char \<Rightarrow> string" where
  "escape_byte c =
     (if c = CHR 0x22 \<or> c = CHR 0x5C then [CHR 0x5C, c]
      else if c = CHR 0x08 then [CHR 0x5C, CHR ''b'']
      else if c = CHR 0x0C then [CHR 0x5C, CHR ''f'']
      else if c = CHR 0x0A then [CHR 0x5C, CHR ''n'']
      else if c = CHR 0x0D then [CHR 0x5C, CHR ''r'']
      else if c = CHR 0x09 then [CHR 0x5C, CHR ''t'']
      else if byte c < 0x20 \<or> html_char c then u00 c
      else [c])"

function escape_string :: "string \<Rightarrow> string" where
  "escape_string s =
     (case s of
        [] \<Rightarrow> []
      | c # r \<Rightarrow>
          if byte c < 0x80 then escape_byte c @ escape_string r
          else (case utf8Sequence s of
                  None \<Rightarrow> CHR 0x5C # ''ufffd'' @ escape_string r
                | Some n \<Rightarrow> (if line_sep s then u202 (s ! 2) else take n s) @ escape_string (drop n s)))"
  by pat_completeness auto
termination
  by (relation "measure length") (auto dest: utf8Sequence_bounds)

declare escape_string.simps [simp del]

definition marshal_string :: "string \<Rightarrow> string" where
  "marshal_string s = CHR 0x22 # escape_string s @ [CHR 0x22]"

definition marshal_bool :: "bool \<Rightarrow> string" where
  "marshal_bool b = (if b then ''true'' else ''false'')"

text \<open>The copy of a \<open>RawMessage\<close>: whether the scan is inside a string and behind a backslash.\<close>

fun compact_html :: "bool \<Rightarrow> bool \<Rightarrow> string \<Rightarrow> string" where
  "compact_html str esc [] = []"
| "compact_html str esc (c # s) =
     (if html_char c then u00 c @ compact_html str False s
      else if line_sep (c # s) then u202 (s ! 1) @ compact_html str False (drop 2 s)
      else if \<not> str \<and> jsonWS c then compact_html False False s
      else c # (if esc then compact_html str False s
                else if str \<and> c = CHR 0x5C then compact_html str True s
                else if c = CHR 0x22 then compact_html (\<not> str) False s
                else compact_html str False s))"

definition marshal_raw :: "string \<Rightarrow> string option" where
  "marshal_raw raw = (if go_document raw = None then None else Some (compact_html False False raw))"

text \<open>An omitted field is \<open>None\<close>.\<close>

definition marshal_struct :: "(string \<times> string option) list \<Rightarrow> string" where
  "marshal_struct fields =
     ''{'' @ join_with (CHR '','')
       (concat (map (\<lambda>(n, v). case v of None \<Rightarrow> [] | Some t \<Rightarrow> [CHR 0x22 # n @ [CHR 0x22, CHR '':''] @ t]) fields)) @ ''}''"

definition omitempty :: "bool \<Rightarrow> string \<Rightarrow> string option" where
  "omitempty e t = (if e then None else Some t)"

lemma sample_document:
  "go_document '' {} '' = Some (GObject [])"
  "go_document ''[1,2.5e3 ,{}]'' = Some GArray" "go_document ''01'' = None" "go_document ''nul'' = None"
  by code_simp+

lemma sample_unmarshal:
  "Unmarshal [int_field ''n'' apfst, raw_field ''k_s'' apsnd] (0, [])
     [CHR ''{'', CHR 0x22, CHR ''N'', CHR 0x22, CHR '':'', CHR ''7'', CHR '','', CHR 0x22, CHR 0xE2, CHR 0x84, CHR 0xAA,
      CHR ''_'', CHR ''s'', CHR 0x22, CHR '':'', CHR '' '', CHR ''['', CHR '' '', CHR '']'', CHR ''}''] = Some (7, ''[ ]'')"
  by code_simp

lemma sample_marshal:
  "marshal_raw [CHR ''['', CHR '' '', CHR 0x22, CHR ''a'', CHR '' '', CHR ''<'', CHR 0x22, CHR '']''] =
     Some ([CHR ''['', CHR 0x22] @ ''a '' @ [CHR 0x5C] @ ''u003c'' @ [CHR 0x22, CHR '']''])"
  "marshal_struct [(''a'', Some (int_str 3)), (''b'', None), (''c'', Some (marshal_bool True))]
     = [CHR ''{'', CHR 0x22, CHR ''a'', CHR 0x22] @ '':3,'' @ [CHR 0x22, CHR ''c'', CHR 0x22] @ '':true}''"
  by code_simp+

end
