(* ===== verification/ModuleRecord.thy ===== *)
theory ModuleRecord
  imports ModuleAux GoJson Registers ClosetRender
begin

text \<open>
  \<open>module_record.go\<close>: the record of a session segment, built from the transcript the caller owns. The
  coordinates of every message go into one closet, the settled registers of the assistant's messages
  into the decisions and the errors.
\<close>

record RecordBuildRequest =
  rbMessages :: string
  rbStart :: int
  rbEnd :: int

record recordFields =
  Files :: "string list"
  Errors :: "string list"
  Decisions :: "string list"

record recordBuildResponse =
  Record :: recordFields
  rbCloset :: string
  rbClosetEvicted :: bool

definition record_fields :: "RecordBuildRequest field list" where
  "record_fields = [raw_field ''messages'' rbMessages_update, int_field ''start'' rbStart_update,
     int_field ''end'' rbEnd_update]"

section \<open>Messages\<close>

definition recordMessageText :: "jref \<Rightarrow> string" where
  "recordMessageText msg =
     (case Get msg ''content'' of
        None \<Rightarrow> []
      | Some (JSONString s) \<Rightarrow> s
      | Some (JSONArray blocks) \<Rightarrow>
          (case List.find (\<lambda>b. GetString (Some b) ''type'' = ''text'') blocks of
             None \<Rightarrow> [] | Some b \<Rightarrow> GetString (Some b) ''text'')
      | Some _ \<Rightarrow> [])"

definition recordMessageIsToolResult :: "jref \<Rightarrow> bool" where
  "recordMessageIsToolResult msg =
     (let role = GetString msg ''role''
      in if role = [] \<or> role = ''tool'' then True
         else if role \<noteq> ''user'' then False
         else (case Get msg ''content'' of
                 Some (JSONArray blocks) \<Rightarrow> list_ex (\<lambda>b. GetString (Some b) ''type'' = ''tool_result'') blocks
               | _ \<Rightarrow> False))"

definition recordAddUnique :: "string list \<Rightarrow> string \<Rightarrow> nat \<Rightarrow> string list" where
  "recordAddUnique items v maxBytes =
     (if v = [] \<or> v \<in> set items then items
      else items @ [if length v > maxBytes then take maxBytes v else v])"

definition message_prov :: "jref \<Rightarrow> int \<Rightarrow> Provenance" where
  "message_prov msg i =
     \<lparr> Lane = (if GetString msg ''role'' = ''user'' \<and> \<not> recordMessageIsToolResult msg then LaneUser else LaneAgent),
       TurnID = i, ToolCallID = -1, ResultIndex = -1 \<rparr>"

definition add_register :: "string \<Rightarrow> recordFields \<Rightarrow> recordFields" where
  "add_register text' r =
     (case ParseRegister text' of
        RegVerdict \<Rightarrow> r\<lparr> Decisions := recordAddUnique (Decisions r) text' 180 \<rparr>
      | RegHazard \<Rightarrow> r\<lparr> Errors := recordAddUnique (Errors r) text' 180 \<rparr>
      | RegBlocked \<Rightarrow> r\<lparr> Errors := recordAddUnique (Errors r) text' 180 \<rparr>
      | _ \<Rightarrow> r)"

section \<open>The record\<close>

text \<open>One round of the loop over the range: the record, the closet and the bytes seen.\<close>

definition record_message ::
  "json \<Rightarrow> int \<Rightarrow> recordFields \<times> CoordSet option \<times> int \<Rightarrow> recordFields \<times> CoordSet option \<times> int" where
  "record_message messages i acc =
     (case acc of (r, cs, rawTotal) \<Rightarrow>
        let msg = At (Some messages) i; text' = recordMessageText msg
        in if text' = [] then (r, cs, rawTotal)
           else (if GetString msg ''role'' = ''assistant'' then add_register text' r else r,
                 fst (NominateInto text' (Some (message_prov msg i)) cs),
                 rawTotal + int (length text')))"

definition record_files :: "CoordEntry list \<Rightarrow> string list" where
  "record_files entries =
     fold (\<lambda>e files. if Kind e = CoordKindPath then recordAddUnique files (Value e) 160 else files) entries []"

definition record_closet :: ClosetConfig where
  "record_closet = \<lparr> Enabled = True, BudgetBytes = 0, MaxRatioPct = 0, Denylist = [] \<rparr>"

definition buildRecord :: "json \<Rightarrow> int \<Rightarrow> int \<Rightarrow> recordBuildResponse" where
  "buildRecord messages start end' =
     (let (r, cs, rawTotal) = fold (record_message messages) [start..end' - 1]
            (\<lparr> Files = [], Errors = [], Decisions = [] \<rparr>, Some empty_CoordSet, 0);
          r = r\<lparr> Files := record_files (case cs of None \<Rightarrow> [] | Some c \<Rightarrow> CoordItems c) \<rparr>;
          (closet, evicted) = RenderCloset cs record_closet rawTotal
      in \<lparr> Record = r, rbCloset = closet, rbClosetEvicted = (evicted = EvictFail) \<rparr>)"

definition marshal_strings :: "string list \<Rightarrow> string" where
  "marshal_strings xs = ''['' @ join_with (CHR '','') (map marshal_string xs) @ '']''"

definition marshal_record :: "recordBuildResponse \<Rightarrow> string" where
  "marshal_record resp =
     marshal_struct
       [(''record'', Some (marshal_struct
           [(''files_modified'', Some (marshal_strings (Files (Record resp)))),
            (''errors_encountered'', Some (marshal_strings (Errors (Record resp)))),
            (''decisions_made'', Some (marshal_strings (Decisions (Record resp))))])),
        (''closet'', omitempty (rbCloset resp = []) (marshal_string (rbCloset resp))),
        (''closet_evicted'', omitempty (\<not> rbClosetEvicted resp) (marshal_bool (rbClosetEvicted resp)))]"

text \<open>\<open>Marshal\<close> has no error here: every field is a string or a flag.\<close>

definition handleRecordBuild :: "bool \<Rightarrow> string \<Rightarrow> reply" where
  "handleRecordBuild stopped request =
     (case Unmarshal record_fields \<lparr> rbMessages = [], rbStart = 0, rbEnd = 0 \<rparr> request of
        None \<Rightarrow> ([], ModuleStatusInvalidRequest)
      | Some req \<Rightarrow>
          (case ParseJSON (rbMessages req) of
             Some messages \<Rightarrow>
               if \<not> IsArray (Some messages) \<or> rbStart req < 0 \<or> rbEnd req < rbStart req \<or> rbEnd req > Len (Some messages)
               then ([], ModuleStatusInvalidRequest)
               else let resp = buildRecord messages (rbStart req) (rbEnd req)
                    in if stopped then ([], ModuleStatusCancelled)
                       else (marshal_record resp, ModuleStatusOK)
           | None \<Rightarrow> ([], ModuleStatusInvalidRequest)))"

end
