(* ===== verification/ModuleReduce.thy ===== *)
theory ModuleReduce
  imports ModuleRecord StateBlob Gateway RepairPairs
begin

text \<open>
  \<open>module.go\<close>: the reduce stage on the bus and the dispatch over the five stages. A request names the
  seam, the resolved configuration and the state of the conversation as a text; the reply carries the
  reduced messages, the ledger, the verdict of the gateway and the state to persist.
\<close>

section \<open>The wire form\<close>

definition EventReduce :: "32 word" where "EventReduce = 11009"
definition StageReduce :: "32 word" where "StageReduce = 1"
definition EventJSONCompact :: "32 word" where "EventJSONCompact = 11010"
definition StageJSONCompact :: "32 word" where "StageJSONCompact = 2"
definition EventToolRecall :: "32 word" where "EventToolRecall = 11011"
definition StageToolRecall :: "32 word" where "StageToolRecall = 3"
definition EventToolStats :: "32 word" where "EventToolStats = 11012"
definition StageToolStats :: "32 word" where "StageToolStats = 4"
definition EventRecordBuild :: "32 word" where "EventRecordBuild = 11013"
definition StageRecordBuild :: "32 word" where "StageRecordBuild = 5"

record ReduceRequest =
  rqMessages :: string
  rqSystemPrompt :: string
  rqSeam :: string
  rqHistoryFold :: bool
  rqCompress :: bool
  rqMeasureOnly :: bool
  rqMinGainTokens :: int
  rqFreezeGuardEnabled :: bool
  rqFreezeGuardHorizon :: int
  rqRates :: PriceRates
  rqRecallEnabled :: bool
  rqRecallTTLTurns :: int
  rqRecallInject :: bool
  rqRetainedMsgs :: int
  rqMinFoldMsgs :: int
  rqReasoningExcerptBytes :: int
  rqRegisterEnabled :: bool
  rqCompactHeadBytes :: int
  rqCompactTailBytes :: int
  rqClosetEnabled :: bool
  rqClosetBudgetBytes :: int
  rqClosetMaxRatioPct :: int
  rqClosetDenylist :: string
  rqState :: string
  rqTurn :: int

definition zero_rates :: PriceRates where
  "zero_rates = \<lparr> Priced = False, InputCost = F64 0, WriteCost = F64 0, ReadCost = F64 0 \<rparr>"

definition zero_request :: ReduceRequest where
  "zero_request = \<lparr> rqMessages = [], rqSystemPrompt = [], rqSeam = [], rqHistoryFold = False, rqCompress = False,
     rqMeasureOnly = False, rqMinGainTokens = 0, rqFreezeGuardEnabled = False, rqFreezeGuardHorizon = 0,
     rqRates = zero_rates, rqRecallEnabled = False, rqRecallTTLTurns = 0, rqRecallInject = False,
     rqRetainedMsgs = 0, rqMinFoldMsgs = 0, rqReasoningExcerptBytes = 0, rqRegisterEnabled = False,
     rqCompactHeadBytes = 0, rqCompactTailBytes = 0, rqClosetEnabled = False, rqClosetBudgetBytes = 0,
     rqClosetMaxRatioPct = 0, rqClosetDenylist = [], rqState = [], rqTurn = 0 \<rparr>"

definition rates_fields :: "PriceRates field list" where
  "rates_fields = [bool_field ''Priced'' Priced_update, float_field ''InputCost'' InputCost_update,
     float_field ''WriteCost'' WriteCost_update, float_field ''ReadCost'' ReadCost_update]"

definition rates_field :: "ReduceRequest field" where
  "rates_field = (''rates'', \<lambda>raw v r.
     map_option (\<lambda>p. r\<lparr> rqRates := p \<rparr>) (decode_struct rates_fields v (rqRates r)))"

definition request_fields :: "ReduceRequest field list" where
  "request_fields =
    [raw_field ''messages'' rqMessages_update, string_field ''system_prompt'' rqSystemPrompt_update,
     string_field ''seam'' rqSeam_update, bool_field ''history_fold'' rqHistoryFold_update,
     bool_field ''compress'' rqCompress_update, bool_field ''measure_only'' rqMeasureOnly_update,
     int_field ''min_gain_tokens'' rqMinGainTokens_update,
     bool_field ''freeze_guard_enabled'' rqFreezeGuardEnabled_update,
     int_field ''freeze_guard_horizon'' rqFreezeGuardHorizon_update, rates_field,
     bool_field ''recall_enabled'' rqRecallEnabled_update, int_field ''recall_ttl_turns'' rqRecallTTLTurns_update,
     bool_field ''recall_inject'' rqRecallInject_update, int_field ''retained_msgs'' rqRetainedMsgs_update,
     int_field ''min_fold_msgs'' rqMinFoldMsgs_update, int_field ''excerpt_bytes'' rqReasoningExcerptBytes_update,
     bool_field ''register_enabled'' rqRegisterEnabled_update,
     int_field ''compact_head_bytes'' rqCompactHeadBytes_update,
     int_field ''compact_tail_bytes'' rqCompactTailBytes_update, bool_field ''closet_enabled'' rqClosetEnabled_update,
     int_field ''closet_budget_bytes'' rqClosetBudgetBytes_update,
     int_field ''closet_max_ratio_pct'' rqClosetMaxRatioPct_update,
     string_field ''closet_denylist'' rqClosetDenylist_update, string_field ''state'' rqState_update,
     int_field ''turn'' rqTurn_update]"

record ReduceResponse =
  rpMessages :: string
  rpMutated :: bool
  rpReason :: string
  rpBypass :: string
  rpBaselineTokens :: int
  rpReducedTokens :: int
  rpRemovedTokens :: int
  rpFoldableTokens :: int
  rpFoldedMsgs :: int
  rpRetainedMsgs :: int
  rpReusedBoundary :: bool
  rpEpochs :: int
  rpFreezeGuarded :: bool
  rpClosetEvicted :: bool
  rpRecallHint :: string
  rpRecallSurfaced :: int
  rpState :: string

fun reduceReasonNames :: "ReduceReason \<Rightarrow> string" where
  "reduceReasonNames ReduceReasonNone = ''none''"
| "reduceReasonNames ReduceReasonReduced = ''reduced''"
| "reduceReasonNames ReduceReasonMeasured = ''measured''"
| "reduceReasonNames ReduceReasonSkipNoGain = ''skip_no_gain''"
| "reduceReasonNames ReduceReasonAlready = ''already''"

text \<open>\<open>json.Marshal\<close> of the response; its only error is a \<open>RawMessage\<close> that is not JSON.\<close>

definition marshal_response :: "ReduceResponse \<Rightarrow> string option" where
  "marshal_response r =
     (if rpMessages r \<noteq> [] \<and> marshal_raw (rpMessages r) = None then None
      else
        let int_opt = (\<lambda>i. omitempty (i = 0) (int_str i)); flag = (\<lambda>b. omitempty (\<not> b) (marshal_bool b));
            str = (\<lambda>s. omitempty (s = []) (marshal_string s))
        in Some (marshal_struct
          [(''messages'', if rpMessages r = [] then None else marshal_raw (rpMessages r)),
           (''mutated'', Some (marshal_bool (rpMutated r))), (''reason'', Some (marshal_string (rpReason r))),
           (''bypass'', str (rpBypass r)), (''baseline_tokens'', Some (int_str (rpBaselineTokens r))),
           (''reduced_tokens'', Some (int_str (rpReducedTokens r))),
           (''removed_tokens'', Some (int_str (rpRemovedTokens r))),
           (''foldable_tokens'', Some (int_str (rpFoldableTokens r))),
           (''folded_msgs'', int_opt (rpFoldedMsgs r)), (''retained_msgs'', int_opt (rpRetainedMsgs r)),
           (''reused_boundary'', flag (rpReusedBoundary r)), (''epochs'', int_opt (rpEpochs r)),
           (''freeze_guarded'', flag (rpFreezeGuarded r)), (''closet_evicted'', flag (rpClosetEvicted r)),
           (''recall_hint'', str (rpRecallHint r)), (''recall_surfaced'', int_opt (rpRecallSurfaced r)),
           (''state'', str (rpState r))]))"

section \<open>The reduce stage\<close>

definition request_seam :: "string \<Rightarrow> Seam option" where
  "request_seam s =
     (if s = ''gateway'' then Some SeamGateway
      else if s = ''delegate'' \<or> s = [] then Some SeamDelegate else None)"

definition request_config :: "ReduceRequest \<Rightarrow> Seam \<Rightarrow> ReduceConfig" where
  "request_config req seam =
     \<lparr> HistoryFold = rqHistoryFold req, Compress = rqCompress req, GatewaySeam = (seam = SeamGateway),
       DelegateSeam = (seam \<noteq> SeamGateway), MeasureOnly = rqMeasureOnly req, MinGainTokens = rqMinGainTokens req,
       FreezeGuardEnabled = rqFreezeGuardEnabled req, FreezeGuardHorizon = rqFreezeGuardHorizon req,
       Rates = rqRates req, RecallEnabled = rqRecallEnabled req, RecallTTLTurns = rqRecallTTLTurns req,
       RecallInject = rqRecallInject req,
       cfgFold = \<lparr> FoldEnabled = False, cfgRetainedMsgs = rqRetainedMsgs req, cfgMinFoldMsgs = rqMinFoldMsgs req,
         cfgReasoningExcerptBytes = rqReasoningExcerptBytes req, cfgRegisterEnabled = rqRegisterEnabled req,
         cfgCloset = \<lparr> Enabled = rqClosetEnabled req, BudgetBytes = rqClosetBudgetBytes req,
           MaxRatioPct = rqClosetMaxRatioPct req, Denylist = rqClosetDenylist req \<rparr>,
         cfgCompactHeadBytes = rqCompactHeadBytes req, cfgCompactTailBytes = rqCompactTailBytes req \<rparr> \<rparr>"

text \<open>A state that cannot be read is discarded: the cold one stands.\<close>

definition request_state :: "ReduceRequest \<Rightarrow> ReduceState" where
  "request_state req =
     (let st = zero_state\<lparr> Turn := rqTurn req, RecallIx := Some NewRecallIndex \<rparr>
      in if rqState req = [] then st
         else let st = (case RestoreState (Some st) (rqState req) of Inl e \<Rightarrow> st | Inr s \<Rightarrow> s);
                  st = st\<lparr> Turn := rqTurn req \<rparr>
              in if RecallIx st = None then st\<lparr> RecallIx := Some NewRecallIndex \<rparr> else st)"

definition response_of :: "Seam \<Rightarrow> ReduceResult \<Rightarrow> ReduceState option \<Rightarrow> ReduceResponse" where
  "response_of seam out st =
     \<lparr> rpMessages = (case outMessages out of
          Some v \<Rightarrow> if Mutated out then PrintJSONUnformatted v else [] | None \<Rightarrow> []),
       rpMutated = Mutated out, rpReason = reduceReasonNames (Reason out),
       rpBypass = (if seam = SeamGateway
          then GWBypassReason_String (GWShouldApply True (Some out) ReduceErrNone (Some MessageHistoryRepair)) else []),
       rpBaselineTokens = BaselineTokens out, rpReducedTokens = ReducedTokens out,
       rpRemovedTokens = RemovedTokens out, rpFoldableTokens = FoldableTokens out,
       rpFoldedMsgs = outFoldedMsgs out, rpRetainedMsgs = outRetainedMsgs out,
       rpReusedBoundary = outReusedBoundary out, rpEpochs = outEpochs out, rpFreezeGuarded = FreezeGuarded out,
       rpClosetEvicted = (outClosetEvict out = EvictFail), rpRecallHint = RecallHint out,
       rpRecallSurfaced = RecallSurfaced out,
       rpState = (case SerializeState st of Some blob \<Rightarrow> blob | None \<Rightarrow> []) \<rparr>"

text \<open>\<open>None\<close> is the panic of the body shrink.\<close>

definition handleReduce :: "ReduceRequest \<Rightarrow> reply option" where
  "handleReduce req =
     (case ParseJSON (rqMessages req) of
        None \<Rightarrow> Some ([], ModuleStatusInvalidRequest)
      | Some messages \<Rightarrow>
          if \<not> IsArray (Some messages) then Some ([], ModuleStatusInvalidRequest)
          else (case request_seam (rqSeam req) of
                  None \<Rightarrow> Some ([], ModuleStatusInvalidRequest)
                | Some seam \<Rightarrow>
                    (case Reduce (Some messages) (rqSystemPrompt req) seam (Some (request_config req seam))
                            (Some (request_state req)) of
                       None \<Rightarrow> None
                     | Some (out, st) \<Rightarrow>
                         Some (case marshal_response (response_of seam out st) of
                                 None \<Rightarrow> ([], ModuleStatusInternal)
                               | Some body \<Rightarrow> (body, ModuleStatusOK)))))"

section \<open>Dispatch\<close>

text \<open>\<open>poll n\<close> is the answer of the nth poll of \<open>Cancelled\<close>.\<close>

definition NewHandler ::
  "spill_env \<Rightarrow> (nat \<Rightarrow> bool) \<Rightarrow> ModuleInvocation \<Rightarrow> string \<Rightarrow> mod_world \<Rightarrow> (reply \<times> mod_world) option" where
  "NewHandler env poll invocation request w =
     (if poll 0 then Some (([], ModuleStatusCancelled), w)
      else if invStageID invocation = StageReduce
      then (case Unmarshal request_fields zero_request request of
              None \<Rightarrow> Some (([], ModuleStatusInvalidRequest), w)
            | Some req \<Rightarrow> map_option (\<lambda>r. (r, w)) (handleReduce req))
      else if invStageID invocation = StageJSONCompact then Some (handleJSONCompact (poll 1) request, w)
      else if invStageID invocation = StageToolRecall then Some (handleToolRecall env (poll 1) request w)
      else if invStageID invocation = StageToolStats then Some (handleToolStats (poll 1) request w, w)
      else if invStageID invocation = StageRecordBuild then Some (handleRecordBuild (poll 1) request, w)
      else Some (([], ModuleStatusInvalidRequest), w))"

end
