(* ===== verification/ModuleLaws.thy ===== *)
theory ModuleLaws
  imports ModuleReduce CondenseLaws
begin

text \<open>
  Laws of the bus surface: the layout of the binary replies, the confinement of the recall to the
  directory it names and its round trip with the condensation, and the contract of the handler with
  the runtime (the locale \<open>module_handler\<close>).
\<close>

section \<open>Replies\<close>

lemma auxResponse_bytes:
  "auxResponse magic result payload =
     le_bytes 4 (unat magic) @ le_bytes 2 (unat auxWireVersion) @ le_bytes 2 (unat result)
     @ le_bytes 4 (length payload mod 2 ^ 32) @ payload"
proof -
  let ?z = "\<lambda>n. replicate n (CHR 0x00)"
  have "?z (auxHeaderLen + length payload) = ?z 4 @ ?z 2 @ ?z 2 @ ?z 4 @ ?z (length payload)"
    by (simp add: auxHeaderLen_def flip: replicate_add)
  then show ?thesis
    by (simp add: auxResponse_def Let_def PutUint32_def PutUint16_def store_def auxHeaderLen_def unat_of_nat)
qed

definition aux_payload :: "string \<Rightarrow> string" where "aux_payload body = drop auxHeaderLen body"
definition aux_result :: "string \<Rightarrow> 16 word" where "aux_result body = Uint16 body 6"

lemma auxResponse_read [simp]:
  "aux_payload (auxResponse magic result payload) = payload"
  "aux_result (auxResponse magic result payload) = result"
  "Uint32 (auxResponse magic result payload) 0 = magic"
  "Uint16 (auxResponse magic result payload) 4 = auxWireVersion"
  "Uint32 (auxResponse magic result payload) 8 = of_nat (length payload)"
  by (simp_all add: auxResponse_bytes aux_payload_def aux_result_def auxHeaderLen_def Uint32_def Uint16_def slice_def
      unat_mod_width word_unat_eq_iff unat_of_nat)

lemma auxResponse_length [simp]: "length (auxResponse magic result payload) = auxHeaderLen + length payload"
  by (simp add: auxResponse_bytes auxHeaderLen_def)

section \<open>Clean paths\<close>

definition plain_elem :: "string \<Rightarrow> bool" where
  "plain_elem e \<longleftrightarrow> e \<noteq> [] \<and> e \<noteq> ''.'' \<and> e \<noteq> ''..'' \<and> CHR ''/'' \<notin> set e"

lemma clean_elem_plain:
  "list_all plain_elem st \<Longrightarrow> CHR ''/'' \<notin> set e \<Longrightarrow> list_all plain_elem (clean_elem e st)"
  by (auto simp: clean_elem_def plain_elem_def list_all_iff dest: in_set_butlastD)

lemma clean_fold_plain:
  "list_all plain_elem st \<Longrightarrow> (\<And>e. e \<in> set es \<Longrightarrow> CHR ''/'' \<notin> set e) \<Longrightarrow> list_all plain_elem (fold clean_elem es st)"
  by (induction es arbitrary: st) (simp_all add: clean_elem_plain)

text \<open>A path that is its own clean form names every element plainly.\<close>

definition plain_path :: "string \<Rightarrow> bool" where
  "plain_path p \<longleftrightarrow> (\<exists>st. list_all plain_elem st \<and> p = (if st = [] then ''/'' else concat (map (\<lambda>e. CHR ''/'' # e) st)))"

lemma Clean_rooted_plain: "Clean_rooted p = p \<Longrightarrow> plain_path p"
  using clean_fold_plain [of "[]" "split_on (CHR ''/'') p"] split_on_no_delim
  by (auto simp: plain_path_def Clean_rooted_def Let_def intro!: exI [of _ "fold clean_elem (split_on (CHR ''/'') p) []"])

section \<open>Recall\<close>

text \<open>The bytes a client sends for a directory and a reference.\<close>

definition recall_request :: "string \<Rightarrow> string \<Rightarrow> string" where
  "recall_request dir ref =
     le_bytes 4 (unat recallMagic) @ le_bytes 2 (unat auxWireVersion) @ le_bytes 2 0
     @ le_bytes 4 (length dir) @ le_bytes 4 (length ref) @ dir @ ref"

definition dir_ok :: "string \<Rightarrow> bool" where
  "dir_ok dir \<longleftrightarrow> IsAbs dir \<and> Clean_rooted dir = dir \<and> CHR 0x00 \<notin> set dir \<and> length dir \<le> maxSpillDirLen"

lemma recall_request_read:
  assumes "length dir < 2 ^ 32" "length ref < 2 ^ 32"
  shows "recall_header_ok (recall_request dir ref)" "unat (Uint32 (recall_request dir ref) 8) = length dir"
    "unat (Uint32 (recall_request dir ref) 12) = length ref"
    "slice recallRequestLen (length dir) (recall_request dir ref) = dir"
    "drop (recallRequestLen + length dir) (recall_request dir ref) = ref"
    "length (recall_request dir ref) = recallRequestLen + length dir + length ref"
  using assms
  by (simp_all add: recall_request_def recall_header_ok_def recallRequestLen_def recallMagic_def auxWireVersion_def
      Uint32_def Uint16_def slice_def word_unat_eq_iff unat_of_nat)

lemma ref_valid_shape: "TCRefValid ref \<Longrightarrow> length ref = 19 \<and> CHR 0x00 \<notin> set ref \<and> CHR ''/'' \<notin> set ref"
proof -
  assume v: "TCRefValid ref"
  then obtain h where "ref = ''tc-'' @ h" "length h = 16" "list_all ref_char h"
    by (auto simp: TCRefValid_def has_prefix_def Let_def prefix_def split: if_splits)
  then show ?thesis by (auto simp: list_all_iff ref_char_def less_eq_char_def)
qed

lemma recall_over_wire:
  assumes "dir_ok dir" "TCRefValid ref"
  shows "handleToolRecall env stopped (recall_request dir ref) w =
     (case recall_in env dir ref w of
        (None, w) \<Rightarrow> ((auxResponse recallMagic recallExpired [], ModuleStatusOK), w)
      | (Some out, w) \<Rightarrow> if stopped then (([], ModuleStatusCancelled), w)
                        else ((auxResponse recallMagic recallOK out, ModuleStatusOK), w))"
proof -
  have d: "dir \<noteq> []" "length dir < 2 ^ 32" using assms(1) by (auto simp: dir_ok_def IsAbs_def has_prefix_def maxSpillDirLen_def)
  have r: "length ref = 19" "CHR 0x00 \<notin> set ref" using ref_valid_shape [OF assms(2)] by auto
  note read = recall_request_read [of dir ref]
  show ?thesis
    using assms d r read
    by (simp add: handleToolRecall_def recall_lengths_ok_def recall_path_ok_def dir_ok_def maxSpillRefLen_def)
qed

lemma recall_in_cases:
  obtains "recall_in env dir ref w = (None, w)"
  | f where "map_of (dirs w dir) (spill_name ref) = Some f" "fileRegular f"
    "recall_in env dir ref w = (Some (fileContent f), w\<lparr> counters := (counters w)\<lparr>
       tcRecovered := wrap64 (tcRecovered (counters w) + 1),
       tcRecoveredBytes := wrap64 (tcRecoveredBytes (counters w) + int (length (fileContent f))) \<rparr> \<rparr>)"
proof (cases "map_of (dirs w dir) (spill_name ref)")
  case (Some f)
  then show ?thesis
    using that(1) that(2) [OF Some]
    by (cases "dir = [] \<or> \<not> TCRefValid ref \<or> \<not> fileRegular f \<or> \<not> openOK env \<or> \<not> readOK env
          \<or> length (fileContent f) > TCCeiling") (auto simp: recall_in_def TCRecall_def)
qed (use that(1) in \<open>simp add: recall_in_def TCRecall_def\<close>)

text \<open>The world after a recovery of \<open>content\<close>: two counters have moved, nothing else.\<close>

definition recovered :: "string \<Rightarrow> mod_world \<Rightarrow> mod_world" where
  "recovered content w = w\<lparr> counters := (counters w)\<lparr>
     tcRecovered := wrap64 (tcRecovered (counters w) + 1),
     tcRecoveredBytes := wrap64 (tcRecoveredBytes (counters w) + int (length content)) \<rparr> \<rparr>"

text \<open>C14: a recalled output comes from the directory the request names and from nowhere else. A reply that
  carries an output has the bytes of one regular file of that directory, a file whose name is a
  reference with the suffix of a spill; the directory is an absolute path without an empty, a dot or a
  double-dot element, the reference has no separator. The world moves by exactly one recovery of that
  file, two counters and nothing else, when the output is sent and when the call was cancelled after
  the file was read; every other request leaves the whole world as it was, the directories and every
  counter included.\<close>

theorem recall_confined:
  "case handleToolRecall env stopped request w of ((body, status), w') \<Rightarrow>
     dirs w' = dirs w
     \<and> (if status = ModuleStatusOK \<and> aux_result body = recallOK then
          \<exists>dir ref f. slice recallRequestLen (length dir) request = dir \<and> drop (recallRequestLen + length dir) request = ref
            \<and> plain_path dir
            \<and> TCRefValid ref \<and> CHR ''/'' \<notin> set ref \<and> map_of (dirs w dir) (spill_name ref) = Some f \<and> fileRegular f
            \<and> aux_payload body = fileContent f
            \<and> w' = recovered (fileContent f) w
        else status = ModuleStatusCancelled \<and> body = [] \<and> stopped
               \<and> (\<exists>dir ref f. slice recallRequestLen (length dir) request = dir \<and> drop (recallRequestLen + length dir) request = ref
                   \<and> plain_path dir \<and> TCRefValid ref \<and> map_of (dirs w dir) (spill_name ref) = Some f \<and> fileRegular f
                   \<and> w' = recovered (fileContent f) w)
             \<or> status = ModuleStatusInvalidRequest \<and> body = [] \<and> w' = w
             \<or> status = ModuleStatusOK \<and> aux_payload body = [] \<and> w' = w
                \<and> aux_result body \<in> {recallInvalidRef, recallExpired})"
proof -
  let ?dl = "unat (Uint32 request 8)" and ?rl = "unat (Uint32 request 12)"
  let ?dir = "slice recallRequestLen ?dl request" and ?ref = "drop (recallRequestLen + ?dl) request"
  have codes: "recallOK \<noteq> recallInvalidRef" "recallOK \<noteq> recallExpired" "ModuleStatusOK \<noteq> ModuleStatusCancelled"
    "ModuleStatusOK \<noteq> ModuleStatusInvalidRequest"
    by (simp_all add: recallOK_def recallInvalidRef_def recallExpired_def ModuleStatusOK_def ModuleStatusCancelled_def
        ModuleStatusInvalidRequest_def)
  consider (bad) "handleToolRecall env stopped request w = (([], ModuleStatusInvalidRequest), w)"
    | (ref) "handleToolRecall env stopped request w = ((auxResponse recallMagic recallInvalidRef [], ModuleStatusOK), w)"
    | (run) "recall_header_ok request" "recall_lengths_ok request ?dl ?rl" "recall_path_ok ?dir ?ref" "TCRefValid ?ref"
    by (cases "recall_header_ok request"; cases "recall_lengths_ok request ?dl ?rl"; cases "recall_path_ok ?dir ?ref";
        cases "TCRefValid ?ref") (simp_all add: handleToolRecall_def)
  then show ?thesis
  proof cases
    case run
    have len: "length ?dir = ?dl"
      using run(1,2) by (auto simp: recall_header_ok_def recall_lengths_ok_def slice_def)
    have path: "plain_path ?dir" using Clean_rooted_plain run(3) unfolding recall_path_ok_def by metis
    have eq: "handleToolRecall env stopped request w =
        (case recall_in env ?dir ?ref w of
           (None, w) \<Rightarrow> ((auxResponse recallMagic recallExpired [], ModuleStatusOK), w)
         | (Some out, w) \<Rightarrow> if stopped then (([], ModuleStatusCancelled), w)
                           else ((auxResponse recallMagic recallOK out, ModuleStatusOK), w))"
      using run by (simp add: handleToolRecall_def Let_def)
    consider (none) "recall_in env ?dir ?ref w = (None, w)"
      | (some) f where "map_of (dirs w ?dir) (spill_name ?ref) = Some f" "fileRegular f"
          "recall_in env ?dir ?ref w = (Some (fileContent f), w\<lparr> counters := (counters w)\<lparr>
             tcRecovered := wrap64 (tcRecovered (counters w) + 1),
             tcRecoveredBytes := wrap64 (tcRecoveredBytes (counters w) + int (length (fileContent f))) \<rparr> \<rparr>)"
      by (rule recall_in_cases [of env ?dir ?ref w])
    then show ?thesis
    proof cases
      case none
      then show ?thesis unfolding eq using codes by simp
    next
      case some
      show ?thesis
      proof (cases stopped)
        case True
        then show ?thesis
          unfolding eq some(3) using codes some(1,2) path len run(4)
          by (simp add: recovered_def) (intro disjI1 exI [of _ ?dir] exI [of _ ?ref] exI [of _ f] conjI; simp)
      next
        case False
        have "CHR ''/'' \<notin> set ?ref" using ref_valid_shape [OF run(4)] by blast
        then show ?thesis
          unfolding eq some(3) using False some(1,2) path len run(4)
          by (simp add: recovered_def) (intro exI [of _ ?dir] exI [of _ ?ref] exI [of _ f] conjI; simp)
      qed
    qed
  qed (use codes in simp_all)
qed

text \<open>C13: the way back works over the bus. When a condensation spilled an output, the recall request that
  names its directory and its reference is answered, unless it is cancelled, with the raw output byte
  for byte, from any later state of the process in which the directory has not changed.\<close>

theorem spill_recall_over_bus:
  assumes "TCApply env cmdline exitCode raw dir c = (Some final, stats, c')" "dir_ok dir"
    "openOK env'" "readOK env'" "dirs w dir = spills c'"
  shows "\<exists>w'. handleToolRecall env' False (recall_request dir (SpillRef stats)) w
      = ((auxResponse recallMagic recallOK raw, ModuleStatusOK), w')
    \<and> aux_payload (auxResponse recallMagic recallOK raw) = raw \<and> dirs w' = dirs w"
proof -
  have "dir \<noteq> []" using assms(2) by (auto simp: dir_ok_def IsAbs_def has_prefix_def)
  note r = TCApply_recall [OF assms(1,3,4) this]
  have "fst (recall_in env' dir (SpillRef stats) w) = Some raw"
    using r(2) [of "\<lparr> spills = dirs w dir, totals = counters w \<rparr>"] assms(5) by (simp add: recall_in_def split_beta)
  then obtain w' where "recall_in env' dir (SpillRef stats) w = (Some raw, w')" by (metis prod.collapse)
  then show ?thesis
    by (auto simp: recall_over_wire [OF assms(2) r(1)] recall_in_def split: prod.splits)
qed

theorem spill_recall_over_bus_witness:
  "\<exists>final stats c' w'. TCApply quiet_env ''pytest'' 0 long_output ''/spill'' quiet_world = (Some final, stats, c')
     \<and> fst (handleToolRecall quiet_env False (recall_request ''/spill'' (SpillRef stats)) w')
         = (auxResponse recallMagic recallOK long_output, ModuleStatusOK)"
proof -
  obtain final stats c' where run: "TCApply quiet_env ''pytest'' 0 long_output ''/spill'' quiet_world = (Some final, stats, c')"
    using sample_apply by blast
  have dir: "dir_ok ''/spill''" by code_simp
  have env: "openOK quiet_env" "readOK quiet_env" by (simp_all add: quiet_env_def)
  let ?w = "\<lparr> dirs = (\<lambda>_. spills c'), counters = zero_counters \<rparr>"
  have "fst (handleToolRecall quiet_env False (recall_request ''/spill'' (SpillRef stats)) ?w)
      = (auxResponse recallMagic recallOK long_output, ModuleStatusOK)"
    using spill_recall_over_bus [OF run dir env, of ?w] by auto
  with run show ?thesis by blast
qed

section \<open>What the runtime relies on\<close>

text \<open>A handler gives a status the wire knows, a body only with success, and changes the world only as
  \<open>keeps\<close> allows. Then the worker sends what the handler said, unless it is late or too long.\<close>

locale module_handler =
  fixes handle :: "ModuleInvocation \<Rightarrow> string \<Rightarrow> 'w \<Rightarrow> ((string \<times> 16 word) \<times> 'w) option"
    and keeps :: "'w \<Rightarrow> 'w \<Rightarrow> bool"
  assumes status_valid: "handle call body w = Some ((resp, st), w') \<Longrightarrow> validModuleStatus st"
    and bare_error: "handle call body w = Some ((resp, st), w') \<Longrightarrow> st \<noteq> ModuleStatusOK \<Longrightarrow> resp = []"
    and world_kept: "handle call body w = Some ((resp, st), w') \<Longrightarrow> keeps w w'"
begin

lemma reply_as_given:
  "handle call body w = Some ((resp, st), w') \<Longrightarrow>
     reply_content st resp = (if length resp \<le> unat ModuleMessageMaxBody then (st, resp) else (ModuleStatusInternal, []))"
  using status_valid [of call body w resp st w'] bare_error [of call body w resp st w'] by (auto simp: reply_content_def)

lemma run_as_given:
  assumes "handle call body w = Some ((resp, st), w')"
  shows "runHandler (\<lambda>call body. (resp, st)) call body False now =
     (if invDeadlineNS call \<noteq> 0 \<and> now \<noteq> 0 \<and> now \<ge> invDeadlineNS call then ([], ModuleStatusDeadlineExceeded)
      else if length resp \<le> unat ModuleMessageMaxBody then (resp, st) else ([], ModuleStatusInternal))"
  by (simp add: runHandler_def reply_as_given [OF assms])

end

lemmas stage_defs = StageReduce_def StageJSONCompact_def StageToolRecall_def StageToolStats_def StageRecordBuild_def
lemmas status_defs = ModuleStatusOK_def ModuleStatusInternal_def ModuleStatusCancelled_def ModuleStatusInvalidRequest_def
  ModuleStatusDeadlineExceeded_def ModuleStatusCapabilityAbsent_def

lemma valid_statuses [simp]:
  "validModuleStatus ModuleStatusOK" "validModuleStatus ModuleStatusInternal"
  "validModuleStatus ModuleStatusCancelled" "validModuleStatus ModuleStatusInvalidRequest"
  by (simp_all add: validModuleStatus_def status_defs word_le_nat_alt)

definition good_reply :: "reply \<Rightarrow> bool" where
  "good_reply r \<longleftrightarrow> validModuleStatus (snd r) \<and> (snd r \<noteq> ModuleStatusOK \<longrightarrow> fst r = [])"

lemma good_replyI [intro]: "good_reply ([], ModuleStatusInvalidRequest)" "good_reply ([], ModuleStatusCancelled)"
  "good_reply ([], ModuleStatusInternal)" "good_reply (b, ModuleStatusOK)"
  by (simp_all add: good_reply_def)

lemma handlers_good:
  "good_reply (handleJSONCompact stopped request)"
  "good_reply (handleToolStats stopped request w)"
  "good_reply (handleRecordBuild stopped request)"
  by (auto simp: handleJSONCompact_def handleToolStats_def handleRecordBuild_def Let_def
      split: option.splits prod.splits sum.splits)

lemma reduce_good: "handleReduce req = Some r \<Longrightarrow> good_reply r"
  by (auto simp: handleReduce_def split: option.splits prod.splits if_splits)

lemma recall_good: "good_reply (fst (handleToolRecall env stopped request w))"
  by (auto simp: handleToolRecall_def Let_def split: option.splits prod.splits)

lemma recall_dirs: "dirs (snd (handleToolRecall env stopped request w)) = dirs w"
  by (auto simp: handleToolRecall_def Let_def recall_in_def split: option.splits prod.splits)

lemma NewHandler_good:
  assumes "NewHandler env poll call body w = Some (r, w')"
  shows "good_reply r \<and> dirs w' = dirs w \<and> (invStageID call \<noteq> StageToolRecall \<longrightarrow> w' = w)"
  using assms handlers_good reduce_good recall_good [of env "poll 1" body w] recall_dirs [of env "poll 1" body w]
  by (auto simp: NewHandler_def stage_defs split: if_splits option.splits)

interpretation economizer: module_handler "NewHandler env poll" "\<lambda>w w'. dirs w' = dirs w" for env poll
  by unfold_locales (use NewHandler_good in \<open>auto simp: good_reply_def\<close>)

text \<open>Only the compress lever can panic.\<close>

lemma Reduce_None: "Reduce m sp seam (Some cfg) st = None \<Longrightarrow> Compress cfg \<and> \<not> MeasureOnly cfg"
  by (auto simp: Reduce_def reduce_compress_def Let_def split: if_splits option.splits prod.splits)

lemma handleReduce_None: "handleReduce req = None \<Longrightarrow> rqCompress req \<and> \<not> rqMeasureOnly req"
  by (auto simp: handleReduce_def request_config_def dest!: Reduce_None split: if_splits option.splits prod.splits)

text \<open>C12: the module keeps the contract of the runtime. Whatever bytes arrive for whatever stage, the
  handler answers with a status of the protocol, carries a body only with success, leaves the spill
  directories alone and the counters too unless the stage is the recall; the worker hands on exactly
  that answer, unless the deadline has passed or the body is over the limit of the bus. The one call
  that does not return is a reduction with the compress lever.\<close>

theorem handler_contract:
  "case NewHandler env poll call body w of
     None \<Rightarrow> invStageID call = StageReduce
       \<and> (\<exists>req. Unmarshal request_fields zero_request body = Some req \<and> rqCompress req \<and> \<not> rqMeasureOnly req)
   | Some ((resp, st), w') \<Rightarrow>
       validModuleStatus st \<and> (if st = ModuleStatusOK then True else resp = [])
       \<and> dirs w' = dirs w \<and> (if invStageID call = StageToolRecall then True else w' = w)
       \<and> runHandler (\<lambda>call body. (resp, st)) call body False now =
           (if invDeadlineNS call \<noteq> 0 \<and> now \<noteq> 0 \<and> now \<ge> invDeadlineNS call then ([], ModuleStatusDeadlineExceeded)
            else if length resp \<le> unat ModuleMessageMaxBody then (resp, st) else ([], ModuleStatusInternal))"
proof (cases "NewHandler env poll call body w")
  case None
  then show ?thesis
    by (auto simp: NewHandler_def dest: handleReduce_None split: if_splits option.splits)
next
  case (Some a)
  then obtain resp st w' where a: "NewHandler env poll call body w = Some ((resp, st), w')" by (cases a) auto
  show ?thesis
    using NewHandler_good [OF a] economizer.run_as_given [OF a] by (simp add: a good_reply_def)
qed

end
