(* ===== verification/ReduceRel.thy ===== *)
theory ReduceRel
  imports ReduceLaws
begin

text \<open>
  Reductions from two states that differ in the order of the page table only: the index is a set of keys
  with a turn each, and its order shows in the order of the hint lines and nowhere else.
\<close>

section \<open>The same page table in another order\<close>

definition agree :: "RecallIndex \<Rightarrow> RecallIndex \<Rightarrow> bool" where
  "agree i j \<longleftrightarrow> recall_valid i \<and> distinct (recall_keys i) \<and> recall_valid j \<and> distinct (recall_keys j)
     \<and> lastTurn i = lastTurn j"

lemma agree_set: "agree i j \<Longrightarrow> set (recall_keys i) = set (recall_keys j)"
  unfolding agree_def recall_valid_def by metis

lemma agree_keys: "agree i j \<Longrightarrow> mset (recall_keys i) = mset (recall_keys j)"
  using agree_set [of i j] by (simp add: agree_def set_eq_iff_mset_eq_distinct)

lemma agree_Recall_Add: "agree i j \<Longrightarrow> agree (Recall_Add k i) (Recall_Add k j)"
  using recall.valid_put [of i k] recall.valid_put [of j k] recall.distinct_put [of i k] recall.distinct_put [of j k]
  by (simp add: agree_def) (simp add: Recall_Add_def)

lemma agree_fold:
  "agree i j \<Longrightarrow> (\<And>x i j. agree i j \<Longrightarrow> agree (f x i) (f x j)) \<Longrightarrow> agree (fold f xs i) (fold f xs j)"
  by (induction xs arbitrary: i j) simp_all

lemma agree_AddFromText: "agree i j \<Longrightarrow> agree (fst (AddFromText t i)) (fst (AddFromText t j))"
  by (simp add: AddFromText_def Let_def agree_fold agree_Recall_Add)

lemma agree_add_texts:
  "agree i j \<Longrightarrow> agree (fold (\<lambda>n ix. fst (AddFromText (f n) ix)) ns i) (fold (\<lambda>n ix. fst (AddFromText (f n) ix)) ns j)"
  by (rule agree_fold) (simp_all add: agree_AddFromText)

text \<open>Hints with the same lines.\<close>

definition same_lines :: "string \<Rightarrow> string \<Rightarrow> bool" where
  "same_lines h h' \<longleftrightarrow> (\<exists>ks ks'. mset ks = mset ks' \<and> h = concat (map recall_line ks) \<and> h' = concat (map recall_line ks'))"

lemma same_lines_Nil: "same_lines [] []"
  unfolding same_lines_def by (rule exI [of _ "[]"], rule exI [of _ "[]"]) simp

lemma recall_line_length: "0 < length (recall_line k)"
  by (simp add: recall_line_def)

lemma same_lines_empty: "same_lines h h' \<Longrightarrow> h = [] \<longleftrightarrow> h' = []"
proof -
  have "concat (map recall_line ks) = [] \<longleftrightarrow> ks = []" for ks
    by (cases ks) (simp_all add: recall_line_def)
  moreover assume "same_lines h h'"
  ultimately show "h = [] \<longleftrightarrow> h' = []"
    unfolding same_lines_def by (metis mset_zero_iff)
qed

lemma agree_Detect:
  assumes "agree i j" "Detect txt trn ttl i = (i', h, n)" "Detect txt trn ttl j = (j', h', n')"
  shows "agree i' j' \<and> n = n' \<and> same_lines h h'"
proof (cases "txt = []")
  case True
  then show ?thesis using assms same_lines_Nil by (simp add: Detect_def)
next
  case False
  define t where "t = (if ttl \<le> 0 then DefaultRecallTTLTurns else ttl)"
  have v: "recall_valid i" "recall_valid j" "distinct (recall_keys i)" "distinct (recall_keys j)" "lastTurn i = lastTurn j"
    "set (recall_keys i) = set (recall_keys j)"
    using assms(1) agree_set [OF assms(1)] by (simp_all add: agree_def)
  have s: "surfaces txt trn t i = surfaces txt trn t j" by (simp add: surfaces_def fun_eq_iff LastTurn_def v(5))
  have d: "Detect txt trn ttl x = (x \<lparr> lastTurn := (\<lambda>k. if k \<in> set (recall_keys x) \<and> surfaces txt trn t x k then Some trn else lastTurn x k) \<rparr>,
     concat (map recall_line (filter (surfaces txt trn t x) (recall_keys x))),
     int (length (filter (surfaces txt trn t x) (recall_keys x))))" if "recall_valid x" "distinct (recall_keys x)" for x
    using detect_fold [of "recall_keys x" x "txt" trn t "[]" 0] that False
    by (simp add: Detect_def t_def Let_def recall_valid_def)
  have f: "mset (filter (surfaces txt trn t j) (recall_keys i)) = mset (filter (surfaces txt trn t j) (recall_keys j))"
    using agree_keys [OF assms(1)] by simp
  note i = assms(2) [unfolded d [OF v(1,3)] s] and j = assms(3) [unfolded d [OF v(2,4)]]
  have "agree i' j'"
    using i j v Detect_keys [OF v(1,3) assms(2)] Detect_keys [OF v(2,4) assms(3)] by (auto simp: agree_def)
  moreover have "n = n'" using i j mset_eq_length [OF f] by simp
  moreover have "h = concat (map recall_line (filter (surfaces txt trn t j) (recall_keys i)))"
    "h' = concat (map recall_line (filter (surfaces txt trn t j) (recall_keys j)))" using i j by simp_all
  then have "same_lines h h'" using f unfolding same_lines_def by blast
  ultimately show ?thesis by blast
qed

section \<open>Reductions\<close>

text \<open>Two states of one conversation: everything but the order of the page table is equal.\<close>

definition related :: "ReduceState \<Rightarrow> ReduceState \<Rightarrow> bool" where
  "related s t \<longleftrightarrow> Freeze s = Freeze t \<and> Reduced s = Reduced t \<and> Turn s = Turn t
     \<and> (\<exists>i j. RecallIx s = Some i \<and> RecallIx t = Some j \<and> agree i j)"

text \<open>Two results of one request: everything but the order of the hint lines is equal.\<close>

definition same_result :: "ReduceResult \<Rightarrow> ReduceResult \<Rightarrow> bool" where
  "same_result o1 o2 \<longleftrightarrow> o2 = o1\<lparr> RecallHint := RecallHint o2 \<rparr> \<and> same_lines (RecallHint o1) (RecallHint o2)"

lemma same_result_refl: "RecallHint o1 = [] \<Longrightarrow> same_result o1 o1"
  by (simp add: same_result_def same_lines_Nil)

lemma same_result_map:
  assumes "same_result a b" "\<And>h. f (a\<lparr> RecallHint := h \<rparr>) = (f a)\<lparr> RecallHint := h \<rparr>" "RecallHint (f a) = RecallHint a"
  shows "same_result (f a) (f b)"
proof -
  obtain h where b: "b = a\<lparr> RecallHint := h \<rparr>" and h: "same_lines (RecallHint a) h"
    using assms(1) by (auto simp: same_result_def)
  show ?thesis unfolding b assms(2) using h assms(3) by (simp add: same_result_def)
qed

lemma recallTrack_related:
  assumes "related s t" "RecallHint out = []"
    and "recallTrack m n cfg (Some s) out = (s', o1)" "recallTrack m n cfg (Some t) out = (t', o2)"
  shows "\<exists>s1 t1. s' = Some s1 \<and> t' = Some t1 \<and> related s1 t1 \<and> same_result o1 o2
    \<and> (RecallEnabled cfg \<or> o1 = out \<and> o2 = out)"
proof (cases "RecallEnabled cfg \<and> IsArray m")
  case False
  then show ?thesis using assms by (auto simp: recallTrack_def same_result_refl)
next
  case True
  obtain i j where ij: "RecallIx s = Some i" "RecallIx t = Some j" "agree i j" "Turn s = Turn t"
    using assms(1) by (auto simp: related_def)
  let ?ns = "[0..(if n > Len m then Len m else n) - 1]"
  define i1 where "i1 = fold (\<lambda>n ix. fst (AddFromText (print_at m n) ix)) ?ns i"
  define j1 where "j1 = fold (\<lambda>n ix. fst (AddFromText (print_at m n) ix)) ?ns j"
  have a1: "agree i1 j1" unfolding i1_def j1_def by (rule agree_add_texts [OF ij(3)])
  then have l: "Recall_Len (Some i1) = Recall_Len (Some j1)"
    using mset_eq_length [OF agree_keys [OF a1]] by (simp add: Recall_Len_def)
  obtain i2 h k where di: "Detect (print_at m (Len m - 1)) (Turn s) (RecallTTLTurns cfg) i1 = (i2, h, k)" by (rule prod_cases3)
  obtain j2 h' k' where dj: "Detect (print_at m (Len m - 1)) (Turn t) (RecallTTLTurns cfg) j1 = (j2, h', k')" by (rule prod_cases3)
  have a2: "agree i2 j2" "k = k'" "same_lines h h'" using agree_Detect [OF a1 di dj [folded ij(4)]] by simp_all
  have eqs: "(s', o1) = (if Recall_Len (Some i1) = 0 \<or> Len m = 0 then (Some (s \<lparr> RecallIx := Some i1 \<rparr>), out)
      else (Some (s \<lparr> RecallIx := Some i2 \<rparr>), if k > 0 \<and> length h > 0 then out \<lparr> RecallHint := h, RecallSurfaced := k \<rparr> else out))"
    "(t', o2) = (if Recall_Len (Some j1) = 0 \<or> Len m = 0 then (Some (t \<lparr> RecallIx := Some j1 \<rparr>), out)
      else (Some (t \<lparr> RecallIx := Some j2 \<rparr>), if k' > 0 \<and> length h' > 0 then out \<lparr> RecallHint := h', RecallSurfaced := k' \<rparr> else out))"
    using True ij(1,2) assms(3,4) unfolding recallTrack_def
    by (simp_all add: Let_def i1_def [symmetric] j1_def [symmetric] di dj cong: if_cong split del: if_split)
  have r: "related (s\<lparr> RecallIx := Some a \<rparr>) (t\<lparr> RecallIx := Some b \<rparr>)" if "agree a b" for a b
    using assms(1) that by (simp add: related_def)
  have same: "same_result (if k > 0 \<and> length h > 0 then out \<lparr> RecallHint := h, RecallSurfaced := k \<rparr> else out)
      (if k' > 0 \<and> length h' > 0 then out \<lparr> RecallHint := h', RecallSurfaced := k' \<rparr> else out)"
    using a2(2,3) same_lines_empty [OF a2(3)] assms(2) by (auto simp: same_result_def same_lines_Nil)
  show ?thesis
  proof (cases "Recall_Len (Some i1) = 0 \<or> Len m = 0")
    case True
    then show ?thesis using eqs l r [OF a1] same_result_refl [OF assms(2)] \<open>RecallEnabled cfg \<and> IsArray m\<close> by simp
  next
    case False
    then show ?thesis using eqs l r [OF a2(1)] same \<open>RecallEnabled cfg \<and> IsArray m\<close> by simp
  qed
qed

lemma reduce_fold_related:
  assumes "related s t" "RecallHint out = []" "\<not> (RecallEnabled cfg \<and> RecallInject cfg)"
    and "reduce_fold m work cfg (Some s) out = (o1, s')" "reduce_fold m work cfg (Some t) out = (o2, t')"
  shows "\<exists>s1 t1. s' = Some s1 \<and> t' = Some t1 \<and> related s1 t1 \<and> same_result o1 o2"
proof -
  have fz: "Freeze t = Freeze s" using assms(1) by (simp add: related_def)
  define guarded where "guarded = (FreezeGuardEnabled cfg
      \<and> \<not> freezeCostFavorable (Rates cfg) (FoldableTokens out) (FreezeGuardHorizon cfg))"
  define freezeArg where "freezeArg = (if guarded then None else Some (Freeze s))"
  define out1 where "out1 = (if guarded then out \<lparr> FreezeGuarded := True \<rparr> else out)"
  obtain fr fz where v: "FoldView work (Some ((cfgFold cfg) \<lparr> FoldEnabled := True \<rparr>)) freezeArg = (fr, fz)"
    by fastforce
  define upd where "upd = (\<lambda>s :: ReduceState. case fz of None \<Rightarrow> s | Some f \<Rightarrow> s\<lparr> Freeze := f \<rparr>)"
  have rel: "related (upd s) (upd t)" using assms(1) by (auto simp: upd_def related_def split: option.split)
  define outf where "outf = out1 \<lparr> outMessages := Messages fr, Mutated := True, Reason := ReduceReasonReduced,
     outFoldedMsgs := FoldedMsgs fr, outRetainedMsgs := RetainedMsgs fr,
     outReusedBoundary := ReusedBoundary fr, outClosetEvict := ClosetEvict fr, outEpochs := Epochs (Freeze (upd s)) \<rparr>"
  have unf: "reduce_fold m work cfg (Some x) out =
      (if Folded fr \<and> Messages fr \<noteq> None then
         (case recallTrack m (FoldedMsgs fr) cfg (Some ((upd x)\<lparr> Reduced := True \<rparr>)) outf of
            (st, o') \<Rightarrow> (if RecallInject cfg then o' \<lparr> outMessages := recallInject o' (outMessages o') \<rparr> else o', st))
       else (out1, Some (upd x)))" if "Freeze x = Freeze s" "Freeze (upd x) = Freeze (upd s)" for x
  proof -
    have "(Some x \<noteq> None \<and> FreezeGuardEnabled cfg
        \<and> \<not> freezeCostFavorable (Rates cfg) (FoldableTokens out) (FreezeGuardHorizon cfg)) = guarded"
      by (simp add: guarded_def)
    note gd = this
    have k: "(case fz of None \<Rightarrow> Some x | Some f \<Rightarrow> Some (x\<lparr> Freeze := f \<rparr>)) = Some (upd x)"
      by (simp add: upd_def split: option.split)
    show ?thesis
      unfolding reduce_fold_def Let_def option.map(2) that(1) gd freezeArg_def [symmetric] out1_def [symmetric]
        v prod.case k option.case that(2) outf_def [symmetric]
      by (simp add: split_beta cong: if_cong)
  qed
  have us: "Freeze (upd t) = Freeze (upd s)" using rel by (simp add: related_def)
  have hint: "RecallHint out1 = []" "RecallHint outf = []" using assms(2) by (simp_all add: out1_def outf_def)
  note s = assms(4) [unfolded unf [OF refl refl]] and t = assms(5) [unfolded unf [OF \<open>Freeze t = Freeze s\<close> us]]
  show ?thesis
  proof (cases "Folded fr \<and> Messages fr \<noteq> None")
    case False
    then show ?thesis using s t rel same_result_refl [OF hint(1)] by auto
  next
    case True
    obtain s2 p1 where ts: "recallTrack m (FoldedMsgs fr) cfg (Some ((upd s)\<lparr> Reduced := True \<rparr>)) outf = (s2, p1)" by fastforce
    obtain t2 p2 where tt: "recallTrack m (FoldedMsgs fr) cfg (Some ((upd t)\<lparr> Reduced := True \<rparr>)) outf = (t2, p2)" by fastforce
    have "related ((upd s)\<lparr> Reduced := True \<rparr>) ((upd t)\<lparr> Reduced := True \<rparr>)" using rel by (simp add: related_def)
    note r = recallTrack_related [OF this hint(2) ts tt]
    have "same_result (if RecallInject cfg then p1 \<lparr> outMessages := recallInject p1 (outMessages p1) \<rparr> else p1)
        (if RecallInject cfg then p2 \<lparr> outMessages := recallInject p2 (outMessages p2) \<rparr> else p2)"
    proof (cases "RecallInject cfg")
      case True
      then have "p1 = outf" "p2 = outf" using r assms(3) by auto
      then show ?thesis using True hint(2) by (simp add: recallInject_def same_result_def same_lines_Nil)
    qed (use r in auto)
    then show ?thesis using s t True r ts tt by auto
  qed
qed

lemma reduce_ledger_same: "same_result o1 o2 \<Longrightarrow> same_result (reduce_ledger sp cfg o1) (reduce_ledger sp cfg o2)"
proof -
  define measure where "measure = (\<lambda>out :: ReduceResult. if Mutated out \<and> outMessages out \<noteq> None then
      out \<lparr> ReducedTokens := nodeTokenEstimate (outMessages out) + systemTokens sp,
            RemovedTokens := (if BaselineTokens out > nodeTokenEstimate (outMessages out) + systemTokens sp
              then BaselineTokens out - (nodeTokenEstimate (outMessages out) + systemTokens sp) else RemovedTokens out) \<rparr>
      else out)"
  define price where "price = (\<lambda>out :: ReduceResult.
      let basis = (if RemovedTokens out = 0 then FoldableTokens out else RemovedTokens out)
      in if Priced (Rates cfg) \<and> basis > 0 then
           out \<lparr> EstSavedCostFloor := fmul (ReadCost (Rates cfg)) (float_of_int basis),
                 EstSavedCostCeiling := fmul (InputCost (Rates cfg)) (float_of_int basis) \<rparr>
         else out)"
  define settle where "settle = (\<lambda>out :: ReduceResult. if Reason out = ReduceReasonNone
      then out \<lparr> Reason := ReduceReasonMeasured, Mutated := False, outMessages := None \<rparr> else out)"
  have "reduce_ledger sp cfg = (\<lambda>out. settle (price (measure out)))"
    by (rule ext) (simp only: reduce_ledger_def measure_def price_def settle_def Let_def)
  moreover have "same_result a b \<Longrightarrow> same_result (measure a) (measure b)" for a b
    by (erule same_result_map) (auto simp: measure_def)
  moreover have "same_result a b \<Longrightarrow> same_result (price a) (price b)" for a b
    by (erule same_result_map) (auto simp: price_def Let_def)
  moreover have "same_result a b \<Longrightarrow> same_result (settle a) (settle b)" for a b
    by (erule same_result_map) (simp_all add: settle_def)
  ultimately show "same_result o1 o2 \<Longrightarrow> ?thesis" by simp
qed

lemma reduce_compress_related:
  assumes "related s t" "reduce_compress m cfg (Some s) out = Some (owned, o1, s')"
  shows "\<exists>s1 t1. s' = Some s1 \<and> reduce_compress m cfg (Some t) out = Some (owned, o1, Some t1) \<and> related s1 t1
    \<and> RecallHint o1 = RecallHint out"
proof -
  have "related (s\<lparr> Reduced := True \<rparr>) (t\<lparr> Reduced := True \<rparr>)" using assms(1) by (simp add: related_def)
  then show ?thesis using assms by (auto simp: reduce_compress_def split: option.splits if_splits)
qed

lemma Reduce_related:
  assumes "related s t" "\<not> (RecallEnabled cfg \<and> RecallInject cfg)"
  shows "Reduce m sp seam (Some cfg) (Some s) = None \<and> Reduce m sp seam (Some cfg) (Some t) = None
    \<or> (\<exists>o1 s' o2 t'. Reduce m sp seam (Some cfg) (Some s) = Some (o1, Some s')
         \<and> Reduce m sp seam (Some cfg) (Some t) = Some (o2, Some t') \<and> same_result o1 o2 \<and> related s' t')"
proof -
  have red: "Reduced t = Reduced s" using assms(1) by (simp add: related_def)
  have z: "RecallHint zero_result = []" by (simp add: zero_result_def)
  show ?thesis
  proof (cases "\<not> IsArray m \<or> \<not> seam_on seam cfg \<or> Reduced s")
    case True
    then show ?thesis using red assms(1) z by (auto simp: Reduce_def Let_def same_result_def same_lines_Nil)
  next
    case False
    define out0 where "out0 = zero_result \<lparr> BaselineTokens := nodeTokenEstimate m + systemTokens sp,
      ReducedTokens := nodeTokenEstimate m + systemTokens sp,
      FoldableTokens := prefixTokenEstimate m (if Len m > or_default (cfgRetainedMsgs (cfgFold cfg)) FoldDefaultRetainedMsgs
         then Len m - or_default (cfgRetainedMsgs (cfgFold cfg)) FoldDefaultRetainedMsgs else 0) \<rparr>"
    have hint: "RecallHint out0 = []" by (simp add: out0_def z)
    define go where "go = (\<lambda>(owned, out, st). let work = (if owned \<noteq> None then owned else m);
                             try_fold = (HistoryFold cfg \<and> \<not> MeasureOnly cfg);
                             low_gain = (MinGainTokens cfg > 0 \<and> FoldableTokens out < MinGainTokens cfg)
                         in if try_fold \<and> low_gain \<and> owned = None
                            then (out \<lparr> Reason := ReduceReasonSkipNoGain, Mutated := False, outMessages := None \<rparr>, st)
                            else
                              let (out, st) = (if try_fold \<and> \<not> low_gain
                                               then reduce_fold m work cfg st out else (out, st));
                                  out = (if owned \<noteq> None \<and> outMessages out = None
                                         then out \<lparr> outMessages := owned \<rparr> else out)
                              in (reduce_ledger sp cfg out, st))"
    have unf: "Reduce m sp seam (Some cfg) (Some x) = map_option go (reduce_compress m cfg (Some x) out0)"
      if "Reduced x = Reduced s" for x
      using False that
      by (cases "reduce_compress m cfg (Some x) out0")
        (auto simp: Reduce_def Let_def out0_def [symmetric] go_def split_beta simp del: Len.simps)
    show ?thesis
    proof (cases "reduce_compress m cfg (Some s) out0")
      case None
      then have "reduce_compress m cfg (Some t) out0 = None"
        by (auto simp: reduce_compress_def split: option.splits if_splits)
      then show ?thesis using None by (simp add: unf red)
    next
      case (Some a)
      then obtain owned o1 s' where c: "reduce_compress m cfg (Some s) out0 = Some (owned, o1, s')" by (cases a) auto
      then obtain s1 t1 where r: "s' = Some s1" "reduce_compress m cfg (Some t) out0 = Some (owned, o1, Some t1)"
        "related s1 t1" "RecallHint o1 = []" using reduce_compress_related [OF assms(1) c] hint by auto
      have step: "\<exists>p1 s2 p2 t2. go (owned, o1, Some s1) = (p1, Some s2) \<and> go (owned, o1, Some t1) = (p2, Some t2)
          \<and> same_result p1 p2 \<and> related s2 t2"
      proof -
        define try_fold where "try_fold = (HistoryFold cfg \<and> \<not> MeasureOnly cfg)"
        define low_gain where "low_gain = (MinGainTokens cfg > 0 \<and> FoldableTokens o1 < MinGainTokens cfg)"
        define work where "work = (if owned \<noteq> None then owned else m)"
        define own where "own = (\<lambda>out :: ReduceResult. if owned \<noteq> None \<and> outMessages out = None then out \<lparr> outMessages := owned \<rparr> else out)"
        have own: "same_result (own a) (own b)" if "same_result a b" for a b
          by (rule same_result_map [OF that]) (simp_all add: own_def)
        have g: "go (owned, o1, Some x) = (if try_fold \<and> low_gain \<and> owned = None
            then (o1 \<lparr> Reason := ReduceReasonSkipNoGain, Mutated := False, outMessages := None \<rparr>, Some x)
            else case (if try_fold \<and> \<not> low_gain then reduce_fold m work cfg (Some x) o1 else (o1, Some x)) of
                   (out, st) \<Rightarrow> (reduce_ledger sp cfg (own out), st))" for x
          unfolding go_def prod.case Let_def try_fold_def low_gain_def work_def own_def by (rule refl)
        consider (skip) "try_fold \<and> low_gain \<and> owned = None" | (off) "\<not> (try_fold \<and> low_gain \<and> owned = None)" "\<not> (try_fold \<and> \<not> low_gain)"
          | (fold) "try_fold \<and> \<not> low_gain" by blast
        then show ?thesis
        proof cases
          case skip
          have "same_result (o1 \<lparr> Reason := ReduceReasonSkipNoGain, Mutated := False, outMessages := None \<rparr>)
              (o1 \<lparr> Reason := ReduceReasonSkipNoGain, Mutated := False, outMessages := None \<rparr>)"
            by (rule same_result_refl) (simp add: r(4))
          then show ?thesis using r(3) unfolding g if_P [OF skip] by blast
        next
          case off
          then show ?thesis
            using r(3) reduce_ledger_same [OF own [OF same_result_refl [OF r(4)]]] unfolding g if_not_P [OF off(1)] if_not_P [OF off(2)]
            by simp
        next
          case fold
          obtain p1 s2 where fs: "reduce_fold m work cfg (Some s1) o1 = (p1, s2)" by fastforce
          obtain p2 t2 where ft: "reduce_fold m work cfg (Some t1) o1 = (p2, t2)" by fastforce
          from reduce_fold_related [OF r(3,4) assms(2) fs ft] fold fs ft show ?thesis
            by (auto simp: g intro: reduce_ledger_same own)
        qed
      qed
      then show ?thesis unfolding unf [OF refl] unf [OF red] c r(1,2) by auto
    qed
  qed
qed

end
