(* ===== verification/ModuleSession.thy ===== *)
theory ModuleSession
  imports ModuleLaws ReduceRel
begin

text \<open>
  The state of a conversation across the bus: the module keeps none, so the session of a caller that
  stores the text of the last response is compared with one that keeps the reducer state in memory and
  never serializes it.
\<close>

section \<open>A conversation over the bus\<close>

text \<open>One reduction with a given state: why there was none, or the seam, the result and the state after
  it; and what is answered, before it is marshalled.\<close>

datatype answer = Refused | Panicked | Answered ReduceResponse

definition reduce_request :: "ReduceRequest \<Rightarrow> ReduceState \<Rightarrow> answer + (Seam \<times> ReduceResult \<times> ReduceState option)" where
  "reduce_request req s =
     (case ParseJSON (rqMessages req) of
        None \<Rightarrow> Inl Refused
      | Some messages \<Rightarrow>
          if \<not> IsArray (Some messages) then Inl Refused
          else (case request_seam (rqSeam req) of
                  None \<Rightarrow> Inl Refused
                | Some seam \<Rightarrow>
                    (case Reduce (Some messages) (rqSystemPrompt req) seam (Some (request_config req seam)) (Some s) of
                       None \<Rightarrow> Inl Panicked
                     | Some (out, st) \<Rightarrow> Inr (seam, out, st))))"

definition respond :: "ReduceRequest \<Rightarrow> ReduceState \<Rightarrow> answer" where
  "respond req s = (case reduce_request req s of
     Inl a \<Rightarrow> a | Inr (seam, out, st) \<Rightarrow> Answered (response_of seam out st))"

definition next_state :: "ReduceRequest \<Rightarrow> ReduceState \<Rightarrow> ReduceState option" where
  "next_state req s = (case reduce_request req s of Inl a \<Rightarrow> None | Inr (seam, out, st) \<Rightarrow> st)"

fun reply_of :: "answer \<Rightarrow> reply option" where
  "reply_of Refused = Some ([], ModuleStatusInvalidRequest)"
| "reply_of Panicked = None"
| "reply_of (Answered r) = Some (case marshal_response r of
     None \<Rightarrow> ([], ModuleStatusInternal) | Some body \<Rightarrow> (body, ModuleStatusOK))"

lemma handleReduce_respond: "handleReduce req = reply_of (respond req (request_state req))"
  by (auto simp: handleReduce_def respond_def reduce_request_def split: option.splits)

lemma respond_state_field [simp]: "respond (req\<lparr> rqState := b \<rparr>) s = respond req s"
  by (simp add: respond_def reduce_request_def request_config_def cong: option.case_cong if_cong)

text \<open>The text a caller keeps: the state of the last response that had one.\<close>

fun keep_state :: "string \<Rightarrow> answer \<Rightarrow> string" where
  "keep_state b (Answered r) = (if rpState r = [] then b else rpState r)"
| "keep_state b Refused = b"
| "keep_state b Panicked = b"

text \<open>The session over the bus, each request with the text of the turn before: the reply of the handler
  and the answer in it.\<close>

fun wire_session :: "ReduceRequest list \<Rightarrow> string \<Rightarrow> (reply option \<times> answer) list" where
  "wire_session [] b = []"
| "wire_session (req # reqs) b =
     (let req = req\<lparr> rqState := b \<rparr>; a = respond req (request_state req)
      in (handleReduce req, a) # wire_session reqs (keep_state b a))"

text \<open>The same session of a process that keeps the state itself. A turn starts with the state as the last
  one left it; only the mark of the request before it and the turn number are new.\<close>

definition turn_state :: "ReduceRequest \<Rightarrow> ReduceState option \<Rightarrow> ReduceState" where
  "turn_state req s =
     (case s of None \<Rightarrow> zero_state\<lparr> Turn := rqTurn req, RecallIx := Some NewRecallIndex \<rparr>
      | Some s \<Rightarrow> s\<lparr> Reduced := False, Turn := rqTurn req \<rparr>)"

fun mem_session :: "ReduceRequest list \<Rightarrow> ReduceState option \<Rightarrow> answer list" where
  "mem_session [] s = []"
| "mem_session (req # reqs) s =
     respond req (turn_state req s) #
     mem_session reqs (case next_state req (turn_state req s) of None \<Rightarrow> s | Some s' \<Rightarrow> Some s')"

text \<open>A state in memory whose page table the row of the store can hold: 32-bit counters, keys that print
  as they are, and at most 5820 bytes of entries. The text form is not consulted.\<close>

definition fits :: "ReduceState \<Rightarrow> bool" where
  "fits s \<longleftrightarrow> small (Turn s) \<and> small (FrozenSplit (Freeze s)) \<and> small (TailCapMsgs (Freeze s)) \<and> small (Epochs (Freeze s))
     \<and> (\<forall>k \<in> set (Recall_Keys (RecallIx s)). key_ok (k, LastTurn (RecallIx s) k) \<and> plain k)
     \<and> table_size (RecallIx s) \<le> 5820"

fun session_fits :: "ReduceRequest list \<Rightarrow> ReduceState option \<Rightarrow> bool" where
  "session_fits [] s \<longleftrightarrow> True"
| "session_fits (req # reqs) s \<longleftrightarrow>
     (case next_state req (turn_state req s) of
        None \<Rightarrow> session_fits reqs s
      | Some s' \<Rightarrow> fits s' \<and> session_fits reqs (Some s'))"

text \<open>Two answers that say the same: every field but the state text is equal, and the recall hints have
  the same lines.\<close>

fun same_answer :: "answer \<Rightarrow> answer \<Rightarrow> bool" where
  "same_answer (Answered r) (Answered r') \<longleftrightarrow>
     r'\<lparr> rpState := rpState r, rpRecallHint := rpRecallHint r \<rparr> = r \<and> same_lines (rpRecallHint r) (rpRecallHint r')"
| "same_answer a a' \<longleftrightarrow> a = a'"

section \<open>The two sessions\<close>

lemma same_response:
  "same_result o1 o2 \<Longrightarrow> same_answer (Answered (response_of seam o1 st)) (Answered (response_of seam o2 st'))"
proof -
  assume "same_result o1 o2"
  then obtain h where o2: "o2 = o1\<lparr> RecallHint := h \<rparr>" "same_lines (RecallHint o1) h"
    by (auto simp: same_result_def)
  have "GWShouldApply True (Some (o1\<lparr> RecallHint := h \<rparr>)) ReduceErrNone c = GWShouldApply True (Some o1) ReduceErrNone c" for c
    by (simp add: GWShouldApply_def)
  then show ?thesis using o2(2) unfolding o2(1) by (simp add: response_of_def cong: option.case_cong)
qed

lemma respond_related:
  assumes "related s t" "\<not> (rqRecallEnabled req \<and> rqRecallInject req)"
  shows "same_answer (respond req s) (respond req t)"
    and "case next_state req s of None \<Rightarrow> respond req t \<in> {Refused, Panicked}
      | Some s' \<Rightarrow> \<exists>t' r. related s' t' \<and> respond req t = Answered r
          \<and> rpState r = (case SerializeState (Some t') of Some b \<Rightarrow> b | None \<Rightarrow> [])"
proof -
  have "same_answer (respond req s) (respond req t) \<and>
    (case next_state req s of None \<Rightarrow> respond req t \<in> {Refused, Panicked}
      | Some s' \<Rightarrow> \<exists>t' r. related s' t' \<and> respond req t = Answered r
          \<and> rpState r = (case SerializeState (Some t') of Some b \<Rightarrow> b | None \<Rightarrow> []))"
  proof (cases "\<exists>m seam. ParseJSON (rqMessages req) = Some m \<and> IsArray (Some m) \<and> request_seam (rqSeam req) = Some seam")
    case False
    then have "reduce_request req x = Inl Refused" for x
      by (auto simp: reduce_request_def split: option.split)
    then show ?thesis by (simp add: respond_def next_state_def)
  next
    case True
    then obtain m seam where m: "ParseJSON (rqMessages req) = Some m" "IsArray (Some m)" "request_seam (rqSeam req) = Some seam"
      by blast
    let ?R = "\<lambda>x. Reduce (Some m) (rqSystemPrompt req) seam (Some (request_config req seam)) (Some x)"
    have unf: "reduce_request req x = (case ?R x of None \<Rightarrow> Inl Panicked | Some (out, st) \<Rightarrow> Inr (seam, out, st))" for x
      using m by (simp add: reduce_request_def)
    have "\<not> (RecallEnabled (request_config req seam) \<and> RecallInject (request_config req seam))"
      using assms(2) by (simp add: request_config_def)
    from Reduce_related [OF assms(1) this, of "Some m" "rqSystemPrompt req" seam] show ?thesis
    proof (elim disjE conjE exE)
      fix o1 s' o2 t'
      assume "?R s = Some (o1, Some s')" "?R t = Some (o2, Some t')" "same_result o1 o2" "related s' t'"
      then show ?thesis
        using same_response [of o1 o2 seam "Some s'" "Some t'"]
        by (auto simp: unf respond_def next_state_def response_of_def simp del: same_answer.simps)
    qed (simp add: unf respond_def next_state_def)
  qed
  then show "same_answer (respond req s) (respond req t)"
    and "case next_state req s of None \<Rightarrow> respond req t \<in> {Refused, Panicked}
      | Some s' \<Rightarrow> \<exists>t' r. related s' t' \<and> respond req t = Answered r
          \<and> rpState r = (case SerializeState (Some t') of Some b \<Rightarrow> b | None \<Rightarrow> [])"
    by simp_all
qed

lemma fits_related:
  assumes "related s t" "fits s"
  shows "state_ok t" "\<forall>k \<in> set (Recall_Keys (RecallIx t)). plain k" "table_size (RecallIx t) \<le> 5820"
proof -
  obtain i j where ij: "RecallIx s = Some i" "RecallIx t = Some j" "agree i j" using assms(1) by (auto simp: related_def)
  have keys: "mset (recall_keys i) = mset (recall_keys j)" "set (recall_keys i) = set (recall_keys j)"
    by (rule agree_keys [OF ij(3)], rule agree_set [OF ij(3)])
  have last: "LastTurn (Some i) = LastTurn (Some j)" using ij(3) by (simp add: LastTurn_def fun_eq_iff agree_def)
  have "mset (map (\<lambda>k. length k + 26) (recall_keys i)) = mset (map (\<lambda>k. length k + 26) (recall_keys j))"
    using keys(1) by simp
  then have size: "table_size (Some i) = table_size (Some j)"
    unfolding table_size_def Recall_Keys_def option.case by (metis sum_mset_sum_list)
  have "length ks \<le> (\<Sum>k\<leftarrow>ks. length k + 26)" for ks :: "string list" by (induction ks) auto
  then have "length (recall_keys j) \<le> table_size (Some j)"
    unfolding table_size_def Recall_Keys_def option.case .
  then have "length (recall_keys j) \<le> 5820" using assms(2) ij(1) size by (simp add: fits_def)
  then have "small (int (length (recall_keys j)))" by (simp add: small_def)
  then show "state_ok t" "\<forall>k \<in> set (Recall_Keys (RecallIx t)). plain k" "table_size (RecallIx t) \<le> 5820"
    using assms ij keys(2) last size
    by (auto simp: state_ok_def fits_def related_def recall_ok_def Recall_Keys_def agree_def)
qed

text \<open>What the caller's text has to do with the state in memory.\<close>

definition carries :: "string \<Rightarrow> ReduceState option \<Rightarrow> bool" where
  "carries b s \<longleftrightarrow> (case s of None \<Rightarrow> b = []
     | Some s' \<Rightarrow> fits s' \<and> (\<exists>t. related s' t \<and> SerializeState (Some t) = Some b))"

lemma carries_next: "related s t \<Longrightarrow> fits s \<Longrightarrow> \<exists>b. SerializeState (Some t) = Some b \<and> b \<noteq> [] \<and> carries b (Some s)"
proof -
  assume st: "related s t" "fits s"
  note ok = fits_related [OF st]
  obtain b where b: "SerializeState (Some t) = Some b" using SerializeState_fits_aux [OF ok(1,2)] by blast
  have "b \<noteq> []" using RestoreState_SerializeState [OF ok(1) b] by (auto simp: RestoreState_def)
  then show ?thesis using st b by (auto simp: carries_def)
qed

lemma map_of_ranked: "recall_valid j \<Longrightarrow> distinct (recall_keys j) \<Longrightarrow> map_of (ranked (Some j)) = lastTurn j"
proof (rule ext)
  fix k
  assume v: "recall_valid j" "distinct (recall_keys j)"
  have d: "distinct (map fst (ranked (Some j)))" by (rule distinct_ranked) (simp add: recall_ok_def v)
  show "map_of (ranked (Some j)) k = lastTurn j k"
  proof (cases "k \<in> set (recall_keys j)")
    case True
    then obtain n where n: "lastTurn j k = Some n" using v(1) by (auto simp: recall_valid_def)
    then have "(k, n) \<in> set (ranked (Some j))" using True by (auto simp: set_ranked Recall_Keys_def LastTurn_def)
    then show ?thesis using n d by (simp add: map_of_is_SomeI)
  next
    case False
    then have "k \<notin> dom (lastTurn j)" "k \<notin> fst ` set (ranked (Some j))"
      using v(1) by (auto simp: recall_valid_def set_ranked Recall_Keys_def)
    then show ?thesis by (simp add: domIff map_of_eq_None_iff)
  qed
qed

lemma request_state_related:
  assumes "carries b s"
  shows "related (turn_state req s) (request_state (req\<lparr> rqState := b \<rparr>))"
proof (cases s)
  case None
  have "agree NewRecallIndex NewRecallIndex" by (simp add: agree_def recall_valid_def NewRecallIndex_def)
  then show ?thesis using None assms by (simp add: carries_def turn_state_def request_state_def related_def)
next
  case (Some s')
  then obtain t where t: "fits s'" "related s' t" "SerializeState (Some t) = Some b"
    using assms by (auto simp: carries_def)
  note ok = fits_related [OF t(2,1)]
  obtain i j where ij: "RecallIx s' = Some i" "RecallIx t = Some j" "agree i j" using t(2) by (auto simp: related_def)
  then have v: "recall_valid j" "distinct (recall_keys j)" "lastTurn i = lastTurn j" by (simp_all add: agree_def)
  have kept: "kept_recall t = ranked (Some j)" using kept_all [OF ok] ij(2) by simp
  have "recall_ok (RecallIx (after_trip t))" using after_trip_ok [OF ok(1)] by (simp add: state_ok_def)
  then have "agree i (index_of (ranked (Some j)))"
    using ij(3) v map_of_ranked [OF v(1,2)] by (simp add: agree_def recall_ok_def after_trip_def kept) (simp add: index_of_def)
  moreover have "b \<noteq> []" using RestoreState_SerializeState [OF ok(1) t(3)] by (auto simp: RestoreState_def)
  ultimately show ?thesis
    using t(2) Some ij RestoreState_SerializeState [OF ok(1) t(3)]
    by (simp add: request_state_def turn_state_def Let_def after_trip_def kept related_def)
qed

lemma session_simulation:
  assumes "\<forall>req \<in> set reqs. \<not> (rqRecallEnabled req \<and> rqRecallInject req)"
  shows "carries b s \<Longrightarrow> session_fits reqs s \<Longrightarrow>
    list_all2 (\<lambda>(r, a) a'. r = reply_of a \<and> same_answer a' a) (wire_session reqs b) (mem_session reqs s)"
  using assms
proof (induction reqs arbitrary: b s)
  case (Cons req reqs)
  let ?s = "turn_state req s" and ?t = "request_state (req\<lparr> rqState := b \<rparr>)"
  let ?next = "case next_state req ?s of None \<Rightarrow> s | Some s' \<Rightarrow> Some s'"
  have "\<not> (rqRecallEnabled req \<and> rqRecallInject req)" using Cons.prems(3) by simp
  note rel = respond_related [OF request_state_related [OF Cons.prems(1), of req] this]
  have "carries (keep_state b (respond req ?t)) ?next \<and> session_fits reqs ?next"
  proof (cases "next_state req ?s")
    case None
    then show ?thesis using rel(2) Cons.prems by auto
  next
    case (Some s')
    then obtain t' r where t: "related s' t'" "respond req ?t = Answered r"
      "rpState r = (case SerializeState (Some t') of Some b \<Rightarrow> b | None \<Rightarrow> [])"
      using rel(2) by auto
    have "fits s'" "session_fits reqs (Some s')" using Cons.prems(2) Some by simp_all
    then show ?thesis using carries_next [OF t(1)] t(2,3) Some by auto
  qed
  then have "list_all2 (\<lambda>(r, a) a'. r = reply_of a \<and> same_answer a' a)
      (wire_session reqs (keep_state b (respond req ?t))) (mem_session reqs ?next)"
    using Cons.IH Cons.prems(3) by simp
  then show ?case using rel(1) by (simp add: Let_def handleReduce_respond)
qed simp

text \<open>C5: the module can be stateless. A conversation whose caller only stores the text it was handed, and
  sends it back with the next request, gets request for request the answer of a process that keeps the
  reducer state in memory and never serializes it: the same messages, verdict and ledger, the same
  boundary and epoch, the same number of recalled keys with the same hint lines (in the order of the
  page table, which the text sorts by turn). So the frozen boundary with its digest, the epochs and
  every key of the page table survive each hop, and a request that is refused does not disturb them.
  The page table in memory has to stay within what the row of the store holds; and since the order of
  the hint lines may differ, no request writes them into the messages.\<close>

theorem stateless_session:
  assumes "session_fits reqs None" "\<forall>req \<in> set reqs. \<not> (rqRecallEnabled req \<and> rqRecallInject req)"
  shows "list_all2 (\<lambda>(r, a) a'. r = reply_of a \<and> same_answer a' a) (wire_session reqs []) (mem_session reqs None)"
  by (rule session_simulation [OF assms(2) _ assms(1)]) (simp add: carries_def)

text \<open>The witness: a transcript is folded, and on the next turn, with the boundary reused, a path that went
  with it is mentioned again and surfaced.\<close>

definition sample_request :: "string \<Rightarrow> int \<Rightarrow> ReduceRequest" where
  "sample_request messages trn = zero_request\<lparr> rqMessages := messages, rqSeam := ''delegate'', rqTurn := trn,
     rqHistoryFold := True, rqRecallEnabled := True, rqRetainedMsgs := 1, rqMinFoldMsgs := 1 \<rparr>"

definition sample_session :: "ReduceRequest list" where
  "sample_session =
     (let u = (\<lambda>s. ''{'' @ [CHR 0x22] @ ''role'' @ [CHR 0x22] @ '':'' @ [CHR 0x22] @ ''user'' @ [CHR 0x22] @ '',''
               @ [CHR 0x22] @ ''content'' @ [CHR 0x22] @ '':'' @ [CHR 0x22] @ s @ [CHR 0x22] @ ''}'');
          m = ''['' @ u ''see /etc/hosts'' @ '','' @ u ''b''
      in [sample_request (m @ '']'') 3, sample_request (m @ '','' @ u ''check /etc/hosts'' @ '']'') 4])"

lemma sample_session_fits: "session_fits sample_session None"
  by code_simp

text \<open>Of each answer: whether the messages changed, whether the boundary was reused, and the recalled keys.\<close>

fun answer_view :: "answer \<Rightarrow> (bool \<times> bool \<times> int) option" where
  "answer_view (Answered r) = Some (rpMutated r, rpReusedBoundary r, rpRecallSurfaced r)"
| "answer_view a = None"

fun session_view :: "ReduceRequest list \<Rightarrow> ReduceState option \<Rightarrow> (bool \<times> bool \<times> int) option list" where
  "session_view [] s = []"
| "session_view (req # reqs) s =
     (case reduce_request req (turn_state req s) of
        Inl a \<Rightarrow> None # session_view reqs s
      | Inr (seam, out, st) \<Rightarrow> Some (Mutated out, outReusedBoundary out, RecallSurfaced out)
          # session_view reqs (case st of None \<Rightarrow> s | Some s' \<Rightarrow> Some s'))"

lemma reduce_request_Inl: "reduce_request req s = Inl a \<Longrightarrow> a = Refused \<or> a = Panicked"
  by (auto simp: reduce_request_def split: option.splits if_splits)

lemma mem_session_view: "map answer_view (mem_session reqs s) = session_view reqs s"
proof (induction reqs arbitrary: s)
  case (Cons req reqs)
  then show ?case
    by (cases "reduce_request req (turn_state req s)")
      (auto simp: respond_def next_state_def response_of_def dest: reduce_request_Inl split: prod.split)
qed simp

lemma sample_session_view: "session_view sample_session None = [Some (True, False, 0), Some (True, True, 1)]"
  by code_simp

theorem stateless_session_witness:
  "list_all2 (\<lambda>(r, a) a'. r = reply_of a \<and> same_answer a' a) (wire_session sample_session []) (mem_session sample_session None)
   \<and> map answer_view (mem_session sample_session None) = [Some (True, False, 0), Some (True, True, 1)]"
proof -
  have "\<forall>req \<in> set sample_session. \<not> (rqRecallEnabled req \<and> rqRecallInject req)"
    by (simp add: sample_session_def sample_request_def zero_request_def Let_def)
  from stateless_session [OF sample_session_fits this] show ?thesis
    unfolding mem_session_view sample_session_view by blast
qed

end
