(* ===== verification/ModuleOutput.thy ===== *)
theory ModuleOutput
  imports ModuleLaws
begin

text \<open>
  What leaves the module: the contents of a session record, and the bytes of the reduced messages.
\<close>

section \<open>The record\<close>

text \<open>The texts of the assistant's messages of a range that open with a register of the given kinds.\<close>

definition tagged :: "json \<Rightarrow> int list \<Rightarrow> Register set \<Rightarrow> string list" where
  "tagged messages idx regs =
     filter (\<lambda>t. t \<noteq> [] \<and> ParseRegister t \<in> regs)
       (map (\<lambda>i. recordMessageText (At (Some messages) i))
         (filter (\<lambda>i. GetString (At (Some messages) i) ''role'' = ''assistant'') idx))"

lemma record_message_registers:
  "Decisions (fst (fold (record_message messages) idx acc)) =
     fold (\<lambda>t items. recordAddUnique items t 180) (tagged messages idx {RegVerdict}) (Decisions (fst acc))"
  "Errors (fst (fold (record_message messages) idx acc)) =
     fold (\<lambda>t items. recordAddUnique items t 180) (tagged messages idx {RegHazard, RegBlocked}) (Errors (fst acc))"
  by (induction idx arbitrary: acc)
    (auto simp: tagged_def record_message_def add_register_def Let_def split: prod.splits Register.splits)

text \<open>Adding under a cap: which items there are, and that only items of full length repeat.\<close>

lemma add_unique_step:
  assumes "\<And>x. x \<in> set items \<Longrightarrow> length x \<le> n" "distinct (filter (\<lambda>d. length d < n) items)" "v \<noteq> []"
  shows "set (recordAddUnique items v n) = insert (take n v) (set items)"
    "distinct (filter (\<lambda>d. length d < n) (recordAddUnique items v n))"
  using assms by (auto simp: recordAddUnique_def min_def)

lemma add_unique_fold:
  assumes "\<And>v. v \<in> set vs \<Longrightarrow> v \<noteq> []"
  shows "set (fold (\<lambda>t items. recordAddUnique items t n) vs []) = take n ` set vs
    \<and> distinct (filter (\<lambda>d. length d < n) (fold (\<lambda>t items. recordAddUnique items t n) vs []))"
  using assms
proof (induction vs rule: rev_induct)
  case (snoc v vs)
  let ?items = "fold (\<lambda>t items. recordAddUnique items t n) vs []"
  have ih: "set ?items = take n ` set vs" "distinct (filter (\<lambda>d. length d < n) ?items)" using snoc by simp_all
  then have "length x \<le> n" if "x \<in> set ?items" for x using that by auto
  from add_unique_step [OF this ih(2), of v] snoc(2) [of v] ih(1) show ?case by simp
qed simp

lemma tagged_nonempty: "v \<in> set (tagged messages idx regs) \<Longrightarrow> v \<noteq> []"
  by (simp add: tagged_def)

lemma record_files_fold:
  "record_files es = fold (\<lambda>t items. recordAddUnique items t 160) (map Value (filter (\<lambda>e. Kind e = CoordKindPath \<and> Value e \<noteq> []) es)) []"
proof -
  have "fold (\<lambda>e files. if Kind e = CoordKindPath then recordAddUnique files (Value e) 160 else files) es fs =
      fold (\<lambda>t items. recordAddUnique items t 160) (map Value (filter (\<lambda>e. Kind e = CoordKindPath \<and> Value e \<noteq> []) es)) fs" for fs
    by (induction es arbitrary: fs) (auto simp: recordAddUnique_def)
  then show ?thesis by (simp add: record_files_def)
qed

text \<open>The coordinates of the range.\<close>

definition record_coords :: "json \<Rightarrow> int \<Rightarrow> int \<Rightarrow> CoordEntry list" where
  "record_coords messages start end' =
     (case fst (snd (fold (record_message messages) [start..end' - 1]
        (\<lparr> Files = [], Errors = [], Decisions = [] \<rparr>, Some empty_CoordSet, 0))) of None \<Rightarrow> [] | Some c \<Rightarrow> CoordItems c)"

text \<open>C38: a record says what the segment settled, and no more. The decisions are the first 180 bytes of the
  assistant's messages that open with the verdict register, the errors those with the hazard or the
  blocked register, the files the first 160 bytes of the paths among the coordinates; nothing else is
  recorded. An entry below its cap occurs once. A message over the cap that is repeated is recorded
  again, since the whole text is compared with the cut one.\<close>

theorem record_exact:
  "case Record (buildRecord messages start end') of r \<Rightarrow>
     set (Decisions r) = take 180 ` set (tagged messages [start..end' - 1] {RegVerdict})
     \<and> set (Errors r) = take 180 ` set (tagged messages [start..end' - 1] {RegHazard, RegBlocked})
     \<and> set (Files r) = (take 160 \<circ> Value) ` {e \<in> set (record_coords messages start end'). Kind e = CoordKindPath \<and> Value e \<noteq> []}
     \<and> distinct (filter (\<lambda>d. length d < 180) (Decisions r)) \<and> distinct (filter (\<lambda>d. length d < 180) (Errors r))
     \<and> distinct (filter (\<lambda>d. length d < 160) (Files r))
     \<and> (if length long > 180 then recordAddUnique (recordAddUnique [] long 180) long 180 = [take 180 long, take 180 long]
        else True)"
proof -
  let ?acc = "fold (record_message messages) [start..end' - 1] (\<lparr> Files = [], Errors = [], Decisions = [] \<rparr>, Some empty_CoordSet, 0)"
  have r: "Record (buildRecord messages start end') = (fst ?acc)\<lparr> Files := record_files (record_coords messages start end') \<rparr>"
    by (simp add: buildRecord_def record_coords_def Let_def split_beta)
  have d: "set (Decisions (fst ?acc)) = take 180 ` set (tagged messages [start..end' - 1] {RegVerdict})
      \<and> distinct (filter (\<lambda>d. length d < 180) (Decisions (fst ?acc)))"
    using add_unique_fold [OF tagged_nonempty] by (simp add: record_message_registers)
  have e: "set (Errors (fst ?acc)) = take 180 ` set (tagged messages [start..end' - 1] {RegHazard, RegBlocked})
      \<and> distinct (filter (\<lambda>d. length d < 180) (Errors (fst ?acc)))"
    using add_unique_fold [OF tagged_nonempty] by (simp add: record_message_registers)
  let ?paths = "filter (\<lambda>e. Kind e = CoordKindPath \<and> Value e \<noteq> []) (record_coords messages start end')"
  have "set (record_files (record_coords messages start end')) = take 160 ` set (map Value ?paths)
      \<and> distinct (filter (\<lambda>d. length d < 160) (record_files (record_coords messages start end')))"
    unfolding record_files_fold by (rule add_unique_fold) auto
  then have f: "set (record_files (record_coords messages start end')) = (take 160 \<circ> Value) ` set ?paths"
    "distinct (filter (\<lambda>d. length d < 160) (record_files (record_coords messages start end')))"
    by (simp_all add: image_comp)
  have long: "recordAddUnique (recordAddUnique [] long 180) long 180 = [take 180 long, take 180 long]" if "length long > 180"
  proof -
    have "length (take 180 long) \<noteq> length long" using that by simp
    then have "long \<noteq> take 180 long" by metis
    moreover have "long \<noteq> []" using that by auto
    ultimately show ?thesis using that by (simp add: recordAddUnique_def)
  qed
  show ?thesis unfolding r using d e f long by simp
qed

lemma escape_ascii: "list_all (\<lambda>c. byte c < 0x80 \<and> escape_byte c = [c]) s \<Longrightarrow> escape_string (s @ t) = s @ escape_string t"
  by (induction s) (simp_all add: escape_string.simps)

text \<open>The cap cuts bytes, not runes: a two-byte rune over the boundary leaves its first byte, which the
  encoder replaces by U+FFFD.\<close>

lemma record_cuts_rune:
  "marshal_strings (recordAddUnique [] (replicate 179 (CHR ''a'') @ [CHR 0xC3, CHR 0xA9]) 180) =
     CHR ''['' # CHR 0x22 # replicate 179 (CHR ''a'') @ CHR 0x5C # ''ufffd'' @ [CHR 0x22, CHR '']'']"
proof -
  have "escape_string [CHR 0xC3] = CHR 0x5C # ''ufffd''"
    by (simp add: escape_string.simps utf8Sequence_def byte_def cont_at_def)
  moreover have "list_all (\<lambda>c. byte c < 0x80 \<and> escape_byte c = [c]) (replicate 179 (CHR ''a''))"
    by (simp add: list_all_iff byte_def escape_byte_def html_char_def)
  ultimately show ?thesis
    by (simp add: recordAddUnique_def marshal_strings_def marshal_string_def escape_ascii)
qed

section \<open>The bytes of the reduced messages\<close>

text \<open>No byte or separator that \<open>Marshal\<close> escapes.\<close>

fun html_free :: "string \<Rightarrow> bool" where
  "html_free [] \<longleftrightarrow> True"
| "html_free (c # s) \<longleftrightarrow> \<not> html_char c \<and> \<not> line_sep (c # s) \<and> html_free s"

lemma compact_html_free:
  "html_free s \<Longrightarrow> (esc \<Longrightarrow> str) \<Longrightarrow> compact_html str esc s = copy_pass str esc s"
  by (induction s arbitrary: str esc) auto

lemma line_sep_step:
  assumes "line_sep (c # s)"
  obtains d where "c # s = CHR 0xE2 # CHR 0x80 # d # drop 2 s" "d \<in> {CHR 0xA8, CHR 0xA9}"
  using assms by (cases s; cases "tl s") (auto simp: line_sep_def)

lemma copy_line_sep:
  "d \<in> {CHR 0xA8, CHR 0xA9} \<Longrightarrow> (esc \<Longrightarrow> str) \<Longrightarrow>
     copy_pass str esc (CHR 0xE2 # CHR 0x80 # d # r) = CHR 0xE2 # CHR 0x80 # d # copy_pass str False r"
  by (cases str; cases esc) (auto simp: jsonWS_def)

lemma compact_html_longer:
  "(esc \<Longrightarrow> str) \<Longrightarrow> length (copy_pass str esc s) \<le> length (compact_html str esc s)
     \<and> (\<not> html_free s \<longrightarrow> length (copy_pass str esc s) < length (compact_html str esc s))"
proof (induction s arbitrary: str esc rule: measure_induct_rule [of length])
  case (less s)
  show ?case
  proof (cases s)
    case (Cons c r)
    consider (html) "html_char c" | (sep) "\<not> html_char c" "line_sep s" | (plain) "\<not> html_char c" "\<not> line_sep s" by blast
    then show ?thesis
    proof cases
      case html
      then have "copy_pass str esc s = c # copy_pass str False r"
        using less.prems Cons by (auto simp: html_char_def jsonWS_def)
      then show ?thesis using less.IH [of r False str] html Cons by (auto simp: u00_def)
    next
      case sep
      obtain d where d: "s = CHR 0xE2 # CHR 0x80 # d # drop 2 r" "d \<in> {CHR 0xA8, CHR 0xA9}"
        using line_sep_step sep(2) Cons by metis
      then have "copy_pass str esc s = CHR 0xE2 # CHR 0x80 # d # copy_pass str False (drop 2 r)"
        using copy_line_sep less.prems by metis
      moreover have "length (drop 2 r) < length s" using Cons by simp
      ultimately show ?thesis using less.IH [of "drop 2 r" False str] sep Cons by (auto simp: u202_def)
    next
      case plain
      have ih: "(esc' \<Longrightarrow> str') \<Longrightarrow> length (copy_pass str' esc' r) \<le> length (compact_html str' esc' r)
         \<and> (\<not> html_free r \<longrightarrow> length (copy_pass str' esc' r) < length (compact_html str' esc' r))" for str' esc'
        using less.IH [of r esc' str'] Cons by simp
      show ?thesis
        using plain Cons less.prems ih [of False False] ih [of False str] ih [of True str] ih [of False "\<not> str"]
        by (cases str; cases esc) auto
    qed
  qed simp
qed

text \<open>The printer writes no white space between tokens.\<close>

lemma copy_plain:
  "list_all (\<lambda>c. \<not> jsonWS c \<and> c \<noteq> CHR 0x22) s \<Longrightarrow> copy_pass False False (s @ t) = s @ copy_pass False False t"
  by (induction s) auto

lemma copy_inside:
  "list_all (\<lambda>c. c \<noteq> CHR 0x22 \<and> c \<noteq> CHR 0x5C) s \<Longrightarrow> copy_pass True False (s @ t) = s @ copy_pass True False t"
  by (induction s) auto

lemma digit_char_inside: "d < 36 \<Longrightarrow> digit_char d \<noteq> CHR 0x22 \<and> digit_char d \<noteq> CHR 0x5C"
proof -
  assume "d < 36"
  then have "byte (digit_char d) \<noteq> 34 \<and> byte (digit_char d) \<noteq> 92" by (simp add: byte_digit_char)
  then show ?thesis by (auto simp: byte_def)
qed

lemma hex4_str_inside: "n < 32 \<Longrightarrow> list_all (\<lambda>c. c \<noteq> CHR 0x22 \<and> c \<noteq> CHR 0x5C) (hex4_str n)"
  by (cases "n < 16")
    (simp_all add: hex4_str_def hex_str_def to_base_16_small to_base_16_two digit_char_inside list_all_iff)

lemma copy_escaped:
  "copy_pass True False (cjsonEscapeByte c @ t) = cjsonEscapeByte c @ copy_pass True False t"
  using copy_inside [OF hex4_str_inside [of "byte c"], of t] by (simp add: cjsonEscapeByte_def)

lemma copy_string: "copy_pass False False (cjsonEscape s @ t) = cjsonEscape s @ copy_pass False False t"
proof -
  have "copy_pass True False (concat (map cjsonEscapeByte s) @ CHR 0x22 # t)
      = concat (map cjsonEscapeByte s) @ CHR 0x22 # copy_pass False False t"
    by (induction s) (simp_all add: copy_escaped)
  then show ?thesis by (simp add: cjsonEscape_def jsonWS_def)
qed

lemma copy_number:
  assumes "is_int32_float n"
  shows "copy_pass False False (CJSONNumber n @ t) = CJSONNumber n @ copy_pass False False t"
proof -
  obtain i where i: "n = F64 (of_int i)" "MinInt32 \<le> i" "i \<le> MaxInt32" using assms by (rule is_int32_floatE)
  have "\<not> jsonWS c \<and> c \<noteq> CHR 0x22" if "c = CHR ''-'' \<or> 48 \<le> byte c \<and> byte c \<le> 57" for c
    using that by (auto simp: jsonWS_def byte_def)
  then have "list_all (\<lambda>c. \<not> jsonWS c \<and> c \<noteq> CHR 0x22) (int_str i)"
    using nat_str_digits by (simp add: list_all_iff int_str_def)
  from copy_plain [OF this] show ?thesis by (simp add: i(1) CJSONNumber_int [OF i(2,3)])
qed

lemma copy_commas:
  "(\<And>p t. p \<in> set ps \<Longrightarrow> copy_pass False False (p @ t) = p @ copy_pass False False t) \<Longrightarrow>
     copy_pass False False (commas ps @ t) = commas ps @ copy_pass False False t"
  by (induction ps arbitrary: t rule: commas.induct) (simp_all add: jsonWS_def)

lemma copy_printed:
  "printable v \<Longrightarrow> copy_pass False False (PrintJSONUnformatted v @ t) = PrintJSONUnformatted v @ copy_pass False False t"
proof (induction v arbitrary: t)
  case (JSONArray xs)
  have "copy_pass False False (commas (map PrintJSONUnformatted xs) @ t) = commas (map PrintJSONUnformatted xs) @ copy_pass False False t" for t
    by (rule copy_commas) (use JSONArray in \<open>auto simp: list_all_iff\<close>)
  then show ?case by (simp add: jsonWS_def)
next
  case (JSONObject kvs)
  let ?ps = "map print_member (map (map_prod id PrintJSONUnformatted) kvs)"
  have "copy_pass False False (commas ?ps @ t) = commas ?ps @ copy_pass False False t" for t
    by (rule copy_commas)
      (use JSONObject in \<open>fastforce simp: list_all_iff print_member_def copy_string jsonWS_def\<close>)
  then show ?case by (simp add: jsonWS_def)
qed (simp_all add: copy_string copy_number jsonWS_def)


lemma compact_printed:
  assumes "printable v"
  shows "compact_html False False (PrintJSONUnformatted v) = PrintJSONUnformatted v \<longleftrightarrow> html_free (PrintJSONUnformatted v)"
proof -
  have "copy_pass False False (PrintJSONUnformatted v) = PrintJSONUnformatted v"
    using copy_printed [OF assms, of "[]"] by simp
  then show ?thesis
    using compact_html_free [of "PrintJSONUnformatted v" False False]
      compact_html_longer [of False False "PrintJSONUnformatted v"] by auto
qed

text \<open>The bytes the caller receives are the bytes the reducer measured only when there is nothing to
  escape. The messages of a reply are printed by the module's own printer, and \<open>Marshal\<close> copies them
  through its HTML escaping: they arrive unchanged exactly when the printed text holds no \<open><\<close>, \<open>>\<close>, \<open>&\<close>,
  U+2028 or U+2029, and longer in every other case.\<close>

theorem response_bytes:
  assumes "printable v" "Mutated out" "outMessages out = Some v"
  shows "rpMessages (response_of seam out st) = PrintJSONUnformatted v
    \<and> (case marshal_raw (rpMessages (response_of seam out st)) of
         None \<Rightarrow> go_document (PrintJSONUnformatted v) = None
       | Some b \<Rightarrow> if html_free (PrintJSONUnformatted v) then b = PrintJSONUnformatted v
                   else length b > length (PrintJSONUnformatted v))"
proof -
  have "copy_pass False False (PrintJSONUnformatted v) = PrintJSONUnformatted v"
    using copy_printed [OF assms(1), of "[]"] by simp
  then show ?thesis
    using assms(2,3) compact_printed [OF assms(1)] compact_html_longer [of False False "PrintJSONUnformatted v"]
    by (simp add: response_of_def marshal_raw_def)
qed

definition angle_messages :: json where
  "angle_messages = JSONArray [JSONObject [(''content'', JSONString ''a<b'')]]"

theorem response_bytes_witness:
  "marshal_raw (rpMessages (response_of SeamDelegate
      (zero_result\<lparr> Mutated := True, outMessages := Some angle_messages \<rparr>) None)) \<noteq> None
   \<and> length (PrintJSONUnformatted angle_messages) = 19
   \<and> length (the (marshal_raw (rpMessages (response_of SeamDelegate
        (zero_result\<lparr> Mutated := True, outMessages := Some angle_messages \<rparr>) None)))) > 19"
proof -
  let ?r = "zero_result\<lparr> Mutated := True, outMessages := Some angle_messages \<rparr>"
  have p: "printable angle_messages" by code_simp
  have b: "length (PrintJSONUnformatted angle_messages) = 19" "go_document (PrintJSONUnformatted angle_messages) \<noteq> None"
    "\<not> html_free (PrintJSONUnformatted angle_messages)" by code_simp+
  have m: "rpMessages (response_of SeamDelegate ?r None) = PrintJSONUnformatted angle_messages"
    by (simp add: response_of_def)
  show ?thesis
    using response_bytes [OF p, of ?r SeamDelegate None] b unfolding m by (simp add: marshal_raw_def m)
qed

end
