(* ===== verification/BusConnect.thy ===== *)
theory BusConnect
  imports ModuleRuntime JsonLex
begin

text \<open>
  The start and the end of a bus connection: \<open>client_connect.go\<close>, the connecting part of
  \<open>module_runtime.go\<close>, \<open>Detach\<close> of \<open>client.go\<close> and the configuration of \<open>runtime/main.go\<close>. What the system
  calls give is a script of attempts; what they consume is counted: descriptors and mappings. The
  handshake itself is \<open>AttachAs\<close> of \<open>BusClient\<close>, here with its descriptors and mappings.
\<close>

section \<open>Clock and cancellation\<close>

text \<open>\<open>CLOCK_MONOTONIC\<close> as seconds and nanoseconds; \<open>None\<close> is an error of the call.\<close>

definition monotonicNowNS :: "(64 word \<times> 64 word) option \<Rightarrow> 64 word" where
  "monotonicNowNS t = (case t of None \<Rightarrow> 0 | Some (sec, nsec) \<Rightarrow> sec * 1000000000 + nsec)"

definition Cancelled :: "bool \<Rightarrow> (64 word \<times> 64 word) option \<Rightarrow> ModuleInvocation \<Rightarrow> bool" where
  "Cancelled flag t i \<longleftrightarrow>
     (if flag then True
      else let now = monotonicNowNS t in now \<noteq> 0 \<and> invDeadlineNS i \<noteq> 0 \<and> now \<ge> invDeadlineNS i)"

text \<open>\<open>strings.ToValidUTF8 (s, "")\<close>.\<close>

function ToValidUTF8 :: "string \<Rightarrow> string" where
  "ToValidUTF8 s =
     (case s of
        [] \<Rightarrow> []
      | c # r \<Rightarrow> (case utf8Sequence s of None \<Rightarrow> ToValidUTF8 r | Some n \<Rightarrow> take n s @ ToValidUTF8 (drop n s)))"
  by pat_completeness auto
termination
  by (relation "measure length") (auto dest: utf8Sequence_bounds)

declare ToValidUTF8.simps [simp del]

definition moduleDetail :: "string \<Rightarrow> string" where
  "moduleDetail response =
     (if response = [] then ''no detail''
      else if length response > 300 then ToValidUTF8 (take 300 response) @ ''...''
      else ToValidUTF8 response)"

section \<open>Descriptors and mappings\<close>

record held =
  heldFds :: nat
  heldMaps :: nat

definition open_fds :: "nat \<Rightarrow> held \<Rightarrow> held" where "open_fds n h = h\<lparr> heldFds := heldFds h + n \<rparr>"
definition close_fds :: "nat \<Rightarrow> held \<Rightarrow> held" where "close_fds n h = h\<lparr> heldFds := heldFds h - n \<rparr>"
definition map_in :: "held \<Rightarrow> held" where "map_in h = h\<lparr> heldMaps := heldMaps h + 1 \<rparr>"
definition Munmap :: "held \<Rightarrow> held" where "Munmap h = h\<lparr> heldMaps := heldMaps h - 1 \<rparr>"

text \<open>The three mappings and the validation of the regions, with what each failure gives back.\<close>

definition attach_map_held :: "attach_env \<Rightarrow> Client \<Rightarrow> held \<Rightarrow> (bus_error + Client \<times> mapped) \<times> held" where
  "attach_map_held env c h =
     (case mmap env 0 (int ctlBytes) of
        None \<Rightarrow> (Inl ErrSystem, close_fds 3 h)
      | Some ctl \<Rightarrow>
          (let h = map_in h
           in case mmap env 1 (sint (16 + arenaSize c)) of
                None \<Rightarrow> (Inl ErrSystem, close_fds 3 (Munmap h))
              | Some arena \<Rightarrow>
                  (let h = map_in h
                   in case mmap env 2 (qpairBytes (clSlotSize c) (queueCapacity c)) of
                        None \<Rightarrow> (Inl ErrSystem, close_fds 3 (Munmap (Munmap h)))
                      | Some qpm \<Rightarrow>
                          (let h = close_fds 3 (map_in h)
                           in if \<not> AttachControl ctl then (Inl ErrRegion, Munmap (Munmap (Munmap h)))
                              else (case AttachQueuePair qpm of
                                      Inl e \<Rightarrow> (Inl e, Munmap (Munmap (Munmap h)))
                                    | Inr q \<Rightarrow> (Inr (c\<lparr> hasControl := True, qp := q \<rparr>, \<lparr> ctlMem = ctl, qpMem = qpm \<rparr>), h))))))"

definition AttachAs_held ::
  "attach_env \<Rightarrow> 32 word \<Rightarrow> 32 word \<Rightarrow> held \<Rightarrow> (bus_error + Client \<times> mapped) \<times> held" where
  "AttachAs_held env principalClass principalRef h =
     (if \<not> sendmsg env (attach_request principalClass principalRef) then (Inl ErrSystem, h)
      else (case recvmsg env of
              None \<Rightarrow> (Inl ErrSystem, h)
            | Some (n, reply, fds) \<Rightarrow>
                (let h = open_fds fds h
                 in if n \<noteq> attachReplyBytes \<or> Uint32 reply 0 \<noteq> attachReplyMagic then (Inl ErrProtocol, close_fds fds h)
                    else if Uint32 reply 4 \<noteq> AttachOK then (Inl ErrDenied, close_fds fds h)
                    else if fds \<noteq> 3 then (Inl ErrProtocol, close_fds fds h)
                    else attach_map_held env (reply_client reply) h)))"

text \<open>\<open>Detach\<close> of an attached client, which holds its three mappings.\<close>

definition Detach :: "held \<Rightarrow> held" where
  "Detach h = Munmap (Munmap (Munmap h))"

section \<open>Connecting\<close>

text \<open>One round of the loop: the socket call fails; the connect call fails, refused or otherwise; a refused
  one waits, and the wait says whether the context ended; or it is accepted.\<close>

datatype attempt = SocketFails | ConnectFails | ConnectRefused bool | Connected attach_env

text \<open>\<open>None\<close> is a loop that is still waiting at the end of the script.\<close>

fun connect_loop ::
  "32 word \<Rightarrow> 32 word \<Rightarrow> attempt list \<Rightarrow> held \<Rightarrow> ((bus_error + Client \<times> mapped) \<times> held) option" where
  "connect_loop principalClass principalRef [] h = None"
| "connect_loop principalClass principalRef (SocketFails # as) h = Some (Inl ErrSystem, h)"
| "connect_loop principalClass principalRef (ConnectFails # as) h = Some (Inl ErrSystem, close_fds 1 (open_fds 1 h))"
| "connect_loop principalClass principalRef (ConnectRefused ended # as) h =
     (let h = close_fds 1 (open_fds 1 h)
      in if ended then Some (Inl ErrContext, h) else connect_loop principalClass principalRef as h)"
| "connect_loop principalClass principalRef (Connected env # as) h =
     (let (r, h) = AttachAs_held env principalClass principalRef (open_fds 1 h) in Some (r, close_fds 1 h))"

definition connectModule ::
  "ModuleProcessConfig \<Rightarrow> attempt list \<Rightarrow> held \<Rightarrow> ((bus_error + Client \<times> mapped) \<times> held) option" where
  "connectModule config as h = connect_loop (PrincipalClass config) (cfgPrincipalRef config) as h"

text \<open>The second result says whether the heartbeat of \<open>keepAlive\<close> was started.\<close>

definition ConnectClient ::
  "string \<Rightarrow> 32 word \<Rightarrow> 32 word \<Rightarrow> attempt list \<Rightarrow> held \<Rightarrow> ((bus_error + Client \<times> mapped) \<times> bool \<times> held) option" where
  "ConnectClient socketPath principalClass principalRef as h =
     (if socketPath = [] then Some (Inl ErrModuleConfig, False, h)
      else map_option (\<lambda>(r, h). (r, \<not> isl r, h)) (connect_loop principalClass principalRef as h))"

text \<open>The ticks of the heartbeat until the context ends: the clock at each.\<close>

datatype tick = Stopped | Tick "64 word"

fun keepAlive :: "tick list \<Rightarrow> mapped \<Rightarrow> mapped" where
  "keepAlive [] m = m"
| "keepAlive (Stopped # ts) m = m"
| "keepAlive (Tick now # ts) m = keepAlive ts (if now \<noteq> 0 then Client_Heartbeat now m else m)"

section \<open>The process\<close>

text \<open>\<open>loop\<close> is what the loop over the attached client returns, \<open>ended\<close> whether the context ended while
  connecting. The client is detached at the end.\<close>

definition RunModuleProcess ::
  "bool \<Rightarrow> bool \<Rightarrow> ((32 word \<rightharpoonup> 32 word) \<Rightarrow> Client \<times> mapped \<Rightarrow> bus_error option) \<Rightarrow> ModuleProcessConfig \<Rightarrow> attempt list
    \<Rightarrow> held \<Rightarrow> (bus_error option \<times> held) option" where
  "RunModuleProcess has_ctx ended loop config as h =
     (case validateModuleConfig config of
        None \<Rightarrow> Some (Some ErrModuleConfig, h)
      | Some stages \<Rightarrow>
          if \<not> has_ctx then Some (Some ErrModuleConfig, h)
          else (case connectModule config as h of
                  None \<Rightarrow> None
                | Some (Inl e, h) \<Rightarrow> Some (if ended then None else Some ErrModuleRuntime, h)
                | Some (Inr client, h) \<Rightarrow> Some (loop stages client, Detach h)))"

definition main_config :: "string \<Rightarrow> ModuleHandler \<Rightarrow> ModuleProcessConfig" where
  "main_config socket handler =
     \<lparr> SocketPath = socket, ModuleName = ''economizer'', PrincipalClass = 1, cfgPrincipalRef = 27,
       Stages = [\<lparr> stageEventKind = 11009, stageStageID = 1 \<rparr>, \<lparr> stageEventKind = 11010, stageStageID = 2 \<rparr>,
         \<lparr> stageEventKind = 11011, stageStageID = 3 \<rparr>, \<lparr> stageEventKind = 11012, stageStageID = 4 \<rparr>,
         \<lparr> stageEventKind = 11013, stageStageID = 5 \<rparr>],
       Handler = Some handler \<rparr>"

section \<open>Nothing is left behind\<close>

lemmas held_defs = open_fds_def close_fds_def map_in_def Munmap_def

lemma attach_map_held_result: "fst (attach_map_held env c h) = attach_map env c"
  by (auto simp: attach_map_held_def attach_map_def Let_def split: option.splits sum.splits)

lemma AttachAs_held_result: "fst (AttachAs_held env cls ref h) = AttachAs env cls ref"
  by (auto simp: AttachAs_held_def AttachAs_def Let_def attach_map_held_result split: option.splits)

definition settled :: "held \<Rightarrow> (bus_error + Client \<times> mapped) \<times> held \<Rightarrow> bool" where
  "settled h rh \<longleftrightarrow> heldFds (snd rh) = heldFds h
     \<and> heldMaps (snd rh) = heldMaps h + (case fst rh of Inl e \<Rightarrow> 0 | Inr client \<Rightarrow> 3)"

lemma attach_map_settled: "heldFds h' = heldFds h + 3 \<Longrightarrow> heldMaps h' = heldMaps h \<Longrightarrow> settled h (attach_map_held env c h')"
  by (auto simp: settled_def attach_map_held_def Let_def held_defs split: option.splits sum.splits)

lemma AttachAs_settled: "settled h (AttachAs_held env cls ref h)"
  using attach_map_settled [of "open_fds 3 h" h]
  by (auto simp: AttachAs_held_def Let_def settled_def [of h "(_, _)"] held_defs split: option.splits)

lemma connect_settled: "connect_loop cls ref as h = Some rh \<Longrightarrow> settled h rh"
proof (induction cls ref as h rule: connect_loop.induct)
  case (5 cls ref env as h)
  then show ?case
    using AttachAs_settled [of "open_fds 1 h" env cls ref] by (auto simp: settled_def held_defs split: prod.splits)
qed (auto simp: settled_def held_defs split: if_splits)

lemma connect_waiting: "connect_loop cls ref as h = None \<longleftrightarrow> list_all (\<lambda>a. a = ConnectRefused False) as"
  by (induction cls ref as h rule: connect_loop.induct) (auto simp: Let_def split: prod.splits)

lemma connect_outcome:
  "connect_loop cls ref as h = Some (r, h') \<Longrightarrow>
     \<exists>pre a post. as = pre @ a # post \<and> list_all (\<lambda>a. a = ConnectRefused False) pre
       \<and> (case a of Connected env \<Rightarrow> r = AttachAs env cls ref | _ \<Rightarrow> isl r)"
proof (induction cls ref as h rule: connect_loop.induct)
  case (4 cls ref ended as h)
  show ?case
  proof (cases ended)
    case False
    then obtain pre a post where "as = pre @ a # post" "list_all (\<lambda>a. a = ConnectRefused False) pre"
      "case a of Connected env \<Rightarrow> r = AttachAs env cls ref | _ \<Rightarrow> isl r"
      using 4 by (auto simp: Let_def)
    then show ?thesis using False by (intro exI [of _ "ConnectRefused False # pre"] exI [of _ a] exI [of _ post]) simp
  qed (use 4 in \<open>auto intro!: exI [of _ "[]"]\<close>)
next
  case (5 cls ref env as h)
  then show ?case
    using AttachAs_held_result [of env cls ref "open_fds 1 h"] by (auto split: prod.splits intro!: exI [of _ "[]"])
qed (auto intro!: exI [of _ "[]"])

text \<open>C37: connecting leaks nothing. However the attempts go, a connection that fails holds no descriptor and
  no mapping that it did not hold before, one that succeeds holds the three mappings of the client and
  no descriptor; the process, which detaches at its end, gives everything back. The outcome is that of
  the first attempt that is not refused, or the end of the context while waiting; for an accepted
  attempt it is the outcome of the handshake.\<close>

theorem connect_no_leak:
  "(case connectModule config as h of
      None \<Rightarrow> list_all (\<lambda>a. a = ConnectRefused False) as
    | Some (r, h') \<Rightarrow> heldFds h' = heldFds h \<and> heldMaps h' = heldMaps h + (case r of Inl e \<Rightarrow> 0 | Inr client \<Rightarrow> 3)
        \<and> (\<exists>pre a post. as = pre @ a # post \<and> list_all (\<lambda>a. a = ConnectRefused False) pre
             \<and> (case a of Connected env \<Rightarrow> r = AttachAs env (PrincipalClass config) (cfgPrincipalRef config) | _ \<Rightarrow> isl r)))
   \<and> (case RunModuleProcess has_ctx ended loop config as h of None \<Rightarrow> True | Some (e, h') \<Rightarrow> h' = h)"
proof (cases "connectModule config as h")
  case None
  then have "list_all (\<lambda>a. a = ConnectRefused False) as" by (simp add: connectModule_def connect_waiting)
  with None show ?thesis by (auto simp: RunModuleProcess_def split: option.split)
next
  case (Some rh)
  obtain r h' where rh: "rh = (r, h')" by (cases rh)
  have s: "settled h (r, h')" using Some connect_settled unfolding rh connectModule_def by blast
  have "h' = h" if "r = Inl e" for e using s that by (cases h; cases h') (simp add: settled_def)
  moreover have "Detach h' = h" if "r = Inr c" for c using s that by (cases h; cases h') (simp add: settled_def Detach_def Munmap_def)
  ultimately have "case RunModuleProcess has_ctx ended loop config as h of None \<Rightarrow> True | Some (e, h') \<Rightarrow> h' = h"
    by (cases r) (simp_all add: RunModuleProcess_def Some rh split: option.split)
  with s connect_outcome [of "PrincipalClass config" "cfgPrincipalRef config" as h r h'] Some show ?thesis
    by (simp add: rh connectModule_def settled_def)
qed

text \<open>The stages of the executable are one per kind.\<close>

lemma main_stages:
  "socket \<noteq> [] \<Longrightarrow> validateModuleConfig (main_config socket handler)
     = Some [11009 \<mapsto> 1, 11010 \<mapsto> 2, 11011 \<mapsto> 3, 11012 \<mapsto> 4, 11013 \<mapsto> 5]"
  by (simp add: validateModuleConfig_def main_config_def)

end
