(* ===== verification/Spec2Isabelle.thy ===== *)
theory Spec2Isabelle
  imports Budget Registers JsonCompactMeaning FoldText StateBlob GatewayLaws RepairLaws Rail Episode RuntimeLaws
    CondenseLaws AnthropicLaws RecognizeLaws ProvenanceCap Eager ModuleSession ModuleOutput BusConnect
begin

text \<open>
  A verification library for the economizer module: a process on a local message bus that shrinks the
  conversation an agent sends to a model, without breaking the provider's prompt cache and without
  losing anything that cannot be recovered. The sources are \<open>src/server-go/modules/economizer\<close> (the
  algorithms and the module surface) and \<open>src/server-go/bus\<close> (the shared-memory transport); the
  executable is \<open>src/runtime/main.go\<close>.

  \<^bold>\<open>The program and the theories.\<close> A request arrives over the bus, is dispatched to one of five stages,
  and its reply goes back the same way.

  \<^item> Foundations. \<open>Prelude\<close>: bytes, 64-bit wrap-around, numerals, the functions of package \<open>strings\<close>.
    \<open>Float64\<close>: \<open>float64\<close> as the rational it denotes, with correct rounding, \<open>ParseFloat\<close> and \<open>%g\<close>. \<open>Bytes\<close>: slices
    and little-endian fields. \<open>Interfaces\<close>: the locales \<open>dedup_store\<close> and \<open>persisted\<close>. \<open>GoJson\<close> and \<open>Sha256\<close>: what
    the module uses of \<open>encoding/json\<close> and of \<open>crypto/sha256\<close>.
  \<^item> JSON. \<open>JsonLex\<close>, \<open>Json\<close>, \<open>JsonParse\<close> (\<open>jsonval.go\<close>, \<open>cjson.go\<close>): the order-preserving value, its reader and
    printer; \<open>JsonRoundTrip\<close>. \<open>JsonCompact\<close>, \<open>JsonCompactMeaning\<close> (\<open>json_compact.go\<close>): the strict compaction.
  \<^item> Text. \<open>Registers\<close> (\<open>register.go\<close>), \<open>Closet\<close> and \<open>ClosetRender\<close> (\<open>closet.go\<close>), \<open>Compact\<close> (\<open>compact.go\<close>), \<open>Eager\<close>
    (\<open>eager.go\<close>), \<open>Budget\<close> (\<open>budget.go\<close>).
  \<^item> Folding. \<open>Fold\<close>, \<open>FoldText\<close>, \<open>FoldFreeze\<close>, \<open>CompressLaws\<close> (\<open>fold.go\<close>): the rolling summary with its frozen
    boundary, and compression in place. \<open>Recall\<close> (\<open>recall.go\<close>): the page table. \<open>Reduce\<close>, \<open>ReduceLaws\<close>,
    \<open>ReduceRel\<close> (\<open>reduce.go\<close>): the orchestrator, and reductions from states that differ in the order of the
    page table only. \<open>StateBlob\<close> (\<open>state.go\<close>), \<open>Rail\<close> (\<open>rail.go\<close>), \<open>Episode\<close> (\<open>episode.go\<close>): what
    outlives a request.
  \<^item> Gateway. \<open>Gateway\<close>, \<open>GatewayLaws\<close> (\<open>gateway.go\<close>, \<open>gateway_wire.go\<close>): the decision to dispatch a reduced
    request, the circuit breaker, the restoring of the original. \<open>RepairPairs\<close>, \<open>RepairLaws\<close> (\<open>repair.go\<close>).
  \<^item> Tool output. \<open>Condense\<close>, \<open>CondenseApply\<close>, \<open>CondenseLaws\<close>, \<open>RecognizeLaws\<close> (\<open>condense_*.go\<close>): recognizing a
    command, filtering its output, spilling the original, recalling it.
  \<^item> Cost evidence. \<open>CostProof\<close> (\<open>proof.go\<close>), \<open>Planners\<close> (\<open>planner_openai.go\<close>), \<open>PlannerAnthropic\<close>
    (\<open>planner_anthropic.go\<close>) with \<open>MoneyLaws\<close>, \<open>PlannerLaws\<close>, \<open>AnthropicLaws\<close>; \<open>ProvenanceCap\<close> (\<open>provenance.go\<close>).
  \<^item> Bus. \<open>Wire\<close> (\<open>wire.go\<close>), \<open>Ring\<close> (\<open>ring.go\<close>), \<open>BusClient\<close> (\<open>region.go\<close>, \<open>client.go\<close>), \<open>BusConnect\<close>
    (\<open>client_connect.go\<close>, the connecting part of \<open>module_runtime.go\<close>, \<open>main.go\<close>), \<open>ModuleProtocol\<close>
    (\<open>module_protocol.go\<close>), \<open>ModuleCaller\<close> (\<open>module_caller.go\<close>), \<open>ModuleRuntime\<close>, \<open>RuntimeLaws\<close>
    (\<open>module_runtime.go\<close>).
  \<^item> Module surface. \<open>ModuleAux\<close> (\<open>module_aux.go\<close>), \<open>ModuleRecord\<close> (\<open>module_record.go\<close>), \<open>ModuleReduce\<close>
    (\<open>module.go\<close>) with \<open>ModuleLaws\<close>, \<open>ModuleSession\<close>, \<open>ModuleOutput\<close>.

  \<^bold>\<open>How the model reads.\<close> A definition has the name of the function it translates, a suffix or prefix where
  HOL has taken it. A Go string or byte slice is a list of characters. A struct is a record, a pointer that may be
  nil an option, a method with a pointer receiver returns the updated receiver. Go's \<open>int\<close> is an \<open>int\<close>, with
  \<open>wrap64\<close> wherever the code can overflow; unsigned fields of the bus and of hashes are words of their width.
  A panic is \<open>None\<close>, an error a constructor of a sum. What lies outside (the session store of the
  gateway, system calls, the clock, the outcome of a poll) is an argument of the definitions; threads
  are steps of a relation (\<open>race_step\<close>, \<open>run_step\<close>, the producer and the consumer of a ring), so a
  theorem about reachable states covers every interleaving of these steps. So are the turns of a conversation
  (\<open>turn\<close>) and what happens between two requests of a tripped session (\<open>further\<close>).

  \<^bold>\<open>Interfaces.\<close> \<open>dedup_store\<close> (the first item of every key stays) is provided by the coordinate set, the
  page table, the sealed episode and the id set of the repair; \<open>persisted\<close> (a state survives any number
  of restarts) by the reducer state, the rail and the seal; \<open>keyed_store\<close> by JSON objects; \<open>wire_codec\<close>
  by the frame and the message header; \<open>repair_shape\<close> by the three wire shapes; \<open>module_handler\<close>, what
  the runtime relies on, by the module's dispatch.

  \<^bold>\<open>What is shown.\<close>

  \<^item> Cache stability: within an epoch the frozen boundary keeps its digest and its prefix, whatever the client
    does to the history, and the folded view of a growing history only grows at its end; a caller that
    merely stores the state text gets the session of a process that keeps the state in memory, as long as
    the page table fits the row (\<open>FoldFreeze\<close>, \<open>ReduceLaws\<close>, \<open>ReduceRel\<close>, \<open>StateBlob\<close>, \<open>ModuleSession\<close>).
  \<^item> Nothing is lost: the gateway dispatches only what it can restore and trips at most once, a
    tripped session passes through for the time the configuration sets, the repair leaves every call answered, compression keeps the shell of a message, filters account for
    every line and spilled output comes back byte for byte, over the bus too (\<open>GatewayLaws\<close>, \<open>RepairLaws\<close>,
    \<open>CompressLaws\<close>, \<open>CondenseLaws\<close>, \<open>ModuleLaws\<close>).
  \<^item> The transport: the ring is a bounded queue under every interleaving, codecs are exact, requests and
    replies are reassembled from their fragments, the runtime is bounded, connecting leaks no
    descriptor (\<open>Ring\<close>, \<open>Wire\<close>, \<open>BusClient\<close>, \<open>RuntimeLaws\<close>, \<open>BusConnect\<close>).
  \<^item> Authority: cost evidence means what it says in exact integers, the current release authorizes
    nothing, a capability is used at most once, a recall reads only the directory it names (\<open>CostProof\<close>,
    \<open>PlannerLaws\<close>, \<open>AnthropicLaws\<close>, \<open>ProvenanceCap\<close>, \<open>ModuleLaws\<close>).
  \<^item> The data structures beneath: JSON round trips and the meaning of compaction, canonical and bounded
    closets, the page table, the task rail.

  Beside the labelled properties the theories keep laws of smaller parts: budgets, registers, excerpts,
  whole-token search, seals, the cap of a tool result, and the lemmas that exhibit the
  code's rough edges (\<open>CompactBody_overflow_panics\<close>, \<open>repair_misses_orphan\<close>, \<open>refused_tail_runs\<close>,
  \<open>redirect_hides_rest\<close>, \<open>wrapper_path_unguarded\<close>, \<open>absent_output_bound\<close>, \<open>eager_cap_exceeded\<close>,
  \<open>record_cuts_rune\<close>).

  \<^bold>\<open>Bounds and termination.\<close> No definition uses fuel. Loops that consume their input are total functions;
  where the progress of an inner call is needed for that, a test on lengths states it and a lemma shows
  that it always holds. The only loop that may run forever, the retry of a reply on a full ring, is a
  partial function into \<open>option\<close>; the loops around system calls take the outcomes as a list, and
  an exhausted list is \<open>None\<close>. The reader of \<open>encoding/json\<close> counts down its depth limit of 10000, the
  strict validator its limit of 64.

  \<^bold>\<open>Not modelled.\<close> The C clients under \<open>src/src\<close>, build files, grants and tests. Signal handling and exit codes
  of \<open>main\<close>, log lines beyond their text, goroutine scheduling beyond interleaving, memory limits. The
  reader of \<open>encoding/json\<close> keeps the elements of an array as checked text only, which is all the
  module's structs need. File times are supplied by the environment; the contents of a spill
  directory are one association list per path.
\<close>

end
